(* ===== verification/C_Prelude.thy ===== *)
theory C_Prelude
  imports Main "HOL-Library.Word"
begin

text \<open>
  What every component of the kernel model shares: the machine types of \<open>include/types.h\<close> for the
  \<open>-m32\<close> build, the flat byte-addressed memory that the kernel's raw pointers address, little-endian
  loads and stores, the macros of \<open>include/types.h\<close>, \<open>include/cfg.h\<close> and \<open>mem/alloc.h\<close>, the spin lock
  of \<open>include/spin_lock.h\<close>, and the record of console output that a call of \<open>printf\<close> leaves.

  Conventions of the whole development.
  \<^item> Pointers are \<open>32 word\<close> addresses; address arithmetic wraps, as it does on the machine.
  \<^item> \<open>None\<close> as the result of an operation means that the code does not return (it spins on a lock
    that nobody releases, or a loop has no exit).
  \<^item> A \<open>fault\<close> is the value of an execution that leaves the C language (an index outside an array).
  \<^item> A failed \<open>assert\<close> prints and goes on, since the macro of \<open>include/cfg.h\<close> does just that.
\<close>

unbundle bit_operations_syntax

section \<open>Machine types\<close>

type_synonym u8 = "8 word"
type_synonym u16 = "16 word"
type_synonym u32 = "32 word"
type_synonym u64 = "64 word"

type_synonym memory = "u32 \<Rightarrow> u8"

text \<open>What happens where C leaves the behaviour undefined and the model has to say so.\<close>

datatype fault =
    OutOfBounds string int  \<comment> \<open>array (by its source name) and index\<close>
  | Undefined string

named_theorems mem_simps \<open>what a load sees after a store\<close>
named_theorems align_simps \<open>facts about aligned addresses\<close>

section \<open>Console output\<close>

text \<open>A call of \<open>printf\<close> with its format and arguments; components keep the calls they made, in
  order. String arguments of the calls are literals in the source, so they are kept as strings.\<close>

datatype parg = PWord u32 | PStr string

datatype pcall = Printf string "parg list"

text \<open>\<open>assert(cond)\<close> and \<open>assert_msg(cond, fmt, args)\<close> of \<open>include/cfg.h\<close>: a message when the
  condition is false, nothing else.\<close>

definition c_assert :: "bool \<Rightarrow> string \<Rightarrow> u32 \<Rightarrow> string \<Rightarrow> pcall list" where
  "c_assert cond file line txt =
     (if cond then []
      else [Printf ''%s:%d: assert failed: %s'' [PStr file, PWord line, PStr txt]])"

definition c_assert_msg ::
    "bool \<Rightarrow> string \<Rightarrow> u32 \<Rightarrow> string \<Rightarrow> string \<Rightarrow> parg list \<Rightarrow> pcall list" where
  "c_assert_msg cond file line txt fmt args =
     (if cond then []
      else [Printf (''%s:%d: assert failed: %s: '' @ fmt)
              ([PStr file, PWord line, PStr txt] @ args)])"

lemma c_assert_True [simp]: "c_assert True file line txt = []"
  by (simp add: c_assert_def)

lemma c_assert_msg_True [simp]: "c_assert_msg True file line txt fmt args = []"
  by (simp add: c_assert_msg_def)

section \<open>Spin lock\<close>

text \<open>\<open>spin_lock\<close> exchanges the lock word with 1 until it reads 0. The model has one thread of
  control, so on a lock that is held the loop never ends.\<close>

record spinlock =
  v :: u32

definition spin_lock :: "spinlock \<Rightarrow> spinlock option" where
  "spin_lock l = (if v l \<noteq> 0 then None else Some (l\<lparr>v := 1\<rparr>))"

definition spin_unlock :: "spinlock \<Rightarrow> spinlock" where
  "spin_unlock l = l\<lparr>v := 0\<rparr>"

definition lock_free :: "spinlock \<Rightarrow> bool" where
  "lock_free l \<longleftrightarrow> v l = 0"

lemma spin_lock_free: "lock_free l \<Longrightarrow> spin_lock l = Some (l\<lparr>v := 1\<rparr>)"
  by (simp add: spin_lock_def lock_free_def)

lemma spin_lock_held: "\<not> lock_free l \<Longrightarrow> spin_lock l = None"
  by (simp add: spin_lock_def lock_free_def)

lemma lock_free_unlock [simp]: "lock_free (spin_unlock l)"
  by (simp add: spin_unlock_def lock_free_def)

lemma spin_unlock_lock: "lock_free l \<Longrightarrow> spin_unlock (l\<lparr>v := 1\<rparr>) = l"
  by (simp add: spin_unlock_def lock_free_def)

section \<open>Macros\<close>

definition BIT :: "nat \<Rightarrow> u32" where
  "BIT nr = push_bit nr 1"

definition BIT_MASK :: "nat \<Rightarrow> u32" where
  "BIT_MASK nr = push_bit (nr mod 32) 1"

definition GENMASK :: "nat \<Rightarrow> nat \<Rightarrow> u32" where
  "GENMASK h l = push_bit l (NOT 0) AND drop_bit (32 - 1 - h) (NOT 0)"

definition align_mask :: "u32 \<Rightarrow> u32 \<Rightarrow> u32" where
  "align_mask x msk = (x + msk) AND NOT msk"

definition ALIGN :: "u32 \<Rightarrow> u32 \<Rightarrow> u32" where
  "ALIGN x a = align_mask x (a - 1)"

definition is_power_of_2 :: "u32 \<Rightarrow> bool" where
  "is_power_of_2 n \<longleftrightarrow> n \<noteq> 0 \<and> n AND (n - 1) = 0"

text \<open>\<open>GENMASK(h, l)\<close> has exactly the bits from \<open>l\<close> to \<open>h\<close>.\<close>

lemma bit_GENMASK:
  assumes "h < 32"
  shows "bit (GENMASK h l) i \<longleftrightarrow> l \<le> i \<and> i \<le> h"
  using assms by (auto simp: GENMASK_def bit_simps)


section \<open>Powers of two and alignment\<close>

lemma power_less_32: "k < 32 \<Longrightarrow> (2 :: nat) ^ k < 4294967296"
  using power_strict_increasing [of k 32 "2 :: nat"] by simp

lemma unat_2p [simp]: "k < 32 \<Longrightarrow> unat (2 ^ k :: u32) = 2 ^ k"
  using unat_of_nat [of "2 ^ k", where 'a = 32] power_less_32 [of k] by simp

lemma mask_2p: "(2 ^ k :: u32) - 1 = mask k"
  by (simp add: mask_eq_exp_minus_1)

lemma and_not_mask_eq: "(x :: u32) AND NOT (mask k) = x - take_bit k x"
proof -
  have "x AND NOT (mask k) = push_bit k (drop_bit k x)"
    by (rule bit_eqI) (auto simp: bit_simps)
  then show ?thesis
    using bits_ident [of k x] by (simp add: algebra_simps)
qed

lemma less_imp_le_pred: "(a :: nat) < 2 ^ k \<Longrightarrow> a \<le> 2 ^ k - 1"
  by simp

lemma unat_take_bit: "unat (take_bit k (x :: u32)) = unat x mod 2 ^ k"
  using unsigned_take_bit_eq [of k x, where ?'a = nat]
  by (simp only: take_bit_eq_mod)

lemma unat_and_not_mask: "unat ((x :: u32) AND NOT (mask k)) = unat x - unat x mod 2 ^ k"
proof -
  have "take_bit k x \<le> x"
    by (simp add: word_le_nat_alt unat_take_bit)
  then show ?thesis
    by (simp add: and_not_mask_eq unat_sub unat_take_bit)
qed

lemma two_power_is_power_of_2: "k < 32 \<Longrightarrow> is_power_of_2 (2 ^ k)"
proof -
  assume k: "k < 32"
  have "(2 ^ k :: u32) AND mask k = 0"
    by (rule bit_eqI) (auto simp: bit_simps bit_exp_iff)
  moreover have "(2 ^ k :: u32) \<noteq> 0"
    using unat_2p [OF k] by (metis power_not_zero unsigned_0 zero_neq_numeral)
  ultimately show ?thesis
    by (simp add: is_power_of_2_def mask_2p)
qed

lemma is_power_of_2_iff: "is_power_of_2 n \<longleftrightarrow> (\<exists>k<32. n = 2 ^ k)"
proof
  assume n: "is_power_of_2 n"
  then have "1 \<le> unat n"
    by (simp add: is_power_of_2_def Suc_le_eq unat_gt_0)
  then obtain k where k: "2 ^ k \<le> unat n" "unat n < 2 ^ (k + 1)"
    using ex_power_ivl1 [of 2 "unat n"] by auto
  have "unat n < 2 ^ 32"
    using unsigned_less [of n] by simp
  with k(1) have k32: "k < 32"
    by (meson le_less_trans one_less_numeral_iff power_less_imp_less_exp semiring_norm(76))
  have "unat n = 2 ^ k"
  proof (rule ccontr)
    assume "unat n \<noteq> 2 ^ k"
    with k have r: "2 ^ k \<le> unat n - 1" "unat n - 1 < 2 ^ (k + 1)" by auto
    have n1: "unat (n - 1) = unat n - 1"
      using \<open>1 \<le> unat n\<close> by (intro unat_minus_one) auto
    have odd: "odd (a div 2 ^ k)" if "2 ^ k \<le> a" "a < 2 ^ (k + 1)" for a :: nat
    proof -
      have "a div 2 ^ k = 1" using that by (simp add: div_nat_eqI)
      then show ?thesis by simp
    qed
    have "bit n k" "bit (n - 1) k"
      using odd [OF k] odd [OF r] n1 bit_unsigned_iff [of n k, where ?'a = nat]
        bit_unsigned_iff [of "n - 1" k, where ?'a = nat]
      by (simp_all add: bit_iff_odd)
    then have "bit (n AND (n - 1)) k" by (simp add: bit_and_iff)
    with n show False by (simp add: is_power_of_2_def)
  qed
  then have "n = 2 ^ k"
    using unat_2p [OF k32] by (metis word_unat_eq_iff)
  with k32 show "\<exists>k<32. n = 2 ^ k" by blast
qed (auto intro: two_power_is_power_of_2)


definition aligned :: "u32 \<Rightarrow> nat \<Rightarrow> bool" where
  "aligned a n \<longleftrightarrow> unat a mod n = 0"

lemma aligned_0 [simp]: "aligned 0 n"
  by (simp add: aligned_def)

lemma aligned_dvd: "aligned a n \<longleftrightarrow> n dvd unat a"
  by (simp add: aligned_def dvd_eq_mod_eq_0)

lemma aligned_weaken: "aligned a n \<Longrightarrow> k dvd n \<Longrightarrow> aligned a k"
  by (auto simp: aligned_dvd intro: dvd_trans)

lemma aligned_and_mask: "(x :: u32) AND mask k = 0 \<longleftrightarrow> aligned x (2 ^ k)"
  by (simp add: aligned_dvd and_mask_dvd_nat)

lemma ALIGN_2p: "ALIGN x (2 ^ k) = (x + mask k) AND NOT (mask k)"
  by (simp add: ALIGN_def align_mask_def mask_2p)

lemma aligned_ALIGN: "aligned (ALIGN x (2 ^ k)) (2 ^ k)"
  unfolding aligned_and_mask [symmetric] ALIGN_2p
  by (rule bit_eqI) (auto simp: bit_simps)

lemma unat_mask: "k < 32 \<Longrightarrow> unat (mask k :: u32) = 2 ^ k - 1"
  unfolding mask_2p [symmetric] by (subst unat_sub) (simp_all add: word_le_nat_alt)

text \<open>The distance from an address to its alignment is below the alignment, also when the
  rounding wraps past the top of the address space.\<close>

lemma ALIGN_diff: "k < 32 \<Longrightarrow> unat (ALIGN x (2 ^ k) - x) < 2 ^ k"
proof -
  assume k: "k < 32"
  have "take_bit k (x + mask k) \<le> mask k"
    using k less_imp_le_pred [of "unat (x + mask k) mod 2 ^ k" k]
    by (simp add: word_le_nat_alt unat_take_bit unat_mask)
  moreover have "ALIGN x (2 ^ k) - x = mask k - take_bit k (x + mask k)"
    by (simp add: ALIGN_2p and_not_mask_eq algebra_simps)
  ultimately have "unat (ALIGN x (2 ^ k) - x) \<le> unat (mask k :: u32)"
    by (simp add: unat_sub)
  also have "\<dots> < 2 ^ k" using k by (simp add: unat_mask)
  finally show ?thesis .
qed

lemma unat_ALIGN:
  assumes "k < 32" "unat x + 2 ^ k \<le> 2 ^ 32"
  shows "unat (ALIGN x (2 ^ k)) = unat x + unat (ALIGN x (2 ^ k) - x)"
proof -
  have "unat x + unat (ALIGN x (2 ^ k) - x) < 2 ^ 32"
    using ALIGN_diff [of k x] assms by linarith
  then have "unat (x + (ALIGN x (2 ^ k) - x)) = unat x + unat (ALIGN x (2 ^ k) - x)"
    by (subst unat_add_lem [symmetric]) simp
  then show ?thesis by simp
qed

lemma ALIGN_aligned: "aligned x (2 ^ k) \<Longrightarrow> k < 32 \<Longrightarrow> ALIGN x (2 ^ k) = x"
proof -
  assume "aligned x (2 ^ k)" "k < 32"
  then have "x AND mask k = 0" by (simp add: aligned_and_mask)
  then have "x + mask k = x OR mask k" by (simp add: disjunctive_add_eq_or)
  moreover have "(x OR mask k) AND NOT (mask k) = x"
    using \<open>x AND mask k = 0\<close> by (auto simp: bit_eq_iff bit_simps)
  ultimately show ?thesis by (simp add: ALIGN_2p)
qed

lemma ucast_64_32: "(ucast (ucast (x :: u32) :: u64) :: u32) = x"
  by (rule bit_word_eqI) (simp add: bit_simps)

lemma unat_minus_1_32 [simp]: "unat (-1 :: u32) = 4294967295"
  by (simp add: unsigned_minus_1_eq_mask mask_eq_exp_minus_1)

lemma unat_less_32: "unat (x :: u32) < 4294967296"
  using unsigned_less [of x, where ?'a = nat] by simp

section \<open>Flat memory\<close>

text \<open>\<open>span p n\<close> is the set of the \<open>n\<close> addresses from \<open>p\<close> on (wrapping). Membership is decided by
  the offset from \<open>p\<close>.\<close>

definition span :: "u32 \<Rightarrow> nat \<Rightarrow> u32 set" where
  "span p n = {a. unat (a - p) < n}"

lemma span_iff: "a \<in> span p n \<longleftrightarrow> unat (a - p) < n"
  by (simp add: span_def)

lemma span_0 [simp]: "span p 0 = {}"
  by (simp add: span_def)

lemma span_mono: "n \<le> k \<Longrightarrow> span p n \<subseteq> span p k"
  by (auto simp: span_def)

lemma offset_add: "unat p + n < 2 ^ 32 \<Longrightarrow> unat (p + of_nat n :: u32) = unat p + n"
proof -
  assume h: "unat p + n < 2 ^ 32"
  then have n: "unat (of_nat n :: u32) = n"
    by (simp add: unat_of_nat)
  with h show ?thesis
    using unat_add_lem [of p "of_nat n"] by simp
qed

lemma unat_of_nat32: "n < 2 ^ 32 \<Longrightarrow> unat (of_nat n :: u32) = n"
  by (simp add: unat_of_nat)

lemma of_nat_32_0: "n < 2 ^ 32 \<Longrightarrow> (of_nat n :: u32) = 0 \<longleftrightarrow> n = 0"
  using unat_of_nat32 [of n] unat_0_iff [of "of_nat n :: u32"] by auto

lemma in_span_add: "i < n \<Longrightarrow> n \<le> 2 ^ 32 \<Longrightarrow> p + of_nat i \<in> span p n"
  by (simp add: span_iff unat_of_nat)

text \<open>A span that does not wrap is an interval of \<open>unat\<close> values.\<close>

lemma span_nowrap:
  assumes "unat p + n \<le> 2 ^ 32"
  shows "a \<in> span p n \<longleftrightarrow> unat p \<le> unat a \<and> unat a < unat p + n"
proof (cases "p \<le> a")
  case True
  then show ?thesis by (auto simp: span_iff unat_sub word_le_nat_alt)
next
  case False
  then have "unat (a - p) = 2 ^ 32 + unat a - unat p"
    by (simp add: unat_sub_if_size word_size word_le_nat_alt)
  with False assms show ?thesis by (auto simp: span_iff word_le_nat_alt)
qed

lemma span_sub:
  "i + k \<le> n \<Longrightarrow> i < 2 ^ 32 \<Longrightarrow> span (p + of_nat i) k \<subseteq> span p n"
proof
  fix a assume le: "i + k \<le> n" "i < 2 ^ 32" and "a \<in> span (p + of_nat i) k"
  then have "unat (a - (p + of_nat i)) < k" by (simp add: span_iff)
  moreover have "a - p = (a - (p + of_nat i)) + of_nat i" by simp
  then have "unat (a - p) = (unat (a - (p + of_nat i)) + i) mod 2 ^ 32"
    using le(2) unat_of_nat32 [of i] unat_word_ariths(1) [of "a - (p + of_nat i)" "of_nat i"] by simp
  then have "unat (a - p) \<le> unat (a - (p + of_nat i)) + i" by (metis mod_less_eq_dividend)
  ultimately show "a \<in> span p n" using le by (simp add: span_iff)
qed

lemma span_disjoint:
  assumes "unat p + n \<le> 2 ^ 32" "unat q + k \<le> 2 ^ 32"
    "unat p + n \<le> unat q \<or> unat q + k \<le> unat p"
  shows "span p n \<inter> span q k = {}"
  using assms by (auto simp: span_nowrap)

subsection \<open>Byte strings in memory\<close>

primrec write_bytes :: "memory \<Rightarrow> u32 \<Rightarrow> u8 list \<Rightarrow> memory" where
  "write_bytes m p [] = m"
| "write_bytes m p (b # bs) = write_bytes (m(p := b)) (p + 1) bs"

definition read_bytes :: "memory \<Rightarrow> u32 \<Rightarrow> nat \<Rightarrow> u8 list" where
  "read_bytes m p n = map (\<lambda>i. m (p + of_nat i)) [0..<n]"

lemma length_read_bytes [simp]: "length (read_bytes m p n) = n"
  by (simp add: read_bytes_def)

lemma read_bytes_0 [simp]: "read_bytes m p 0 = []"
  by (simp add: read_bytes_def)

lemma nth_read_bytes [simp]: "i < n \<Longrightarrow> read_bytes m p n ! i = m (p + of_nat i)"
  by (simp add: read_bytes_def)

lemma read_bytes_Suc: "read_bytes m p (Suc n) = m p # read_bytes m (p + 1) n"
  by (simp add: read_bytes_def upt_conv_Cons map_Suc_upt [symmetric] algebra_simps
      del: upt_Suc map_Suc_upt)

lemma write_bytes_apply:
  "length bs \<le> 2 ^ 32 \<Longrightarrow> write_bytes m p bs a =
     (if unat (a - p) < length bs then bs ! unat (a - p) else m a)"
proof (induction bs arbitrary: m p)
  case (Cons b bs)
  show ?case
  proof (cases "a = p")
    case True
    then have "unat (a - (p + 1)) = 2 ^ 32 - 1"
      by (simp add: unsigned_minus_1_eq_mask mask_eq_exp_minus_1)
    then have "write_bytes m p (b # bs) a = b"
      using True Cons by simp
    with True show ?thesis by simp
  next
    case False
    then have "unat (a - p) = Suc (unat (a - (p + 1)))"
      using unatSuc [of "a - (p + 1)"] by simp
    with False Cons show ?thesis by simp
  qed
qed simp

lemma write_bytes_outside: "length bs \<le> 2 ^ 32 \<Longrightarrow> a \<notin> span p (length bs) \<Longrightarrow>
    write_bytes m p bs a = m a"
  by (simp add: write_bytes_apply span_iff)

lemma read_write_bytes:
  "length bs \<le> 2 ^ 32 \<Longrightarrow> read_bytes (write_bytes m p bs) p (length bs) = bs"
  by (rule nth_equalityI) (simp_all add: write_bytes_apply unat_of_nat)

subsection \<open>Little-endian loads and stores\<close>

definition load16 :: "memory \<Rightarrow> u32 \<Rightarrow> u16" where
  "load16 m a = ucast (m a) OR push_bit 8 (ucast (m (a + 1)))"

definition load32 :: "memory \<Rightarrow> u32 \<Rightarrow> u32" where
  "load32 m a = ucast (m a) OR push_bit 8 (ucast (m (a + 1)))
     OR push_bit 16 (ucast (m (a + 2))) OR push_bit 24 (ucast (m (a + 3)))"

definition store16 :: "memory \<Rightarrow> u32 \<Rightarrow> u16 \<Rightarrow> memory" where
  "store16 m a x = m(a := ucast x, a + 1 := ucast (drop_bit 8 x))"

definition store32 :: "memory \<Rightarrow> u32 \<Rightarrow> u32 \<Rightarrow> memory" where
  "store32 m a x = m(a := ucast x, a + 1 := ucast (drop_bit 8 x),
     a + 2 := ucast (drop_bit 16 x), a + 3 := ucast (drop_bit 24 x))"

text \<open>The bytes of a 16-bit value, as they stand in memory.\<close>

definition le16 :: "u16 \<Rightarrow> u8 list" where
  "le16 x = [ucast x, ucast (drop_bit 8 x)]"

lemma length_le16 [simp]: "length (le16 x) = 2"
  by (simp add: le16_def)

lemma store16_bytes: "store16 m a x = write_bytes m a (le16 x)"
  by (simp add: store16_def le16_def)

lemma load16_store16 [mem_simps]: "load16 (store16 m a x) a = x"
  by (rule bit_word_eqI) (auto simp: load16_def store16_def bit_simps)

lemma load32_store32 [mem_simps]: "load32 (store32 m a x) a = x"
proof (rule bit_word_eqI)
  fix n assume "n < LENGTH(32)"
  then consider "n < 8" | "8 \<le> n" "n < 16" | "16 \<le> n" "n < 24" | "24 \<le> n" "n < 32"
    by fastforce
  then show "bit (load32 (store32 m a x) a) n \<longleftrightarrow> bit x n"
    by cases (auto simp: load32_def store32_def bit_simps)
qed

lemma span_4: "span a 4 = {a, a + 1, a + 2, a + 3}"
proof -
  have "b = a \<or> b = a + 1 \<or> b = a + 2 \<or> b = a + 3" if "unat (b - a) < 4" for b
  proof -
    from that have "b - a \<in> {0, 1, 2, 3}"
      by (simp add: word_unat_eq_iff) linarith
    then show ?thesis by (auto simp: algebra_simps)
  qed
  then show ?thesis by (auto simp: span_def)
qed

text \<open>The bytes of a 32-bit value.\<close>

definition le32 :: "u32 \<Rightarrow> u8 list" where
  "le32 x = [ucast x, ucast (drop_bit 8 x), ucast (drop_bit 16 x), ucast (drop_bit 24 x)]"

lemma length_le32 [simp]: "length (le32 x) = 4"
  by (simp add: le32_def)

lemma load32_le32:
  assumes "m a = ucast w" "m (a + 1) = ucast (drop_bit 8 w)" "m (a + 2) = ucast (drop_bit 16 w)"
    "m (a + 3) = ucast (drop_bit 24 w)"
  shows "load32 m a = w"
proof -
  have "load32 m a = load32 (store32 m a w) a" using assms by (simp add: load32_def store32_def)
  then show ?thesis by (simp add: load32_store32)
qed

lemma load32_cong:
  "(\<And>b. b \<in> span a 4 \<Longrightarrow> m b = m' b) \<Longrightarrow> load32 m a = load32 m' a"
  by (simp add: load32_def span_4)

lemma store32_outside: "b \<notin> span a 4 \<Longrightarrow> store32 m a x b = m b"
  by (simp add: store32_def span_4)

lemma load32_store32_other:
  "span a 4 \<inter> span b 4 = {} \<Longrightarrow> load32 (store32 m b x) a = load32 m a"
  by (rule load32_cong) (auto intro: store32_outside)

text \<open>Two different addresses with the same alignment of at least 4 do not overlap.\<close>

lemma aligned_bound: "aligned a n \<Longrightarrow> n dvd 2 ^ 32 \<Longrightarrow> 0 < n \<Longrightarrow> unat a + n \<le> 2 ^ 32"
proof -
  assume "aligned a n" "n dvd 2 ^ 32" "0 < n"
  then obtain i j where "unat a = n * i" "2 ^ 32 = n * j"
    by (auto simp: aligned_dvd elim!: dvdE)
  moreover have "unat a < 2 ^ 32" using unsigned_less [of a] by simp
  ultimately have "i < j" using \<open>0 < n\<close> by (metis nat_mult_less_cancel1)
  then have "n * i + n \<le> n * j" by (metis Suc_leI mult_Suc_right mult_le_mono2 add.commute)
  with \<open>unat a = n * i\<close> \<open>2 ^ 32 = n * j\<close> show ?thesis by simp
qed

lemma aligned_disjoint:
  assumes "aligned a n" "aligned b n" "a \<noteq> b" "n dvd 2 ^ 32"
  shows "span a n \<inter> span b n = {}"
proof (cases "n = 0")
  case False
  have le: "unat a + n \<le> unat b" if "unat a < unat b" "n dvd unat a" "n dvd unat b" for a b :: u32
    using that by (metis add.commute dvd_diff_nat dvd_imp_le le_diff_conv2 less_imp_le zero_less_diff)
  show ?thesis
  proof (rule span_disjoint)
    show "unat a + n \<le> 2 ^ 32" "unat b + n \<le> 2 ^ 32"
      using aligned_bound [OF assms(1,4)] aligned_bound [OF assms(2,4)] False by simp_all
    show "unat a + n \<le> unat b \<or> unat b + n \<le> unat a"
      using assms le [of a b] le [of b a] by (auto simp: aligned_dvd word_unat_eq_iff neq_iff)
  qed
qed simp

lemma aligned_load32_store32 [mem_simps]:
  assumes "aligned a 4096" "aligned b 4096" "a \<noteq> b"
  shows "load32 (store32 m b x) a = load32 m a"
proof (rule load32_store32_other)
  have "span a 4 \<subseteq> span a 4096" "span b 4 \<subseteq> span b 4096"
    by (simp_all add: span_mono)
  then show "span a 4 \<inter> span b 4 = {}"
    using aligned_disjoint [OF assms] by auto
qed

end
