(* ===== verification/Phys_Alloc.thy ===== *)
theory Phys_Alloc
  imports C_Prelude
begin

text \<open>
  The early physical allocator (\<open>src/kernel/mem/alloc_phy.c\<close>) and its use by \<open>mem_init\<close>
  (\<open>src/kernel/mem/mem.c\<close>): a bump pointer \<open>base\<close> that moves towards \<open>top\<close>, with a log of the
  regions handed out. The static variables of the file are the fields of \<open>phys_state\<close>
  (\<open>pa_align_min\<close> is \<open>early_alloc_ops.align_min\<close>, \<open>pa_warned\<close> the static local of
  \<open>phys_alloc_aligned_safe\<close>); \<open>pa_out\<close> collects the calls of \<open>printf\<close>.
\<close>

unbundle bit_operations_syntax

section \<open>State\<close>

record phys_alloc_region =
  r_base :: u32
  r_size :: u32

record phys_state =
  pa_regions :: "phys_alloc_region list"
  pa_nr_regions :: nat
  pa_lock :: spinlock
  pa_base :: u32
  pa_top :: u32
  pa_align_min :: u32
  pa_warned :: bool
  pa_out :: "pcall list"

definition PHYS_ALLOC_NR_REGIONS :: nat where
  "PHYS_ALLOC_NR_REGIONS = 256"

definition DEFAULT_MINIMUM_ALIGNMENT :: u32 where
  "DEFAULT_MINIMUM_ALIGNMENT = 64"

definition INVALID_PHYS_ADDR :: u32 where
  "INVALID_PHYS_ADDR = NOT 0"

definition phys_state0 :: phys_state where
  "phys_state0 = \<lparr>pa_regions = replicate PHYS_ALLOC_NR_REGIONS \<lparr>r_base = 0, r_size = 0\<rparr>,
     pa_nr_regions = 0, pa_lock = \<lparr>v = 0\<rparr>, pa_base = 0, pa_top = 0,
     pa_align_min = DEFAULT_MINIMUM_ALIGNMENT, pa_warned = False, pa_out = []\<rparr>"

definition pa_print :: "pcall list \<Rightarrow> phys_state \<Rightarrow> phys_state" where
  "pa_print cs s = s\<lparr>pa_out := pa_out s @ cs\<rparr>"

definition pa_unlock :: "phys_state \<Rightarrow> phys_state" where
  "pa_unlock s = s\<lparr>pa_lock := spin_unlock (pa_lock s)\<rparr>"

section \<open>Operations\<close>

definition phys_alloc_show :: "phys_state \<Rightarrow> phys_state option" where
  "phys_alloc_show s =
     (case spin_lock (pa_lock s) of
        None \<Rightarrow> None
      | Some l \<Rightarrow>
         (let s1 = pa_print [Printf ''\<newline>phys_alloc minimum alignment: %x\<newline>''
                     [PWord (pa_align_min s)]] (s\<lparr>pa_lock := l\<rparr>);
              s2 = pa_print (map (\<lambda>i. let r = pa_regions s ! i in
                     Printf ''%016x-%016x [%s]\<newline>''
                       [PWord (r_base r), PWord (r_base r + r_size r - 1), PStr ''USED''])
                     [0..<pa_nr_regions s]) s1;
              s3 = pa_print [Printf ''%016x-%016x [%s]\<newline>''
                     [PWord (pa_base s), PWord (pa_top s - 1), PStr ''FREE'']] s2
          in Some (pa_unlock s3)))"

definition phys_alloc_init :: "u32 \<Rightarrow> u32 \<Rightarrow> phys_state \<Rightarrow> phys_state option" where
  "phys_alloc_init base_addr sz s =
     (case spin_lock (pa_lock s) of
        None \<Rightarrow> None
      | Some l \<Rightarrow>
         Some (pa_unlock (s\<lparr>pa_lock := l, pa_base := base_addr, pa_top := base_addr + sz,
                 pa_nr_regions := 0\<rparr>)))"

definition phys_alloc_set_minimum_alignment :: "u32 \<Rightarrow> phys_state \<Rightarrow> phys_state option" where
  "phys_alloc_set_minimum_alignment align s =
     (let s1 = pa_print (c_assert (align \<noteq> 0 \<and> align AND (align - 1) = 0)
                 ''alloc_phy.c'' 53 ''align && !(align & (align - 1))'') s
      in case spin_lock (pa_lock s1) of
           None \<Rightarrow> None
         | Some l \<Rightarrow> Some (pa_unlock (s1\<lparr>pa_lock := l, pa_align_min := align\<rparr>)))"

text \<open>The log entry written after \<open>base\<close> has moved: an array slot while there is one, else one
  warning in the life of the program.\<close>

definition pa_log_region :: "u32 \<Rightarrow> u32 \<Rightarrow> phys_state \<Rightarrow> phys_state" where
  "pa_log_region addr size_orig s =
     (if pa_nr_regions s < PHYS_ALLOC_NR_REGIONS then
        s\<lparr>pa_regions := (pa_regions s)[pa_nr_regions s := \<lparr>r_base = addr, r_size = size_orig\<rparr>],
          pa_nr_regions := Suc (pa_nr_regions s)\<rparr>
      else if \<not> pa_warned s then
        (pa_print [Printf ''WARNING: phys_alloc: No free log entries, can no longer log allocations...'' []]
           s)\<lparr>pa_warned := True\<rparr>
      else s)"

text \<open>\<open>top_safe\<close> is compared with \<open>1ULL << 32\<close> in 64 bits and cut back to 32.\<close>

definition phys_alloc_aligned_safe ::
    "u32 \<Rightarrow> u32 \<Rightarrow> bool \<Rightarrow> phys_state \<Rightarrow> (u32 \<times> phys_state) option" where
  "phys_alloc_aligned_safe sz align safe s =
     (case spin_lock (pa_lock s) of
        None \<Rightarrow> None
      | Some l \<Rightarrow>
         (let s1 = s\<lparr>pa_lock := l\<rparr>;
              top_safe = (if safe then ucast (min (ucast (pa_top s1) :: u64) (push_bit 32 1))
                          else pa_top s1);
              addr = ALIGN (pa_base s1) align;
              sz' = sz + (addr - pa_base s1)
          in if top_safe - pa_base s1 < sz' then
               Some (INVALID_PHYS_ADDR,
                 pa_unlock (pa_print
                   [Printf ''phys_alloc: requested=%#x (align=%#x), need=%#x, but free=%#x. top=%#x, top_safe=%#x''
                      [PWord sz, PWord align, PWord sz', PWord (top_safe - pa_base s1),
                       PWord (pa_top s1), PWord top_safe]] s1))
             else
               Some (addr,
                 pa_unlock (pa_log_region addr sz (s1\<lparr>pa_base := pa_base s1 + sz'\<rparr>)))))"

text \<open>The array write of \<open>phys_alloc_get_unused\<close> has no bounds check.\<close>

definition phys_alloc_get_unused ::
    "phys_state \<Rightarrow> (fault + ((u32 \<times> u32) \<times> phys_state)) option" where
  "phys_alloc_get_unused s =
     (let p_base = pa_base s; p_top = pa_top s
      in if pa_base s = pa_top s then Some (Inr ((p_base, p_top), s))
         else case spin_lock (pa_lock s) of
           None \<Rightarrow> None
         | Some l \<Rightarrow>
             if PHYS_ALLOC_NR_REGIONS \<le> pa_nr_regions s then
               Some (Inl (OutOfBounds ''regions'' (int (pa_nr_regions s))))
             else
               Some (Inr ((p_base, p_top),
                 pa_unlock (s\<lparr>pa_lock := l,
                   pa_regions := (pa_regions s)[pa_nr_regions s :=
                     \<lparr>r_base = pa_base s, r_size = pa_top s - pa_base s\<rparr>],
                   pa_nr_regions := Suc (pa_nr_regions s),
                   pa_base := pa_top s\<rparr>))))"

definition early_memalign :: "u32 \<Rightarrow> u32 \<Rightarrow> phys_state \<Rightarrow> (u32 \<times> phys_state) option" where
  "early_memalign alignment sz s =
     (let s1 = pa_print (c_assert (alignment \<noteq> 0 \<and> alignment AND (alignment - 1) = 0)
                 ''alloc_phy.c'' 123 ''alignment && !(alignment & (alignment - 1))'') s
      in case phys_alloc_aligned_safe sz alignment True s1 of
           None \<Rightarrow> None
         | Some (addr, s2) \<Rightarrow>
             if addr = INVALID_PHYS_ADDR then Some (0, s2) else Some (addr, s2))"

definition mem_init :: "phys_state \<Rightarrow> phys_state option" where
  "mem_init s =
     (case phys_alloc_init 0x300000 0x7ce0000 s of
        None \<Rightarrow> None
      | Some s' \<Rightarrow> phys_alloc_show s')"

section \<open>What a single operation does\<close>

lemmas pa_frame = pa_print_def pa_unlock_def spin_lock_def spin_unlock_def lock_free_def

text \<open>The 64-bit minimum never bites: \<open>top\<close> is below \<open>1ULL << 32\<close> already.\<close>

lemma top_safe_eq: "(ucast (min (ucast (t :: u32) :: u64) 4294967296) :: u32) = t"
proof -
  have t: "unat t < 4294967296"
    using unsigned_less [of t, where ?'a = nat] by simp
  then have "unat (ucast t :: u64) = unat t"
    by (simp add: unsigned_ucast_eq take_bit_nat_eq_self)
  with t have "(ucast t :: u64) < 4294967296"
    by (simp add: word_less_nat_alt)
  then show ?thesis by (simp add: min_def less_imp_le ucast_64_32)
qed

definition pa_blocks_ok :: "nat \<Rightarrow> nat \<Rightarrow> phys_alloc_region list \<Rightarrow> bool" where
  "pa_blocks_ok lo hi rs \<longleftrightarrow>
     (\<forall>r\<in>set rs. lo \<le> unat (r_base r) \<and> unat (r_base r) + unat (r_size r) \<le> hi) \<and>
     sorted_wrt (\<lambda>r q. unat (r_base r) + unat (r_size r) \<le> unat (r_base q)) rs"

text \<open>The well-formedness of the allocator over a pool from \<open>lo\<close> to \<open>hi\<close>: the lock is free, the
  bump pointer is inside the pool, and the logged regions lie below it, in order and apart.\<close>

definition phys_inv :: "nat \<Rightarrow> nat \<Rightarrow> phys_state \<Rightarrow> bool" where
  "phys_inv lo hi s \<longleftrightarrow> lock_free (pa_lock s) \<and>
     length (pa_regions s) = PHYS_ALLOC_NR_REGIONS \<and> pa_nr_regions s \<le> PHYS_ALLOC_NR_REGIONS \<and>
     lo \<le> unat (pa_base s) \<and> unat (pa_base s) \<le> unat (pa_top s) \<and> unat (pa_top s) = hi \<and>
     pa_blocks_ok lo (unat (pa_base s)) (take (pa_nr_regions s) (pa_regions s))"

text \<open>The part of it that holds whatever is asked of the allocator: all but the log.\<close>

definition phys_core :: "nat \<Rightarrow> nat \<Rightarrow> phys_state \<Rightarrow> bool" where
  "phys_core lo hi s \<longleftrightarrow> lock_free (pa_lock s) \<and>
     length (pa_regions s) = PHYS_ALLOC_NR_REGIONS \<and> pa_nr_regions s \<le> PHYS_ALLOC_NR_REGIONS \<and>
     lo \<le> unat (pa_base s) \<and> unat (pa_base s) \<le> unat (pa_top s) \<and> unat (pa_top s) = hi"

lemma phys_inv_core:
  "phys_inv lo hi s \<longleftrightarrow> phys_core lo hi s \<and>
     pa_blocks_ok lo (unat (pa_base s)) (take (pa_nr_regions s) (pa_regions s))"
  by (auto simp: phys_inv_def phys_core_def)

lemma phys_inv_coreD: "phys_inv lo hi s \<Longrightarrow> phys_core lo hi s"
  by (simp add: phys_inv_core)

lemma pa_blocks_ok_Nil [simp]: "pa_blocks_ok lo hi []"
  by (simp add: pa_blocks_ok_def)

lemma pa_blocks_ok_snoc:
  assumes "pa_blocks_ok lo mid rs" "lo \<le> mid" "mid \<le> unat (r_base r)"
    "unat (r_base r) + unat (r_size r) \<le> hi"
  shows "pa_blocks_ok lo hi (rs @ [r])"
proof -
  have "unat (r_base q) + unat (r_size q) \<le> mid" if "q \<in> set rs" for q
    using assms(1) that by (auto simp: pa_blocks_ok_def)
  with assms show ?thesis
    by (fastforce simp: pa_blocks_ok_def sorted_wrt_append)
qed

lemma pa_blocks_ok_mono: "pa_blocks_ok lo mid rs \<Longrightarrow> mid \<le> hi \<Longrightarrow> pa_blocks_ok lo hi rs"
  by (fastforce simp: pa_blocks_ok_def)

text \<open>The bytes that an allocation takes from the pool: the gap up to the next aligned address and
  the block itself.\<close>

definition pa_gap :: "phys_state \<Rightarrow> u32 \<Rightarrow> u32" where
  "pa_gap s al = ALIGN (pa_base s) al - pa_base s"

lemma pa_gap_lock [simp]: "pa_gap (s\<lparr>pa_lock := l\<rparr>) al = pa_gap s al"
  by (simp add: pa_gap_def)

definition pa_enough :: "u32 \<Rightarrow> u32 \<Rightarrow> phys_state \<Rightarrow> bool" where
  "pa_enough al sz s \<longleftrightarrow>
     unat (pa_base s) + unat (pa_gap s al) + unat sz \<le> unat (pa_top s)"

text \<open>A request wraps in a state where the sum of the size and the gap does not fit 32 bits. One
  whose size and alignment together stay within 32 bits wraps in no state.\<close>

definition pa_fits32 :: "u32 \<Rightarrow> u32 \<Rightarrow> phys_state \<Rightarrow> bool" where
  "pa_fits32 al sz s \<longleftrightarrow> unat sz + unat (pa_gap s al) < 2 ^ 32"

definition pa_sane :: "u32 \<Rightarrow> u32 \<Rightarrow> bool" where
  "pa_sane al sz \<longleftrightarrow> is_power_of_2 al \<and> 0 < sz \<and> unat sz + unat al \<le> 2 ^ 32"

lemma pa_gap_less: "is_power_of_2 al \<Longrightarrow> unat (pa_gap s al) < unat al"
  by (auto simp: is_power_of_2_iff pa_gap_def ALIGN_diff)

lemma pa_sane_fits32: "pa_sane al sz \<Longrightarrow> pa_fits32 al sz s"
  using pa_gap_less [of al s] by (fastforce simp: pa_sane_def pa_fits32_def)

lemma pa_need:
  assumes "pa_fits32 al sz s"
  shows "unat (sz + pa_gap s al) = unat sz + unat (pa_gap s al)"
  using assms unat_add_lem [of sz "pa_gap s al"] by (simp add: pa_fits32_def)

lemma pa_guard:
  assumes "pa_fits32 al sz s" "pa_base s \<le> pa_top s"
  shows "pa_top s - pa_base s < sz + pa_gap s al \<longleftrightarrow> \<not> pa_enough al sz s"
  using assms by (auto simp: word_less_nat_alt unat_sub pa_need pa_enough_def word_le_nat_alt)

lemma pa_aligned_addr: "ALIGN (pa_base s) al = pa_base s + pa_gap s al"
  by (simp add: pa_gap_def)

lemma pa_addr_nowrap:
  assumes "pa_fits32 al sz s" "pa_enough al sz s"
  shows "unat (pa_base s + pa_gap s al) = unat (pa_base s) + unat (pa_gap s al)"
    and "unat (pa_base s + (sz + pa_gap s al)) =
           unat (pa_base s) + unat (pa_gap s al) + unat sz"
proof -
  have t: "unat (pa_top s) < 2 ^ 32" using unsigned_less [of "pa_top s"] by simp
  with assms(2) have "unat (pa_base s) + unat (pa_gap s al) < 2 ^ 32"
    "unat (pa_base s) + unat (sz + pa_gap s al) < 2 ^ 32"
    by (simp_all add: pa_enough_def pa_need [OF assms(1)])
  then show "unat (pa_base s + pa_gap s al) = unat (pa_base s) + unat (pa_gap s al)"
    "unat (pa_base s + (sz + pa_gap s al)) = unat (pa_base s) + unat (pa_gap s al) + unat sz"
    using unat_add_lem [of "pa_base s" "pa_gap s al"]
      unat_add_lem [of "pa_base s" "sz + pa_gap s al"] pa_need [OF assms(1)] by simp_all
qed

lemma pa_lock_cycle:
  assumes "lock_free (pa_lock s)"
  shows "pa_unlock (s\<lparr>pa_lock := (pa_lock s)\<lparr>v := 1\<rparr>\<rparr>) = s"
  using assms spin_unlock_lock [of "pa_lock s"] by (simp add: pa_unlock_def)

lemma pa_unlock_print: "pa_unlock (pa_print cs s) = pa_print cs (pa_unlock s)"
  by (simp add: pa_frame)

lemma pa_unlock_log: "pa_unlock (pa_log_region a n s) = pa_log_region a n (pa_unlock s)"
  by (simp add: pa_frame pa_log_region_def)

lemma pa_unlock_base:
  "pa_unlock (s\<lparr>pa_lock := l, pa_base := b\<rparr>) = (pa_unlock (s\<lparr>pa_lock := l\<rparr>))\<lparr>pa_base := b\<rparr>"
  by (simp add: pa_frame)

text \<open>The two outcomes of an allocation request, whatever is asked, with the lock free again in both:
  the test compares 32-bit values.\<close>

lemma aligned_safe_fail:
  assumes "lock_free (pa_lock s)" "pa_top s - pa_base s < sz + pa_gap s al"
  shows "\<exists>c. phys_alloc_aligned_safe sz al safe s = Some (INVALID_PHYS_ADDR, pa_print [c] s)"
  using assms pa_lock_cycle [OF assms(1)]
  by (simp add: phys_alloc_aligned_safe_def spin_lock_free Let_def top_safe_eq pa_unlock_print
      flip: pa_gap_def) blast

lemma aligned_safe_ok:
  assumes "lock_free (pa_lock s)" "\<not> pa_top s - pa_base s < sz + pa_gap s al"
  shows "phys_alloc_aligned_safe sz al safe s =
    Some (ALIGN (pa_base s) al, pa_log_region (ALIGN (pa_base s) al) sz
            (s\<lparr>pa_base := pa_base s + (sz + pa_gap s al)\<rparr>))"
  using assms pa_lock_cycle [OF assms(1)]
  by (simp add: phys_alloc_aligned_safe_def spin_lock_free Let_def top_safe_eq pa_unlock_log
      pa_unlock_base flip: pa_gap_def)

lemma phys_inv_print [simp]: "phys_inv lo hi (pa_print cs s) = phys_inv lo hi s"
  by (simp add: phys_inv_def pa_print_def)

lemma phys_inv_base_le: "phys_inv lo hi s \<Longrightarrow> pa_base s \<le> pa_top s"
  by (simp add: phys_inv_def word_le_nat_alt)

lemma phys_inv_lock: "phys_inv lo hi s \<Longrightarrow> lock_free (pa_lock s)"
  by (simp add: phys_inv_def)

text \<open>Moving the pointer past a block and logging the block keeps the allocator well formed, also
  when the log is full.\<close>

lemma phys_inv_advance:
  assumes "phys_inv lo hi s" "unat (pa_base s) \<le> unat addr"
    "unat addr + unat n \<le> unat b" "unat b \<le> hi"
  shows "phys_inv lo hi (pa_log_region addr n (s\<lparr>pa_base := b\<rparr>))"
proof -
  have len: "length (pa_regions s) = 256" "pa_nr_regions s \<le> 256"
    and ok: "pa_blocks_ok lo (unat (pa_base s)) (take (pa_nr_regions s) (pa_regions s))"
    and lo: "lo \<le> unat (pa_base s)"
    using assms(1) by (simp_all add: phys_inv_def PHYS_ALLOC_NR_REGIONS_def)
  have full: "pa_blocks_ok lo (unat b) (take (pa_nr_regions s) (pa_regions s))"
    using ok by (rule pa_blocks_ok_mono) (use assms in linarith)
  have snoc: "take (Suc k) (xs[k := r]) = take k xs @ [r]" if "k < length xs"
    for k and xs :: "phys_alloc_region list" and r
    using that by (simp add: take_Suc_conv_app_nth)
  have "pa_blocks_ok lo (unat b)
      (take (pa_nr_regions s) (pa_regions s) @ [\<lparr>r_base = addr, r_size = n\<rparr>])"
    using ok lo assms by (intro pa_blocks_ok_snoc [where mid = "unat (pa_base s)"]) simp_all
  with assms len lo full show ?thesis
    by (auto simp: phys_inv_def pa_log_region_def pa_print_def PHYS_ALLOC_NR_REGIONS_def snoc)
qed

lemma phys_inv_aligned_safe:
  assumes "phys_inv lo hi s" "pa_fits32 al sz s" "pa_enough al sz s"
  shows "phys_inv lo hi (pa_log_region (ALIGN (pa_base s) al) sz
            (s\<lparr>pa_base := pa_base s + (sz + pa_gap s al)\<rparr>))"
proof -
  note nw = pa_addr_nowrap [OF assms(2,3)]
  have "unat (pa_top s) = hi" using assms(1) by (simp add: phys_inv_def)
  with assms(3) nw show ?thesis
    by (intro phys_inv_advance [OF assms(1)]) (simp_all add: pa_aligned_addr pa_enough_def)
qed

section \<open>Requests through the allocator interface\<close>

lemma pa_print_Nil [simp]: "pa_print [] s = s"
  by (simp add: pa_print_def)

lemma pa_print_print: "pa_print b (pa_print a s) = pa_print (a @ b) s"
  by (simp add: pa_print_def)

lemma pa_sane_assert: "pa_sane al sz \<Longrightarrow> al \<noteq> 0 \<and> al AND (al - 1) = 0"
  by (simp add: pa_sane_def is_power_of_2_def)

text \<open>What a print leaves alone.\<close>

lemma pa_print_fields [simp]:
  "pa_lock (pa_print cs s) = pa_lock s" "pa_base (pa_print cs s) = pa_base s"
  "pa_top (pa_print cs s) = pa_top s" "pa_gap (pa_print cs s) al = pa_gap s al"
  "pa_regions (pa_print cs s) = pa_regions s" "pa_nr_regions (pa_print cs s) = pa_nr_regions s"
  by (simp_all add: pa_print_def pa_gap_def)

definition pa_asserts :: "u32 \<Rightarrow> pcall list" where
  "pa_asserts al = c_assert (al \<noteq> 0 \<and> al AND (al - 1) = 0)
     ''alloc_phy.c'' 123 ''alignment && !(alignment & (alignment - 1))''"

lemma pa_asserts_sane: "pa_sane al sz \<Longrightarrow> pa_asserts al = []"
  using pa_sane_assert [of al sz] by (simp add: pa_asserts_def)

lemma early_memalign_refuse:
  assumes "lock_free (pa_lock s)" "pa_top s - pa_base s < sz + pa_gap s al"
  shows "\<exists>c. early_memalign al sz s = Some (0, pa_print [c] (pa_print (pa_asserts al) s))"
  using aligned_safe_fail [of "pa_print (pa_asserts al) s" sz al True] assms
  by (auto simp: early_memalign_def Let_def simp flip: pa_asserts_def)

lemma early_memalign_grant:
  assumes "lock_free (pa_lock s)" "\<not> pa_top s - pa_base s < sz + pa_gap s al"
  shows "early_memalign al sz s =
    Some (if ALIGN (pa_base s) al = INVALID_PHYS_ADDR then 0 else ALIGN (pa_base s) al,
      pa_log_region (ALIGN (pa_base s) al) sz
        ((pa_print (pa_asserts al) s)\<lparr>pa_base := pa_base s + (sz + pa_gap s al)\<rparr>))"
  using aligned_safe_ok [of "pa_print (pa_asserts al) s" sz al True] assms
  by (simp add: early_memalign_def Let_def flip: pa_asserts_def)

lemma early_memalign_fail:
  assumes "phys_inv lo hi s" "pa_sane al sz" "\<not> pa_enough al sz s"
  shows "\<exists>c. early_memalign al sz s = Some (0, pa_print [c] s)"
  using early_memalign_refuse [OF phys_inv_lock [OF assms(1)], of sz al] assms(3)
    pa_guard [OF pa_sane_fits32 [OF assms(2)] phys_inv_base_le [OF assms(1)]]
  by (simp add: pa_asserts_sane [OF assms(2)])

text \<open>An address that ends a block of at least one byte inside the pool is not the error value.\<close>

lemma granted_valid:
  assumes "pa_fits32 al sz s" "pa_enough al sz s" "0 < sz"
  shows "ALIGN (pa_base s) al \<noteq> INVALID_PHYS_ADDR"
proof -
  have "unat (ALIGN (pa_base s) al) + unat sz \<le> unat (pa_top s)"
    using assms(2) pa_addr_nowrap [OF assms(1,2)] by (simp add: pa_aligned_addr pa_enough_def)
  moreover have "unat (pa_top s) < 4294967296"
    using unsigned_less [of "pa_top s", where ?'a = nat] by simp
  moreover have "0 < unat sz" using assms(3) by (simp add: word_less_nat_alt)
  ultimately have "unat (ALIGN (pa_base s) al) < 4294967295" by linarith
  then show ?thesis by (auto simp: INVALID_PHYS_ADDR_def)
qed

lemma early_memalign_ok:
  assumes "phys_inv lo hi s" "pa_sane al sz" "pa_enough al sz s"
  shows "early_memalign al sz s = Some (ALIGN (pa_base s) al,
    pa_log_region (ALIGN (pa_base s) al) sz (s\<lparr>pa_base := pa_base s + (sz + pa_gap s al)\<rparr>))"
proof -
  note fit = pa_sane_fits32 [OF assms(2)]
  have "0 < sz" using assms(2) by (simp add: pa_sane_def)
  note valid = granted_valid [OF fit assms(3) this]
  show ?thesis
    using early_memalign_grant [OF phys_inv_lock [OF assms(1)], of sz al] valid assms(3)
      pa_guard [OF fit phys_inv_base_le [OF assms(1)]]
    by (simp add: pa_asserts_sane [OF assms(2)])
qed

lemma pa_log_region_base [simp]: "pa_base (pa_log_region a n s) = pa_base s"
  by (simp add: pa_log_region_def pa_print_def)

lemma pa_log_region_align_min [simp]: "pa_align_min (pa_log_region a n s) = pa_align_min s"
  by (simp add: pa_log_region_def pa_print_def)

text \<open>What \<open>memalign\<close> of \<open>early_alloc_ops\<close> promises for one request.\<close>

lemma early_memalign_spec:
  assumes "phys_inv lo hi s" "pa_sane al sz"
  shows "\<exists>p s'. early_memalign al sz s = Some (p, s') \<and> phys_inv lo hi s' \<and>
    (if pa_enough al sz s
     then aligned p (unat al) \<and> unat (pa_base s) \<le> unat p \<and>
       unat p + unat sz = unat (pa_base s')
     else p = 0 \<and> pa_base s' = pa_base s)"
proof (cases "pa_enough al sz s")
  case True
  have "aligned (ALIGN (pa_base s) al) (unat al)"
    using assms(2) by (auto simp: pa_sane_def is_power_of_2_iff aligned_ALIGN)
  with True early_memalign_ok [OF assms True] phys_inv_aligned_safe [OF assms(1) pa_sane_fits32 [OF assms(2)] True]
    pa_addr_nowrap [OF pa_sane_fits32 [OF assms(2)] True]
  show ?thesis by (simp add: pa_aligned_addr)
next
  case False
  then obtain c where "early_memalign al sz s = Some (0, pa_print [c] s)"
    using early_memalign_fail [OF assms] by blast
  with False assms(1) show ?thesis by (simp add: pa_print_def phys_inv_def)
qed

text \<open>What holds for every request, also one that wraps: the call returns, the 32-bit test decides, and
  the pointer moves forward inside the pool.\<close>

lemma phys_core_lock: "phys_core lo hi s \<Longrightarrow> lock_free (pa_lock s)"
  by (simp add: phys_core_def)

lemma phys_core_base_le: "phys_core lo hi s \<Longrightarrow> pa_base s \<le> pa_top s"
  by (simp add: phys_core_def word_le_nat_alt)

lemma phys_core_print [simp]: "phys_core lo hi (pa_print cs s) = phys_core lo hi s"
  by (simp add: phys_core_def)

lemma phys_core_advance:
  assumes "phys_core lo hi s" "unat (pa_base s) \<le> unat b" "unat b \<le> hi"
  shows "phys_core lo hi (pa_log_region addr n (s\<lparr>pa_base := b\<rparr>))"
  using assms by (auto simp: phys_core_def pa_log_region_def pa_print_def)

lemma granted_pointer:
  assumes "pa_base s \<le> pa_top s" "\<not> pa_top s - pa_base s < (k :: u32)"
  shows "unat (pa_base s + k) = unat (pa_base s) + unat k"
    and "unat (pa_base s) + unat k \<le> unat (pa_top s)"
proof -
  show le: "unat (pa_base s) + unat k \<le> unat (pa_top s)"
    using assms by (auto simp: word_le_nat_alt word_less_nat_alt unat_sub)
  then have "unat (pa_base s) + unat k < 2 ^ 32" using unat_less_32 [of "pa_top s"] by simp
  then show "unat (pa_base s + k) = unat (pa_base s) + unat k"
    using unat_add_lem [of "pa_base s" k] by simp
qed

lemma early_memalign_core:
  assumes "phys_core lo hi s"
  shows "\<exists>p s'. early_memalign al sz s = Some (p, s') \<and> phys_core lo hi s' \<and>
    unat (pa_base s) \<le> unat (pa_base s')"
proof (cases "pa_top s - pa_base s < sz + pa_gap s al")
  case True
  with early_memalign_refuse [OF phys_core_lock [OF assms] True] assms show ?thesis by auto
next
  case False
  note g = granted_pointer [OF phys_core_base_le [OF assms] False]
  have "unat (pa_top s) = hi" using assms by (simp add: phys_core_def)
  with g have "phys_core lo hi (pa_log_region (ALIGN (pa_base s) al) sz
      ((pa_print (pa_asserts al) s)\<lparr>pa_base := pa_base s + (sz + pa_gap s al)\<rparr>))"
    using assms by (intro phys_core_advance) simp_all
  then show ?thesis
    using early_memalign_grant [OF phys_core_lock [OF assms] False] g by simp
qed

text \<open>A granted block whose sum does not wrap lies between the old and the new pointer; one whose sum
  wraps is never inside the pool.\<close>

lemma granted_inside:
  assumes "pa_base s \<le> pa_top s" "\<not> pa_top s - pa_base s < sz + pa_gap s al" "pa_fits32 al sz s"
  shows "pa_enough al sz s"
    and "unat (ALIGN (pa_base s) al) = unat (pa_base s) + unat (pa_gap s al)"
    and "unat (ALIGN (pa_base s) al) + unat sz = unat (pa_base s + (sz + pa_gap s al))"
proof -
  show e: "pa_enough al sz s" using assms pa_guard by blast
  show "unat (ALIGN (pa_base s) al) = unat (pa_base s) + unat (pa_gap s al)"
    "unat (ALIGN (pa_base s) al) + unat sz = unat (pa_base s + (sz + pa_gap s al))"
    using pa_addr_nowrap [OF assms(3) e] by (simp_all add: pa_aligned_addr)
qed

lemma granted_outside:
  assumes "\<not> pa_fits32 al sz s"
  shows "\<not> (unat (pa_base s) \<le> unat (ALIGN (pa_base s) al) \<and>
    unat (ALIGN (pa_base s) al) + unat sz \<le> unat (pa_top s))"
proof (cases "unat (pa_base s) + unat (pa_gap s al) < 2 ^ 32")
  case True
  then have "unat (ALIGN (pa_base s) al) = unat (pa_base s) + unat (pa_gap s al)"
    unfolding pa_aligned_addr using unat_add_lem [of "pa_base s" "pa_gap s al"] by simp
  then show ?thesis using assms unat_less_32 [of "pa_top s"] by (simp add: pa_fits32_def)
next
  case False
  then have "unat (ALIGN (pa_base s) al) = unat (pa_base s) + unat (pa_gap s al) - 2 ^ 32"
    unfolding pa_aligned_addr using unat_less_32 [of "pa_base s"] unat_less_32 [of "pa_gap s al"]
    by (simp add: unat_word_ariths mod_if)
  moreover have "unat (pa_gap s al) < 2 ^ 32" using unat_less_32 [of "pa_gap s al"] by simp
  ultimately show ?thesis using False by simp
qed

lemma granted_inv:
  assumes "phys_inv lo hi s" "pa_fits32 al sz s" "early_memalign al sz s = Some (p, s')"
  shows "phys_inv lo hi s'"
proof (cases "pa_top s - pa_base s < sz + pa_gap s al")
  case True
  with early_memalign_refuse [OF phys_inv_lock [OF assms(1)] True] assms show ?thesis by auto
next
  case False
  note g = granted_inside [OF phys_inv_base_le [OF assms(1)] False assms(2)]
  have "phys_inv lo hi (pa_log_region (ALIGN (pa_base s) al) sz
      ((pa_print (pa_asserts al) s)\<lparr>pa_base := pa_base s + (sz + pa_gap s al)\<rparr>))"
    using phys_inv_aligned_safe [of lo hi "pa_print (pa_asserts al) s" al sz] assms(1,2) g(1)
    by (simp add: pa_fits32_def pa_enough_def)
  then show ?thesis
    using early_memalign_grant [OF phys_inv_lock [OF assms(1)] False] assms(3) by simp
qed

lemma granted_aligned:
  assumes "is_power_of_2 al" "lock_free (pa_lock s)" "early_memalign al sz s = Some (p, s')"
  shows "aligned p (unat al)"
proof (cases "pa_top s - pa_base s < sz + pa_gap s al")
  case True
  with early_memalign_refuse [OF assms(2) True] assms(3) show ?thesis by auto
next
  case False
  have "aligned (ALIGN (pa_base s) al) (unat al)"
    using assms(1) by (auto simp: is_power_of_2_iff aligned_ALIGN)
  with early_memalign_grant [OF assms(2) False] assms(3) show ?thesis by (auto split: if_splits)
qed

text \<open>A run of requests \<open>(alignment, size)\<close>: the results, in order, NULL where a request was refused.\<close>

fun memalign_all :: "(u32 \<times> u32) list \<Rightarrow> phys_state \<Rightarrow> (u32 list \<times> phys_state) option" where
  "memalign_all [] s = Some ([], s)"
| "memalign_all ((al, sz) # rs) s =
     (case early_memalign al sz s of
        None \<Rightarrow> None
      | Some (p, s') \<Rightarrow> map_option (\<lambda>(ps, s''). (p # ps, s'')) (memalign_all rs s'))"

text \<open>The block that the result \<open>p\<close> gives for a request, where it gives one and the request wraps in
  no state.\<close>

definition sane_block :: "u32 \<times> u32 \<Rightarrow> u32 \<Rightarrow> bool" where
  "sane_block r p \<longleftrightarrow> pa_sane (fst r) (snd r) \<and> p \<noteq> 0"

lemma sane_block_inside:
  assumes "phys_core lo hi s" "early_memalign al sz s = Some (p, s')" "sane_block (al, sz) p"
  shows "unat (pa_base s) \<le> unat p" "unat p + unat sz \<le> unat (pa_base s')"
proof -
  have sane: "pa_sane al sz" and p: "p \<noteq> 0" using assms(3) by (simp_all add: sane_block_def)
  note l = phys_core_lock [OF assms(1)]
  have g: "\<not> pa_top s - pa_base s < sz + pa_gap s al"
    using early_memalign_refuse [OF l] assms(2) p by force
  show "unat (pa_base s) \<le> unat p" "unat p + unat sz \<le> unat (pa_base s')"
    using early_memalign_grant [OF l g] assms(2) p
      granted_inside [OF phys_core_base_le [OF assms(1)] g pa_sane_fits32 [OF sane]]
    by (auto split: if_splits)
qed

lemma memalign_all_core:
  assumes "phys_core lo hi s"
  shows "\<exists>ps s'. memalign_all rs s = Some (ps, s') \<and> length ps = length rs \<and> phys_core lo hi s' \<and>
    unat (pa_base s) \<le> unat (pa_base s')"
  using assms
proof (induction rs arbitrary: s)
  case (Cons r rs)
  obtain al sz where r: "r = (al, sz)" by fastforce
  obtain p s1 where e: "early_memalign al sz s = Some (p, s1)" "phys_core lo hi s1"
      "unat (pa_base s) \<le> unat (pa_base s1)"
    using early_memalign_core [OF Cons.prems] by blast
  with Cons.IH [OF e(2)] show ?case by (auto simp: r)
qed simp

lemma memalign_all_blocks:
  assumes "phys_core lo hi s" "memalign_all rs s = Some (ps, s')"
  shows "list_all2 (\<lambda>r p. sane_block r p \<longrightarrow>
      unat (pa_base s) \<le> unat p \<and> unat p + unat (snd r) \<le> unat (pa_base s')) rs ps"
    and "sorted_wrt (\<lambda>(r, p) (q, k). sane_block r p \<and> sane_block q k \<longrightarrow>
      unat p + unat (snd r) \<le> unat k) (zip rs ps)"
proof -
  have "list_all2 (\<lambda>r p. sane_block r p \<longrightarrow>
      unat (pa_base s) \<le> unat p \<and> unat p + unat (snd r) \<le> unat (pa_base s')) rs ps \<and>
    sorted_wrt (\<lambda>(r, p) (q, k). sane_block r p \<and> sane_block q k \<longrightarrow>
      unat p + unat (snd r) \<le> unat k) (zip rs ps)"
    using assms
  proof (induction rs arbitrary: s ps)
    case (Cons r rs)
    obtain al sz where r: "r = (al, sz)" by fastforce
    obtain p s1 ps1 where e: "early_memalign al sz s = Some (p, s1)"
      and m: "memalign_all rs s1 = Some (ps1, s')" and ps: "ps = p # ps1"
      using Cons.prems(2) by (auto simp: r split: option.splits)
    have c: "phys_core lo hi s1" "unat (pa_base s) \<le> unat (pa_base s1)"
      using early_memalign_core [OF Cons.prems(1), of al sz] e by auto
    have le: "unat (pa_base s1) \<le> unat (pa_base s')" using memalign_all_core [OF c(1), of rs] m by auto
    note ih = Cons.IH [OF c(1) m]
    note b = sane_block_inside [OF Cons.prems(1) e]
    from ih have later: "unat (pa_base s1) \<le> unat k \<and> unat k + unat (snd q) \<le> unat (pa_base s')"
      if "(q, k) \<in> set (zip rs ps1)" "sane_block q k" for q k
      using that by (auto simp: list_all2_iff)
    have "list_all2 (\<lambda>r p. sane_block r p \<longrightarrow>
        unat (pa_base s) \<le> unat p \<and> unat p + unat (snd r) \<le> unat (pa_base s')) rs ps1"
      by (rule list_all2_mono [OF conjunct1 [OF ih]]) (use c(2) in auto)
    with b le ih later show ?case by (fastforce simp: ps r)
  qed simp
  then show "list_all2 (\<lambda>r p. sane_block r p \<longrightarrow>
      unat (pa_base s) \<le> unat p \<and> unat p + unat (snd r) \<le> unat (pa_base s')) rs ps"
    "sorted_wrt (\<lambda>(r, p) (q, k). sane_block r p \<and> sane_block q k \<longrightarrow>
      unat p + unat (snd r) \<le> unat k) (zip rs ps)" by blast+
qed

section \<open>The remaining operations\<close>

lemma phys_inv_show:
  assumes "phys_inv lo hi s"
  shows "\<exists>cs. phys_alloc_show s = Some (pa_print cs s)"
  using pa_lock_cycle [OF phys_inv_lock [OF assms]] phys_inv_lock [OF assms]
  by (simp add: phys_alloc_show_def spin_lock_free Let_def pa_unlock_print pa_print_print) blast

lemma phys_inv_set_align:
  assumes "phys_inv lo hi s"
  shows "\<exists>s'. phys_alloc_set_minimum_alignment al s = Some s' \<and> phys_inv lo hi s' \<and>
    pa_align_min s' = al \<and> (pa_out s' = pa_out s \<longleftrightarrow> is_power_of_2 al)"
  using assms
  by (auto simp: phys_alloc_set_minimum_alignment_def Let_def spin_lock_def phys_inv_def
      pa_print_def lock_free_def pa_unlock_def c_assert_def is_power_of_2_def spin_unlock_def)

lemma phys_get_unused_ok:
  assumes "phys_inv lo hi s" "pa_nr_regions s < PHYS_ALLOC_NR_REGIONS"
  shows "\<exists>s'. phys_alloc_get_unused s = Some (Inr ((pa_base s, pa_top s), s')) \<and>
    phys_inv lo hi s' \<and> pa_base s' = pa_top s"
proof (cases "pa_base s = pa_top s")
  case True
  with assms(1) show ?thesis by (simp add: phys_alloc_get_unused_def)
next
  case False
  have le: "unat (pa_base s) \<le> unat (pa_top s)" "unat (pa_top s) = hi"
    using assms(1) by (simp_all add: phys_inv_def)
  have eq: "pa_unlock (s\<lparr>pa_lock := (pa_lock s)\<lparr>v := 1\<rparr>,
      pa_regions := (pa_regions s)[pa_nr_regions s :=
        \<lparr>r_base = pa_base s, r_size = pa_top s - pa_base s\<rparr>],
      pa_nr_regions := Suc (pa_nr_regions s), pa_base := pa_top s\<rparr>) =
    pa_log_region (pa_base s) (pa_top s - pa_base s) (s\<lparr>pa_base := pa_top s\<rparr>)"
    using assms spin_unlock_lock [of "pa_lock s"]
    by (simp add: pa_log_region_def pa_unlock_def phys_inv_def)
  have "phys_inv lo hi (pa_log_region (pa_base s) (pa_top s - pa_base s) (s\<lparr>pa_base := pa_top s\<rparr>))"
    using le by (intro phys_inv_advance [OF assms(1)]) (simp_all add: unat_sub word_le_nat_alt)
  with False assms eq phys_inv_lock [OF assms(1)] show ?thesis
    by (simp add: phys_alloc_get_unused_def Let_def spin_lock_free)
qed

lemma phys_get_unused_full:
  assumes "phys_inv lo hi s" "pa_nr_regions s = PHYS_ALLOC_NR_REGIONS"
  shows "phys_alloc_get_unused s =
    (if pa_base s = pa_top s then Some (Inr ((pa_base s, pa_top s), s))
     else Some (Inl (OutOfBounds ''regions'' 256)))"
  using assms phys_inv_lock [OF assms(1)]
  by (simp add: phys_alloc_get_unused_def Let_def spin_lock_free PHYS_ALLOC_NR_REGIONS_def)

section \<open>The allocator as a state machine\<close>

text \<open>The calls that the interface of \<open>alloc_phy.h\<close> offers after \<open>phys_alloc_init\<close>, with any arguments.\<close>

datatype phys_op = Show | Set_align u32 | Memalign u32 u32 | Get_unused

inductive phys_step :: "phys_state \<Rightarrow> phys_op \<Rightarrow> phys_state \<Rightarrow> bool" where
  show_step: "phys_alloc_show s = Some t \<Longrightarrow> phys_step s Show t"
| align_step: "phys_alloc_set_minimum_alignment al s = Some t \<Longrightarrow> phys_step s (Set_align al) t"
| memalign_step: "early_memalign al sz s = Some (p, t) \<Longrightarrow> phys_step s (Memalign al sz) t"
| unused_step: "phys_alloc_get_unused s = Some (Inr (r, t)) \<Longrightarrow> phys_step s Get_unused t"

inductive_cases phys_stepE: "phys_step s a t"

inductive_simps phys_step_simps:
  "phys_step s Show t" "phys_step s (Set_align al) t" "phys_step s (Memalign al sz) t"
  "phys_step s Get_unused t"

text \<open>A sequence of calls.\<close>

inductive phys_run :: "phys_state \<Rightarrow> phys_op list \<Rightarrow> phys_state \<Rightarrow> bool" where
  run_Nil: "phys_run s [] s"
| run_snoc: "phys_run s as t \<Longrightarrow> phys_step t a u \<Longrightarrow> phys_run s (as @ [a]) u"

lemma phys_step_core: "phys_step s a t \<Longrightarrow> phys_core lo hi s \<Longrightarrow> phys_core lo hi t"
proof (induction rule: phys_step.induct)
  case (show_step s t)
  then show ?case by (fastforce simp: phys_alloc_show_def phys_core_def pa_frame Let_def)
next
  case (align_step al s t)
  then show ?case
    by (fastforce simp: phys_alloc_set_minimum_alignment_def phys_core_def pa_frame Let_def)
next
  case (memalign_step al sz s p t)
  then show ?case using early_memalign_core [OF memalign_step(2), of al sz] by auto
next
  case (unused_step s r t)
  then show ?case
    by (auto simp: phys_alloc_get_unused_def phys_core_def pa_frame Let_def split: if_splits)
qed

text \<open>Whether a call wraps in a state.\<close>

definition op_fits32 :: "phys_op \<Rightarrow> phys_state \<Rightarrow> bool" where
  "op_fits32 a s \<longleftrightarrow> (case a of Memalign al sz \<Rightarrow> pa_fits32 al sz s | _ \<Rightarrow> True)"

definition op_sane :: "phys_op \<Rightarrow> bool" where
  "op_sane a \<longleftrightarrow> (case a of Memalign al sz \<Rightarrow> pa_sane al sz | _ \<Rightarrow> True)"

lemma op_sane_fits32: "op_sane a \<Longrightarrow> op_fits32 a s"
  by (auto simp: op_sane_def op_fits32_def pa_sane_fits32 split: phys_op.splits)

lemma phys_step_inv: "phys_step s a t \<Longrightarrow> phys_inv lo hi s \<Longrightarrow> op_fits32 a s \<Longrightarrow> phys_inv lo hi t"
proof (induction rule: phys_step.induct)
  case (show_step s t)
  then show ?case using phys_inv_show by fastforce
next
  case (align_step al s t)
  then show ?case using phys_inv_set_align [OF align_step(2), of al] by auto
next
  case (memalign_step al sz s p t)
  then show ?case using granted_inv by (auto simp: op_fits32_def)
next
  case (unused_step s r t)
  then have "pa_nr_regions s \<le> PHYS_ALLOC_NR_REGIONS" by (simp add: phys_inv_def)
  then consider "pa_nr_regions s < PHYS_ALLOC_NR_REGIONS" | "pa_nr_regions s = PHYS_ALLOC_NR_REGIONS"
    by linarith
  then show ?case
    using unused_step phys_get_unused_ok [OF unused_step(2)] phys_get_unused_full [OF unused_step(2)]
    by cases (auto split: if_splits)
qed

lemma phys_run_core: "phys_run s as t \<Longrightarrow> phys_core lo hi s \<Longrightarrow> phys_core lo hi t"
  by (induction rule: phys_run.induct) (auto intro: phys_step_core)

lemma phys_run_inv:
  "phys_run s as t \<Longrightarrow> phys_inv lo hi s \<Longrightarrow> \<forall>a\<in>set as. op_sane a \<Longrightarrow> phys_inv lo hi t"
  by (induction rule: phys_run.induct) (auto intro: phys_step_inv op_sane_fits32)

text \<open>No call blocks: each has a successor, but for \<open>get_unused\<close> with a full log, which writes out of
  bounds.\<close>

lemma phys_step_total:
  assumes "phys_core lo hi s"
  shows "(\<exists>t. phys_step s a t) \<or>
    a = Get_unused \<and> phys_alloc_get_unused s = Some (Inl (OutOfBounds ''regions'' 256))"
proof (cases a)
  case (Memalign al sz)
  then show ?thesis using early_memalign_core [OF assms, of al sz] by (auto simp: phys_step_simps)
next
  case Get_unused
  have "pa_nr_regions s \<le> 256" using assms by (simp add: phys_core_def PHYS_ALLOC_NR_REGIONS_def)
  then show ?thesis
    using Get_unused phys_core_lock [OF assms]
    by (auto simp: phys_step_simps phys_alloc_get_unused_def Let_def spin_lock_free
        PHYS_ALLOC_NR_REGIONS_def)
qed (use phys_core_lock [OF assms] in \<open>simp_all add: phys_step_simps phys_alloc_show_def
    phys_alloc_set_minimum_alignment_def Let_def spin_lock_free pa_print_def\<close>)

lemma mem_init_result:
  "\<exists>cs. mem_init phys_state0 =
     Some (pa_print cs (phys_state0\<lparr>pa_base := 0x300000, pa_top := 0x7FE0000\<rparr>))"
proof -
  let ?s = "phys_state0\<lparr>pa_base := 0x300000, pa_top := 0x7FE0000\<rparr>"
  have "phys_alloc_init 0x300000 0x7ce0000 phys_state0 = Some ?s"
    by (simp add: phys_alloc_init_def phys_state0_def pa_frame)
  moreover have "phys_inv 0x300000 0x7FE0000 ?s"
    by (simp add: phys_inv_def phys_state0_def lock_free_def)
  ultimately show ?thesis
    using phys_inv_show [of "0x300000" "0x7FE0000" ?s] by (simp add: mem_init_def)
qed

lemma mem_init_inv: "mem_init phys_state0 = Some s \<Longrightarrow> phys_inv 0x300000 0x7FE0000 s"
  using mem_init_result by (auto simp: phys_inv_def phys_state0_def lock_free_def pa_print_def)

lemma early_memalign_all_cases:
  assumes "phys_core lo hi s"
  shows "\<exists>p s'. early_memalign al sz s = Some (p, s') \<and> phys_core lo hi s' \<and>
    (is_power_of_2 al \<longrightarrow> aligned p (unat al)) \<and>
    (if pa_top s - pa_base s < sz + pa_gap s al
     then p = 0 \<and> pa_base s' = pa_base s \<and> pa_regions s' = pa_regions s
     else p = (if ALIGN (pa_base s) al = INVALID_PHYS_ADDR then 0 else ALIGN (pa_base s) al) \<and>
       pa_base s' = pa_base s + (sz + pa_gap s al) \<and> unat (pa_base s) \<le> unat (pa_base s') \<and>
       (p \<noteq> 0 \<longrightarrow>
         (unat (pa_base s) \<le> unat p \<and> unat p + unat sz \<le> hi \<longleftrightarrow>
            unat sz + unat (pa_gap s al) < 2 ^ 32))) \<and>
    (unat sz + unat (pa_gap s al) < 2 ^ 32 \<longrightarrow>
       (phys_inv lo hi s \<longrightarrow> phys_inv lo hi s') \<and>
       (0 < lo \<and> 0 < sz \<longrightarrow>
         (p \<noteq> 0 \<longleftrightarrow> unat (pa_base s) + unat (pa_gap s al) + unat sz \<le> hi) \<and>
         (p \<noteq> 0 \<longrightarrow> unat p + unat sz = unat (pa_base s'))))"
proof -
  note l = phys_core_lock [OF assms] and le = phys_core_base_le [OF assms]
  have hi: "unat (pa_top s) = hi" and lo: "lo \<le> unat (pa_base s)"
    using assms by (simp_all add: phys_core_def)
  obtain p s' where e: "early_memalign al sz s = Some (p, s')" "phys_core lo hi s'"
      "unat (pa_base s) \<le> unat (pa_base s')"
    using early_memalign_core [OF assms] by blast
  have al: "is_power_of_2 al \<longrightarrow> aligned p (unat al)" using granted_aligned l e(1) by blast
  have inv: "pa_fits32 al sz s \<longrightarrow> phys_inv lo hi s \<longrightarrow> phys_inv lo hi s'"
    using granted_inv e(1) by blast
  show ?thesis
  proof (cases "pa_top s - pa_base s < sz + pa_gap s al")
    case True
    have "p = 0 \<and> pa_base s' = pa_base s \<and> pa_regions s' = pa_regions s"
      using early_memalign_refuse [OF l True] e(1) by auto
    moreover have "pa_fits32 al sz s \<longrightarrow> \<not> pa_enough al sz s" using True pa_guard [OF _ le] by blast
    ultimately show ?thesis
      using e al inv True hi
      by (intro exI [of _ p] exI [of _ s']) (simp add: pa_fits32_def pa_enough_def)
  next
    case False
    have p: "p = (if ALIGN (pa_base s) al = INVALID_PHYS_ADDR then 0 else ALIGN (pa_base s) al)"
        "pa_base s' = pa_base s + (sz + pa_gap s al)"
      using early_memalign_grant [OF l False] e(1) by (auto split: if_splits)
    have inside: "p \<noteq> 0 \<longrightarrow> (unat (pa_base s) \<le> unat p \<and> unat p + unat sz \<le> hi \<longleftrightarrow> pa_fits32 al sz s)"
      using granted_inside [OF le False] granted_outside [of al sz s] p e(2) hi
      by (auto simp: phys_core_def split: if_splits)
    have "p \<noteq> 0 \<and> pa_enough al sz s \<and> unat p + unat sz = unat (pa_base s')"
      if f: "pa_fits32 al sz s" "0 < lo" "0 < sz"
    proof -
      note g = granted_inside [OF le False f(1)]
      have v: "ALIGN (pa_base s) al \<noteq> INVALID_PHYS_ADDR" using granted_valid [OF f(1) g(1) f(3)] .
      then have "p = ALIGN (pa_base s) al" using p(1) by simp
      moreover have "0 < unat (ALIGN (pa_base s) al)" using g(2) lo f(2) by linarith
      ultimately show ?thesis using g p(2) by auto
    qed
    with e al inv inside p False hi show ?thesis
      by (intro exI [of _ p] exI [of _ s']) (simp add: pa_fits32_def pa_enough_def)
  qed
qed

section \<open>Properties\<close>

text \<open>C14. Whatever calls are made after \<open>mem_init\<close>, with whatever arguments, the lock is free, the bump
  pointer is inside the pool and the log holds at most its 256 entries, and every further call returns,
  but for a \<open>get_unused\<close> that overruns the full log. If moreover no allocation asked for a size that
  wraps (a power of two as alignment, a positive size, the two together at most 2^32), the logged
  regions are in order, disjoint, inside the pool and below the pointer. Without that condition the
  second part is false: \<open>early_memalign_wraps\<close>.\<close>

theorem phys_reachable_inv:
  assumes "mem_init phys_state0 = Some s0" "phys_run s0 as s"
  shows "phys_core 0x300000 0x7FE0000 s \<and>
    ((\<exists>t. phys_step s a t) \<or>
      a = Get_unused \<and> phys_alloc_get_unused s = Some (Inl (OutOfBounds ''regions'' 256))) \<and>
    ((\<forall>al sz. Memalign al sz \<in> set as \<longrightarrow> pa_sane al sz) \<longrightarrow> phys_inv 0x300000 0x7FE0000 s)"
proof -
  note i = mem_init_inv [OF assms(1)]
  note core = phys_run_core [OF assms(2) phys_inv_coreD [OF i]]
  have "phys_inv 0x300000 0x7FE0000 s" if "\<forall>al sz. Memalign al sz \<in> set as \<longrightarrow> pa_sane al sz"
    using that by (intro phys_run_inv [OF assms(2) i]) (auto simp: op_sane_def split: phys_op.split)
  with core phys_step_total [OF core, of a] show ?thesis by blast
qed

theorem phys_reachable_inv_witness:
  "\<exists>s0 s. mem_init phys_state0 = Some s0 \<and> early_memalign 64 100 s0 = Some (0x300000, s) \<and>
     phys_inv 0x300000 0x7FE0000 s \<and> pa_nr_regions s = 1"
proof -
  obtain s0 where s0: "mem_init phys_state0 = Some s0"
    and f: "pa_base s0 = 0x300000" "pa_top s0 = 0x7FE0000" "pa_nr_regions s0 = 0"
    using mem_init_result by (auto simp: pa_print_def phys_state0_def)
  have sane: "pa_sane 64 100" by (simp add: pa_sane_def is_power_of_2_def)
  have "pa_enough 64 100 s0"
    by (simp add: pa_enough_def pa_gap_def f ALIGN_def align_mask_def)
  from early_memalign_ok [OF mem_init_inv [OF s0] sane this] obtain s where
    s: "early_memalign 64 100 s0 = Some (0x300000, s)" "pa_nr_regions s = 1"
    by (simp add: f ALIGN_def align_mask_def pa_log_region_def PHYS_ALLOC_NR_REGIONS_def)
  then have "phys_step s0 (Memalign 64 100) s" by (simp add: phys_step_simps)
  then have "phys_run s0 ([] @ [Memalign 64 100]) s" by (rule run_snoc [OF run_Nil])
  from phys_reachable_inv [OF s0 this] s s0 sane show ?thesis by auto
qed

text \<open>C24. One request to the early allocator, for every alignment and every size: the call returns, and
  the 32-bit comparison of gap plus size with the rest of the pool decides. A refused request gives
  NULL and moves nothing. A granted one moves the pointer by gap plus size modulo 2^32, forward and
  inside the pool, and gives the aligned address (NULL if that is the error value 0xFFFFFFFF); the
  block lies inside the pool exactly if gap plus size does not wrap. Then the request is granted
  exactly if gap and block fit the rest of the pool, the block ends at the new pointer, and the log
  stays well formed.\<close>

theorem early_memalign_correct:
  assumes "phys_core lo hi s"
  shows "\<exists>p s'. early_memalign al sz s = Some (p, s') \<and> phys_core lo hi s' \<and>
    (is_power_of_2 al \<longrightarrow> aligned p (unat al)) \<and>
    (if pa_top s - pa_base s < sz + pa_gap s al
     then p = 0 \<and> pa_base s' = pa_base s \<and> pa_regions s' = pa_regions s
     else p = (if ALIGN (pa_base s) al = INVALID_PHYS_ADDR then 0 else ALIGN (pa_base s) al) \<and>
       pa_base s' = pa_base s + (sz + pa_gap s al) \<and> unat (pa_base s) \<le> unat (pa_base s') \<and>
       (p \<noteq> 0 \<longrightarrow>
         (unat (pa_base s) \<le> unat p \<and> unat p + unat sz \<le> hi \<longleftrightarrow>
            unat sz + unat (pa_gap s al) < 2 ^ 32))) \<and>
    (unat sz + unat (pa_gap s al) < 2 ^ 32 \<longrightarrow>
       (phys_inv lo hi s \<longrightarrow> phys_inv lo hi s') \<and>
       (0 < lo \<and> 0 < sz \<longrightarrow>
         (p \<noteq> 0 \<longleftrightarrow> unat (pa_base s) + unat (pa_gap s al) + unat sz \<le> hi) \<and>
         (p \<noteq> 0 \<longrightarrow> unat p + unat sz = unat (pa_base s'))))"
  by (rule early_memalign_all_cases [OF assms])

theorem early_memalign_correct_witness:
  "\<exists>s s'. phys_inv 0x300000 0x7FE0000 s \<and> unat (pa_gap s 0x1000) = 0 \<and>
     early_memalign 0x1000 56 s = Some (0x300000, s') \<and> unat (pa_base s') = 0x300038"
proof -
  obtain s where s: "mem_init phys_state0 = Some s" "pa_base s = 0x300000" "pa_top s = 0x7FE0000"
    using mem_init_result by (auto simp: pa_print_def phys_state0_def)
  have gap: "pa_gap s 0x1000 = 0" "ALIGN 0x300000 0x1000 = 0x300000"
    by (simp_all add: pa_gap_def s ALIGN_def align_mask_def)
  from early_memalign_correct [OF phys_inv_coreD [OF mem_init_inv [OF s(1)]], of "0x1000" 56]
  obtain p s' where "early_memalign 0x1000 56 s = Some (p, s')" "p = 0x300000" "pa_base s' = 0x300038"
    by (auto simp: gap s INVALID_PHYS_ADDR_def)
  with mem_init_inv [OF s(1)] gap show ?thesis by auto
qed

text \<open>C25. For any list of requests, with any alignments and sizes, all calls return; every block granted
  to a request that wraps in no state (\<open>pa_sane\<close>) lies inside the pool, and no two such blocks share a
  byte, also when the log of 256 regions is long full and whatever the requests between them were.
  The block of a request that wraps lies outside the pool (\<open>early_memalign_correct\<close>).\<close>

theorem phys_blocks_disjoint:
  assumes "phys_core lo hi s"
  shows "\<exists>ps s'. memalign_all rs s = Some (ps, s') \<and> length ps = length rs \<and>
    (\<forall>i<length rs. pa_sane (fst (rs ! i)) (snd (rs ! i)) \<and> ps ! i \<noteq> 0 \<longrightarrow>
       lo \<le> unat (ps ! i) \<and> unat (ps ! i) + unat (snd (rs ! i)) \<le> hi) \<and>
    (\<forall>i j. i < j \<and> j < length rs \<and>
       pa_sane (fst (rs ! i)) (snd (rs ! i)) \<and> ps ! i \<noteq> 0 \<and>
       pa_sane (fst (rs ! j)) (snd (rs ! j)) \<and> ps ! j \<noteq> 0 \<longrightarrow>
       span (ps ! i) (unat (snd (rs ! i))) \<inter> span (ps ! j) (unat (snd (rs ! j))) = {})"
proof -
  from memalign_all_core [OF assms] obtain ps s' where
    m: "memalign_all rs s = Some (ps, s')" "length ps = length rs" "phys_core lo hi s'" by blast
  note blocks = memalign_all_blocks [OF assms m(1)]
  have b: "lo \<le> unat (pa_base s)" "unat (pa_base s') \<le> hi" "hi < 2 ^ 32"
    using assms m(3) unat_less_32 [of "pa_top s"] by (auto simp: phys_core_def)
  have ins: "unat (pa_base s) \<le> unat (ps ! i) \<and> unat (ps ! i) + unat (snd (rs ! i)) \<le> unat (pa_base s')"
    if "i < length rs" "sane_block (rs ! i) (ps ! i)" for i
    using list_all2_nthD [OF blocks(1) that(1)] that(2) by blast
  have "span (ps ! i) (unat (snd (rs ! i))) \<inter> span (ps ! j) (unat (snd (rs ! j))) = {}"
    if "i < j" "j < length rs" "sane_block (rs ! i) (ps ! i)" "sane_block (rs ! j) (ps ! j)" for i j
    using that sorted_wrt_nth_less [OF blocks(2) that(1)] ins [of i] ins [of j] m(2) b
    by (intro span_disjoint) auto
  with ins b m show ?thesis by (fastforce simp: sane_block_def)
qed

theorem phys_blocks_disjoint_witness:
  "\<exists>s p q s'. mem_init phys_state0 = Some s \<and>
     memalign_all [(64, 56), (0x400000, 0xFFF00010), (0x1000, 90)] s = Some ([0x300000, p, q], s') \<and>
     q \<noteq> 0 \<and> span 0x300000 56 \<inter> span q 90 = {}"
proof -
  obtain s where m: "mem_init phys_state0 = Some s"
    and f: "pa_base s = 0x300000" "pa_top s = 0x7FE0000" "v (pa_lock s) = 0" "pa_nr_regions s = 0"
    using mem_init_result by (auto simp: pa_print_def phys_state0_def)
  let ?rs = "[(64, 56), (0x400000, 0xFFF00010), (0x1000, 90)] :: (u32 \<times> u32) list"
  note unfold = early_memalign_def phys_alloc_aligned_safe_def pa_print_def spin_lock_def top_safe_eq
    ALIGN_def align_mask_def pa_log_region_def pa_unlock_def spin_unlock_def INVALID_PHYS_ADDR_def
    PHYS_ALLOC_NR_REGIONS_def c_assert_def Let_def
  obtain p q s' where e: "memalign_all ?rs s = Some ([0x300000, p, q], s')" "q \<noteq> 0"
    by (simp add: unfold f)
  have "pa_sane 64 56" "pa_sane 0x1000 90" by (simp_all add: pa_sane_def is_power_of_2_def)
  moreover obtain ps t where t: "memalign_all ?rs s = Some (ps, t)"
    and d: "\<forall>i j. i < j \<and> j < length ?rs \<and>
       pa_sane (fst (?rs ! i)) (snd (?rs ! i)) \<and> ps ! i \<noteq> 0 \<and>
       pa_sane (fst (?rs ! j)) (snd (?rs ! j)) \<and> ps ! j \<noteq> 0 \<longrightarrow>
       span (ps ! i) (unat (snd (?rs ! i))) \<inter> span (ps ! j) (unat (snd (?rs ! j))) = {}"
    using phys_blocks_disjoint [OF phys_inv_coreD [OF mem_init_inv [OF m]], of ?rs] by blast
  moreover have "ps = [0x300000, p, q]" using t e by simp
  ultimately have "span 0x300000 56 \<inter> span q 90 = {}"
    using e(2) spec [OF spec [OF d, of 0], of 2] by simp
  with m e show ?thesis by blast
qed

text \<open>The pool that \<open>mem_init\<close> sets up runs from 0x300000 to 0x7FE0000: the second argument of
  \<open>phys_alloc_init\<close> is a size, so the pool ends 0x300000 bytes above the end address 0x7CE0000 that
  HARDCODED_MEMORY.md gives for it.\<close>

theorem mem_init_pool:
  "\<exists>s. mem_init phys_state0 = Some s \<and> pa_base s = 0x300000 \<and> pa_top s = 0x7FE0000 \<and>
     pa_top s = 0x7CE0000 + 0x300000 \<and> phys_inv 0x300000 0x7FE0000 s"
  using mem_init_result mem_init_inv by (fastforce simp: pa_print_def)

text \<open>\<open>phys_alloc_get_unused\<close> hands out the whole rest of the pool and leaves nothing as long as the
  log has a free entry; once the 256 entries are used it writes one past the end of \<open>regions\<close>
  (unless the pool is empty), because it does not check the bound that
  \<open>phys_alloc_aligned_safe\<close> checks.\<close>

theorem phys_get_unused_cases:
  assumes "phys_inv lo hi s"
  shows "(pa_nr_regions s < 256 \<longrightarrow>
      (\<exists>s'. phys_alloc_get_unused s = Some (Inr ((pa_base s, pa_top s), s')) \<and>
        phys_inv lo hi s' \<and> pa_base s' = pa_top s)) \<and>
    (pa_nr_regions s = 256 \<and> pa_base s \<noteq> pa_top s \<longrightarrow>
      phys_alloc_get_unused s = Some (Inl (OutOfBounds ''regions'' 256)))"
  using phys_get_unused_ok [OF assms] phys_get_unused_full [OF assms]
  by (simp add: PHYS_ALLOC_NR_REGIONS_def)

definition pa_full_log :: phys_state where
  "pa_full_log = phys_state0\<lparr>pa_regions := replicate 256 \<lparr>r_base = 0x1000, r_size = 0\<rparr>,
     pa_nr_regions := 256, pa_base := 0x2000, pa_top := 0x3000\<rparr>"

theorem phys_get_unused_cases_witness:
  "phys_inv 0x1000 0x3000 pa_full_log \<and>
   phys_alloc_get_unused pa_full_log = Some (Inl (OutOfBounds ''regions'' 256))"
proof -
  have inv: "phys_inv 0x1000 0x3000 pa_full_log"
    by (auto simp: phys_inv_def pa_full_log_def phys_state0_def lock_free_def
        PHYS_ALLOC_NR_REGIONS_def pa_blocks_ok_def sorted_wrt_iff_nth_less)
  show ?thesis
    using inv phys_get_unused_cases [OF inv] by (simp add: pa_full_log_def)
qed

text \<open>The size check of the allocator is done after the gap has been added in 32 bits, so a request
  whose size plus gap wraps passes it: with the pool of \<open>mem_init\<close>, a block of 0xFFF00010 bytes at
  0x400000 is granted while the bump pointer moves by 16 bytes only, and the next request receives
  a block that contains that address.\<close>

theorem early_memalign_wraps:
  "\<exists>s s1 s2. mem_init phys_state0 = Some s \<and>
     early_memalign 0x400000 0xFFF00010 s = Some (0x400000, s1) \<and> pa_base s1 = 0x300010 \<and>
     early_memalign 64 0x200000 s1 = Some (0x300040, s2) \<and> 0x400000 \<in> span 0x300040 0x200000"
proof -
  obtain s where m: "mem_init phys_state0 = Some s"
    and f: "pa_base s = 0x300000" "pa_top s = 0x7FE0000" "v (pa_lock s) = 0" "pa_nr_regions s = 0"
    using mem_init_result by (auto simp: pa_print_def phys_state0_def)
  note unfold = early_memalign_def phys_alloc_aligned_safe_def pa_print_def spin_lock_def top_safe_eq
    ALIGN_def align_mask_def pa_log_region_def pa_unlock_def spin_unlock_def INVALID_PHYS_ADDR_def
    PHYS_ALLOC_NR_REGIONS_def c_assert_def Let_def
  obtain s1 where s1: "early_memalign 0x400000 0xFFF00010 s = Some (0x400000, s1)"
    "pa_base s1 = 0x300010" "pa_top s1 = 0x7FE0000" "v (pa_lock s1) = 0" "pa_nr_regions s1 = 1"
    by (simp add: unfold f)
  obtain s2 where "early_memalign 64 0x200000 s1 = Some (0x300040, s2)"
    by (simp add: unfold s1(2-))
  with m s1 show ?thesis by (auto simp: span_iff)
qed

end
