(* ===== verification/Page_Alloc.thy ===== *)
theory Page_Alloc
  imports C_Prelude
begin

text \<open>
  The page allocator (\<open>src/kernel/mem/alloc_page.c\<close>, \<open>alloc_page.h\<close>): a singly linked list of free
  pages whose links are stored in the first word of each page. The static variables \<open>lock\<close> and
  \<open>freelist\<close> are the fields of \<open>page_state\<close>; the links are in the flat memory. The abstraction is
  the list of the free pages' addresses in list order (\<open>plist\<close>).
\<close>

unbundle bit_operations_syntax

section \<open>State and constants\<close>

definition PAGE_SHIFT :: nat where "PAGE_SHIFT = 12"
definition PAGE_SIZE :: u32 where "PAGE_SIZE = 4096"

record page_state =
  pg_lock :: spinlock
  pg_freelist :: u32
  pg_out :: "pcall list"

definition page_state0 :: page_state where
  "page_state0 = \<lparr>pg_lock = \<lparr>v = 0\<rparr>, pg_freelist = 0x200000, pg_out = []\<rparr>"

definition pg_print :: "pcall list \<Rightarrow> page_state \<Rightarrow> page_state" where
  "pg_print cs s = s\<lparr>pg_out := pg_out s @ cs\<rparr>"

text \<open>\<open>__builtin_clzl\<close>: the number of leading zeros; undefined for 0, see \<open>page_memalign\<close>.\<close>

definition clz :: "u32 \<Rightarrow> nat" where
  "clz w = length (takeWhile Not (map (bit w) (rev [0..<32])))"

definition fls :: "u32 \<Rightarrow> u32" where
  "fls word = 32 - of_nat (clz word) - 1"

section \<open>Operations\<close>

definition page_alloc_initialized :: "page_state \<Rightarrow> bool" where
  "page_alloc_initialized s \<longleftrightarrow> pg_freelist s \<noteq> 0"

text \<open>The local variables of the search for a run of pages.\<close>

record run_state =
  rn_run :: u32
  rn_start :: u32
  rn_prev :: u32
  rn_next_pa :: u32

definition run_step :: "u32 \<Rightarrow> u32 \<Rightarrow> u32 \<Rightarrow> run_state \<Rightarrow> run_state" where
  "run_step amask prev cur r =
     (if rn_run r = 0 then
        (if cur AND amask = 0 then
           r\<lparr>rn_start := cur, rn_prev := prev, rn_next_pa := cur + PAGE_SIZE, rn_run := 1\<rparr>
         else r)
      else if cur = rn_next_pa r then
        r\<lparr>rn_next_pa := rn_next_pa r + PAGE_SIZE, rn_run := rn_run r + 1\<rparr>
      else r\<lparr>rn_run := 0\<rparr>)"

text \<open>The loop of \<open>alloc_pages\<close>; the result is \<open>run_start\<close>, the new \<open>freelist\<close> and the memory.\<close>

partial_function (option) alloc_pages_loop ::
    "u32 \<Rightarrow> u32 \<Rightarrow> memory \<Rightarrow> u32 \<Rightarrow> u32 \<Rightarrow> u32 \<Rightarrow> run_state \<Rightarrow> (u32 \<times> u32 \<times> memory) option" where
  "alloc_pages_loop n amask m freelist prev cur r =
     (if cur = 0 then Some (0, freelist, m)
      else let nxt = load32 m cur; r' = run_step amask prev cur r
           in if rn_run r' = n then
                (if rn_prev r' \<noteq> 0 then Some (rn_start r', freelist, store32 m (rn_prev r') nxt)
                 else Some (rn_start r', nxt, m))
              else alloc_pages_loop n amask m freelist cur nxt r')"

text \<open>The shift count of \<open>1ul << order\<close> is taken modulo 32, as the shift instruction of the build
  does; the assertion that follows only prints.\<close>

definition alloc_pages :: "u32 \<Rightarrow> page_state \<Rightarrow> memory \<Rightarrow> (u32 \<times> page_state \<times> memory) option" where
  "alloc_pages order s m =
     (let n = push_bit (unat order mod 32) 1;
          amask = push_bit PAGE_SHIFT n - 1;
          s1 = pg_print (c_assert (order < 32) ''alloc_page.c'' 36 ''order < sizeof(uint32_t) * 8'') s
      in case spin_lock (pg_lock s1) of
           None \<Rightarrow> None
         | Some l \<Rightarrow>
            (case alloc_pages_loop n amask m (pg_freelist s1) 0 (pg_freelist s1)
                    \<lparr>rn_run = 0, rn_start = 0, rn_prev = 0, rn_next_pa = 0\<rparr> of
               None \<Rightarrow> None
             | Some (p, fl, m') \<Rightarrow>
                 Some (p, s1\<lparr>pg_freelist := fl, pg_lock := spin_unlock l\<rparr>, m')))"

text \<open>The loop of \<open>free_pages\<close> that links each page to the one behind it; the result is the memory
  and the address of the last page.\<close>

partial_function (option) link_pages :: "memory \<Rightarrow> u32 \<Rightarrow> u32 \<Rightarrow> (memory \<times> u32) option" where
  "link_pages m mem fin =
     (if mem + PAGE_SIZE = fin then Some (m, mem)
      else link_pages (store32 m mem (mem + PAGE_SIZE)) (mem + PAGE_SIZE) fin)"

definition free_pages :: "u32 \<Rightarrow> u32 \<Rightarrow> page_state \<Rightarrow> memory \<Rightarrow> (page_state \<times> memory) option" where
  "free_pages mem sz s m =
     (let s1 = pg_print
            (c_assert_msg (mem mod PAGE_SIZE = 0) ''alloc_page.c'' 83
               ''(uint32_t) mem % PAGE_SIZE == 0'' ''mem not page aligned: %p'' [PWord mem]
           @ c_assert_msg (sz mod PAGE_SIZE = 0) ''alloc_page.c'' 85
               ''size % PAGE_SIZE == 0'' ''size not page aligned: %#x'' [PWord sz]
           @ c_assert_msg (sz = 0 \<or> mem = - sz \<or> mem + sz > mem) ''alloc_page.c'' 87
               ''size == 0 || (uintptr_t)mem == -size || (uintptr_t)mem + size > (uintptr_t)mem''
               ''mem + size overflow: %p + %#x'' [PWord mem, PWord sz]) s
      in if sz = 0 then Some (s1\<lparr>pg_freelist := 0\<rparr>, m)
         else case spin_lock (pg_lock s1) of
           None \<Rightarrow> None
         | Some l \<Rightarrow>
            (case link_pages m mem (mem + sz) of
               None \<Rightarrow> None
             | Some (m', last_mem) \<Rightarrow>
                 Some (s1\<lparr>pg_freelist := mem, pg_lock := spin_unlock l\<rparr>,
                       store32 m' last_mem (pg_freelist s1))))"

definition free_page :: "u32 \<Rightarrow> page_state \<Rightarrow> memory \<Rightarrow> (page_state \<times> memory) option" where
  "free_page page s m =
     (case spin_lock (pg_lock s) of
        None \<Rightarrow> None
      | Some l \<Rightarrow> Some (s\<lparr>pg_freelist := page, pg_lock := spin_unlock l\<rparr>,
                        store32 m page (pg_freelist s)))"

definition alloc_page :: "page_state \<Rightarrow> memory \<Rightarrow> (u32 \<times> page_state) option" where
  "alloc_page s m =
     (if pg_freelist s = 0 then Some (0, s)
      else case spin_lock (pg_lock s) of
        None \<Rightarrow> None
      | Some l \<Rightarrow> Some (pg_freelist s,
          s\<lparr>pg_freelist := load32 m (pg_freelist s), pg_lock := spin_unlock l\<rparr>))"

text \<open>\<open>page_memalign\<close> ignores its alignment argument. A size above 0xFFFFF000 is rounded up to 0
  pages, and \<open>fls(0)\<close> is undefined.\<close>

definition page_memalign ::
    "u32 \<Rightarrow> u32 \<Rightarrow> page_state \<Rightarrow> memory \<Rightarrow> (fault + u32 \<times> page_state \<times> memory) option" where
  "page_memalign alignment sz s m =
     (let n = drop_bit PAGE_SHIFT (ALIGN sz PAGE_SIZE)
      in if sz = 0 then Some (Inr (0, s, m))
         else if n = 0 then Some (Inl (Undefined ''__builtin_clzl(0)''))
         else let order = (if is_power_of_2 n then fls n else fls n + 1)
              in map_option Inr (alloc_pages order s m))"

definition page_free :: "u32 \<Rightarrow> u32 \<Rightarrow> page_state \<Rightarrow> memory \<Rightarrow> (page_state \<times> memory) option" where
  "page_free mem sz s m = free_pages mem sz s m"

section \<open>The free list as a list of pages\<close>

text \<open>\<open>ppath m p xs q\<close>: from \<open>p\<close> the links in \<open>m\<close> visit the pages \<open>xs\<close> and arrive at \<open>q\<close>.\<close>

primrec ppath :: "memory \<Rightarrow> u32 \<Rightarrow> u32 list \<Rightarrow> u32 \<Rightarrow> bool" where
  "ppath m p [] q \<longleftrightarrow> p = q"
| "ppath m p (x # xs) q \<longleftrightarrow> p = x \<and> x \<noteq> 0 \<and> ppath m (load32 m x) xs q"

definition pages_ok :: "u32 list \<Rightarrow> bool" where
  "pages_ok xs \<longleftrightarrow> distinct xs \<and> (\<forall>x\<in>set xs. x \<noteq> 0 \<and> aligned x 4096)"

text \<open>\<open>free_list m p xs\<close>: the allocator whose \<open>freelist\<close> is \<open>p\<close> owns exactly the pages \<open>xs\<close>, which are
  page-aligned, not NULL and all different.\<close>

definition free_list :: "memory \<Rightarrow> u32 \<Rightarrow> u32 list \<Rightarrow> bool" where
  "free_list m p xs \<longleftrightarrow> ppath m p xs 0 \<and> pages_ok xs"

lemma pages_ok_Nil [simp]: "pages_ok []"
  by (simp add: pages_ok_def)

lemma pages_ok_Cons: "pages_ok (x # xs) \<longleftrightarrow>
    x \<noteq> 0 \<and> aligned x 4096 \<and> x \<notin> set xs \<and> pages_ok xs"
  by (auto simp: pages_ok_def)

lemma pages_ok_append: "pages_ok (xs @ ys) \<longleftrightarrow>
    pages_ok xs \<and> pages_ok ys \<and> set xs \<inter> set ys = {}"
  by (auto simp: pages_ok_def)

lemma pages_ok_aligned: "pages_ok xs \<Longrightarrow> x \<in> set xs \<Longrightarrow> aligned x 4096"
  by (simp add: pages_ok_def)

lemma ppath_append: "ppath m p (xs @ ys) q \<longleftrightarrow> (\<exists>r. ppath m p xs r \<and> ppath m r ys q)"
  by (induction xs arbitrary: p) auto

lemma ppath_0: "ppath m 0 xs q \<longleftrightarrow> xs = [] \<and> q = 0"
  by (cases xs) auto

lemma ppath_hd: "ppath m p xs q \<Longrightarrow> xs \<noteq> [] \<Longrightarrow> p = hd xs"
  by (cases xs) auto

lemma ppath_cong:
  "(\<And>x b. x \<in> set xs \<Longrightarrow> b \<in> span x 4 \<Longrightarrow> m b = m' b) \<Longrightarrow> ppath m p xs q = ppath m' p xs q"
proof (induction xs arbitrary: p)
  case (Cons x xs)
  have "load32 m x = load32 m' x"
    by (rule load32_cong) (use Cons.prems in auto)
  moreover have "ppath m (load32 m x) xs q = ppath m' (load32 m x) xs q"
    by (rule Cons.IH) (use Cons.prems in auto)
  ultimately show ?case by simp
qed simp

text \<open>A store into a page that is not on the path leaves the path alone.\<close>

lemma ppath_store:
  assumes "\<And>x. x \<in> set xs \<Longrightarrow> aligned x 4096" "aligned a 4096" "a \<notin> set xs"
  shows "ppath (store32 m a w) p xs q = ppath m p xs q"
  using assms
proof (induction xs arbitrary: p)
  case (Cons x xs)
  then have "load32 (store32 m a w) x = load32 m x"
    by (intro aligned_load32_store32) auto
  with Cons show ?case by simp
qed simp

text \<open>Redirecting the last link of a path.\<close>

lemma ppath_redirect:
  assumes "ppath m p (xs @ [a]) q" "pages_ok (xs @ [a])"
  shows "ppath (store32 m a w) p (xs @ [a]) w"
proof -
  have ok: "\<And>x. x \<in> set xs \<Longrightarrow> aligned x 4096" "aligned a 4096" "a \<notin> set xs"
    using assms(2) by (auto simp: pages_ok_append pages_ok_Cons pages_ok_aligned)
  from assms(1) have "ppath m p xs a" "a \<noteq> 0" by (auto simp: ppath_append)
  with ok show ?thesis
    by (auto simp: ppath_append ppath_store load32_store32)
qed

text \<open>Unlinking a middle segment: the page before it is made to point behind it.\<close>

lemma ppath_unlink:
  assumes "ppath m p (pre @ run @ post) 0" "pages_ok (pre @ run @ post)" "pre \<noteq> []"
    "ppath m w post 0"
  shows "ppath (store32 m (last pre) w) p (pre @ post) 0"
proof -
  from assms(3) obtain ps where pre: "pre = ps @ [last pre]"
    by (metis append_butlast_last_id)
  from assms(1) obtain r where "ppath m p pre r" by (auto simp: ppath_append)
  moreover have "pages_ok pre" using assms(2) by (simp add: pages_ok_append)
  ultimately have "ppath (store32 m (last pre) w) p pre w"
    using pre ppath_redirect by metis
  moreover have "ppath (store32 m (last pre) w) w post 0"
  proof (subst ppath_store)
    show "\<And>x. x \<in> set post \<Longrightarrow> aligned x 4096" "aligned (last pre) 4096" "last pre \<notin> set post"
      using assms(2) last_in_set [OF assms(3)]
      by (auto simp: pages_ok_append pages_ok_aligned)
  qed (rule assms(4))
  ultimately show ?thesis by (auto simp: ppath_append)
qed

lemma free_list_hd: "free_list m p (x # xs) \<Longrightarrow> p = x"
  by (simp add: free_list_def)

lemma free_list_0: "free_list m 0 xs \<longleftrightarrow> xs = []"
  by (auto simp: free_list_def ppath_0)

text \<open>The list depends on the first word of its pages only.\<close>

lemma free_list_cong:
  assumes "free_list m p xs" "\<And>x b. x \<in> set xs \<Longrightarrow> b \<in> span x 4 \<Longrightarrow> m b = m' b"
  shows "free_list m' p xs"
  using assms ppath_cong [of xs m m' p 0] by (simp add: free_list_def)

section \<open>One page at a time\<close>

lemma alloc_page_Nil:
  "free_list m (pg_freelist s) [] \<Longrightarrow> alloc_page s m = Some (0, s)"
  by (simp add: free_list_def alloc_page_def)

lemma alloc_page_Cons:
  assumes "lock_free (pg_lock s)" "free_list m (pg_freelist s) (x # xs)"
  shows "\<exists>s'. alloc_page s m = Some (x, s') \<and> lock_free (pg_lock s') \<and>
    free_list m (pg_freelist s') xs"
  using assms by (auto simp: alloc_page_def spin_lock_free free_list_def pages_ok_Cons)

lemma free_page_spec:
  assumes "lock_free (pg_lock s)" "free_list m (pg_freelist s) xs"
    "x \<noteq> 0" "aligned x 4096" "x \<notin> set xs"
  shows "\<exists>s'. free_page x s m = Some (s', store32 m x (pg_freelist s)) \<and> lock_free (pg_lock s') \<and>
    free_list (store32 m x (pg_freelist s)) (pg_freelist s') (x # xs)"
  using assms
  by (auto simp: free_page_def spin_lock_free free_list_def pages_ok_Cons load32_store32
      ppath_store pages_ok_aligned)

section \<open>The search for a run of pages\<close>

text \<open>The reference for \<open>alloc_pages_loop\<close>, on the list of free pages: \<open>pre\<close> are the pages passed
  over, \<open>run\<close> the candidate run, the last argument the pages still to visit. As in the code, the
  page that breaks a run is not considered as the start of the next one.\<close>

fun find_run :: "nat \<Rightarrow> (u32 \<Rightarrow> bool) \<Rightarrow> u32 list \<Rightarrow> u32 list \<Rightarrow> u32 list \<Rightarrow>
    (u32 list \<times> u32 list \<times> u32 list) option" where
  "find_run n ok pre run [] = None"
| "find_run n ok pre run (x # xs) =
     (let (pre', run') =
        (if run = [] then (if ok x then (pre, [x]) else (pre @ [x], []))
         else if x = last run + 4096 then (pre, run @ [x])
         else (pre @ run @ [x], []))
      in if length run' = n then Some (pre', run', xs) else find_run n ok pre' run' xs)"

definition page_run :: "u32 \<Rightarrow> nat \<Rightarrow> u32 list" where
  "page_run a n = map (\<lambda>i. a + of_nat i * 4096) [0..<n]"

lemma page_run_Suc: "page_run a (Suc n) = page_run a n @ [a + of_nat n * 4096]"
  by (simp add: page_run_def)

lemma page_run_1 [simp]: "page_run a (Suc 0) = [a]"
  by (simp add: page_run_def)

lemma last_page_run: "0 < n \<Longrightarrow> last (page_run a n) + 4096 = a + of_nat n * 4096"
  by (cases n) (simp_all add: page_run_Suc algebra_simps)

lemma length_page_run [simp]: "length (page_run a n) = n"
  by (simp add: page_run_def)

lemma hd_page_run [simp]: "0 < n \<Longrightarrow> hd (page_run a n) = a"
  by (simp add: page_run_def hd_map)

text \<open>What a successful search returns: a split of the list around a run of \<open>n\<close> consecutive pages
  whose first page passes the test.\<close>

lemma find_run_Some:
  assumes "find_run n ok pre run rest = Some (pre', run', post)"
    "run \<noteq> [] \<longrightarrow> ok (hd run) \<and> run = page_run (hd run) (length run)" "0 < n"
  shows "pre @ run @ rest = pre' @ run' @ post \<and> ok (hd run') \<and> run' = page_run (hd run') n"
  using assms(1,2)
proof (induction rest arbitrary: pre run)
  case (Cons x xs)
  consider "run = []" "ok x" | "run = []" "\<not> ok x" | "run \<noteq> []" "x = last run + 4096"
    | "run \<noteq> []" "x \<noteq> last run + 4096" by blast
  then show ?case
  proof cases
    case 1
    with Cons.prems Cons.IH [of pre "[x]"] show ?thesis by (auto split: if_splits)
  next
    case 2
    with Cons.prems Cons.IH [of "pre @ [x]" "[]"] assms(3) show ?thesis by simp
  next
    case 3
    then have "run @ [x] = page_run (hd run) (length (run @ [x]))"
      using Cons.prems(2) last_page_run [of "length run" "hd run"]
      by (metis length_append_singleton length_greater_0_conv page_run_Suc)
    then have grown: "ok (hd (run @ [x]))" "run @ [x] = page_run (hd (run @ [x])) (length (run @ [x]))"
      using 3 Cons.prems(2) by simp_all
    show ?thesis
    proof (cases "length (run @ [x]) = n")
      case True
      with 3 Cons.prems(1) have "pre' = pre" "run' = run @ [x]" "post = xs" by simp_all
      with True grown show ?thesis by simp
    next
      case False
      with 3 Cons.prems(1) have "find_run n ok pre (run @ [x]) xs = Some (pre', run', post)" by simp
      from Cons.IH [OF this] grown show ?thesis by (simp only: append_assoc append_Cons append_Nil) blast
    qed
  next
    case 4
    with Cons.prems Cons.IH [of "pre @ run @ [x]" "[]"] assms(3) show ?thesis by simp
  qed
qed simp

text \<open>The first and the last page of a list as the code has them: NULL when there is none.\<close>

definition last0 :: "u32 list \<Rightarrow> u32" where
  "last0 xs = (if xs = [] then 0 else last xs)"

definition hd0 :: "u32 list \<Rightarrow> u32" where
  "hd0 xs = (if xs = [] then 0 else hd xs)"

lemma last0_simps [simp]: "last0 [] = 0" "last0 (xs @ [x]) = x" "last0 (xs @ ys @ [x]) = x"
  by (simp_all add: last0_def)

lemma hd0_simps [simp]: "hd0 [] = 0" "hd0 (x # xs) = x"
  by (simp_all add: hd0_def)

definition run_rel :: "run_state \<Rightarrow> u32 list \<Rightarrow> u32 list \<Rightarrow> bool" where
  "run_rel r pre run \<longleftrightarrow> rn_run r = of_nat (length run) \<and>
     (run \<noteq> [] \<longrightarrow> rn_start r = hd run \<and> rn_prev r = last0 pre \<and>
        rn_next_pa r = last run + 4096)"

text \<open>One iteration keeps the relation between the loop's locals and the split of the list.\<close>

lemma run_step_rel:
  assumes "run_rel r pre run" "length run < 2 ^ 32"
  shows "if run = [] then
      (if x AND amask = 0 then run_rel (run_step amask (last0 pre) x r) pre [x]
       else run_rel (run_step amask (last0 pre) x r) (pre @ [x]) [])
    else if x = last run + 4096 then
      run_rel (run_step amask (last0 (pre @ run)) x r) pre (run @ [x])
    else run_rel (run_step amask (last0 (pre @ run)) x r) (pre @ run @ [x]) []"
proof -
  have z: "rn_run r = 0 \<longleftrightarrow> run = []"
    using assms of_nat_32_0 [OF assms(2)] by (simp add: run_rel_def)
  show ?thesis
  proof (cases "run = []")
    case True
    with z show ?thesis by (simp add: run_rel_def run_step_def PAGE_SIZE_def)
  next
    case False
    with z assms(1) show ?thesis by (simp add: run_rel_def run_step_def PAGE_SIZE_def algebra_simps)
  qed
qed

text \<open>The values the loop returns for a result of the search.\<close>

definition run_result :: "memory \<Rightarrow> u32 \<Rightarrow> (u32 list \<times> u32 list \<times> u32 list) option \<Rightarrow>
    u32 \<times> u32 \<times> memory" where
  "run_result m fl res =
     (case res of
        None \<Rightarrow> (0, fl, m)
      | Some (pre, run, post) \<Rightarrow>
          if pre = [] then (hd run, hd0 post, m)
          else (hd run, fl, store32 m (last pre) (hd0 post)))"

lemma of_nat_eq_word: "k \<le> unat n \<Longrightarrow> of_nat k = (n :: u32) \<longleftrightarrow> k = unat n"
  using unat_less_32 [of n] unat_of_nat32 [of k] by (auto simp: word_unat_eq_iff)

lemma ppath_hd0: "ppath m p xs 0 \<Longrightarrow> p = hd0 xs"
  by (cases xs) auto

lemma alloc_pages_loop_spec:
  assumes "ppath m cur rest 0" "run_rel r pre run" "length run < unat n"
    "0 \<notin> set (pre @ run)"
  shows "alloc_pages_loop n amask m fl (last0 (pre @ run)) cur r =
    Some (run_result m fl (find_run (unat n) (\<lambda>x. x AND amask = 0) pre run rest))"
  using assms
proof (induction rest arbitrary: pre run cur r)
  case Nil
  then show ?case by (subst alloc_pages_loop.simps) (simp add: run_result_def)
next
  case (Cons x xs)
  let ?ok = "\<lambda>x. x AND amask = 0"
  define r' where "r' = run_step amask (last0 (pre @ run)) x r"
  from Cons.prems(1) have x: "cur = x" "x \<noteq> 0" "ppath m (load32 m x) xs 0" by auto
  then have nxt: "load32 m x = hd0 xs" by (simp add: ppath_hd0)
  have step: "alloc_pages_loop n amask m fl (last0 (pre @ run)) cur r =
      (if rn_run r' = n then
         (if rn_prev r' \<noteq> 0 then Some (rn_start r', fl, store32 m (rn_prev r') (load32 m x))
          else Some (rn_start r', load32 m x, m))
       else alloc_pages_loop n amask m fl x (load32 m x) r')"
    using x by (subst alloc_pages_loop.simps) (simp add: r'_def Let_def)
  have tail: "alloc_pages_loop n amask m fl (last0 (pre @ run)) cur r =
      Some (run_result m fl (if length run1 = unat n then Some (pre1, run1, xs)
                             else find_run (unat n) ?ok pre1 run1 xs))"
    if rel: "run_rel r' pre1 run1" and len: "length run1 \<le> unat n"
      and set: "pre1 @ run1 = pre @ run @ [x]" for pre1 run1
  proof -
    have nz: "0 \<notin> set (pre1 @ run1)" unfolding set using x(2) Cons.prems(4) by simp
    have prev: "last0 (pre1 @ run1) = x" unfolding set by simp
    have eq: "rn_run r' = n \<longleftrightarrow> length run1 = unat n"
      using rel len by (simp add: run_rel_def of_nat_eq_word)
    have ne: "length run1 = unat n \<Longrightarrow> run1 \<noteq> []" using Cons.prems(3) by auto
    show ?thesis
    proof (cases "length run1 = unat n")
      case True
      have "pre1 \<noteq> [] \<Longrightarrow> last pre1 \<noteq> 0" using nz by (metis UnCI last_in_set set_append)
      with True rel ne eq nxt show ?thesis
        unfolding step by (simp add: run_result_def run_rel_def last0_def)
    next
      case False
      with len have "length run1 < unat n" by simp
      from Cons.IH [OF x(3) rel this nz] False eq show ?thesis
        unfolding step by (simp add: prev)
    qed
  qed
  have "length run < 2 ^ 32" using Cons.prems(3) unat_less_32 [of n] by simp
  note rel = run_step_rel [OF Cons.prems(2) this, of x amask]
  show ?case
  proof (cases "run = []")
    case True
    show ?thesis
    proof (cases "?ok x")
      case ok: True
      have "run_rel r' pre [x]" using rel True ok by (simp add: r'_def)
      from tail [OF this] True ok Cons.prems(3) show ?thesis by simp
    next
      case nok: False
      have "run_rel r' (pre @ [x]) []" using rel True nok by (simp add: r'_def)
      from tail [OF this] True nok Cons.prems(3) show ?thesis by simp
    qed
  next
    case False
    show ?thesis
    proof (cases "x = last run + 4096")
      case nx: True
      have "run_rel r' pre (run @ [x])" using rel False nx by (simp add: r'_def)
      from tail [OF this] False nx Cons.prems(3) show ?thesis by simp
    next
      case nx: False
      have "run_rel r' (pre @ run @ [x]) []" using rel False nx by (simp add: r'_def)
      from tail [OF this] False nx Cons.prems(3) show ?thesis by simp
    qed
  qed
qed

lemma pg_print_Nil [simp]: "pg_print [] s = s"
  by (simp add: pg_print_def)

lemma pages_ok_nonzero: "pages_ok xs \<Longrightarrow> 0 \<notin> set xs"
  by (auto simp: pages_ok_def)

lemma alloc_pages_amask: "push_bit PAGE_SHIFT (2 ^ k) - 1 = (mask (12 + k) :: u32)"
  by (simp add: PAGE_SHIFT_def push_bit_eq_mult power_add mask_eq_exp_minus_1 mult.commute)

text \<open>\<open>alloc_pages\<close> is the reference search, run on the list of free pages.\<close>

lemma alloc_pages_find_run:
  assumes "lock_free (pg_lock s)" "free_list m (pg_freelist s) xs" "order < 32"
  shows "alloc_pages order s m =
    (case run_result m (pg_freelist s)
            (find_run (2 ^ unat order) (\<lambda>x. aligned x (2 ^ (12 + unat order))) [] [] xs) of
       (p, fl, m') \<Rightarrow> Some (p, s\<lparr>pg_freelist := fl\<rparr>, m'))"
proof -
  let ?n = "2 ^ unat order :: u32" and ?r = "\<lparr>rn_run = 0, rn_start = 0, rn_prev = 0, rn_next_pa = 0\<rparr>"
  have o32: "unat order < 32" using assms(3) by (simp add: word_less_nat_alt)
  then have n: "push_bit (unat order mod 32) 1 = ?n" "unat ?n = 2 ^ unat order"
    by (simp_all add: push_bit_eq_mult)
  have "ppath m (pg_freelist s) xs 0" using assms(2) by (simp add: free_list_def)
  from alloc_pages_loop_spec [OF this, of ?r "[]" "[]" ?n "mask (12 + unat order)" "pg_freelist s"]
  have "alloc_pages_loop ?n (mask (12 + unat order)) m (pg_freelist s) 0 (pg_freelist s) ?r =
      Some (run_result m (pg_freelist s)
        (find_run (2 ^ unat order) (\<lambda>x. aligned x (2 ^ (12 + unat order))) [] [] xs))"
    using n(2) by (simp add: run_rel_def aligned_and_mask)
  with assms(1,3) spin_unlock_lock [OF assms(1)] show ?thesis
    unfolding alloc_pages_def Let_def n(1) alloc_pages_amask
    by (simp add: spin_lock_free split: prod.splits)
qed

lemma alloc_pages_spec:
  assumes "lock_free (pg_lock s)" "free_list m (pg_freelist s) xs" "order < 32"
  shows "\<exists>r s' m'. alloc_pages order s m = Some (r, s', m') \<and> lock_free (pg_lock s') \<and>
    (r = 0 \<and> s' = s \<and> m' = m \<or>
     r \<noteq> 0 \<and> aligned r (4096 * 2 ^ unat order) \<and>
     (\<exists>pre post. xs = pre @ page_run r (2 ^ unat order) @ post \<and>
        free_list m' (pg_freelist s') (pre @ post) \<and>
        (\<forall>b. (\<forall>x\<in>set pre. b \<notin> span x 4) \<longrightarrow> m' b = m b)))"
proof (cases "find_run (2 ^ unat order) (\<lambda>x. aligned x (2 ^ (12 + unat order))) [] [] xs")
  case None
  then show ?thesis
    using assms(1) by (simp add: alloc_pages_find_run [OF assms] run_result_def)
next
  case (Some res)
  obtain pre run post where res: "res = (pre, run, post)" by (cases res)
  from find_run_Some [OF Some [unfolded res]]
  have xs: "xs = pre @ run @ post" and al: "aligned (hd run) (2 ^ (12 + unat order))"
    and run: "run = page_run (hd run) (2 ^ unat order)" by auto
  have ne: "run \<noteq> []" by (metis length_page_run list.size(3) power_not_zero run zero_neq_numeral)
  have ok: "pages_ok xs" "ppath m (pg_freelist s) xs 0"
    using assms(2) by (simp_all add: free_list_def)
  have nz: "hd run \<noteq> 0" using ok(1) ne xs by (auto simp: pages_ok_def)
  obtain q where q: "ppath m (pg_freelist s) (pre @ run) q" "ppath m q post 0"
    using ok(2) xs by (auto simp: ppath_append)
  have okpp: "pages_ok (pre @ post)" using ok(1) xs by (auto simp: pages_ok_append)
  show ?thesis
  proof (cases "pre = []")
    case True
    then have "alloc_pages order s m = Some (hd run, s\<lparr>pg_freelist := hd0 post\<rparr>, m)"
      by (simp add: alloc_pages_find_run [OF assms] Some res run_result_def)
    moreover have "free_list m (hd0 post) (pre @ post)"
      using True q(2) okpp ppath_hd0 [OF q(2)] by (simp add: free_list_def)
    moreover have "\<exists>pre' post'. xs = pre' @ page_run (hd run) (2 ^ unat order) @ post' \<and>
        free_list m (hd0 post) (pre' @ post')"
      using xs run calculation(2) by (intro exI [of _ pre] exI [of _ post]) simp
    ultimately show ?thesis
      using assms(1) nz al by (auto simp: power_add)
  next
    case False
    let ?m = "store32 m (last pre) (hd0 post)"
    have "alloc_pages order s m = Some (hd run, s, ?m)"
      using False by (simp add: alloc_pages_find_run [OF assms] Some res run_result_def)
    moreover have "free_list ?m (pg_freelist s) (pre @ post)"
      using ppath_unlink [OF ok(2) [unfolded xs] ok(1) [unfolded xs] False, of "hd0 post"]
        q(2) ppath_hd0 [OF q(2)] okpp by (simp add: free_list_def)
    moreover have "\<forall>b. (\<forall>x\<in>set pre. b \<notin> span x 4) \<longrightarrow> ?m b = m b"
      using False by (auto intro!: store32_outside)
    moreover have "\<exists>pre' post'. xs = pre' @ page_run (hd run) (2 ^ unat order) @ post' \<and>
        free_list ?m (pg_freelist s) (pre' @ post') \<and>
        (\<forall>b. (\<forall>x\<in>set pre'. b \<notin> span x 4) \<longrightarrow> ?m b = m b)"
      using xs run calculation(2,3) by (intro exI [of _ pre] exI [of _ post]) simp
    ultimately show ?thesis
      using assms(1) nz al by (auto simp: power_add)
  qed
qed

section \<open>Giving pages back\<close>

lemma page_run_Cons: "page_run a (Suc n) = a # page_run (a + 4096) n"
proof -
  have "page_run a (Suc n) = map (\<lambda>i. a + of_nat i * 4096) (0 # map Suc [0..<n])"
    by (simp add: page_run_def map_Suc_upt upt_conv_Cons del: upt_Suc)
  then show ?thesis by (simp add: page_run_def algebra_simps)
qed

lemma aligned_add_4096: "aligned (a + 4096) 4096 \<longleftrightarrow> aligned a 4096"
proof -
  have "unat (a + 4096) = (unat a + 4096) mod (4096 * 1048576)"
    by (simp add: unat_word_ariths)
  then have "unat (a + 4096) mod 4096 = (unat a + 4096) mod 4096"
    by (simp only: mod_mult2_eq' mod_mult_self2 mod_mod_trivial) (simp add: mod_mod_cancel)
  then show ?thesis by (simp add: aligned_def)
qed

text \<open>The linking loop stops only if the distance to the end is a multiple of the page size.\<close>

lemma link_pages_Some_aligned:
  assumes "link_pages m mem fin = Some r"
  shows "aligned (fin - mem) 4096"
proof (rule link_pages.raw_induct [where P = "\<lambda>m mem fin r. aligned (fin - mem) 4096", OF _ assms])
  fix f m mem fin r
  assume IH: "\<And>m mem fin r. f m mem fin = Some r \<Longrightarrow> aligned (fin - mem) 4096"
    and eq: "(if mem + PAGE_SIZE = fin then Some (m, mem)
      else f (store32 m mem (mem + PAGE_SIZE)) (mem + PAGE_SIZE) fin) = Some r"
  show "aligned (fin - mem) 4096"
  proof (cases "mem + PAGE_SIZE = fin")
    case True
    then have "fin - mem = 4096" by (auto simp: PAGE_SIZE_def algebra_simps)
    then show ?thesis by (simp add: aligned_def)
  next
    case False
    with eq IH have "aligned (fin - (mem + 4096)) 4096" by (fastforce simp: PAGE_SIZE_def)
    then show ?thesis using aligned_add_4096 [of "fin - (mem + 4096)"] by simp
  qed
qed

text \<open>On whole pages the loop builds the path through them.\<close>

lemma link_pages_spec:
  assumes "0 < k" "pages_ok (page_run a k)"
  shows "\<exists>m'. link_pages m a (a + of_nat k * 4096) = Some (m', a + of_nat (k - 1) * 4096) \<and>
    (\<forall>w. ppath (store32 m' (a + of_nat (k - 1) * 4096) w) a (page_run a k) w) \<and>
    (\<forall>b. (\<forall>x\<in>set (page_run a k). b \<notin> span x 4) \<longrightarrow> m' b = m b)"
  using assms
proof (induction k arbitrary: a m rule: nat_induct_non_zero)
  case 1
  then show ?case
    by (subst link_pages.simps) (auto simp: PAGE_SIZE_def load32_store32 pages_ok_Cons)
next
  case (Suc k)
  have ok: "pages_ok (page_run (a + 4096) k)" "a \<noteq> 0" "aligned a 4096"
    "a \<notin> set (page_run (a + 4096) k)"
    using Suc.prems by (simp_all add: page_run_Cons pages_ok_Cons)
  have fin: "a + of_nat (Suc k) * 4096 = (a + 4096) + of_nat k * 4096"
    "(a + 4096) + of_nat (k - 1) * 4096 = a + of_nat k * 4096"
    using Suc.hyps by (simp_all add: algebra_simps of_nat_diff)
  let ?m = "store32 m a (a + 4096)" and ?z = "a + of_nat k * 4096"
  obtain m' where m': "link_pages ?m (a + 4096) (a + 4096 + of_nat k * 4096) = Some (m', ?z)"
    "\<And>w. ppath (store32 m' ?z w) (a + 4096) (page_run (a + 4096) k) w"
    "\<And>b. (\<forall>x\<in>set (page_run (a + 4096) k). b \<notin> span x 4) \<Longrightarrow> m' b = ?m b"
    using Suc.IH [OF ok(1), of ?m] fin(2) by metis
  have z: "?z \<in> set (page_run (a + 4096) k)"
  proof -
    have "(a + 4096) + of_nat (k - 1) * 4096 \<in> set (page_run (a + 4096) k)"
      unfolding page_run_def set_map by (rule imageI) (use Suc.hyps in simp)
    then show ?thesis by (simp only: fin(2))
  qed
  have "a + 4096 \<noteq> a + of_nat (Suc k) * 4096"
  proof
    assume "a + 4096 = a + of_nat (Suc k) * 4096"
    then have "?z = a" by (simp add: algebra_simps)
    with z ok(4) show False by simp
  qed
  then have "link_pages m a (a + of_nat (Suc k) * 4096) = Some (m', ?z)"
    using m'(1) by (subst link_pages.simps) (simp add: PAGE_SIZE_def add.assoc)
  moreover have "ppath (store32 m' ?z w) a (page_run a (Suc k)) w" for w
  proof -
    have "load32 (store32 m' ?z w) a = load32 m' a"
      using z ok by (intro aligned_load32_store32) (auto simp: pages_ok_aligned)
    also have "\<dots> = load32 ?m a"
    proof (rule load32_cong)
      fix b assume b: "b \<in> span a 4"
      have "b \<notin> span x 4" if "x \<in> set (page_run (a + 4096) k)" for x
      proof -
        have "span a 4096 \<inter> span x 4096 = {}"
          using that ok by (intro aligned_disjoint) (auto simp: pages_ok_aligned)
        with b show ?thesis using span_mono [of 4 4096] by fastforce
      qed
      then show "m' b = ?m b" by (intro m'(3)) blast
    qed
    finally show ?thesis
      using m'(2) ok(2) by (simp add: page_run_Cons load32_store32)
  qed
  moreover have "m' b = m b" if "\<forall>x\<in>set (page_run a (Suc k)). b \<notin> span x 4" for b
    using that m'(3) by (auto simp: page_run_Cons store32_outside)
  ultimately show ?case by simp
qed

lemma of_nat_pages:
  assumes "k < 2 ^ 20"
  shows "unat (of_nat k * 4096 :: u32) = k * 4096"
proof -
  have "unat (of_nat (k * 4096) :: u32) = k * 4096"
    using assms by (intro unat_of_nat32) simp
  then show ?thesis by simp
qed

lemma free_pages_spec:
  assumes "lock_free (pg_lock s)" "free_list m (pg_freelist s) xs" "0 < k" "k < 2 ^ 20"
    "pages_ok (page_run a k @ xs)"
  shows "\<exists>s' m'. free_pages a (of_nat k * 4096) s m = Some (s', m') \<and> lock_free (pg_lock s') \<and>
    free_list m' (pg_freelist s') (page_run a k @ xs) \<and>
    (\<forall>b. (\<forall>x\<in>set (page_run a k). b \<notin> span x 4) \<longrightarrow> m' b = m b)"
proof -
  let ?z = "a + of_nat (k - 1) * 4096"
  have ok: "pages_ok (page_run a k)" "pages_ok xs" "set (page_run a k) \<inter> set xs = {}"
    using assms(5) by (simp_all add: pages_ok_append)
  obtain m1 where m1: "link_pages m a (a + of_nat k * 4096) = Some (m1, ?z)"
    "\<And>w. ppath (store32 m1 ?z w) a (page_run a k) w"
    "\<And>b. (\<forall>x\<in>set (page_run a k). b \<notin> span x 4) \<Longrightarrow> m1 b = m b"
    using link_pages_spec [OF assms(3) ok(1)] by metis
  have nz: "of_nat k * 4096 \<noteq> (0 :: u32)"
    using of_nat_pages [OF assms(4)] assms(3) by (metis mult_is_0 not_gr_zero unsigned_0
        zero_neq_numeral)
  have z: "?z \<in> set (page_run a k)"
    unfolding page_run_def set_map by (rule imageI) (use assms(3) in simp)
  have apart: "b \<notin> span y 4" if "x \<in> set xs" "b \<in> span x 4" "y \<in> set (page_run a k)" for b x y
  proof -
    have "span x 4096 \<inter> span y 4096 = {}"
      using that ok by (intro aligned_disjoint) (auto simp: pages_ok_aligned)
    with that show ?thesis using span_mono [of 4 4096] by fastforce
  qed
  let ?m = "store32 m1 ?z (pg_freelist s)"
  have out: "?m b = m b" if "\<forall>x\<in>set (page_run a k). b \<notin> span x 4" for b
    using that m1(3) z by (simp add: store32_outside)
  have "ppath ?m (pg_freelist s) xs 0"
    using assms(2) out apart ppath_cong [of xs m ?m] by (metis free_list_def)
  with m1(2) assms(5) have "free_list ?m a (page_run a k @ xs)"
    by (auto simp: free_list_def ppath_append)
  with m1(1) nz assms(1) out show ?thesis
    by (auto simp: free_pages_def Let_def spin_lock_free pg_print_def)
qed

section \<open>The order of a block\<close>

lemma clz_bounds:
  assumes "w \<noteq> 0"
  shows "clz w < 32" "2 ^ (31 - clz w) \<le> unat w" "unat w < 2 ^ (32 - clz w)"
proof -
  let ?bs = "map (bit w) (rev [0..<32])"
  have nth: "?bs ! j = bit w (31 - j)" if "j < 32" for j
    using that by (simp add: rev_nth del: upt_rec_numeral upt_conv_Cons_Cons)
  have low: "\<not> bit w (31 - j)" if "j < clz w" for j
  proof -
    have "j < 32" using that length_takeWhile_le [of Not ?bs] by (simp add: clz_def)
    moreover have "takeWhile Not ?bs ! j \<in> set (takeWhile Not ?bs)"
      using that unfolding clz_def by (rule nth_mem)
    then have "Not (takeWhile Not ?bs ! j)"
      by (rule set_takeWhileD [THEN conjunct2])
    then have "Not (?bs ! j)"
      using that takeWhile_nth [of j Not ?bs] unfolding clz_def by simp
    ultimately show ?thesis using nth by blast
  qed
  show c32: "clz w < 32"
  proof (rule ccontr)
    assume "\<not> clz w < 32"
    then have "\<not> bit w i" if "i < 32" for i using low [of "31 - i"] that by simp
    then have "w = 0" by (intro bit_word_eqI) simp
    with assms show False by simp
  qed
  have "bit w (31 - clz w)"
    using nth_length_takeWhile [of Not ?bs] c32 nth [OF c32] unfolding clz_def by simp
  then have "odd (unat w div 2 ^ (31 - clz w))"
    using bit_unsigned_iff [of w "31 - clz w", where ?'a = nat] by (simp add: bit_iff_odd)
  then show "2 ^ (31 - clz w) \<le> unat w"
    by (metis div_less even_zero not_le)
  have "take_bit (32 - clz w) w = w"
  proof (rule bit_word_eqI)
    fix n assume "n < LENGTH(32)"
    then show "bit (take_bit (32 - clz w) w) n \<longleftrightarrow> bit w n"
      using low [of "31 - n"] c32 by (cases "31 - n < clz w") (auto simp: bit_take_bit_iff)
  qed
  then show "unat w < 2 ^ (32 - clz w)"
    by (metis mod_less_divisor zero_less_numeral unat_take_bit zero_less_power)
qed

definition block_order :: "u32 \<Rightarrow> u32" where
  "block_order n = (if is_power_of_2 n then fls n else fls n + 1)"

lemma unat_fls: "n \<noteq> 0 \<Longrightarrow> unat (fls n) = 31 - clz n"
proof -
  assume "n \<noteq> 0"
  then have c: "clz n < 32" by (rule clz_bounds)
  then have "fls n = of_nat (31 - clz n)"
    by (simp add: fls_def of_nat_diff)
  moreover have "unat (of_nat (31 - clz n) :: u32) = 31 - clz n"
    by (rule unat_of_nat32) simp
  ultimately show ?thesis by (simp only:)
qed

text \<open>\<open>block_order\<close> is the binary logarithm rounded up.\<close>

lemma block_order_bounds:
  assumes "n \<noteq> 0" "unat n \<le> 2 ^ 20"
  shows "unat n \<le> 2 ^ unat (block_order n)" "2 ^ unat (block_order n) < 2 * unat n"
    "unat (block_order n) \<le> 20"
proof -
  note c = clz_bounds [OF assms(1)]
  let ?e = "31 - clz n"
  have e: "32 - clz n = Suc ?e" using c(1) by simp
  have "(2 :: nat) ^ ?e \<le> 2 ^ 20" using c(2) assms(2) by linarith
  then have e20: "?e \<le> 20" by (rule power_le_imp_le_exp [rotated]) simp
  have "unat n \<le> 2 ^ unat (block_order n) \<and> 2 ^ unat (block_order n) < 2 * unat n \<and>
      unat (block_order n) \<le> 20"
  proof (cases "is_power_of_2 n")
    case True
    then obtain k where k: "k < 32" "n = 2 ^ k" by (auto simp: is_power_of_2_iff)
    then have un: "unat n = 2 ^ k" by (metis unat_2p)
    then have "(2 :: nat) ^ ?e \<le> 2 ^ k" "(2 :: nat) ^ k < 2 ^ Suc ?e"
      using c(2) c(3) [unfolded e] by (metis, metis)
    then have "?e \<le> k" "k < Suc ?e"
      by (auto intro: power_le_imp_le_exp [rotated] power_less_imp_less_exp [rotated])
    then have "k = ?e" by simp
    with un have "unat n = 2 ^ ?e" by metis
    with True e20 assms(1) show ?thesis by (simp add: block_order_def unat_fls)
  next
    case False
    have "unat n \<noteq> 2 ^ ?e"
    proof
      assume "unat n = 2 ^ ?e"
      then have "n = 2 ^ ?e" using unat_2p [of ?e] e20 by (simp add: word_unat_eq_iff)
      with False e20 show False by (auto simp: is_power_of_2_iff)
    qed
    with c(2) have lt: "2 ^ ?e < unat n" by simp
    with assms(2) have "(2 :: nat) ^ ?e < 2 ^ 20" by linarith
    then have "?e < 20" by (rule power_less_imp_less_exp [rotated]) simp
    moreover have "unat (fls n + 1) = Suc ?e"
    proof -
      have "fls n + 1 = of_nat (Suc ?e)" using unat_fls [OF assms(1)] by (metis add.commute
          of_nat_Suc of_nat_unat ucast_id)
      then show ?thesis using \<open>?e < 20\<close> by (simp add: unat_of_nat32 del: of_nat_Suc)
    qed
    ultimately show ?thesis
      using False lt c(3) e by (simp add: block_order_def)
  qed
  then show "unat n \<le> 2 ^ unat (block_order n)" "2 ^ unat (block_order n) < 2 * unat n"
    "unat (block_order n) \<le> 20" by auto
qed

lemma npages_bounds:
  assumes "0 < sz" "unat sz + 4096 \<le> 2 ^ 32"
  defines "n \<equiv> drop_bit PAGE_SHIFT (ALIGN sz PAGE_SIZE)"
  shows "n \<noteq> 0" "unat sz \<le> unat n * 4096" "unat n * 4096 < unat sz + 4096" "unat n \<le> 2 ^ 20"
proof -
  let ?a = "ALIGN sz 4096"
  have a: "unat ?a = unat sz + unat (?a - sz)" "unat (?a - sz) < 4096" "4096 dvd unat ?a"
    using unat_ALIGN [of 12 sz] ALIGN_diff [of 12 sz] aligned_ALIGN [of sz 12] assms(2)
    by (simp_all add: aligned_dvd)
  have n: "unat n * 4096 = unat ?a"
  proof -
    have "unat n = unat ?a div 4096"
      unfolding n_def PAGE_SHIFT_def PAGE_SIZE_def by (simp add: drop_bit_eq_div unat_div)
    with a(3) show ?thesis by simp
  qed
  with a show "unat sz \<le> unat n * 4096" "unat n * 4096 < unat sz + 4096" by simp_all
  with assms(1) show "n \<noteq> 0" by (auto simp: word_less_nat_alt)
  show "unat n \<le> 2 ^ 20" using n unat_less_32 [of ?a] by simp
qed

lemma page_memalign_spec:
  assumes "0 < sz" "unat sz + 4096 \<le> 2 ^ 32"
  shows "\<exists>order. order < 32 \<and> unat sz \<le> 4096 * 2 ^ unat order \<and>
    4096 * 2 ^ unat order < 2 * (unat sz + 4096) \<and>
    page_memalign al sz s m = map_option Inr (alloc_pages order s m)"
proof -
  let ?n = "drop_bit PAGE_SHIFT (ALIGN sz PAGE_SIZE)"
  note n = npages_bounds [OF assms]
  note b = block_order_bounds [OF n(1,4)]
  have scale: "4096 * 2 ^ unat (block_order ?n) < 2 * (unat ?n * 4096)" using b(2) by simp
  have "page_memalign al sz s m = map_option Inr (alloc_pages (block_order ?n) s m)"
    using assms(1) n(1) by (auto simp: page_memalign_def block_order_def Let_def)
  moreover have "block_order ?n < 32" using b(3) by (simp add: word_less_nat_alt)
  moreover have "unat sz \<le> 4096 * 2 ^ unat (block_order ?n)"
    using n(2) b(1) by linarith
  moreover have "4096 * 2 ^ unat (block_order ?n) < 2 * (unat sz + 4096)"
    by (rule less_trans [OF scale]) (use n(3) in simp)
  ultimately show ?thesis by blast
qed

section \<open>Properties\<close>

text \<open>The state at start-up: one free page at 0x200000 in zeroed memory.\<close>

definition zero_mem :: memory where
  "zero_mem = (\<lambda>_. 0)"

lemma load32_zero_mem [simp]: "load32 zero_mem a = 0"
  by (simp add: load32_def zero_mem_def)

lemma page_state0_free_list:
  "lock_free (pg_lock page_state0)" "free_list zero_mem (pg_freelist page_state0) [0x200000]"
  by (simp_all add: page_state0_def lock_free_def free_list_def pages_ok_Cons aligned_def)

lemma alloc_pages_state0: "alloc_pages 0 page_state0 zero_mem =
    Some (0x200000, page_state0\<lparr>pg_freelist := 0\<rparr>, zero_mem)"
  by (simp add: alloc_pages_def page_state0_def spin_lock_def spin_unlock_def run_step_def
      alloc_pages_loop.simps PAGE_SIZE_def PAGE_SHIFT_def Let_def)

text \<open>C4. \<open>alloc_pages\<close> on a well-formed free list always returns (the search loop ends) with the lock
  released. Either it returns NULL and has changed nothing, or it returns a page aligned to the
  size of the whole block, the 2^order consecutive pages from there were on the list, and afterwards
  the list holds exactly the other pages, in the same order; memory is only written in pages that
  stay on the list.\<close>

theorem alloc_pages_correct:
  assumes "lock_free (pg_lock s)" "free_list m (pg_freelist s) xs" "order < 32"
  shows "\<exists>r s' m'. alloc_pages order s m = Some (r, s', m') \<and> lock_free (pg_lock s') \<and>
    (r = 0 \<and> s' = s \<and> m' = m \<or>
     r \<noteq> 0 \<and> aligned r (4096 * 2 ^ unat order) \<and>
     (\<exists>pre post. xs = pre @ page_run r (2 ^ unat order) @ post \<and>
        free_list m' (pg_freelist s') (pre @ post) \<and>
        (\<forall>b. (\<forall>x\<in>set pre. b \<notin> span x 4) \<longrightarrow> m' b = m b)))"
  by (rule alloc_pages_spec [OF assms])

theorem alloc_pages_correct_witness:
  "\<exists>s' m'. alloc_pages 0 page_state0 zero_mem = Some (0x200000, s', m') \<and>
     free_list m' (pg_freelist s') []"
  using alloc_pages_correct [OF page_state0_free_list, of 0]
  by (auto simp: alloc_pages_state0 Cons_eq_append_conv)

text \<open>C19. \<open>free_pages\<close> of \<open>k\<close> whole pages that are not on the list always returns with the lock released
  and puts exactly these pages, in ascending order, in front of the list; nothing but the first
  word of each of them is written.\<close>

theorem free_pages_correct:
  assumes "lock_free (pg_lock s)" "free_list m (pg_freelist s) xs" "0 < k" "k < 2 ^ 20"
    "pages_ok (page_run a k @ xs)"
  shows "\<exists>s' m'. free_pages a (of_nat k * 4096) s m = Some (s', m') \<and> lock_free (pg_lock s') \<and>
    free_list m' (pg_freelist s') (page_run a k @ xs) \<and>
    (\<forall>b. (\<forall>x\<in>set (page_run a k). b \<notin> span x 4) \<longrightarrow> m' b = m b)"
  by (rule free_pages_spec [OF assms])

theorem free_pages_correct_witness:
  "\<exists>s' m'. free_pages 0x300000 0x2000 page_state0 zero_mem = Some (s', m') \<and>
     free_list m' (pg_freelist s') [0x300000, 0x301000, 0x200000]"
proof -
  have "pages_ok (page_run 0x300000 2 @ [0x200000])"
    by (simp add: page_run_def upt_rec pages_ok_Cons aligned_def)
  from free_pages_correct [OF page_state0_free_list _ _ this] show ?thesis
    by (auto simp: page_run_def upt_rec)
qed

text \<open>When the size given to \<open>free_pages\<close> is not a multiple of the page size, the assertion prints
  but the call never returns: the linking loop steps over its end address.\<close>

theorem free_pages_unaligned_hangs:
  assumes "\<not> aligned sz 4096"
  shows "free_pages a sz s m = None"
proof -
  have "sz \<noteq> 0" using assms by auto
  moreover have "link_pages m a (a + sz) = None"
    using link_pages_Some_aligned [of m a "a + sz"] assms by (cases "link_pages m a (a + sz)") auto
  ultimately show ?thesis by (simp add: free_pages_def Let_def split: option.splits)
qed

theorem free_pages_unaligned_hangs_witness:
  "free_pages 0x300000 100 page_state0 zero_mem = None"
  by (rule free_pages_unaligned_hangs) (simp add: aligned_def)

text \<open>C32. Freeing a block right after \<open>alloc_pages\<close> granted it gives the allocator back exactly the pages
  it had before, now with the block in front.\<close>

theorem alloc_free_pages_roundtrip:
  assumes "lock_free (pg_lock s)" "free_list m (pg_freelist s) xs" "order < 20"
    "alloc_pages order s m = Some (r, s1, m1)" "r \<noteq> 0"
  shows "\<exists>s2 m2 ys. free_pages r (of_nat (2 ^ unat order) * 4096) s1 m1 = Some (s2, m2) \<and>
    lock_free (pg_lock s2) \<and> free_list m2 (pg_freelist s2) (page_run r (2 ^ unat order) @ ys) \<and>
    set (page_run r (2 ^ unat order)) \<union> set ys = set xs \<and>
    length (page_run r (2 ^ unat order)) + length ys = length xs"
proof -
  have o20: "unat order < 20" "order < 32" using assms(3) by (simp_all add: word_less_nat_alt)
  from alloc_pages_spec [OF assms(1,2) o20(2)] assms(4,5) obtain pre post where
    a: "lock_free (pg_lock s1)" "xs = pre @ page_run r (2 ^ unat order) @ post"
       "free_list m1 (pg_freelist s1) (pre @ post)" by auto
  have "pages_ok xs" using assms(2) by (simp add: free_list_def)
  then have ok: "pages_ok (page_run r (2 ^ unat order) @ pre @ post)"
    using a(2) by (auto simp: pages_ok_append)
  have k: "0 < (2 :: nat) ^ unat order" "(2 :: nat) ^ unat order < 2 ^ 20"
    using o20(1) power_strict_increasing [of "unat order" 20 "2 :: nat"] by simp_all
  from free_pages_spec [OF a(1,3) k ok] obtain s2 m2 where
    "free_pages r (of_nat (2 ^ unat order) * 4096) s1 m1 = Some (s2, m2)" "lock_free (pg_lock s2)"
    "free_list m2 (pg_freelist s2) (page_run r (2 ^ unat order) @ pre @ post)" by blast
  then show ?thesis using a(2) by (intro exI conjI) auto
qed

theorem alloc_free_pages_roundtrip_witness:
  "\<exists>s1 m1 s2 m2 ys. alloc_pages 0 page_state0 zero_mem = Some (0x200000, s1, m1) \<and>
     free_pages 0x200000 4096 s1 m1 = Some (s2, m2) \<and>
     free_list m2 (pg_freelist s2) (0x200000 # ys)"
proof -
  note run = alloc_pages_state0
  from alloc_free_pages_roundtrip [OF page_state0_free_list _ run] run show ?thesis by auto
qed

text \<open>\<open>page_memalign\<close> for a request of 1 to 0xFFFFF000 bytes returns NULL and changes nothing, or a
  power-of-two block of pages from the list that is at least as large as the request and aligned to
  its own size; for a larger request it computes \<open>fls(0)\<close>, which is undefined.\<close>

theorem page_memalign_correct:
  assumes "lock_free (pg_lock s)" "free_list m (pg_freelist s) xs" "0 < sz"
  shows "if sz \<le> 0xFFFFF000
    then \<exists>r s' m'. page_memalign al sz s m = Some (Inr (r, s', m')) \<and> lock_free (pg_lock s') \<and>
      (r = 0 \<and> s' = s \<and> m' = m \<or>
       r \<noteq> 0 \<and> (\<exists>k pre post. unat sz \<le> 4096 * 2 ^ k \<and> aligned r (4096 * 2 ^ k) \<and>
         xs = pre @ page_run r (2 ^ k) @ post \<and> free_list m' (pg_freelist s') (pre @ post) \<and>
         (\<forall>b. (\<forall>x\<in>set pre. b \<notin> span x 4) \<longrightarrow> m' b = m b)))
    else page_memalign al sz s m = Some (Inl (Undefined ''__builtin_clzl(0)''))"
proof (cases "sz \<le> 0xFFFFF000")
  case True
  then have "unat sz + 4096 \<le> 2 ^ 32" by (simp add: word_le_nat_alt)
  from page_memalign_spec [OF assms(3) this] obtain order where
    o: "order < 32" "unat sz \<le> 4096 * 2 ^ unat order"
       "page_memalign al sz s m = map_option Inr (alloc_pages order s m)" by blast
  from alloc_pages_spec [OF assms(1,2) o(1)] obtain r s' m' where
    "alloc_pages order s m = Some (r, s', m')" "lock_free (pg_lock s')"
    and or: "r = 0 \<and> s' = s \<and> m' = m \<or> r \<noteq> 0 \<and> aligned r (4096 * 2 ^ unat order) \<and>
      (\<exists>pre post. xs = pre @ page_run r (2 ^ unat order) @ post \<and>
        free_list m' (pg_freelist s') (pre @ post) \<and>
        (\<forall>b. (\<forall>x\<in>set pre. b \<notin> span x 4) \<longrightarrow> m' b = m b))" by blast
  with o True show ?thesis by simp blast
next
  case False
  have "drop_bit 12 (ALIGN sz 4096) = 0"
  proof -
    define x where "x = sz + mask 12"
    have "unat sz + unat (mask 12 :: u32) = unat sz + 4095"
      by (simp add: unat_mask)
    moreover have "0xFFFFF000 < unat sz" "unat sz < 4294967296"
      using False unat_less_32 [of sz] by (simp_all add: word_le_nat_alt)
    ultimately have "unat x = unat sz + 4095 - 4294967296"
      by (simp add: x_def unat_word_ariths le_mod_geq)
    with \<open>unat sz < 4294967296\<close> have "unat x < 4096" by linarith
    then have "take_bit 12 x = x"
      by (simp only: word_unat_eq_iff unat_take_bit) simp
    then have "x AND NOT (mask 12) = 0" by (simp only: and_not_mask_eq diff_self)
    then show ?thesis using ALIGN_2p [of sz 12] by (simp add: x_def)
  qed
  with False assms(3) show ?thesis
    by (auto simp: page_memalign_def PAGE_SHIFT_def PAGE_SIZE_def Let_def)
qed

theorem page_memalign_correct_witness:
  "\<exists>s' m'. page_memalign 8 64 page_state0 zero_mem = Some (Inr (0x200000, s', m'))"
proof -
  have "page_memalign 8 64 page_state0 zero_mem = map_option Inr (alloc_pages 0 page_state0 zero_mem)"
    by (simp add: page_memalign_def PAGE_SHIFT_def PAGE_SIZE_def ALIGN_def align_mask_def Let_def
        is_power_of_2_def fls_def clz_def upt_rec)
  then show ?thesis
    using page_memalign_correct [OF page_state0_free_list, of 64 8] by (auto simp: alloc_pages_state0)
qed

text \<open>The search does not reconsider the page that breaks a run, so \<open>alloc_pages\<close> can report that no
  memory is left although an aligned run of the asked length is on the list: with the free pages
  0x2000, 0x4000, 0x5000 a request for two pages fails.\<close>

theorem alloc_pages_misses_run:
  "\<exists>s m. lock_free (pg_lock s) \<and> free_list m (pg_freelist s) [0x2000, 0x4000, 0x5000] \<and>
     [0x4000, 0x5000] = page_run 0x4000 2 \<and> aligned 0x4000 (4096 * 2) \<and>
     alloc_pages 1 s m = Some (0, s, m)"
proof (intro exI conjI)
  let ?m = "store32 (store32 zero_mem 0x2000 0x4000) 0x4000 0x5000"
  let ?s = "page_state0\<lparr>pg_freelist := 0x2000\<rparr>"
  show l: "lock_free (pg_lock ?s)" by (simp add: page_state0_def lock_free_def)
  show f: "free_list ?m (pg_freelist ?s) [0x2000, 0x4000, 0x5000]"
    by (simp add: free_list_def pages_ok_Cons aligned_def aligned_load32_store32 load32_store32)
  show "alloc_pages 1 ?s ?m = Some (0, ?s, ?m)"
    by (simp add: alloc_pages_find_run [OF l f] run_result_def aligned_def)
qed (simp_all add: page_run_def aligned_def upt_rec)

text \<open>\<open>free_pages\<close> with size 0 discards the whole free list, whatever was on it, without taking the
  lock, so the next request fails.\<close>

theorem free_pages_zero_drops_list:
  "\<exists>s'. free_pages a 0 s m = Some (s', m) \<and> pg_lock s' = pg_lock s \<and>
     free_list m (pg_freelist s') [] \<and> alloc_page s' m = Some (0, s')"
  by (simp add: free_pages_def Let_def pg_print_def free_list_0 alloc_page_def)

text \<open>Single pages: \<open>alloc_page\<close> returns the first page of the list and removes it, or NULL when the
  list is empty, and \<open>free_page\<close> puts a page in front, so a page freed is the next one allocated and
  the pair leaves the list as it was.\<close>

theorem free_then_alloc_page:
  assumes "lock_free (pg_lock s)" "free_list m (pg_freelist s) xs"
    "x \<noteq> 0" "aligned x 4096" "x \<notin> set xs"
  shows "\<exists>s1 m1 s2. free_page x s m = Some (s1, m1) \<and>
    free_list m1 (pg_freelist s1) (x # xs) \<and>
    alloc_page s1 m1 = Some (x, s2) \<and> free_list m1 (pg_freelist s2) xs \<and>
    pg_freelist s2 = pg_freelist s"
proof -
  obtain s1 m1 where 1: "free_page x s m = Some (s1, m1)" "m1 = store32 m x (pg_freelist s)"
    "lock_free (pg_lock s1)" "free_list m1 (pg_freelist s1) (x # xs)"
    using free_page_spec [OF assms] by blast
  then obtain s2 where 2: "alloc_page s1 m1 = Some (x, s2)" "free_list m1 (pg_freelist s2) xs"
    using alloc_page_Cons by blast
  have "pg_freelist s2 = load32 m1 (pg_freelist s1)"
    using 2(1) 1(3) assms(3) by (auto simp: alloc_page_def spin_lock_free split: if_splits)
  also have "\<dots> = pg_freelist s"
    using free_list_hd [OF 1(4)] by (simp add: 1(2) load32_store32)
  finally show ?thesis using 1 2 by blast
qed

theorem free_then_alloc_page_witness:
  "\<exists>s1 m1 s2. free_page 0x300000 page_state0 zero_mem = Some (s1, m1) \<and>
     alloc_page s1 m1 = Some (0x300000, s2) \<and> pg_freelist s2 = 0x200000"
proof -
  have "aligned 0x300000 4096" "0x300000 \<notin> set [0x200000 :: u32]" by (simp_all add: aligned_def)
  from free_then_alloc_page [OF page_state0_free_list _ this] show ?thesis
    by (auto simp: page_state0_def)
qed

end
