(* ===== verification/Cstring.thy ===== *)
theory Cstring
  imports C_Prelude "HOL-Library.Sublist"
begin

text \<open>
  The string and memory routines of \<open>src/kernel/string.c\<close> on the flat memory. A pointer argument is
  an address; the functions that write return the new memory. Loops that end only when they meet a
  particular byte are \<open>partial_function (option)\<close>, so that a missing terminator shows as \<open>None\<close>; loops
  counted by \<open>n--\<close> recurse on the count. \<open>char\<close> is signed on the build's target, hence \<open>sint\<close> where
  the code promotes a \<open>char\<close> to \<open>int\<close>.
\<close>

unbundle bit_operations_syntax

section \<open>Routines\<close>

partial_function (option) strlen_loop :: "memory \<Rightarrow> u32 \<Rightarrow> u32 \<Rightarrow> u32 option" where
  "strlen_loop m buf len = (if m buf = 0 then Some len else strlen_loop m (buf + 1) (len + 1))"

definition strlen :: "memory \<Rightarrow> u32 \<Rightarrow> u32 option" where
  "strlen m buf = strlen_loop m buf 0"

text \<open>\<open>strcat\<close>: first to the end of \<open>dest\<close>, then copy up to and including the terminator.\<close>

partial_function (option) find_end :: "memory \<Rightarrow> u32 \<Rightarrow> u32 option" where
  "find_end m p = (if m p = 0 then Some p else find_end m (p + 1))"

partial_function (option) copy_string :: "memory \<Rightarrow> u32 \<Rightarrow> u32 \<Rightarrow> memory option" where
  "copy_string m p src =
     (let c = m src; m' = m(p := c)
      in if c = 0 then Some m' else copy_string m' (p + 1) (src + 1))"

definition strcat :: "memory \<Rightarrow> u32 \<Rightarrow> u32 \<Rightarrow> (memory \<times> u32) option" where
  "strcat m dest src =
     (case find_end m dest of
        None \<Rightarrow> None
      | Some p \<Rightarrow> map_option (\<lambda>m'. (m', dest)) (copy_string m p src))"

definition strcpy :: "memory \<Rightarrow> u32 \<Rightarrow> u32 \<Rightarrow> (memory \<times> u32) option" where
  "strcpy m dest src = strcat (m(dest := 0)) dest src"

primrec strncmp_loop :: "nat \<Rightarrow> memory \<Rightarrow> u32 \<Rightarrow> u32 \<Rightarrow> int" where
  "strncmp_loop 0 m a b = 0"
| "strncmp_loop (Suc n) m a b =
     (if m a \<noteq> m b \<or> m a = 0 then sint (m a) - sint (m b)
      else strncmp_loop n m (a + 1) (b + 1))"

definition strncmp :: "memory \<Rightarrow> u32 \<Rightarrow> u32 \<Rightarrow> u32 \<Rightarrow> int" where
  "strncmp m a b n = strncmp_loop (unat n) m a b"

definition strcmp :: "memory \<Rightarrow> u32 \<Rightarrow> u32 \<Rightarrow> int" where
  "strcmp m a b = strncmp m a b 66535"

partial_function (option) strchr_loop :: "memory \<Rightarrow> u32 \<Rightarrow> u8 \<Rightarrow> u32 option" where
  "strchr_loop m s c =
     (if m s \<noteq> c then (if m s = 0 then Some 0 else strchr_loop m (s + 1) c) else Some s)"

definition strchr :: "memory \<Rightarrow> u32 \<Rightarrow> u32 \<Rightarrow> u32 option" where
  "strchr m s c = strchr_loop m s (ucast c)"

primrec memcmp_loop :: "nat \<Rightarrow> memory \<Rightarrow> u32 \<Rightarrow> u32 \<Rightarrow> int" where
  "memcmp_loop 0 m a b = 0"
| "memcmp_loop (Suc n) m a b =
     (let ret = uint (m a) - uint (m b)
      in if ret \<noteq> 0 then ret else memcmp_loop n m (a + 1) (b + 1))"

definition memcmp :: "memory \<Rightarrow> u32 \<Rightarrow> u32 \<Rightarrow> u32 \<Rightarrow> int" where
  "memcmp m s1 s2 n = memcmp_loop (unat n) m s1 s2"

text \<open>The loop of \<open>strstr\<close> counts \<open>l1\<close> down to below \<open>l2\<close>, which is not 0.\<close>

function strstr_loop :: "memory \<Rightarrow> u32 \<Rightarrow> u32 \<Rightarrow> u32 \<Rightarrow> u32 \<Rightarrow> u32" where
  "strstr_loop m s1 s2 l1 l2 =
     (if l2 \<noteq> 0 \<and> l2 \<le> l1 then
        (if memcmp m s1 s2 l2 = 0 then s1 else strstr_loop m (s1 + 1) s2 (l1 - 1) l2)
      else 0)"
  by pat_completeness auto
termination
  by (relation "measure (\<lambda>(m, s1, s2, l1, l2). unat l1)") (auto intro!: measure_unat)

definition strstr :: "memory \<Rightarrow> u32 \<Rightarrow> u32 \<Rightarrow> u32 option" where
  "strstr m s1 s2 =
     (case strlen m s2 of
        None \<Rightarrow> None
      | Some l2 \<Rightarrow>
          if l2 = 0 then Some s1
          else case strlen m s1 of
            None \<Rightarrow> None
          | Some l1 \<Rightarrow> Some (strstr_loop m s1 s2 l1 l2))"

definition memset :: "memory \<Rightarrow> u32 \<Rightarrow> u32 \<Rightarrow> u32 \<Rightarrow> memory" where
  "memset m s c n = fold (\<lambda>i m'. m'(s + of_nat i := ucast c)) [0..<unat n] m"

definition memcpy :: "memory \<Rightarrow> u32 \<Rightarrow> u32 \<Rightarrow> u32 \<Rightarrow> memory" where
  "memcpy m dest src n =
     fold (\<lambda>i m'. m'(dest + of_nat i := m' (src + of_nat i))) [0..<unat n] m"

primrec copy_up :: "nat \<Rightarrow> u32 \<Rightarrow> u32 \<Rightarrow> memory \<Rightarrow> memory" where
  "copy_up 0 d s m = m"
| "copy_up (Suc n) d s m = copy_up n (d + 1) (s + 1) (m(d := m s))"

primrec copy_down :: "nat \<Rightarrow> u32 \<Rightarrow> u32 \<Rightarrow> memory \<Rightarrow> memory" where
  "copy_down 0 d s m = m"
| "copy_down (Suc n) d s m = copy_down n (d - 1) (s - 1) (m(d - 1 := m (s - 1)))"

definition memmove :: "memory \<Rightarrow> u32 \<Rightarrow> u32 \<Rightarrow> u32 \<Rightarrow> memory" where
  "memmove m dest src n =
     (if dest \<le> src then copy_up (unat n) dest src m
      else copy_down (unat n) (dest + n) (src + n) m)"

primrec memchr_loop :: "nat \<Rightarrow> memory \<Rightarrow> u32 \<Rightarrow> u8 \<Rightarrow> u32" where
  "memchr_loop 0 m s c = 0"
| "memchr_loop (Suc n) m s c = (if m s = c then s else memchr_loop n m (s + 1) c)"

definition memchr :: "memory \<Rightarrow> u32 \<Rightarrow> u32 \<Rightarrow> u32 \<Rightarrow> u32" where
  "memchr m s c n = memchr_loop (unat n) m s (ucast c)"

text \<open>\<open>atol\<close>: \<open>long\<close> has 32 bits and the build's arithmetic wraps.\<close>

partial_function (option) skip_blanks :: "memory \<Rightarrow> u32 \<Rightarrow> u32 option" where
  "skip_blanks m s = (if m s = 0x20 \<or> m s = 0x09 then skip_blanks m (s + 1) else Some s)"

partial_function (option) atol_digits :: "memory \<Rightarrow> u32 \<Rightarrow> u32 \<Rightarrow> u32 option" where
  "atol_digits m s acc =
     (if m s \<noteq> 0 then
        (if sint (m s) < 0x30 \<or> sint (m s) > 0x39 then Some acc
         else let c = scast (m s) - 0x30 in atol_digits m (s + 1) (acc * 10 + c))
      else Some acc)"

definition atol :: "memory \<Rightarrow> u32 \<Rightarrow> u32 option" where
  "atol m ptr =
     (case skip_blanks m ptr of
        None \<Rightarrow> None
      | Some s \<Rightarrow>
          (let neg = (m s = 0x2D);
               s' = (if m s = 0x2D then s + 1 else if m s = 0x2B then s + 1 else s)
           in case atol_digits m s' 0 of
                None \<Rightarrow> None
              | Some acc \<Rightarrow> Some (if neg then - acc else acc)))"


section \<open>Strings in memory\<close>

text \<open>\<open>string_at m p s\<close>: the bytes from \<open>p\<close> on are \<open>s\<close>, none of them 0, and then a 0.\<close>

primrec string_at :: "memory \<Rightarrow> u32 \<Rightarrow> u8 list \<Rightarrow> bool" where
  "string_at m p [] \<longleftrightarrow> m p = 0"
| "string_at m p (c # s) \<longleftrightarrow> m p = c \<and> c \<noteq> 0 \<and> string_at m (p + 1) s"

lemma string_at_iff:
  "string_at m p s \<longleftrightarrow> read_bytes m p (length s) = s \<and> 0 \<notin> set s \<and> m (p + of_nat (length s)) = 0"
  by (induction s arbitrary: p) (auto simp: read_bytes_Suc algebra_simps)

lemma string_at_end: "string_at m p s \<Longrightarrow> m (p + of_nat (length s)) = 0"
  by (simp add: string_at_iff)

lemma string_at_nonzero: "string_at m p s \<Longrightarrow> i < length s \<Longrightarrow> m (p + of_nat i) \<noteq> 0"
  unfolding string_at_iff by (metis nth_mem nth_read_bytes)

lemma string_at_nth: "string_at m p s \<Longrightarrow> i < length s \<Longrightarrow> m (p + of_nat i) = s ! i"
  unfolding string_at_iff by (metis nth_read_bytes)

text \<open>The address space bounds the length of every string.\<close>

lemma string_at_length: "string_at m p s \<Longrightarrow> length s < 2 ^ 32"
proof (rule ccontr)
  assume s: "string_at m p s" and "\<not> length s < 2 ^ 32"
  then have "length s mod 2 ^ 32 < length s"
    by (metis linorder_not_less mod_less_divisor order_less_le_trans zero_less_numeral zero_less_power)
  moreover have "(of_nat (length s mod 2 ^ 32) :: u32) = of_nat (length s)"
    by (simp add: word_unat_eq_iff unat_of_nat)
  ultimately show False
    using string_at_nonzero [OF s] string_at_end [OF s] by metis
qed

lemma string_at_append:
  "string_at m p (s @ t) \<longleftrightarrow>
     read_bytes m p (length s) = s \<and> 0 \<notin> set s \<and> string_at m (p + of_nat (length s)) t"
  by (induction s arbitrary: p) (auto simp: read_bytes_Suc algebra_simps)

lemma string_at_drop:
  "string_at m p s \<Longrightarrow> i \<le> length s \<Longrightarrow> string_at m (p + of_nat i) (drop i s)"
  using string_at_append [of m p "take i s" "drop i s"] by simp

lemma span_step: "span (p + 1) n \<subseteq> span p (Suc n)"
proof
  fix a assume "a \<in> span (p + 1) n"
  then have "unat (a - (p + 1)) < n" by (simp add: span_iff)
  moreover have "unat (a - p) \<le> unat (a - (p + 1)) + 1"
    using unatSuc [of "a - (p + 1)"] by (cases "1 + (a - (p + 1)) = 0") simp_all
  ultimately show "a \<in> span p (Suc n)" by (simp add: span_iff)
qed

lemma span_first: "p \<in> span p (Suc n)"
  by (simp add: span_iff)

lemma string_at_cong:
  "string_at m p s \<Longrightarrow> (\<And>a. a \<in> span p (Suc (length s)) \<Longrightarrow> m' a = m a) \<Longrightarrow> string_at m' p s"
proof (induction s arbitrary: p)
  case (Cons c s)
  have "string_at m' (p + 1) s"
    using Cons.prems span_step [of p "Suc (length s)"] by (intro Cons.IH) auto
  then show ?case using Cons.prems by (simp add: span_first)
qed (simp add: span_first)

text \<open>From every address a string starts, as soon as the memory holds a 0 anywhere.\<close>

lemma ex_string_at: "m a = 0 \<Longrightarrow> \<exists>s. string_at m p s"
proof (induction "unat (a - p)" arbitrary: p)
  case 0
  then have "a = p" by (simp add: unat_eq_zero)
  with 0 have "string_at m p []" by simp
  then show ?case ..
next
  case (Suc n)
  have "unat (a - (p + 1)) = n"
    using Suc.hyps(2) unat_minus_one [of "a - p"] by (cases "a = p") (auto simp: algebra_simps)
  then obtain s where "string_at m (p + 1) s"
    using Suc by metis
  then have "string_at m p (if m p = 0 then [] else m p # s)" by simp
  then show ?case ..
qed

lemma string_at_unique: "string_at m p s \<Longrightarrow> string_at m p t \<Longrightarrow> s = t"
proof (induction s arbitrary: p t)
  case Nil
  then show ?case by (cases t) auto
next
  case (Cons c s)
  then show ?case by (cases t) auto
qed

section \<open>Lengths and searches\<close>

lemma strlen_loop_string:
  "string_at m p s \<Longrightarrow> strlen_loop m p n = Some (n + of_nat (length s))"
proof (induction s arbitrary: p n)
  case Nil
  then show ?case by (subst strlen_loop.simps) simp
next
  case (Cons c s)
  then show ?case by (subst strlen_loop.simps) (auto simp: algebra_simps)
qed

lemma strlen_loop_Some:
  "strlen_loop m p n = Some r \<Longrightarrow> \<exists>s. string_at m p s"
proof (rule strlen_loop.raw_induct [of "\<lambda>m p n r. \<exists>s. string_at m p s"])
  fix loop :: "memory \<Rightarrow> u32 \<Rightarrow> u32 \<Rightarrow> u32 option" and m :: memory and p n r :: u32
  assume IH: "\<And>m p n r. loop m p n = Some r \<Longrightarrow> \<exists>s. string_at m p s"
    and step: "(if m p = 0 then Some n else loop m (p + 1) (n + 1)) = Some r"
  show "\<exists>s. string_at m p s"
  proof (cases "m p = 0")
    case True
    then have "string_at m p []" by simp
    then show ?thesis by blast
  next
    case False
    then have "loop m (p + 1) (n + 1) = Some r" using step by simp
    then obtain s where "string_at m (p + 1) s"
      using IH by blast
    then have "string_at m p (m p # s)" using False by simp
    then show ?thesis by blast
  qed
qed

lemma strlen_string: "string_at m p s \<Longrightarrow> strlen m p = Some (of_nat (length s))"
  by (simp add: strlen_def strlen_loop_string)

text \<open>The result of \<open>strlen\<close> is \<open>n\<close> exactly when \<open>n\<close> non-zero bytes and then a zero byte stand at
  the address; and it fails to return exactly on a memory without any zero byte.\<close>

theorem strlen_correct:
  "(strlen m p = Some n \<longleftrightarrow> string_at m p (read_bytes m p (unat n))) \<and>
   (strlen m p = None \<longleftrightarrow> 0 \<notin> range m)"
proof (cases "0 \<in> range m")
  case True
  then obtain s where s: "string_at m p s"
    using ex_string_at [of m _ p] by (metis rangeE)
  then have r: "read_bytes m p (length s) = s" and l: "length s < 2 ^ 32"
    using string_at_length [of m p s] by (simp_all add: string_at_iff)
  have "n = of_nat (length s) \<longleftrightarrow> string_at m p (read_bytes m p (unat n))"
  proof
    assume "n = of_nat (length s)"
    then show "string_at m p (read_bytes m p (unat n))" using s r l by (simp add: unat_of_nat32)
  next
    assume "string_at m p (read_bytes m p (unat n))"
    then have "length s = unat n" using string_at_unique [OF s] by (metis length_read_bytes)
    then show "n = of_nat (length s)" by simp
  qed
  then show ?thesis using True strlen_string [OF s] by auto
next
  case False
  have no: "\<not> string_at m p s" for s
    using string_at_end [of m p s] False by (metis rangeI)
  then have "strlen m p = None"
    using strlen_loop_Some [of m p 0] by (auto simp: strlen_def intro: option.exhaust)
  with no False show ?thesis by simp
qed

lemma strchr_loop_string:
  "string_at m p s \<Longrightarrow> c \<noteq> 0 \<Longrightarrow> strchr_loop m p c =
     Some (if c \<in> set s then p + of_nat (length (takeWhile (\<lambda>b. b \<noteq> c) s)) else 0)"
proof (induction s arbitrary: p)
  case Nil
  then show ?case by (subst strchr_loop.simps) auto
next
  case (Cons b s)
  then show ?case by (subst strchr_loop.simps) (auto simp: algebra_simps)
qed

lemma strchr_loop_end: "string_at m p s \<Longrightarrow> strchr_loop m p 0 = Some (p + of_nat (length s))"
proof (induction s arbitrary: p)
  case Nil
  then show ?case by (subst strchr_loop.simps) auto
next
  case (Cons b s)
  then show ?case by (subst strchr_loop.simps) (auto simp: algebra_simps)
qed

text \<open>\<open>strchr\<close> returns the address of the first occurrence of the character, the address of the
  terminator when asked for 0, and NULL when the string has no such character.\<close>

theorem strchr_correct:
  assumes "string_at m p s"
  shows "strchr m p c =
    Some (if ucast c = (0 :: u8) then p + of_nat (length s)
          else if ucast c \<in> set s then p + of_nat (length (takeWhile (\<lambda>b. b \<noteq> ucast c) s))
          else 0)"
  using assms by (simp add: strchr_def strchr_loop_string strchr_loop_end)

theorem strchr_correct_witness:
  "strchr (\<lambda>a. if a = 0x100 then 0x61 else if a = 0x101 then 0x62 else 0) 0x100 0x162 = Some 0x101"
proof -
  have s: "string_at (\<lambda>a. if a = 0x100 then 0x61 else if a = 0x101 then 0x62 else 0) 0x100 [0x61, 0x62]"
    by simp
  show ?thesis
    by (subst strchr_correct [OF s]) simp
qed

section \<open>Comparison\<close>

lemma memcmp_loop_0: "memcmp_loop n m a b = 0 \<longleftrightarrow> read_bytes m a n = read_bytes m b n"
  by (induction n arbitrary: a b) (auto simp: read_bytes_Suc Let_def word_uint_eq_iff)

text \<open>\<open>memcmp\<close> is 0 exactly on equal blocks, and otherwise the difference of the first two bytes
  that differ, read as unsigned.\<close>

theorem memcmp_correct:
  "(memcmp m a b n = 0 \<longleftrightarrow> read_bytes m a (unat n) = read_bytes m b (unat n)) \<and>
   (memcmp m a b n = d \<longleftrightarrow>
      (d = 0 \<and> read_bytes m a (unat n) = read_bytes m b (unat n)) \<or>
      (\<exists>i < unat n. read_bytes m a i = read_bytes m b i \<and> d \<noteq> 0 \<and>
         d = uint (m (a + of_nat i)) - uint (m (b + of_nat i))))"
proof -
  have "memcmp_loop k m a b = d \<longleftrightarrow>
      (d = 0 \<and> read_bytes m a k = read_bytes m b k) \<or>
      (\<exists>i < k. read_bytes m a i = read_bytes m b i \<and> d \<noteq> 0 \<and>
         d = uint (m (a + of_nat i)) - uint (m (b + of_nat i)))" for k
  proof (induction k arbitrary: a b)
    case (Suc k)
    show ?case
    proof (cases "m a = m b")
      case True
      then show ?thesis
        using Suc [of "a + 1" "b + 1"]
        by (simp add: read_bytes_Suc Ex_less_Suc2 algebra_simps)
    next
      case False
      then show ?thesis
        by (auto simp: Let_def read_bytes_Suc Ex_less_Suc2 word_uint_eq_iff)
    qed
  qed auto
  then show ?thesis by (simp add: memcmp_def memcmp_loop_0)
qed

lemma sint_eq_iff8: "sint (x :: u8) = sint y \<longleftrightarrow> x = y"
  using signed_word_eqI [of x y] by auto

lemma sint_eq_0_8 [simp]: "sint (x :: u8) = 0 \<longleftrightarrow> x = 0"
  using sint_eq_iff8 [of x 0] by simp

lemma strncmp_loop_0:
  "string_at m a s \<Longrightarrow> string_at m b t \<Longrightarrow> strncmp_loop n m a b = 0 \<longleftrightarrow> take n s = take n t"
proof (induction n arbitrary: a b s t)
  case (Suc n)
  show ?case
  proof (cases s)
    case Nil
    then show ?thesis using Suc.prems by (cases t) auto
  next
    case [simp]: (Cons c s')
    show ?thesis
    proof (cases t)
      case Nil
      then show ?thesis using Suc.prems by auto
    next
      case [simp]: (Cons d t')
      show ?thesis
        using Suc.prems Suc.IH [of "a + 1" s' "b + 1" t'] by (auto simp: sint_eq_iff8)
    qed
  qed
qed simp

lemma strncmp_loop_first:
  "string_at m a (u @ s) \<Longrightarrow> string_at m b (u @ t) \<Longrightarrow> length u < n \<Longrightarrow>
   (case s of [] \<Rightarrow> 0 | x # _ \<Rightarrow> x) \<noteq> (case t of [] \<Rightarrow> 0 | y # _ \<Rightarrow> y) \<Longrightarrow>
   strncmp_loop n m a b =
     sint (case s of [] \<Rightarrow> 0 | x # _ \<Rightarrow> x) - sint (case t of [] \<Rightarrow> 0 | y # _ \<Rightarrow> y)"
proof (induction u arbitrary: a b n)
  case Nil
  then show ?case by (cases n; cases s; cases t) auto
next
  case (Cons c u)
  then show ?case by (cases n) auto
qed

text \<open>\<open>strcmp\<close> is 0 exactly when the two strings agree on their first 66535 bytes (the constant of
  the source): it is an equality test for the strings shorter than that and for no others.\<close>

theorem strcmp_correct:
  assumes "string_at m a s" "string_at m b t"
  shows "(strcmp m a b = 0 \<longleftrightarrow> take 66535 s = take 66535 t) \<and>
    (length s < 66535 \<longrightarrow> (strcmp m a b = 0 \<longleftrightarrow> s = t))"
proof -
  have *: "strcmp m a b = 0 \<longleftrightarrow> take 66535 s = take 66535 t"
    using strncmp_loop_0 [OF assms, of 66535] by (simp add: strcmp_def strncmp_def)
  have "take 66535 s = take 66535 t \<longleftrightarrow> s = t" if "length s < 66535"
  proof
    assume e: "take 66535 s = take 66535 t"
    then have "length (take 66535 t) < 66535" using that by (metis length_take min_less_iff_disj)
    then have "length t < 66535" by (simp only: length_take min_less_iff_disj) simp
    with e that show "s = t" by simp
  qed simp
  with * show ?thesis by blast
qed

theorem strcmp_correct_witness:
  "strcmp (\<lambda>a. if a = 0x100 \<or> a = 0x200 then 0x61 else if a = 0x201 then 0x62 else 0) 0x100 0x200 \<noteq> 0"
proof -
  let ?m = "\<lambda>a :: u32. if a = 0x100 \<or> a = 0x200 then 0x61 else if a = 0x201 then 0x62 else (0 :: u8)"
  have "string_at ?m 0x100 [0x61]" "string_at ?m 0x200 [0x61, 0x62]" by simp_all
  from strcmp_correct [OF this] show ?thesis by simp
qed

text \<open>Where two strings first differ within the bound, \<open>strncmp\<close> returns the difference of the two
  bytes read as signed \<open>char\<close>s, so that bytes of 0x80 and above sort before the terminator.\<close>

theorem strncmp_first_difference:
  assumes "string_at m a (u @ s)" "string_at m b (u @ t)" "length u < unat n"
    "(case s of [] \<Rightarrow> 0 | x # _ \<Rightarrow> x) \<noteq> (case t of [] \<Rightarrow> 0 | y # _ \<Rightarrow> y)"
  shows "strncmp m a b n =
    sint (case s of [] \<Rightarrow> 0 | x # _ \<Rightarrow> x) - sint (case t of [] \<Rightarrow> 0 | y # _ \<Rightarrow> y)"
  using strncmp_loop_first [OF assms] by (simp add: strncmp_def)

theorem strncmp_first_difference_witness:
  "strncmp (\<lambda>a. if a = 0x100 \<or> a = 0x200 then 0x61 else if a = 0x201 then 0x80 else 0)
     0x200 0x100 5 = - 128"
proof -
  let ?m = "\<lambda>a :: u32. if a = 0x100 \<or> a = 0x200 then 0x61 else if a = 0x201 then 0x80 else (0 :: u8)"
  have s: "string_at ?m 0x200 ([0x61] @ [0x80])" "string_at ?m 0x100 ([0x61] @ [])" by simp_all
  show ?thesis
    by (subst strncmp_first_difference [OF s]) simp_all
qed

section \<open>Memory blocks\<close>

lemma read_bytes_cong:
  "(\<And>i. i < n \<Longrightarrow> m (p + of_nat i) = m' (q + of_nat i)) \<Longrightarrow> read_bytes m p n = read_bytes m' q n"
  by (simp add: read_bytes_def)

lemma fold_upt_shift: "fold f [Suc i..<Suc j] = fold (f \<circ> Suc) [i..<j]"
  by (rule ext) (simp add: map_Suc_upt [symmetric] fold_map del: upt_Suc map_Suc_upt)

lemma fold_write:
  "fold (\<lambda>i m'. m'(s + of_nat i := c)) [0..<n] m = write_bytes m s (replicate n c)"
proof (induction n arbitrary: m s)
  case (Suc n)
  have "fold (\<lambda>i m'. m'(s + of_nat i := c)) [0..<Suc n] m =
      fold ((\<lambda>i m'. m'(s + of_nat i := c)) \<circ> Suc) [0..<n] (m(s := c))"
    by (simp add: upt_conv_Cons fold_upt_shift del: upt_Suc)
  also have "(\<lambda>i m'. m'(s + of_nat i := c)) \<circ> Suc = (\<lambda>i m'. m'((s + 1) + of_nat i := c))"
    by (rule ext) (simp add: algebra_simps)
  finally show ?case by (simp only: Suc replicate_Suc write_bytes.simps)
qed simp

lemma memset_fill: "memset m s c n = write_bytes m s (replicate (unat n) (ucast c))"
  by (simp add: memset_def fold_write)

text \<open>\<open>memset\<close> writes \<open>n\<close> copies of the low byte of its argument and touches nothing else.\<close>

theorem memset_correct:
  "memset m s c n = write_bytes m s (replicate (unat n) (ucast c))"
  by (rule memset_fill)

text \<open>The loop of \<open>memcpy\<close> is the upward loop of \<open>memmove\<close>.\<close>

lemma memcpy_copy_up: "memcpy m d s n = copy_up (unat n) d s m"
proof -
  have "fold (\<lambda>i m'. m'(d + of_nat i := m' (s + of_nat i))) [0..<k] m = copy_up k d s m" for k
  proof (induction k arbitrary: m d s)
    case (Suc k)
    have "fold (\<lambda>i m'. m'(d + of_nat i := m' (s + of_nat i))) [0..<Suc k] m =
        fold ((\<lambda>i m'. m'(d + of_nat i := m' (s + of_nat i))) \<circ> Suc) [0..<k] (m(d := m s))"
      by (simp add: upt_conv_Cons fold_upt_shift del: upt_Suc)
    also have "(\<lambda>i m'. m'(d + of_nat i := m' (s + of_nat i))) \<circ> Suc =
        (\<lambda>i m'. m'((d + 1) + of_nat i := m' ((s + 1) + of_nat i)))"
      by (rule ext) (simp add: algebra_simps)
    finally show ?case by (simp only: Suc copy_up.simps)
  qed simp
  then show ?thesis by (simp add: memcpy_def)
qed

text \<open>The upward copy is right as soon as no byte is read after it was written.\<close>

lemma copy_up_correct:
  assumes "\<And>i j. i < j \<Longrightarrow> j < n \<Longrightarrow> d + of_nat i \<noteq> s + of_nat j" "n \<le> 2 ^ 32"
  shows "copy_up n d s m = write_bytes m d (read_bytes m s n)"
  using assms
proof (induction n arbitrary: d s m)
  case (Suc n)
  have IH: "copy_up n (d + 1) (s + 1) (m(d := m s)) =
      write_bytes (m(d := m s)) (d + 1) (read_bytes (m(d := m s)) (s + 1) n)"
  proof (rule Suc.IH)
    fix i j assume "i < j" "j < n"
    then show "d + 1 + of_nat i \<noteq> s + 1 + of_nat j"
      using Suc.prems(1) [of "Suc i" "Suc j"] by (simp add: algebra_simps)
  qed (use Suc.prems in simp)
  have "read_bytes (m(d := m s)) (s + 1) n = read_bytes m (s + 1) n"
  proof (rule read_bytes_cong)
    fix i assume "i < n"
    then have "s + 1 + of_nat i \<noteq> d"
      using Suc.prems(1) [of 0 "Suc i"] by (simp add: algebra_simps)
    then show "(m(d := m s)) (s + 1 + of_nat i) = m (s + 1 + of_nat i)" by simp
  qed
  then show ?case using IH by (simp add: read_bytes_Suc)
qed simp

lemma read_bytes_snoc: "read_bytes m p (Suc n) = read_bytes m p n @ [m (p + of_nat n)]"
  by (simp add: read_bytes_def)

lemma write_bytes_append:
  "write_bytes m p (xs @ ys) = write_bytes (write_bytes m p xs) (p + of_nat (length xs)) ys"
  by (induction xs arbitrary: m p) (simp_all add: algebra_simps)

lemma write_bytes_commute:
  "length xs \<le> 2 ^ 32 \<Longrightarrow> a \<notin> span p (length xs) \<Longrightarrow>
   write_bytes (m(a := c)) p xs = (write_bytes m p xs)(a := c)"
  by (rule ext) (auto simp: write_bytes_apply span_iff)

lemma copy_down_correct:
  assumes "\<And>i j. i < j \<Longrightarrow> j < n \<Longrightarrow> d + of_nat j \<noteq> s + of_nat i" "n \<le> 2 ^ 32"
  shows "copy_down n (d + of_nat n) (s + of_nat n) m = write_bytes m d (read_bytes m s n)"
  using assms
proof (induction n arbitrary: m)
  case (Suc n)
  let ?a = "d + of_nat n" and ?c = "m (s + of_nat n)"
  have IH: "copy_down n (d + of_nat n) (s + of_nat n) (m(?a := ?c)) =
      write_bytes (m(?a := ?c)) d (read_bytes (m(?a := ?c)) s n)"
    using Suc.prems by (intro Suc.IH) auto
  have r: "read_bytes (m(?a := ?c)) s n = read_bytes m s n"
    using Suc.prems(1) by (intro read_bytes_cong) (metis fun_upd_other lessI)
  have "?a \<notin> span d n"
    using Suc.prems(2) by (simp add: span_iff unat_of_nat)
  then have "write_bytes (m(?a := ?c)) d (read_bytes m s n) =
      (write_bytes m d (read_bytes m s n))(?a := ?c)"
    using Suc.prems(2) by (intro write_bytes_commute) simp_all
  then show ?case
    using IH r by (simp add: read_bytes_snoc write_bytes_append algebra_simps)
qed simp

text \<open>C35. \<open>memmove\<close> leaves at the destination what the source held before the call, whether or not the
  two blocks overlap, and changes no other byte.\<close>

theorem memmove_correct:
  assumes "unat dest + unat n \<le> 2 ^ 32" "unat src + unat n \<le> 2 ^ 32"
  shows "memmove m dest src n = write_bytes m dest (read_bytes m src (unat n))"
proof (cases "dest \<le> src")
  case True
  have "dest + of_nat i \<noteq> src + of_nat j" if "i < j" "j < unat n" for i j
    using that True assms offset_add [of dest i] offset_add [of src j]
    by (auto simp: word_le_nat_alt word_unat_eq_iff)
  then have "copy_up (unat n) dest src m = write_bytes m dest (read_bytes m src (unat n))"
    using unat_less_32 [of n] by (intro copy_up_correct) simp_all
  then show ?thesis using True by (simp add: memmove_def)
next
  case False
  have "dest + of_nat j \<noteq> src + of_nat i" if "i < j" "j < unat n" for i j
    using that False assms offset_add [of dest j] offset_add [of src i]
    by (auto simp: word_le_nat_alt word_unat_eq_iff)
  then have "copy_down (unat n) (dest + of_nat (unat n)) (src + of_nat (unat n)) m =
      write_bytes m dest (read_bytes m src (unat n))"
    using unat_less_32 [of n] by (intro copy_down_correct) simp_all
  then show ?thesis using False by (simp add: memmove_def)
qed

theorem memmove_correct_witness:
  "memmove (\<lambda>a. ucast a) 0x102 0x100 4 0x104 = 0x02"
proof -
  have "memmove (\<lambda>a. ucast a) 0x102 0x100 4 =
      write_bytes (\<lambda>a. ucast a) 0x102 (read_bytes (\<lambda>a. ucast a) 0x100 (unat (4 :: u32)))"
    by (rule memmove_correct) simp_all
  then show ?thesis by (simp add: write_bytes_apply)
qed

text \<open>\<open>memcpy\<close> copies correctly between blocks that do not overlap, and for a destination at or
  below the source it is \<open>memmove\<close>.\<close>

theorem memcpy_correct:
  assumes "span dest (unat n) \<inter> span src (unat n) = {}"
  shows "memcpy m dest src n = write_bytes m dest (read_bytes m src (unat n))"
  unfolding memcpy_copy_up
proof (rule copy_up_correct)
  fix i j assume "i < j" "j < unat n"
  then have "dest + of_nat i \<in> span dest (unat n)" "src + of_nat j \<in> span src (unat n)"
    using unat_less_32 [of n] by (auto intro!: in_span_add)
  with assms show "dest + of_nat i \<noteq> src + of_nat j" by auto
qed (use unat_less_32 [of n] in simp)

theorem memcpy_correct_witness: "memcpy (\<lambda>a. ucast a) 0x200 0x100 4 0x203 = 0x03"
proof -
  have "memcpy (\<lambda>a. ucast a) 0x200 0x100 4 =
      write_bytes (\<lambda>a. ucast a) 0x200 (read_bytes (\<lambda>a. ucast a) 0x100 (unat (4 :: u32)))"
    by (rule memcpy_correct, rule span_disjoint) simp_all
  then show ?thesis by (simp add: write_bytes_apply)
qed

lemma memmove_memcpy: "dest \<le> src \<Longrightarrow> memmove m dest src n = memcpy m dest src n"
  by (simp add: memmove_def memcpy_copy_up)

text \<open>\<open>memchr\<close> finds the first occurrence of the byte in the block and returns NULL when the block
  does not hold it.\<close>

theorem memchr_correct:
  "memchr m s c n =
     (let bs = read_bytes m s (unat n)
      in if ucast c \<in> set bs then s + of_nat (length (takeWhile (\<lambda>b. b \<noteq> ucast c) bs)) else 0)"
proof -
  have "memchr_loop k m s b =
      (if b \<in> set (read_bytes m s k)
       then s + of_nat (length (takeWhile (\<lambda>x. x \<noteq> b) (read_bytes m s k))) else 0)" for k b
    by (induction k arbitrary: s) (auto simp: read_bytes_Suc)
  then show ?thesis by (simp add: memchr_def Let_def)
qed

section \<open>Substring search\<close>

lemma string_at_suffix:
  "string_at m p s \<Longrightarrow> k \<le> length s \<Longrightarrow> read_bytes m p k = t \<longleftrightarrow> length t = k \<and> prefix t s"
proof -
  assume s: "string_at m p s" and k: "k \<le> length s"
  have "read_bytes m p k = take k s"
  proof (rule nth_equalityI)
    fix i assume "i < length (read_bytes m p k)"
    with s k show "read_bytes m p k ! i = take k s ! i" by (simp add: string_at_nth)
  qed (use k in simp)
  with k show ?thesis
    by (metis append_eq_conv_conj length_take min.absorb2 prefix_def take_is_prefix)
qed

text \<open>The first position at which \<open>t\<close> occurs in \<open>s\<close>, by recursion on \<open>s\<close>.\<close>

fun find_sub :: "u8 list \<Rightarrow> u8 list \<Rightarrow> nat option" where
  "find_sub t [] = (if t = [] then Some 0 else None)"
| "find_sub t (c # s) =
     (if prefix t (c # s) then Some 0 else map_option Suc (find_sub t s))"

lemma find_sub_Some: "find_sub t s = Some i \<Longrightarrow>
    prefix t (drop i s) \<and> (\<forall>j<i. \<not> prefix t (drop j s))"
proof (induction s arbitrary: i)
  case (Cons c s)
  show ?case
  proof (cases i)
    case (Suc k)
    then have "find_sub t s = Some k" "\<not> prefix t (c # s)"
      using Cons.prems by (auto split: if_splits)
    then show ?thesis using Cons.IH Suc by (auto simp: less_Suc_eq_0_disj)
  qed (use Cons.prems in \<open>auto split: if_splits\<close>)
qed (auto split: if_splits)

lemma find_sub_None: "find_sub t s = None \<Longrightarrow> \<not> prefix t (drop j s)"
  by (induction s arbitrary: j; case_tac j) (auto split: if_splits)

lemma find_sub_short: "length s < length t \<Longrightarrow> find_sub t s = None"
  by (induction s) (auto dest: prefix_length_le)

lemma strstr_loop_string:
  assumes "string_at m q t" "t \<noteq> []" "string_at m p s"
  shows "strstr_loop m p q (of_nat (length s)) (of_nat (length t)) =
    (case find_sub t s of None \<Rightarrow> 0 | Some i \<Rightarrow> p + of_nat i)"
  using assms(3)
proof (induction s arbitrary: p)
  case Nil
  have "unat (of_nat (length t) :: u32) = length t"
    using string_at_length [OF assms(1)] by (simp add: unat_of_nat32)
  with assms(2) show ?case by (simp add: word_le_nat_alt)
next
  case (Cons c s)
  have lt: "unat (of_nat (length t) :: u32) = length t"
    and ls: "unat (of_nat (length (c # s)) :: u32) = length (c # s)"
    using string_at_length [OF assms(1)] string_at_length [OF Cons.prems]
    by (simp_all only: unat_of_nat32)
  have t0: "of_nat (length t) \<noteq> (0 :: u32)"
    using lt assms(2) by (metis length_0_conv unsigned_0)
  show ?case
  proof (cases "length t \<le> length (c # s)")
    case True
    have "memcmp m p q (of_nat (length t)) = 0 \<longleftrightarrow> prefix t (c # s)"
      using string_at_suffix [OF Cons.prems True, of t] assms(1) lt
      by (simp add: memcmp_def memcmp_loop_0 string_at_iff)
    moreover have "of_nat (length (c # s)) - 1 = (of_nat (length s) :: u32)" by simp
    ultimately show ?thesis
      using Cons True t0 lt ls
      by (subst strstr_loop.simps) (simp add: word_le_nat_alt split: option.split)
  next
    case False
    then show ?thesis
      using lt ls find_sub_short [of "c # s" t]
      by (subst strstr_loop.simps) (simp add: word_le_nat_alt)
  qed
qed

text \<open>C38. \<open>strstr\<close> returns the address of the first occurrence of the second string in the first, NULL
  when there is none, and the first string itself when the second is empty.\<close>

theorem strstr_correct:
  assumes "string_at m p s" "string_at m q t"
  shows "strstr m p q = Some (case find_sub t s of None \<Rightarrow> 0 | Some i \<Rightarrow> p + of_nat i) \<and>
    (case find_sub t s of None \<Rightarrow> \<not> sublist t s
     | Some i \<Rightarrow> prefix t (drop i s) \<and> (\<forall>j<i. \<not> prefix t (drop j s)))"
proof
  show "strstr m p q = Some (case find_sub t s of None \<Rightarrow> 0 | Some i \<Rightarrow> p + of_nat i)"
  proof (cases "t = []")
    case True
    then have "find_sub t s = Some 0" by (cases s) auto
    with True strlen_string [OF assms(2)] show ?thesis by (simp add: strstr_def)
  next
    case False
    have "of_nat (length t) \<noteq> (0 :: u32)"
      using False unat_of_nat32 [OF string_at_length [OF assms(2)]]
      by (metis length_0_conv unsigned_0)
    with False show ?thesis
      using strstr_loop_string [OF assms(2) False assms(1)] strlen_string [OF assms(1)]
        strlen_string [OF assms(2)]
      by (simp add: strstr_def)
  qed
  show "case find_sub t s of None \<Rightarrow> \<not> sublist t s
     | Some i \<Rightarrow> prefix t (drop i s) \<and> (\<forall>j<i. \<not> prefix t (drop j s))"
  proof (cases "find_sub t s")
    case None
    have "\<not> sublist t s"
    proof
      assume "sublist t s"
      then obtain u v where "s = u @ t @ v" by (auto simp: sublist_def)
      then have "prefix t (drop (length u) s)" by simp
      with find_sub_None [OF None] show False by blast
    qed
    with None show ?thesis by simp
  qed (simp add: find_sub_Some)
qed

theorem strstr_correct_witness:
  "strstr (\<lambda>a. if a = 0x100 \<or> a = 0x101 then 0x61 else if a = 0x102 then 0x62
      else if a = 0x200 then 0x61 else if a = 0x201 then 0x62 else 0) 0x100 0x200 = Some 0x101"
proof -
  let ?m = "\<lambda>a :: u32. if a = 0x100 \<or> a = 0x101 then 0x61 else if a = 0x102 then 0x62
      else if a = 0x200 then 0x61 else if a = 0x201 then 0x62 else (0 :: u8)"
  have "string_at ?m 0x100 [0x61, 0x61, 0x62]" "string_at ?m 0x200 [0x61, 0x62]" by simp_all
  from strstr_correct [OF this] show ?thesis by simp
qed

section \<open>Copying strings\<close>

lemma find_end_string: "string_at m p s \<Longrightarrow> find_end m p = Some (p + of_nat (length s))"
proof (induction s arbitrary: p)
  case Nil
  then show ?case by (subst find_end.simps) simp
next
  case (Cons c s)
  then show ?case by (subst find_end.simps) (auto simp: algebra_simps)
qed

lemma copy_string_string:
  "string_at m src s \<Longrightarrow> span p (Suc (length s)) \<inter> span src (Suc (length s)) = {} \<Longrightarrow>
   copy_string m p src = Some (write_bytes m p (s @ [0]))"
proof (induction s arbitrary: m p src)
  case Nil
  then show ?case by (subst copy_string.simps) (simp add: Let_def)
next
  case (Cons c s)
  have p: "p \<notin> span src (Suc (length (c # s)))"
    using Cons.prems(2) span_first [of p "length (c # s)"] by blast
  have "string_at (m(p := c)) (src + 1) s"
  proof (rule string_at_cong)
    show "string_at m (src + 1) s" using Cons.prems(1) by simp
    fix a assume "a \<in> span (src + 1) (Suc (length s))"
    then have "a \<noteq> p" using p span_step [of src "Suc (length s)"] by auto
    then show "(m(p := c)) a = m a" by simp
  qed
  moreover have "span (p + 1) (Suc (length s)) \<inter> span (src + 1) (Suc (length s)) = {}"
    using Cons.prems(2) span_step [of p "Suc (length s)"] span_step [of src "Suc (length s)"]
    by auto
  ultimately have "copy_string (m(p := c)) (p + 1) (src + 1) =
      Some (write_bytes (m(p := c)) (p + 1) (s @ [0]))"
    by (rule Cons.IH)
  then show ?case using Cons.prems(1) by (subst copy_string.simps) (simp add: Let_def)
qed

lemma string_at_write:
  "0 \<notin> set s \<Longrightarrow> length s < 2 ^ 32 \<Longrightarrow> string_at (write_bytes m p (s @ [0])) p s"
proof -
  assume z: "0 \<notin> set s" and l: "length s < 2 ^ 32"
  then have a: "write_bytes m p (s @ [0]) (p + of_nat i) = (s @ [0]) ! i" if "i \<le> length s" for i
    using that by (subst write_bytes_apply) (simp_all add: unat_of_nat)
  have "read_bytes (write_bytes m p (s @ [0])) p (length s) = s"
    using a by (intro nth_equalityI) (simp_all add: nth_append)
  with z a show ?thesis by (simp add: string_at_iff)
qed

text \<open>\<open>strcat\<close> leaves the concatenation of the two strings at \<open>dest\<close>, returns \<open>dest\<close> and changes
  no byte outside the tail it writes, when that tail does not overlap the source.\<close>

theorem strcat_correct:
  assumes d: "string_at m dest d" and s: "string_at m src s"
    and disj: "span (dest + of_nat (length d)) (Suc (length s)) \<inter> span src (Suc (length s)) = {}"
    and len: "length d + length s < 2 ^ 32"
  shows "\<exists>m'. strcat m dest src = Some (m', dest) \<and> string_at m' dest (d @ s) \<and>
    (\<forall>a. a \<notin> span (dest + of_nat (length d)) (Suc (length s)) \<longrightarrow> m' a = m a)"
proof (intro exI conjI allI impI)
  let ?p = "dest + of_nat (length d)" and ?m' = "write_bytes m (dest + of_nat (length d)) (s @ [0])"
  show "strcat m dest src = Some (?m', dest)"
    using copy_string_string [OF s disj] find_end_string [OF d] by (simp add: strcat_def)
  show frame: "?m' a = m a" if "a \<notin> span ?p (Suc (length s))" for a
    using that len by (intro write_bytes_outside) simp_all
  have "read_bytes ?m' dest (length d) = read_bytes m dest (length d)"
  proof (rule read_bytes_cong)
    fix i assume i: "i < length d"
    have "unat (of_nat (2 ^ 32 - length d + i) :: u32) = 2 ^ 32 - length d + i"
      using i len by (intro unat_of_nat32) linarith
    moreover have "(of_nat (2 ^ 32 - length d + i) :: u32) = dest + of_nat i - ?p"
      using i len by (simp add: of_nat_diff)
    ultimately show "?m' (dest + of_nat i) = m (dest + of_nat i)"
      using len by (intro frame) (simp add: span_iff)
  qed
  moreover have "0 \<notin> set s" using s by (simp add: string_at_iff)
  ultimately show "string_at ?m' dest (d @ s)"
    using d len by (simp add: string_at_append string_at_write) (simp add: string_at_iff)
qed

theorem strcat_correct_witness:
  "\<exists>m'. strcat (\<lambda>a. if a = 0x100 then 0x61 else if a = 0x200 then 0x62 else 0) 0x100 0x200 =
      Some (m', 0x100) \<and> string_at m' 0x100 [0x61, 0x62]"
proof -
  let ?m = "\<lambda>a :: u32. if a = 0x100 then 0x61 else if a = 0x200 then 0x62 else (0 :: u8)"
  have "string_at ?m 0x100 [0x61]" "string_at ?m 0x200 [0x62]" by simp_all
  moreover have "span (0x100 + of_nat (length [0x61 :: u8])) (Suc (length [0x62 :: u8])) \<inter>
      span 0x200 (Suc (length [0x62 :: u8])) = {}"
    by (rule span_disjoint) simp_all
  ultimately have "\<exists>m'. strcat ?m 0x100 0x200 = Some (m', 0x100) \<and>
      string_at m' 0x100 ([0x61] @ [0x62]) \<and>
      (\<forall>a. a \<notin> span (0x100 + of_nat (length [0x61 :: u8])) (Suc (length [0x62 :: u8])) \<longrightarrow>
        m' a = ?m a)"
    by (rule strcat_correct) simp
  then show ?thesis by auto
qed

text \<open>\<open>strcpy\<close> leaves a copy of the source string at \<open>dest\<close> and changes no other byte.\<close>

theorem strcpy_correct:
  assumes s: "string_at m src s" and disj: "span dest (Suc (length s)) \<inter> span src (Suc (length s)) = {}"
  shows "strcpy m dest src = Some (write_bytes m dest (s @ [0]), dest) \<and>
    string_at (write_bytes m dest (s @ [0])) dest s"
proof
  have len: "length s < 2 ^ 32" using string_at_length [OF s] .
  let ?m = "m(dest := 0)"
  have "dest \<notin> span src (Suc (length s))" using disj span_first [of dest "length s"] by blast
  then have s': "string_at ?m src s" by (intro string_at_cong [OF s]) auto
  moreover have "string_at ?m dest []" by simp
  ultimately have "strcat ?m dest src = Some (write_bytes ?m dest (s @ [0]), dest)"
    using copy_string_string [OF s' disj] find_end_string [of ?m dest "[]"]
    by (simp add: strcat_def)
  moreover have "write_bytes ?m dest (s @ [0]) = write_bytes m dest (s @ [0])"
    using len by (auto simp: write_bytes_apply span_iff)
  ultimately show "strcpy m dest src = Some (write_bytes m dest (s @ [0]), dest)"
    by (simp add: strcpy_def)
  show "string_at (write_bytes m dest (s @ [0])) dest s"
    using s len by (intro string_at_write) (simp_all add: string_at_iff)
qed

theorem strcpy_correct_witness:
  "strcpy (\<lambda>a. if a = 0x100 then 0x61 else 0) 0x200 0x100 =
     Some (write_bytes (\<lambda>a. if a = 0x100 then 0x61 else 0) 0x200 [0x61, 0], 0x200)"
proof -
  let ?m = "\<lambda>a :: u32. if a = 0x100 then 0x61 else (0 :: u8)"
  have "string_at ?m 0x100 [0x61]" by simp
  moreover have "span 0x200 (Suc (length [0x61 :: u8])) \<inter> span 0x100 (Suc (length [0x61 :: u8])) = {}"
    by (rule span_disjoint) simp_all
  ultimately have "strcpy ?m 0x200 0x100 = Some (write_bytes ?m 0x200 ([0x61] @ [0]), 0x200)"
    by (rule strcpy_correct [THEN conjunct1])
  then show ?thesis by simp
qed

section \<open>Decimal numbers\<close>

definition is_digit :: "u8 \<Rightarrow> bool" where
  "is_digit c \<longleftrightarrow> 0x30 \<le> c \<and> c \<le> 0x39"

definition digits_value :: "u8 list \<Rightarrow> int" where
  "digits_value ds = foldl (\<lambda>acc d. acc * 10 + (uint d - 48)) 0 ds"

lemma digits_value_snoc: "digits_value (ds @ [d]) = digits_value ds * 10 + (uint d - 48)"
  by (simp add: digits_value_def)

lemma is_digit_range: "is_digit c \<longleftrightarrow> 48 \<le> uint c \<and> uint c \<le> 57"
  by (simp add: is_digit_def word_le_def)

lemma sint_small8: "uint (c :: u8) < 128 \<Longrightarrow> sint c = uint c"
proof -
  assume "uint c < 128"
  then have "signed_take_bit 7 (uint c) = uint c"
    using order_trans [OF _ uint_ge_0 [of c], of "- 128"] by (intro signed_take_bit_int_eq_self) simp_all
  then show ?thesis by (simp add: sint_uint)
qed

lemma sint_large8: "128 \<le> uint (c :: u8) \<Longrightarrow> sint c < 0"
proof -
  assume "128 \<le> uint c"
  then have "signed_take_bit 7 (uint c) \<le> uint c - 256"
    using signed_take_bit_int_less_eq [of 7 "uint c"] by simp
  moreover have "uint c < 256" using uint_lt2p [of c] by simp
  moreover have "sint c = signed_take_bit 7 (uint c)" by (simp add: sint_uint)
  ultimately show ?thesis by linarith
qed

lemma digit_test:
  "\<not> (sint c < 0x30 \<or> sint c > 0x39) \<longleftrightarrow> is_digit c"
proof (cases "uint c < 128")
  case True
  with sint_small8 [of c] show ?thesis by (simp add: is_digit_range linorder_not_less)
next
  case False
  with sint_large8 [of c] show ?thesis by (simp add: is_digit_range)
qed

lemma digit_word: "is_digit c \<Longrightarrow> (scast c :: u32) - 0x30 = of_int (uint c - 48)"
proof -
  assume "is_digit c"
  then have "sint c = uint c" by (intro sint_small8) (simp add: is_digit_range)
  moreover have "(scast c :: u32) = of_int (sint c)" by simp
  ultimately show ?thesis by (simp only: of_int_diff of_int_numeral)
qed

lemma not_digit_0 [simp]: "\<not> is_digit 0"
  by (simp add: is_digit_def)

lemma atol_digits_read:
  "read_bytes m p (length ds) = ds \<Longrightarrow> \<forall>d\<in>set ds. is_digit d \<Longrightarrow>
   \<not> is_digit (m (p + of_nat (length ds))) \<Longrightarrow>
   atol_digits m p (of_int (digits_value us)) = Some (of_int (digits_value (us @ ds)))"
proof (induction ds arbitrary: p us)
  case Nil
  then show ?case
    using digit_test [of "m p"] by (subst atol_digits.simps) auto
next
  case (Cons d ds)
  then have d: "m p = d" "is_digit d" "d \<noteq> 0"
    by (auto simp: read_bytes_Suc)
  have "atol_digits m (p + 1) (of_int (digits_value (us @ [d]))) =
      Some (of_int (digits_value ((us @ [d]) @ ds)))"
    using Cons.prems by (intro Cons.IH) (auto simp: read_bytes_Suc algebra_simps)
  moreover have "of_int (digits_value us) * 10 + (scast d - 0x30) =
      (of_int (digits_value (us @ [d])) :: u32)"
    using digit_word [OF d(2)] by (simp add: digits_value_snoc)
  ultimately show ?case
    using d digit_test [of d] by (subst atol_digits.simps) (simp add: Let_def)
qed

lemma skip_blanks_read:
  "read_bytes m p (length bl) = bl \<Longrightarrow> set bl \<subseteq> {0x20, 0x09} \<Longrightarrow>
   m (p + of_nat (length bl)) \<notin> {0x20, 0x09} \<Longrightarrow>
   skip_blanks m p = Some (p + of_nat (length bl))"
proof (induction bl arbitrary: p)
  case Nil
  then show ?case by (subst skip_blanks.simps) auto
next
  case (Cons b bl)
  then show ?case
    by (subst skip_blanks.simps) (auto simp: read_bytes_Suc algebra_simps)
qed

lemma read_bytes_append:
  "read_bytes m p (length (s @ t)) = s @ t \<longleftrightarrow>
   read_bytes m p (length s) = s \<and> read_bytes m (p + of_nat (length s)) (length t) = t"
  by (induction s arbitrary: p) (auto simp: read_bytes_Suc algebra_simps)

lemma atol_read:
  assumes bytes: "read_bytes m p (length (bl @ sg @ ds)) = bl @ sg @ ds"
    and bl: "set bl \<subseteq> {0x20, 0x09}" and sg: "sg \<in> {[], [0x2D], [0x2B]}"
    and ds: "ds \<noteq> []" "\<forall>d\<in>set ds. is_digit d"
    and stop: "\<not> is_digit (m (p + of_nat (length (bl @ sg @ ds))))"
  shows "atol m p = Some (of_int (if sg = [0x2D] then - digits_value ds else digits_value ds))"
proof -
  let ?q = "p + of_nat (length bl)"
  let ?r = "?q + of_nat (length sg)"
  have b: "read_bytes m p (length bl) = bl" and s: "read_bytes m ?q (length sg) = sg"
    and d: "read_bytes m ?r (length ds) = ds"
    using bytes unfolding read_bytes_append by simp_all
  obtain c cs where ds_eq: "ds = c # cs" using ds(1) by (cases ds) auto
  then have mr: "m ?r = c" using d by (simp add: read_bytes_Suc)
  have c: "is_digit c" using ds(2) ds_eq by simp
  then have cne: "c \<notin> {0x20, 0x09, 0x2D, 0x2B}"
    by (auto simp: is_digit_def)
  have mq: "m ?q = (case sg of [] \<Rightarrow> c | x # _ \<Rightarrow> x)"
    using s mr sg by (auto simp: read_bytes_Suc)
  then have "m ?q \<notin> {0x20, 0x09}" using cne sg by auto
  then have sk: "skip_blanks m p = Some ?q" using skip_blanks_read [OF b bl] by simp
  have "\<not> is_digit (m (?r + of_nat (length ds)))" using stop by (simp add: algebra_simps)
  then have "atol_digits m ?r 0 = Some (of_int (digits_value ds))"
    using atol_digits_read [OF d ds(2), of "[]"] by (simp add: digits_value_def)
  then show ?thesis
    using sk mq cne sg by (auto simp: atol_def Let_def)
qed

text \<open>\<open>atol\<close> returns the value, modulo the 32 bits of \<open>long\<close>, of the decimal number it finds after
  the blanks and the optional sign.\<close>

theorem atol_correct:
  assumes bytes: "read_bytes m p (length (bl @ sg @ ds)) = bl @ sg @ ds"
    and bl: "set bl \<subseteq> {0x20, 0x09}" and sg: "sg \<in> {[], [0x2D], [0x2B]}"
    and ds: "ds \<noteq> []" "\<forall>d\<in>set ds. is_digit d"
    and stop: "\<not> is_digit (m (p + of_nat (length (bl @ sg @ ds))))"
  shows "atol m p = Some (of_int (if sg = [0x2D] then - digits_value ds else digits_value ds))"
  by (rule atol_read [OF assms])

theorem atol_correct_witness:
  "atol (\<lambda>a. if a = 0x100 then 0x20 else if a = 0x101 then 0x2D else if a = 0x102 then 0x34
      else if a = 0x103 then 0x32 else 0) 0x100 = Some (- 42)"
proof -
  let ?m = "\<lambda>a :: u32. if a = 0x100 then 0x20 else if a = 0x101 then 0x2D
      else if a = 0x102 then 0x34 else if a = 0x103 then 0x32 else (0 :: u8)"
  have "atol ?m 0x100 = Some (of_int (if [0x2D :: u8] = [0x2D] then - digits_value [0x34, 0x32]
      else digits_value [0x34, 0x32]))"
    by (rule atol_correct [where bl = "[0x20]"]) (simp_all add: read_bytes_Suc is_digit_def)
  then show ?thesis by (simp add: digits_value_def)
qed

end
