(* ===== verification/Heap_Alloc.thy ===== *)
theory Heap_Alloc
  imports Phys_Alloc Page_Alloc Cstring
begin

text \<open>
  The C heap interface of \<open>src/kernel/mem/alloc.c\<close>: \<open>memalign\<close>, \<open>malloc\<close>, \<open>calloc\<close> and \<open>free\<close> on top
  of a table of operations (\<open>struct alloc_ops\<close> of \<open>alloc.h\<close>), of which the program has two, the early
  physical allocator and the page allocator. What \<open>alloc.c\<close> needs of such a table is the locale
  \<open>block_provider\<close>; its interpretations show that the two tables of the program provide it.
\<close>

unbundle bit_operations_syntax

section \<open>The tables of operations\<close>

text \<open>The operations work on an allocator state \<open>'s\<close> and the memory. \<open>align_min\<close> is a field of the
  table in the code; for the early allocator it is a variable that an operation can change.\<close>

record 's alloc_ops =
  ops_memalign :: "u32 \<Rightarrow> u32 \<Rightarrow> 's \<Rightarrow> memory \<Rightarrow> (fault + u32 \<times> 's \<times> memory) option"
  ops_free :: "(u32 \<Rightarrow> u32 \<Rightarrow> 's \<Rightarrow> memory \<Rightarrow> ('s \<times> memory) option) option"
  ops_align_min :: "'s \<Rightarrow> u32"

definition early_alloc_ops :: "phys_state alloc_ops" where
  "early_alloc_ops =
     \<lparr>ops_memalign = (\<lambda>al sz s m. map_option (\<lambda>(p, s'). Inr (p, s', m)) (early_memalign al sz s)),
      ops_free = None,
      ops_align_min = pa_align_min\<rparr>"

definition page_alloc_ops :: "page_state alloc_ops" where
  "page_alloc_ops =
     \<lparr>ops_memalign = page_memalign,
      ops_free = Some page_free,
      ops_align_min = (\<lambda>s. PAGE_SIZE)\<rparr>"

section \<open>Operations\<close>

definition METADATA_EXTRA :: u32 where
  "METADATA_EXTRA = 2 * 4"

definition OFS_SLACK :: u32 where
  "OFS_SLACK = - 2 * 4"

definition OFS_SIZE :: u32 where
  "OFS_SIZE = - 4"

definition block_begin :: "memory \<Rightarrow> u32 \<Rightarrow> u32" where
  "block_begin m mem = mem - load32 m (mem + OFS_SLACK)"

definition block_size :: "memory \<Rightarrow> u32 \<Rightarrow> u32" where
  "block_size m mem = load32 m (mem + OFS_SIZE)"

text \<open>The size that \<open>memalign\<close> asks of the table.\<close>

definition request_size :: "u32 \<Rightarrow> u32 \<Rightarrow> u32 \<Rightarrow> u32" where
  "request_size alignment sz amin =
     ALIGN ((if alignment \<le> 4 then sz else sz + (alignment - 1)) + METADATA_EXTRA) amin"

text \<open>The result of the table's \<open>memalign\<close> is not compared with NULL.\<close>

definition memalign ::
    "'s alloc_ops \<Rightarrow> u32 \<Rightarrow> u32 \<Rightarrow> 's \<Rightarrow> memory \<Rightarrow> (fault + u32 \<times> 's \<times> memory) option" where
  "memalign ops alignment sz s m =
     (let al = (if alignment \<le> 4 then 4 else alignment);
          blkalign = max al (ops_align_min ops s);
          sz' = request_size alignment sz (ops_align_min ops s)
      in case ops_memalign ops blkalign sz' s m of
           None \<Rightarrow> None
         | Some (Inl f) \<Rightarrow> Some (Inl f)
         | Some (Inr (p, s', m')) \<Rightarrow>
             let mem = ALIGN (p + METADATA_EXTRA) al;
                 m1 = store32 m' (mem + OFS_SLACK) (mem - p);
                 m2 = store32 m1 (mem + OFS_SIZE) sz'
             in Some (Inr (mem, s', m2)))"

definition malloc :: "'s alloc_ops \<Rightarrow> u32 \<Rightarrow> 's \<Rightarrow> memory \<Rightarrow> (fault + u32 \<times> 's \<times> memory) option" where
  "malloc ops sz s m = memalign ops 4 sz s m"

definition calloc ::
    "'s alloc_ops \<Rightarrow> u32 \<Rightarrow> u32 \<Rightarrow> 's \<Rightarrow> memory \<Rightarrow> (fault + u32 \<times> 's \<times> memory) option" where
  "calloc ops nmemb sz s m =
     (case malloc ops (nmemb * sz) s m of
        None \<Rightarrow> None
      | Some (Inl f) \<Rightarrow> Some (Inl f)
      | Some (Inr (p, s', m')) \<Rightarrow>
          Some (Inr (p, s', if p \<noteq> 0 then memset m' p 0 (nmemb * sz) else m')))"

definition free :: "'s alloc_ops \<Rightarrow> u32 \<Rightarrow> 's \<Rightarrow> memory \<Rightarrow> ('s \<times> memory) option" where
  "free ops ptr s m =
     (case ops_free ops of
        None \<Rightarrow> Some (s, m)
      | Some fr \<Rightarrow> fr (block_begin m ptr) (block_size m ptr) s m)"

text \<open>\<open>alloc_ops\<close> is a pointer to one of the two tables; \<open>page_alloc_ops_enable\<close> redirects it.\<close>

datatype ops_ptr = Early_ops | Page_ops

record heap_state =
  h_ops :: ops_ptr
  h_phys :: phys_state
  h_page :: page_state

definition heap_state0 :: heap_state where
  "heap_state0 = \<lparr>h_ops = Early_ops, h_phys = phys_state0, h_page = page_state0\<rparr>"

definition page_alloc_ops_enable :: "heap_state \<Rightarrow> heap_state" where
  "page_alloc_ops_enable h = h\<lparr>h_ops := Page_ops\<rparr>"

definition lift_ops ::
    "(heap_state \<Rightarrow> 's) \<Rightarrow> ('s \<Rightarrow> heap_state \<Rightarrow> heap_state) \<Rightarrow> 's alloc_ops \<Rightarrow> heap_state alloc_ops" where
  "lift_ops get put ops =
     \<lparr>ops_memalign = (\<lambda>al sz h m. map_option (map_sum id (\<lambda>(p, s', m'). (p, put s' h, m')))
        (ops_memalign ops al sz (get h) m)),
      ops_free = map_option (\<lambda>fr p sz h m. map_option (\<lambda>(s', m'). (put s' h, m')) (fr p sz (get h) m))
        (ops_free ops),
      ops_align_min = (\<lambda>h. ops_align_min ops (get h))\<rparr>"

definition current_ops :: "heap_state \<Rightarrow> heap_state alloc_ops" where
  "current_ops h =
     (case h_ops h of
        Early_ops \<Rightarrow> lift_ops h_phys (\<lambda>s h. h\<lparr>h_phys := s\<rparr>) early_alloc_ops
      | Page_ops \<Rightarrow> lift_ops h_page (\<lambda>s h. h\<lparr>h_page := s\<rparr>) page_alloc_ops)"

definition kmalloc :: "u32 \<Rightarrow> heap_state \<Rightarrow> memory \<Rightarrow> (fault + u32 \<times> heap_state \<times> memory) option" where
  "kmalloc sz h m = malloc (current_ops h) sz h m"

definition kfree :: "u32 \<Rightarrow> heap_state \<Rightarrow> memory \<Rightarrow> (heap_state \<times> memory) option" where
  "kfree ptr h m = free (current_ops h) ptr h m"

lemma memalign_lift:
  "memalign (lift_ops get put ops) al sz h m =
     map_option (map_sum id (\<lambda>(p, s', m'). (p, put s' h, m'))) (memalign ops al sz (get h) m)"
  by (auto simp: memalign_def lift_ops_def Let_def split: option.split sum.split)

section \<open>Sizes and positions\<close>

text \<open>A request small enough that no size computation of \<open>memalign\<close> wraps.\<close>

definition heap_fits :: "u32 \<Rightarrow> u32 \<Rightarrow> u32 \<Rightarrow> bool" where
  "heap_fits al sz amin \<longleftrightarrow> 0 < sz \<and> unat sz + 2 * unat (max 4 al) + 2 * unat amin + 8 \<le> 2 ^ 32"

lemma max_word_unat: "unat (max a b :: u32) = max (unat a) (unat b)"
  by (simp add: max_def word_le_nat_alt)

lemma is_power_of_2_max: "is_power_of_2 a \<Longrightarrow> is_power_of_2 b \<Longrightarrow> is_power_of_2 (max a b)"
  by (simp add: max_def)

lemma is_power_of_2_4 [simp]: "is_power_of_2 4"
  by (simp add: is_power_of_2_def)

lemma alignment_max: "(if (al :: u32) \<le> 4 then 4 else al) = max 4 al"
  by (auto simp: max_def)

lemma ALIGN_bounds:
  assumes "is_power_of_2 a" "unat x + unat a \<le> 2 ^ 32"
  shows "unat x \<le> unat (ALIGN x a)" "unat (ALIGN x a) < unat x + unat a"
    "aligned (ALIGN x a) (unat a)"
proof -
  obtain k where k: "k < 32" "a = 2 ^ k" using assms(1) by (auto simp: is_power_of_2_iff)
  then have a: "unat a = 2 ^ k" by simp
  show "unat x \<le> unat (ALIGN x a)" "unat (ALIGN x a) < unat x + unat a"
    using unat_ALIGN [OF k(1), of x] ALIGN_diff [OF k(1), of x] assms(2) a
    by (simp_all add: k(2) del: unat_2p)
  show "aligned (ALIGN x a) (unat a)" using aligned_ALIGN [of x k] k by simp
qed

lemma request_size_bounds:
  assumes "is_power_of_2 al" "is_power_of_2 amin" "heap_fits al sz amin"
  defines "extra \<equiv> if al \<le> 4 then 0 else unat al - 1"
  shows "unat sz + extra + 8 \<le> unat (request_size al sz amin)"
    and "unat (request_size al sz amin) < unat sz + extra + 8 + unat amin"
    and "aligned (request_size al sz amin) (unat amin)"
proof -
  let ?x = "(if al \<le> 4 then sz else sz + (al - 1)) + METADATA_EXTRA"
  have ub: "unat sz + unat al + 2 * unat amin + 8 \<le> 2 ^ 32"
    using assms(3) by (simp add: heap_fits_def max_word_unat) linarith
  have al1: "unat (al - 1) = unat al - 1"
    using assms(1) by (intro unat_minus_one) (auto simp: is_power_of_2_def)
  have pos: "0 < unat al" "0 < unat amin"
    using assms(1,2) by (auto simp: is_power_of_2_def unat_gt_0)
  have x: "unat ?x = unat sz + extra + 8"
  proof (cases "al \<le> 4")
    case True
    with ub pos show ?thesis
      using unat_add_lem [of sz 8] by (simp add: extra_def METADATA_EXTRA_def)
  next
    case False
    have s: "unat (sz + (al - 1)) = unat sz + (unat al - 1)"
      using unat_add_lem [of sz "al - 1"] al1 ub pos by (simp; linarith)
    with False show ?thesis
      using unat_add_lem [of "sz + (al - 1)" 8] ub pos by (simp add: extra_def METADATA_EXTRA_def)
  qed
  have "unat ?x + unat amin \<le> 2 ^ 32"
  proof -
    have "extra \<le> unat al" by (simp add: extra_def)
    with ub show ?thesis unfolding x by simp
  qed
  note b = ALIGN_bounds [OF assms(2) this]
  show "unat sz + extra + 8 \<le> unat (request_size al sz amin)"
    "unat (request_size al sz amin) < unat sz + extra + 8 + unat amin"
    "aligned (request_size al sz amin) (unat amin)"
    using b unfolding request_size_def x by simp_all
qed

lemma request_sane:
  assumes "is_power_of_2 al" "is_power_of_2 amin" "heap_fits al sz amin"
  shows "pa_sane (max (max 4 al) amin) (request_size al sz amin)"
proof -
  note b = request_size_bounds [OF assms]
  have "unat (request_size al sz amin) + unat (max (max 4 al) amin) \<le> 2 ^ 32"
    using b(2) assms(3) by (auto simp: heap_fits_def max_word_unat max_def split: if_splits)
  moreover have "0 < request_size al sz amin"
    using b(1) by (simp add: word_less_nat_alt)
  ultimately show ?thesis
    using assms(1,2) by (simp add: pa_sane_def is_power_of_2_max)
qed

text \<open>Where \<open>memalign\<close> puts the user's part in a block of \<open>n\<close> bytes at \<open>p\<close>.\<close>

lemma user_position:
  assumes "is_power_of_2 al" "aligned p 4" "unat p + n \<le> 2 ^ 32" "0 < sz"
    "unat sz + (if al \<le> 4 then 0 else unat al - 1) + 8 \<le> n"
  defines "mem \<equiv> ALIGN (p + METADATA_EXTRA) (max 4 al)"
  shows "unat p + 8 \<le> unat mem" "unat mem + unat sz \<le> unat p + n" "aligned mem (unat (max 4 al))"
proof -
  have sz: "0 < unat sz" using assms(4) by (simp add: word_less_nat_alt)
  have p8: "unat (p + 8) = unat p + 8"
    using unat_add_lem [of p 8] assms(3,5) sz by (simp split: if_splits)
  have pow: "is_power_of_2 (max 4 al)" using assms(1) by (simp add: is_power_of_2_max)
  have "unat p + 8 \<le> unat mem \<and> unat mem + unat sz \<le> unat p + n \<and> aligned mem (unat (max 4 al))"
  proof (cases "al \<le> 4")
    case True
    have "aligned (p + 8) (2 ^ 2)"
      using assms(2) p8 by (simp add: aligned_dvd)
    then have "ALIGN (p + 8) 4 = p + 8" using ALIGN_aligned [of "p + 8" 2] by simp
    with True assms(5) \<open>aligned (p + 8) (2 ^ 2)\<close> p8 assms(3) show ?thesis
      by (simp add: mem_def METADATA_EXTRA_def max_absorb1)
  next
    case False
    then have m: "max 4 al = al" by (intro max_absorb2) simp
    have "unat (p + 8) + unat al \<le> 2 ^ 32"
      using p8 assms(3,5) False sz by simp
    note b = ALIGN_bounds [OF assms(1) this]
    have "0 < unat al" using False by (simp add: word_le_nat_alt)
    then show ?thesis
      using b False assms(5) p8 by (simp add: mem_def METADATA_EXTRA_def m)
  qed
  then show "unat p + 8 \<le> unat mem" "unat mem + unat sz \<le> unat p + n"
    "aligned mem (unat (max 4 al))" by blast+
qed

text \<open>The two words in front of the user's part.\<close>

definition with_metadata :: "memory \<Rightarrow> u32 \<Rightarrow> u32 \<Rightarrow> u32 \<Rightarrow> memory" where
  "with_metadata m mem slack sz =
     store32 (store32 m (mem + OFS_SLACK) slack) (mem + OFS_SIZE) sz"

lemma metadata_read:
  assumes "8 \<le> unat mem"
  shows "block_begin (with_metadata m mem slack n) mem = mem - slack"
    and "block_size (with_metadata m mem slack n) mem = n"
proof -
  have o: "unat (mem - 8) = unat mem - 8" "unat (mem - 4) = unat mem - 4"
    using assms by (simp_all add: unat_sub word_le_nat_alt)
  have "span (mem + OFS_SLACK) 4 \<inter> span (mem + OFS_SIZE) 4 = {}"
    using o assms unat_less_32 [of mem]
    by (intro span_disjoint) (simp_all add: OFS_SLACK_def OFS_SIZE_def)
  then show "block_begin (with_metadata m mem slack n) mem = mem - slack"
    "block_size (with_metadata m mem slack n) mem = n"
    by (simp_all add: block_begin_def block_size_def with_metadata_def load32_store32_other
        load32_store32)
qed

lemma metadata_outside:
  assumes "8 \<le> unat mem" "b \<notin> span (mem - 8) 8"
  shows "with_metadata m mem slack n b = m b"
proof -
  have o: "unat (mem - 8) = unat mem - 8" "unat (mem - 4) = unat mem - 4"
    using assms(1) by (simp_all add: unat_sub word_le_nat_alt)
  have "b \<notin> span (mem - 8) 4" "b \<notin> span (mem - 4) 4"
    using assms o unat_less_32 [of mem] by (auto simp: span_nowrap)
  then show ?thesis
    by (simp add: with_metadata_def store32_outside OFS_SLACK_def OFS_SIZE_def)
qed

text \<open>The whole block behind a user's part, its metadata included.\<close>

definition heap_block :: "memory \<Rightarrow> u32 \<Rightarrow> u32 set" where
  "heap_block m mem = span (block_begin m mem) (unat (block_size m mem))"

section \<open>What the heap needs of a table of operations\<close>

text \<open>\<open>inv\<close> is the well-formedness of the allocator, \<open>own\<close> the set of the addresses it may still hand
  out or use for its own links.\<close>

locale block_provider =
  fixes ops :: "'s alloc_ops"
    and inv :: "'s \<Rightarrow> memory \<Rightarrow> bool"
    and own :: "'s \<Rightarrow> memory \<Rightarrow> u32 set"
  assumes align_min_pow: "inv s m \<Longrightarrow> is_power_of_2 (ops_align_min ops s)"
    and alloc: "inv s m \<Longrightarrow> pa_sane al sz \<Longrightarrow> 4 \<le> al \<Longrightarrow> ops_align_min ops s \<le> al \<Longrightarrow>
      \<exists>p s' m'. ops_memalign ops al sz s m = Some (Inr (p, s', m')) \<and> inv s' m' \<and>
        own s' m' \<subseteq> own s m \<and> (\<forall>b. b \<notin> own s m \<longrightarrow> m' b = m b) \<and>
        (p \<noteq> 0 \<longrightarrow> aligned p 4 \<and> unat p + unat sz \<le> 2 ^ 32 \<and>
           span p (unat sz) \<subseteq> own s m - own s' m')"
    and stable: "inv s m \<Longrightarrow> (\<And>b. b \<in> own s m \<Longrightarrow> m' b = m b) \<Longrightarrow>
      inv s m' \<and> own s m' = own s m"
begin

text \<open>A request that the table grants with the block at \<open>p\<close>: the block is taken from the memory the
  allocator owned, the user's part is aligned and inside the block behind its metadata; nothing
  outside the owned memory changed.\<close>

lemma memalign_granted_at:
  assumes "inv s m" "is_power_of_2 al" "heap_fits al sz (ops_align_min ops s)"
    and op: "ops_memalign ops (max (max 4 al) (ops_align_min ops s))
      (request_size al sz (ops_align_min ops s)) s m = Some (Inr (p, s1, m1))" and p0: "p \<noteq> 0"
    and call: "memalign ops al sz s m = Some (Inr (mem, s', m'))"
  shows "inv s' m' \<and> aligned mem (unat (max 4 al)) \<and> unat mem + unat sz \<le> 2 ^ 32 \<and>
    span mem (unat sz) \<subseteq> own s m - own s' m' \<and> own s' m' \<subseteq> own s m \<and>
    (\<forall>b. b \<notin> own s m \<longrightarrow> m' b = m b) \<and>
    block_size m' mem = request_size al sz (ops_align_min ops s) \<and>
    block_begin m' mem = p \<and> unat p + 8 \<le> unat mem \<and>
    unat mem + unat sz \<le> unat p + unat (block_size m' mem) \<and>
    span (mem - 8) 8 \<union> span mem (unat sz) \<subseteq> heap_block m' mem \<and>
    heap_block m' mem \<subseteq> own s m - own s' m'"
proof -
  let ?am = "ops_align_min ops s" and ?n = "request_size al sz (ops_align_min ops s)"
  have pow: "is_power_of_2 ?am" using align_min_pow assms(1) .
  note al' = alignment_max [of al]
  note sane = request_sane [OF assms(2) pow assms(3)]
  note n = request_size_bounds [OF assms(2) pow assms(3)]
  have i1: "inv s1 m1" "own s1 m1 \<subseteq> own s m" "\<forall>b. b \<notin> own s m \<longrightarrow> m1 b = m b"
    and g: "aligned p 4" "unat p + unat ?n \<le> 2 ^ 32" "span p (unat ?n) \<subseteq> own s m - own s1 m1"
    using alloc [OF assms(1) sane _ max.cobounded2] op p0 by (simp_all add: le_max_iff_disj)
  have res: "mem = ALIGN (p + METADATA_EXTRA) (max 4 al)" "s' = s1"
      "m' = with_metadata m1 mem (mem - p) ?n"
    using call op by (auto simp: memalign_def al' with_metadata_def Let_def)
  have sz: "0 < sz" using assms(3) by (simp add: heap_fits_def)
  note u = user_position [OF assms(2) g(1,2) sz n(1), folded res(1)]
  have m8: "8 \<le> unat mem" using u(1) by linarith
  have w: "unat (mem - 8) = unat mem - 8" using m8 by (simp add: unat_sub word_le_nat_alt)
  have sub: "span (mem - 8) 8 \<subseteq> span p (unat ?n)" "span mem (unat sz) \<subseteq> span p (unat ?n)"
    using u g(2) m8 w unat_less_32 [of mem] by (auto simp: span_nowrap)
  have out: "m' b = m1 b" if "b \<notin> span p (unat ?n)" for b
    using that sub(1) metadata_outside [OF m8] unfolding res(3) by blast
  have keep: "inv s1 m'" "own s1 m' = own s1 m1"
    using stable [OF i1(1), of m'] out g(3) by blast+
  have meta: "block_begin m' mem = p" "block_size m' mem = ?n"
    using metadata_read [OF m8, of m1 "mem - p" ?n] unfolding res(3) [symmetric] by simp_all
  have "\<forall>b. b \<notin> own s m \<longrightarrow> m' b = m b" using out g(3) i1(3) by (metis DiffD1 subsetD)
  moreover have "heap_block m' mem = span p (unat ?n)" by (simp add: heap_block_def meta)
  ultimately show ?thesis
    using keep res(2) u sub g i1(2) meta by auto
qed

text \<open>The same without the table's answer in the statement: the result is the address that
  \<open>memalign\<close> makes of NULL, or the block is real.\<close>

lemma memalign_granted:
  assumes "inv s m" "is_power_of_2 al" "heap_fits al sz (ops_align_min ops s)"
    and call: "memalign ops al sz s m = Some (Inr (mem, s', m'))"
    and big: "mem \<noteq> ALIGN METADATA_EXTRA (max 4 al)"
  shows "inv s' m' \<and> aligned mem (unat (max 4 al)) \<and> unat mem + unat sz \<le> 2 ^ 32 \<and>
    span mem (unat sz) \<subseteq> own s m - own s' m' \<and> own s' m' \<subseteq> own s m \<and>
    (\<forall>b. b \<notin> own s m \<longrightarrow> m' b = m b) \<and>
    block_size m' mem = request_size al sz (ops_align_min ops s) \<and>
    block_begin m' mem \<noteq> 0 \<and> unat (block_begin m' mem) + 8 \<le> unat mem \<and>
    unat mem + unat sz \<le> unat (block_begin m' mem) + unat (block_size m' mem) \<and>
    span (mem - 8) 8 \<union> span mem (unat sz) \<subseteq> heap_block m' mem \<and>
    heap_block m' mem \<subseteq> own s m - own s' m'"
proof -
  let ?am = "ops_align_min ops s" and ?n = "request_size al sz (ops_align_min ops s)"
  obtain p s1 m1 where op: "ops_memalign ops (max (max 4 al) ?am) ?n s m = Some (Inr (p, s1, m1))"
    using alloc [OF assms(1) request_sane [OF assms(2) align_min_pow [OF assms(1)] assms(3)] _
        max.cobounded2] by (simp add: le_max_iff_disj) blast
  then have "mem = ALIGN (p + METADATA_EXTRA) (max 4 al)"
    using call by (auto simp: memalign_def alignment_max Let_def)
  then have "p \<noteq> 0" using big by auto
  from memalign_granted_at [OF assms(1-3) op this call] this show ?thesis by auto
qed

lemma memalign_returns:
  assumes "inv s m" "is_power_of_2 al" "heap_fits al sz (ops_align_min ops s)"
  shows "\<exists>mem s' m'. memalign ops al sz s m = Some (Inr (mem, s', m'))"
proof -
  note sane = request_sane [OF assms(2) align_min_pow [OF assms(1)] assms(3)]
  obtain p s' m' where "ops_memalign ops (max (max 4 al) (ops_align_min ops s))
      (request_size al sz (ops_align_min ops s)) s m = Some (Inr (p, s', m'))"
    using alloc [OF assms(1) sane _ max.cobounded2] by (simp add: le_max_iff_disj) blast
  then show ?thesis by (simp add: memalign_def alignment_max Let_def)
qed

text \<open>\<open>calloc\<close> is \<open>malloc\<close> of the product of its arguments, with the block zeroed.\<close>

lemma calloc_granted:
  assumes "inv s m" "heap_fits 4 (nmemb * sz) (ops_align_min ops s)"
    and call: "calloc ops nmemb sz s m = Some (Inr (mem, s', m'))" and big: "mem \<noteq> 8" "mem \<noteq> 0"
  shows "inv s' m' \<and> span mem (unat (nmemb * sz)) \<subseteq> own s m - own s' m' \<and>
    (\<forall>b\<in>span mem (unat (nmemb * sz)). m' b = 0) \<and> (\<forall>b. b \<notin> own s m \<longrightarrow> m' b = m b) \<and>
    block_size m' mem = request_size 4 (nmemb * sz) (ops_align_min ops s)"
proof -
  let ?n = "nmemb * sz"
  obtain m1 where m1: "memalign ops 4 ?n s m = Some (Inr (mem, s', m1))"
    and m': "m' = write_bytes m1 mem (replicate (unat ?n) 0)"
    using call big by (auto simp: calloc_def malloc_def memset_fill split: option.splits sum.splits)
  have "mem \<noteq> ALIGN METADATA_EXTRA (max 4 4)"
    using big by (simp add: ALIGN_def align_mask_def METADATA_EXTRA_def)
  note g = memalign_granted [OF assms(1) is_power_of_2_4 assms(2) m1 this]
  have len: "length (replicate (unat ?n) (0 :: u8)) \<le> 2 ^ 32"
    using unat_less_32 [of ?n] by simp
  have at: "m' b = (if b \<in> span mem (unat ?n) then 0 else m1 b)" for b
    unfolding m' write_bytes_apply [OF len] by (simp add: span_iff)
  have "m' b = m1 b" if "b \<in> own s' m1" for b using that g at by auto
  then have st: "inv s' m'" "own s' m' = own s' m1"
    using stable [of s' m1 m'] g by blast+
  have "load32 m' (mem + OFS_SIZE) = load32 m1 (mem + OFS_SIZE)"
  proof (rule load32_cong)
    fix b assume "b \<in> span (mem + OFS_SIZE) 4"
    moreover have "8 \<le> unat mem" using g by linarith
    then have "unat (mem - 4) = unat mem - 4" by (simp add: unat_sub word_le_nat_alt)
    moreover have "unat mem + unat ?n \<le> 2 ^ 32" using g by blast
    ultimately have "b \<notin> span mem (unat ?n)"
      using \<open>8 \<le> unat mem\<close> unat_less_32 [of mem] by (auto simp: OFS_SIZE_def span_nowrap)
    then show "m' b = m1 b" by (simp add: at)
  qed
  then have "block_size m' mem = block_size m1 mem" by (simp add: block_size_def)
  with g st at show ?thesis by auto
qed

text \<open>A request that the table refuses with NULL still returns an address, right above the NULL page's
  first words, and writes the metadata there.\<close>

lemma memalign_refused:
  assumes "ops_memalign ops (max (max 4 al) (ops_align_min ops s))
      (request_size al sz (ops_align_min ops s)) s m = Some (Inr (0, s1, m1))"
  shows "memalign ops al sz s m =
    Some (Inr (ALIGN METADATA_EXTRA (max 4 al), s1,
      with_metadata m1 (ALIGN METADATA_EXTRA (max 4 al)) (ALIGN METADATA_EXTRA (max 4 al))
        (request_size al sz (ops_align_min ops s))))"
proof -
  note al' = alignment_max [of al]
  show ?thesis using assms by (simp add: memalign_def al' with_metadata_def Let_def)
qed

text \<open>A block once granted is not touched by later requests, and later blocks are disjoint from it.\<close>

lemma granted_disjoint:
  assumes "inv s m" "is_power_of_2 al" "heap_fits al sz (ops_align_min ops s)"
    "memalign ops al sz s m = Some (Inr (mem, s', m'))" "mem \<noteq> ALIGN METADATA_EXTRA (max 4 al)"
    "is_power_of_2 al2" "heap_fits al2 sz2 (ops_align_min ops s')"
    "memalign ops al2 sz2 s' m' = Some (Inr (mem2, s2, m2))"
    "mem2 \<noteq> ALIGN METADATA_EXTRA (max 4 al2)"
  shows "heap_block m' mem \<inter> heap_block m2 mem2 = {} \<and> (\<forall>b\<in>heap_block m' mem. m2 b = m' b) \<and>
    span (mem - 8) 8 \<union> span mem (unat sz) \<subseteq> heap_block m' mem \<and>
    span (mem2 - 8) 8 \<union> span mem2 (unat sz2) \<subseteq> heap_block m2 mem2"
  using memalign_granted [OF assms(1-5)]
    memalign_granted [OF conjunct1 [OF memalign_granted [OF assms(1-5)]] assms(6-9)] by blast

end


text \<open>A table that also takes blocks back.\<close>

locale freeing_provider = block_provider ops inv own
  for ops :: "'s alloc_ops" and inv :: "'s \<Rightarrow> memory \<Rightarrow> bool" and own :: "'s \<Rightarrow> memory \<Rightarrow> u32 set" +
  fixes fr :: "u32 \<Rightarrow> u32 \<Rightarrow> 's \<Rightarrow> memory \<Rightarrow> ('s \<times> memory) option"
  assumes free_op: "ops_free ops = Some fr"
    and granted_aligned: "inv s m \<Longrightarrow> pa_sane al sz \<Longrightarrow> ops_align_min ops s \<le> al \<Longrightarrow>
      ops_memalign ops al sz s m = Some (Inr (p, s', m')) \<Longrightarrow> aligned p (unat (ops_align_min ops s'))"
    and align_min_const: "ops_align_min ops s = ops_align_min ops s'"
    and release: "inv s m \<Longrightarrow> p \<noteq> 0 \<Longrightarrow> 0 < sz \<Longrightarrow> aligned p (unat (ops_align_min ops s)) \<Longrightarrow>
      aligned sz (unat (ops_align_min ops s)) \<Longrightarrow> unat p + unat sz \<le> 2 ^ 32 \<Longrightarrow>
      span p (unat sz) \<inter> own s m = {} \<Longrightarrow>
      \<exists>s' m'. fr p sz s m = Some (s', m') \<and> inv s' m' \<and> own s' m' = own s m \<union> span p (unat sz) \<and>
        (\<forall>b. b \<notin> span p (unat sz) \<longrightarrow> m' b = m b)"
begin

text \<open>Freeing a granted block, after the user has written what it likes in its part, gives the
  allocator back the whole block that the metadata describe and nothing else.\<close>

lemma free_granted:
  assumes "inv s m" "is_power_of_2 al" "heap_fits al sz (ops_align_min ops s)"
    and call: "memalign ops al sz s m = Some (Inr (mem, s', m'))"
    and big: "mem \<noteq> ALIGN METADATA_EXTRA (max 4 al)"
    and user: "\<And>b. b \<in> own s' m' \<union> span (mem - 8) 8 \<Longrightarrow> m2 b = m' b"
  shows "\<exists>s3 m3. free ops mem s' m2 = Some (s3, m3) \<and> inv s3 m3 \<and>
    own s3 m3 = own s' m' \<union> span (block_begin m' mem) (unat (block_size m' mem)) \<and>
    (\<forall>b. b \<notin> span (block_begin m' mem) (unat (block_size m' mem)) \<longrightarrow> m3 b = m2 b)"
proof -
  let ?am = "ops_align_min ops s" and ?n = "request_size al sz (ops_align_min ops s)"
  note g = memalign_granted [OF assms(1-5)]
  have pow: "is_power_of_2 ?am" using align_min_pow assms(1) .
  note n = request_size_bounds [OF assms(2) pow assms(3)]
  note sane = request_sane [OF assms(2) pow assms(3)]
  obtain p m1 where op: "ops_memalign ops (max (max 4 al) ?am) ?n s m = Some (Inr (p, s', m1))"
    and m': "m' = with_metadata m1 mem (mem - p) ?n" and mem: "mem = ALIGN (p + METADATA_EXTRA) (max 4 al)"
    using call by (auto simp: memalign_def alignment_max with_metadata_def Let_def
        split: option.splits sum.splits)
  have p0: "p \<noteq> 0" using big mem by auto
  have m8: "8 \<le> unat mem" using g by linarith
  then have w: "unat (mem - 8) = unat mem - 8" by (simp add: unat_sub word_le_nat_alt)
  have meta: "block_begin m' mem = p" "block_size m' mem = ?n"
    using metadata_read [OF m8, of m1 "mem - p" ?n] unfolding m' [symmetric] by simp_all
  have same: "load32 m2 (mem + OFS_SLACK) = load32 m' (mem + OFS_SLACK)"
    "load32 m2 (mem + OFS_SIZE) = load32 m' (mem + OFS_SIZE)"
  proof -
    have w4: "unat (mem - 4) = unat mem - 4" using m8 by (simp add: unat_sub word_le_nat_alt)
    have "span (mem - 8) 4 \<subseteq> span (mem - 8) 8" "span (mem - 4) 4 \<subseteq> span (mem - 8) 8"
      using w w4 m8 unat_less_32 [of mem] by (auto simp: span_nowrap)
    then show "load32 m2 (mem + OFS_SLACK) = load32 m' (mem + OFS_SLACK)"
      "load32 m2 (mem + OFS_SIZE) = load32 m' (mem + OFS_SIZE)"
      using user by (intro load32_cong, auto simp: OFS_SLACK_def OFS_SIZE_def)+
  qed
  then have fr: "free ops mem s' m2 = fr p ?n s' m2"
    using meta by (simp add: free_def free_op block_begin_def block_size_def)
  have own2: "inv s' m2" "own s' m2 = own s' m'"
    using stable [of s' m' m2] g user by blast+
  obtain q s1 m1' where op': "ops_memalign ops (max (max 4 al) ?am) ?n s m = Some (Inr (q, s1, m1'))"
    and i1: "inv s1 m1'"
    and gr: "q \<noteq> 0 \<longrightarrow> aligned q 4 \<and> unat q + unat ?n \<le> 2 ^ 32 \<and>
       span q (unat ?n) \<subseteq> own s m - own s1 m1'"
    using alloc [OF assms(1) sane _ max.cobounded2] by (simp add: le_max_iff_disj) blast
  then have eq: "q = p" "s1 = s'" "m1' = m1" using op by simp_all
  then have q: "unat p + unat ?n \<le> 2 ^ 32" "span p (unat ?n) \<inter> own s' m1 = {}" "inv s' m1"
    using gr p0 i1 by auto
  have "own s' m' = own s' m1"
  proof -
    have "m' b = m1 b" if "b \<in> own s' m1" for b
    proof -
      have "span (mem - 8) 8 \<subseteq> span p (unat ?n)"
        using g meta w m8 q(1) unat_less_32 [of mem] by (auto simp: span_nowrap)
      then show ?thesis using that q(2) metadata_outside [OF m8] unfolding m' by blast
    qed
    then show ?thesis using stable [OF q(3)] by blast
  qed
  with q own2 have disj: "span p (unat ?n) \<inter> own s' m2 = {}" by simp
  have am: "ops_align_min ops s' = ?am" by (rule align_min_const)
  have "0 < ?n" using n(1) by (simp add: word_less_nat_alt)
  moreover have "aligned p (unat (ops_align_min ops s'))"
    using granted_aligned [OF assms(1) sane max.cobounded2 op] .
  ultimately show ?thesis
    using release [OF own2(1) p0 _ _ _ q(1) disj] n(3) am own2(2) unfolding fr meta by simp
qed

end

section \<open>The early allocator as a provider\<close>

definition early_inv :: "phys_state \<Rightarrow> memory \<Rightarrow> bool" where
  "early_inv s m \<longleftrightarrow> (\<exists>lo>0. phys_inv lo (unat (pa_top s)) s) \<and> is_power_of_2 (pa_align_min s)"

definition early_own :: "phys_state \<Rightarrow> memory \<Rightarrow> u32 set" where
  "early_own s m = {b. pa_base s \<le> b \<and> b < pa_top s}"

lemma early_memalign_frame:
  assumes "phys_inv lo hi s" "pa_sane al sz" "early_memalign al sz s = Some (p, s')"
  shows "pa_align_min s' = pa_align_min s \<and> pa_base s \<le> pa_base s'"
proof (cases "pa_enough al sz s")
  case True
  have "early_memalign al sz s = Some (ALIGN (pa_base s) al, pa_log_region (ALIGN (pa_base s) al) sz
            (s\<lparr>pa_base := pa_base s + (sz + pa_gap s al)\<rparr>))"
    using early_memalign_ok [OF assms(1,2) True] .
  with True assms(3) pa_addr_nowrap(2) [OF pa_sane_fits32 [OF assms(2)] True] show ?thesis
    by (auto simp: word_le_nat_alt)
next
  case False
  with early_memalign_fail [OF assms(1,2)] assms(3) show ?thesis by (auto simp: pa_print_def)
qed

interpretation early: block_provider early_alloc_ops early_inv early_own
proof unfold_locales
  fix s m show "early_inv s m \<Longrightarrow> is_power_of_2 (ops_align_min early_alloc_ops s)"
    by (simp add: early_inv_def early_alloc_ops_def)
next
  fix s m al sz
  assume inv: "early_inv s m" and sane: "pa_sane al sz" and al: "4 \<le> al"
  from inv obtain lo where lo: "0 < lo" "phys_inv lo (unat (pa_top s)) s"
    by (auto simp: early_inv_def)
  obtain p s' where e: "early_memalign al sz s = Some (p, s')" "phys_inv lo (unat (pa_top s)) s'"
    and p: "if pa_enough al sz s
     then aligned p (unat al) \<and> unat (pa_base s) \<le> unat p \<and> unat p + unat sz = unat (pa_base s')
     else p = 0 \<and> pa_base s' = pa_base s"
    using early_memalign_spec [OF lo(2) sane] by (metis (full_types))
  have t: "pa_top s' = pa_top s" using e(2) by (simp add: phys_inv_def word_unat_eq_iff)
  note f = early_memalign_frame [OF lo(2) sane e(1)]
  have le: "unat (pa_base s') \<le> unat (pa_top s)" using e(2) by (simp add: phys_inv_def)
  have "early_inv s' m" using e(2) lo(1) inv f t by (auto simp: early_inv_def)
  moreover have "early_own s' m \<subseteq> early_own s m" using f t by (auto simp: early_own_def)
  moreover have "aligned p 4 \<and> unat p + unat sz \<le> 2 ^ 32 \<and>
      span p (unat sz) \<subseteq> early_own s m - early_own s' m" if "p \<noteq> 0"
  proof -
    have p': "aligned p (unat al)" "unat (pa_base s) \<le> unat p" "unat p + unat sz = unat (pa_base s')"
      using p that by (auto split: if_splits)
    obtain k where k: "k < 32" "al = 2 ^ k"
      using sane by (auto simp: pa_sane_def is_power_of_2_iff)
    have "(2 :: nat) ^ 2 \<le> 2 ^ k" using al k by (simp add: word_le_nat_alt)
    then have "2 \<le> k" by (rule power_le_imp_le_exp [rotated]) simp
    then have "(4 :: nat) dvd unat al" using k le_imp_power_dvd [of 2 k "2 :: nat"] by simp
    moreover have "unat p + unat sz \<le> 2 ^ 32" using p'(3) unat_less_32 [of "pa_base s'"] by simp
    ultimately show ?thesis
      using p' le t aligned_weaken [OF p'(1)]
      by (auto simp: early_own_def span_nowrap word_le_nat_alt word_less_nat_alt)
  qed
  ultimately show "\<exists>p s' m'. ops_memalign early_alloc_ops al sz s m = Some (Inr (p, s', m')) \<and>
      early_inv s' m' \<and> early_own s' m' \<subseteq> early_own s m \<and> (\<forall>b. b \<notin> early_own s m \<longrightarrow> m' b = m b) \<and>
      (p \<noteq> 0 \<longrightarrow> aligned p 4 \<and> unat p + unat sz \<le> 2 ^ 32 \<and>
         span p (unat sz) \<subseteq> early_own s m - early_own s' m')"
    using e(1) by (intro exI [of _ p] exI [of _ s'] exI [of _ m]) (simp add: early_alloc_ops_def)
next
  fix s m and m' :: memory
  show "early_inv s m \<Longrightarrow> early_inv s m' \<and> early_own s m' = early_own s m"
    by (simp add: early_inv_def early_own_def)
qed

section \<open>The page allocator as a provider\<close>

definition page_inv :: "page_state \<Rightarrow> memory \<Rightarrow> bool" where
  "page_inv s m \<longleftrightarrow> lock_free (pg_lock s) \<and> (\<exists>xs. free_list m (pg_freelist s) xs)"

definition page_own :: "page_state \<Rightarrow> memory \<Rightarrow> u32 set" where
  "page_own s m = {b. \<exists>xs. free_list m (pg_freelist s) xs \<and> (\<exists>x\<in>set xs. b \<in> span x 4096)}"

lemma ppath_unique: "ppath m p xs 0 \<Longrightarrow> ppath m p ys 0 \<Longrightarrow> xs = ys"
proof (induction xs arbitrary: p ys)
  case Nil
  then show ?case by (simp add: ppath_0)
next
  case (Cons x xs)
  then show ?case by (cases ys) auto
qed

lemma page_own_list:
  assumes "free_list m (pg_freelist s) xs"
  shows "page_own s m = (\<Union>x\<in>set xs. span x 4096)"
proof -
  have "ys = xs" if "free_list m (pg_freelist s) ys" for ys
    using that assms ppath_unique by (auto simp: free_list_def)
  with assms show ?thesis
    unfolding page_own_def by (intro set_eqI, unfold mem_Collect_eq UN_iff) blast
qed

lemma page_run_set: "x \<in> set (page_run a k) \<longleftrightarrow> (\<exists>i<k. x = a + of_nat i * 4096)"
  by (auto simp: page_run_def)

lemma page_run_unat:
  assumes "unat a + k * 4096 \<le> 2 ^ 32" "i < k"
  shows "unat (a + of_nat i * 4096 :: u32) = unat a + i * 4096"
  using offset_add [of a "i * 4096"] assms by simp

lemma page_run_span:
  assumes "unat a + k * 4096 \<le> 2 ^ 32"
  shows "(\<Union>x\<in>set (page_run a k). span x 4096) = span a (k * 4096)"
proof (intro set_eqI iffI)
  fix b assume "b \<in> (\<Union>x\<in>set (page_run a k). span x 4096)"
  then obtain i where i: "i < k" "b \<in> span (a + of_nat i * 4096) 4096"
    by (auto simp: page_run_set)
  have "i * 4096 + 4096 \<le> k * 4096" using i(1) by simp
  with i assms page_run_unat [OF assms i(1)] show "b \<in> span a (k * 4096)"
    by (subst (asm) span_nowrap) (simp_all add: span_nowrap)
next
  fix b assume "b \<in> span a (k * 4096)"
  then have b: "unat a \<le> unat b" "unat b < unat a + k * 4096" using assms by (simp_all add: span_nowrap)
  define i where "i = (unat b - unat a) div 4096"
  have i: "i < k" "i * 4096 \<le> unat b - unat a" "unat b - unat a < i * 4096 + 4096"
    using b by (simp_all add: i_def less_mult_imp_div_less) 
  have "i * 4096 + 4096 \<le> k * 4096" using i(1) by simp
  with i b assms page_run_unat [OF assms i(1)] have "b \<in> span (a + of_nat i * 4096) 4096"
    by (subst span_nowrap) (simp_all, linarith)
  moreover have "a + of_nat i * 4096 \<in> set (page_run a k)" using i(1) page_run_set by blast
  ultimately show "b \<in> (\<Union>x\<in>set (page_run a k). span x 4096)" by blast
qed

text \<open>A page of the allocator that meets the bytes of an aligned block is one of the block's pages.\<close>

lemma page_run_ok:
  assumes "aligned a 4096" "a \<noteq> 0" "unat a + k * 4096 \<le> 2 ^ 32"
  shows "pages_ok (page_run a k)"
proof -
  have u: "unat (a + of_nat i * 4096) = unat a + i * 4096" if "i < k" for i
    using page_run_unat [OF assms(3) that] .
  have "i = j" if "i < k" "j < k" "a + of_nat i * 4096 = a + of_nat j * 4096" for i j
  proof -
    have "unat a + i * 4096 = unat a + j * 4096" using u [OF that(1)] u [OF that(2)] that(3) by metis
    then show ?thesis by simp
  qed
  then have "distinct (page_run a k)"
    unfolding page_run_def distinct_map by (auto intro!: inj_onI)
  moreover have "x \<noteq> 0 \<and> aligned x 4096" if x: "x \<in> set (page_run a k)" for x
  proof -
    obtain i where i: "i < k" "x = a + of_nat i * 4096" using x by (auto simp: page_run_set)
    have "unat x = unat a + i * 4096" using u [OF i(1)] i(2) by simp
    moreover have "unat a \<noteq> 0" using assms(2) by (simp add: unat_eq_zero)
    ultimately have "unat x \<noteq> 0" "4096 dvd unat x" using assms(1) by (auto simp: aligned_dvd)
    then show ?thesis by (auto simp: aligned_dvd)
  qed
  ultimately show ?thesis by (simp add: pages_ok_def)
qed


lemma block_pages:
  assumes "aligned sz 4096" "0 < sz"
  shows "\<exists>k. 0 < k \<and> k < 2 ^ 20 \<and> sz = of_nat k * 4096 \<and> unat sz = k * 4096"
proof -
  obtain k where k: "unat sz = k * 4096" using assms(1) by (auto simp: aligned_dvd elim!: dvdE)
  moreover have "0 < unat sz" "unat sz < 4294967296"
    using assms(2) unat_less_32 [of sz] by (simp_all add: word_less_nat_alt)
  ultimately have "0 < k" "k < 2 ^ 20" by simp_all
  moreover have "sz = of_nat k * 4096"
    using k of_nat_pages [OF \<open>k < 2 ^ 20\<close>] by (simp add: word_unat_eq_iff)
  ultimately show ?thesis using k by blast
qed

lemma page_inv_stable:
  assumes "page_inv s m" "\<And>b. b \<in> page_own s m \<Longrightarrow> m' b = m b"
  shows "page_inv s m' \<and> page_own s m' = page_own s m"
proof -
  obtain xs where xs: "free_list m (pg_freelist s) xs" "lock_free (pg_lock s)"
    using assms(1) by (auto simp: page_inv_def)
  have "free_list m' (pg_freelist s) xs"
  proof (rule free_list_cong [OF xs(1)])
    fix x b assume "x \<in> set xs" "b \<in> span x 4"
    then have "b \<in> page_own s m"
      using span_mono [of 4 4096 x] by (auto simp: page_own_list [OF xs(1)])
    then show "m b = m' b" using assms(2) by simp
  qed
  with xs show ?thesis by (auto simp: page_inv_def page_own_list)
qed

text \<open>The block that \<open>page_memalign\<close> grants, as a set of addresses.\<close>

lemma page_memalign_block:
  assumes "page_inv s m" "pa_sane al sz" "4096 \<le> al"
  shows "\<exists>p s' m'. page_memalign al sz s m = Some (Inr (p, s', m')) \<and> page_inv s' m' \<and>
    page_own s' m' \<subseteq> page_own s m \<and> (\<forall>b. b \<notin> page_own s m \<longrightarrow> m' b = m b) \<and> aligned p 4096 \<and>
    (p \<noteq> 0 \<longrightarrow> unat p + unat sz \<le> 2 ^ 32 \<and> span p (unat sz) \<subseteq> page_own s m - page_own s' m')"
proof -
  obtain xs where xs: "free_list m (pg_freelist s) xs" "lock_free (pg_lock s)"
    using assms(1) by (auto simp: page_inv_def)
  have sz: "0 < sz" "unat sz + 4096 \<le> 2 ^ 32"
    using assms(2,3) by (simp_all add: pa_sane_def word_le_nat_alt)
  obtain order where o: "order < 32" "unat sz \<le> 4096 * 2 ^ unat order"
      "4096 * 2 ^ unat order < 2 * (unat sz + 4096)"
      "page_memalign al sz s m = map_option Inr (alloc_pages order s m)"
    using page_memalign_spec [OF sz] by blast
  let ?k = "2 ^ unat order"
  obtain r s' m' where a: "alloc_pages order s m = Some (r, s', m')" "lock_free (pg_lock s')"
    and or: "r = 0 \<and> s' = s \<and> m' = m \<or> r \<noteq> 0 \<and> aligned r (4096 * ?k) \<and>
      (\<exists>pre post. xs = pre @ page_run r ?k @ post \<and>
        free_list m' (pg_freelist s') (pre @ post) \<and>
        (\<forall>b. (\<forall>x\<in>set pre. b \<notin> span x 4) \<longrightarrow> m' b = m b))"
    using alloc_pages_spec [OF xs(2,1) o(1)] by blast
  have res: "page_memalign al sz s m = Some (Inr (r, s', m'))" using o(4) a(1) by simp
  show ?thesis
  proof (cases "r = 0")
    case True
    with or assms(1) res show ?thesis by auto
  next
    case False
    with or obtain pre post where p: "aligned r (4096 * ?k)" "xs = pre @ page_run r ?k @ post"
      "free_list m' (pg_freelist s') (pre @ post)" "\<forall>b. (\<forall>x\<in>set pre. b \<notin> span x 4) \<longrightarrow> m' b = m b"
      by blast
    have "(4096 :: nat) * ?k < 2 ^ 33" using o(3) sz(2) by simp
    then have "(2 :: nat) ^ unat order < 2 ^ 21" by simp
    then have "unat order < 21" by (rule power_less_imp_less_exp [rotated]) simp
    then have "(4096 :: nat) * ?k dvd 2 ^ 32"
      using le_imp_power_dvd [of "12 + unat order" 32 "2 :: nat"] by (simp add: power_add)
    then have rb: "unat r + ?k * 4096 \<le> 2 ^ 32"
      using aligned_bound [OF p(1)] by (simp add: mult.commute)
    then have run: "(\<Union>x\<in>set (page_run r ?k). span x 4096) = span r (?k * 4096)"
      by (rule page_run_span)
    have own: "page_own s m = (\<Union>x\<in>set pre. span x 4096) \<union> span r (?k * 4096) \<union> (\<Union>x\<in>set post. span x 4096)"
      "page_own s' m' = (\<Union>x\<in>set pre. span x 4096) \<union> (\<Union>x\<in>set post. span x 4096)"
      using page_own_list [OF xs(1)] page_own_list [OF p(3)] run p(2) by auto
    have "span x 4096 \<inter> span y 4096 = {}" if "x \<in> set (page_run r ?k)" "y \<in> set pre \<union> set post" for x y
      using that xs(1) p(2)
      by (intro aligned_disjoint) (auto simp: free_list_def pages_ok_append pages_ok_aligned)
    then have disj: "span r (?k * 4096) \<inter> page_own s' m' = {}"
      unfolding own(2) run [symmetric] by blast
    have sub: "span r (unat sz) \<subseteq> span r (?k * 4096)"
      using o(2) by (intro span_mono) (simp add: mult.commute)
    have "m' b = m b" if "b \<notin> page_own s m" for b
      using that p(4) span_mono [of 4 4096] unfolding own(1) by fastforce
    moreover have "page_inv s' m'" using a(2) p(3) by (auto simp: page_inv_def)
    moreover have "aligned r 4096" using aligned_weaken [OF p(1)] by simp
    ultimately show ?thesis
      using res own disj sub rb o(2) by (intro exI [of _ r] exI [of _ s'] exI [of _ m']) auto
  qed
qed

interpretation page: freeing_provider page_alloc_ops page_inv page_own page_free
proof unfold_locales
  fix s m show "page_inv s m \<Longrightarrow> is_power_of_2 (ops_align_min page_alloc_ops s)"
    by (simp add: page_alloc_ops_def PAGE_SIZE_def is_power_of_2_def)
next
  fix s m al sz
  assume "page_inv s m" "pa_sane al sz" "4 \<le> al" "ops_align_min page_alloc_ops s \<le> al"
  then obtain p s' m' where
    "page_memalign al sz s m = Some (Inr (p, s', m'))" "page_inv s' m'"
    "page_own s' m' \<subseteq> page_own s m" "\<forall>b. b \<notin> page_own s m \<longrightarrow> m' b = m b" "aligned p 4096"
    "p \<noteq> 0 \<longrightarrow> unat p + unat sz \<le> 2 ^ 32 \<and> span p (unat sz) \<subseteq> page_own s m - page_own s' m'"
    using page_memalign_block [of s m al sz] by (auto simp: page_alloc_ops_def PAGE_SIZE_def)
  then show "\<exists>p s' m'. ops_memalign page_alloc_ops al sz s m = Some (Inr (p, s', m')) \<and>
      page_inv s' m' \<and> page_own s' m' \<subseteq> page_own s m \<and> (\<forall>b. b \<notin> page_own s m \<longrightarrow> m' b = m b) \<and>
      (p \<noteq> 0 \<longrightarrow> aligned p 4 \<and> unat p + unat sz \<le> 2 ^ 32 \<and>
         span p (unat sz) \<subseteq> page_own s m - page_own s' m')"
    using aligned_weaken [of p 4096 4]
    by (intro exI [of _ p] exI [of _ s'] exI [of _ m']) (simp add: page_alloc_ops_def)
next
  fix s m and m' :: memory
  show "page_inv s m \<Longrightarrow> (\<And>b. b \<in> page_own s m \<Longrightarrow> m' b = m b) \<Longrightarrow>
      page_inv s m' \<and> page_own s m' = page_own s m"
    by (rule page_inv_stable)
next
  show "ops_free page_alloc_ops = Some page_free" by (simp add: page_alloc_ops_def)
next
  fix s m al sz p s' m'
  assume "page_inv s m" "pa_sane al sz" "ops_align_min page_alloc_ops s \<le> al"
    "ops_memalign page_alloc_ops al sz s m = Some (Inr (p, s', m'))"
  then show "aligned p (unat (ops_align_min page_alloc_ops s'))"
    using page_memalign_block [of s m al sz] by (simp add: page_alloc_ops_def PAGE_SIZE_def)
next
  fix s s' show "ops_align_min page_alloc_ops s = ops_align_min page_alloc_ops s'"
    by (simp add: page_alloc_ops_def)
next
  fix s m p sz
  assume inv: "page_inv s m" and p: "p \<noteq> 0" and sz: "0 < sz"
    and "aligned p (unat (ops_align_min page_alloc_ops s))"
      "aligned sz (unat (ops_align_min page_alloc_ops s))"
    and nw: "unat p + unat sz \<le> 2 ^ 32" and disj: "span p (unat sz) \<inter> page_own s m = {}"
  then have al: "aligned p 4096" "aligned sz 4096" by (simp_all add: page_alloc_ops_def PAGE_SIZE_def)
  obtain xs where xs: "free_list m (pg_freelist s) xs" "lock_free (pg_lock s)"
    using inv by (auto simp: page_inv_def)
  obtain k where k: "0 < k" "k < 2 ^ 20" "sz = of_nat k * 4096" "unat sz = k * 4096"
    using block_pages [OF al(2) sz] by blast
  have nw': "unat p + k * 4096 \<le> 2 ^ 32" using nw k(4) by simp
  note run = page_run_span [OF nw']
  have "x \<notin> set xs" if "x \<in> set (page_run p k)" for x
  proof
    assume "x \<in> set xs"
    moreover have "x \<in> span x 4096" by (simp add: span_iff)
    ultimately have "x \<in> span p (unat sz) \<inter> page_own s m"
      using that run page_own_list [OF xs(1)] unfolding k(4) by blast
    with disj show False by simp
  qed
  then have "pages_ok (page_run p k @ xs)"
    using page_run_ok [OF al(1) p nw'] xs(1) by (auto simp: pages_ok_append free_list_def)
  from free_pages_spec [OF xs(2,1) k(1,2) this] obtain s' m' where
    f: "free_pages p sz s m = Some (s', m')" "lock_free (pg_lock s')"
      "free_list m' (pg_freelist s') (page_run p k @ xs)"
      "\<forall>b. (\<forall>x\<in>set (page_run p k). b \<notin> span x 4) \<longrightarrow> m' b = m b"
    unfolding k(3) by blast
  have o: "page_own s' m' = page_own s m \<union> span p (unat sz)"
    using page_own_list [OF f(3)] page_own_list [OF xs(1)] run k(4) by auto
  have fr: "\<forall>b. b \<notin> span p (unat sz) \<longrightarrow> m' b = m b"
  proof (intro allI impI)
    fix b assume "b \<notin> span p (unat sz)"
    then have "b \<notin> span x 4096" if "x \<in> set (page_run p k)" for x
      using that run k(4) by auto
    then have "b \<notin> span x 4" if "x \<in> set (page_run p k)" for x
      using that span_mono [of 4 4096 x] by auto
    then show "m' b = m b" using f(4) by simp
  qed
  have "page_inv s' m'" using f(2,3) by (auto simp: page_inv_def)
  with o fr f(1) show "\<exists>s' m'. page_free p sz s m = Some (s', m') \<and> page_inv s' m' \<and>
      page_own s' m' = page_own s m \<union> span p (unat sz) \<and> (\<forall>b. b \<notin> span p (unat sz) \<longrightarrow> m' b = m b)"
    unfolding page_free_def by (intro exI conjI)
qed


section \<open>Properties\<close>

lemma max_4_4: "ALIGN METADATA_EXTRA (max 4 4) = 8"
  by (simp add: ALIGN_def align_mask_def METADATA_EXTRA_def)

text \<open>The boot-time early allocator.\<close>

definition early_boot :: phys_state where
  "early_boot = phys_state0\<lparr>pa_base := 0x300000, pa_top := 0x7FE0000\<rparr>"

lemma early_boot_phys: "phys_inv 0x300000 0x7FE0000 early_boot"
  by (simp add: early_boot_def phys_inv_def phys_state0_def lock_free_def)

lemma early_boot_inv: "early_inv early_boot m"
  using early_boot_phys
  by (auto simp: early_inv_def early_boot_def phys_state0_def DEFAULT_MINIMUM_ALIGNMENT_def
      is_power_of_2_def intro!: exI [of _ "0x300000 :: nat"])

lemma early_boot_malloc:
  "memalign early_alloc_ops 4 56 early_boot m =
     Some (Inr (0x300008, pa_log_region 0x300000 64 (early_boot\<lparr>pa_base := 0x300040\<rparr>),
       with_metadata m 0x300008 8 64))"
proof -
  have n: "request_size 4 56 64 = 64"
    by (simp add: request_size_def METADATA_EXTRA_def ALIGN_def align_mask_def)
  have gap: "pa_gap early_boot 64 = 0" "ALIGN 0x300000 64 = 0x300000"
    by (simp_all add: pa_gap_def early_boot_def ALIGN_def align_mask_def)
  have sane: "pa_sane 64 64" "pa_enough 64 64 early_boot"
    by (simp_all add: pa_sane_def is_power_of_2_def pa_enough_def gap) (simp add: early_boot_def)
  have am: "pa_align_min early_boot = 64" "pa_base early_boot = 0x300000"
    by (simp_all add: early_boot_def phys_state0_def DEFAULT_MINIMUM_ALIGNMENT_def)
  have "early_memalign 64 64 early_boot =
      Some (0x300000, pa_log_region 0x300000 64 (early_boot\<lparr>pa_base := 0x300040\<rparr>))"
    using early_memalign_ok [OF early_boot_phys sane] gap by (simp add: am)
  then show ?thesis
    by (simp add: memalign_def early_alloc_ops_def am n Let_def METADATA_EXTRA_def ALIGN_def
        align_mask_def with_metadata_def max_def)
qed

lemma page_state0_inv: "page_inv page_state0 zero_mem"
  using page_state0_free_list by (auto simp: page_inv_def)

lemma page_memalign_null:
  assumes "page_inv s m" "0 < sz" "unat sz + 4096 \<le> 2 ^ 32"
  shows "\<exists>p s' m'. page_memalign al sz s m = Some (Inr (p, s', m')) \<and> (p = 0 \<longrightarrow> s' = s \<and> m' = m)"
proof -
  obtain xs where xs: "free_list m (pg_freelist s) xs" "lock_free (pg_lock s)"
    using assms(1) by (auto simp: page_inv_def)
  obtain order where o: "order < 32" "page_memalign al sz s m = map_option Inr (alloc_pages order s m)"
    using page_memalign_spec [OF assms(2,3)] by blast
  from alloc_pages_spec [OF xs(2,1) o(1)] obtain r s' m' where
    "alloc_pages order s m = Some (r, s', m')" "r = 0 \<longrightarrow> s' = s \<and> m' = m" by blast
  then show ?thesis using o(2) by auto
qed

text \<open>A request of at most one page is answered with the first page of the list.\<close>

lemma ALIGN_one_page:
  assumes "0 < unat sz" "unat sz \<le> 4096"
  shows "ALIGN sz 4096 = 4096"
proof -
  have "is_power_of_2 4096" by (simp add: is_power_of_2_def)
  from ALIGN_bounds [OF this, of sz] assms
  have "unat sz \<le> unat (ALIGN sz 4096)" "unat (ALIGN sz 4096) < unat sz + 4096"
    "4096 dvd unat (ALIGN sz 4096)" by (simp_all add: aligned_dvd)
  with assms have "unat (ALIGN sz 4096) = 4096" by (auto elim!: dvdE)
  then show ?thesis by (simp add: word_unat_eq_iff)
qed

lemma page_memalign_one:
  assumes "lock_free (pg_lock s)" "free_list m (pg_freelist s) (x # xs)" "0 < sz" "unat sz \<le> 4096"
  shows "\<exists>s' m'. page_memalign al sz s m = Some (Inr (x, s', m'))"
proof -
  have "0 < unat sz" using assms(3) by (simp add: word_less_nat_alt)
  then have "ALIGN sz 4096 = 4096" using assms(4) by (rule ALIGN_one_page)
  then have "page_memalign al sz s m = map_option Inr (alloc_pages 0 s m)"
    using assms(3) by (auto simp: page_memalign_def PAGE_SHIFT_def PAGE_SIZE_def Let_def
        is_power_of_2_def fls_def clz_def upt_rec)
  moreover have "aligned x 4096" using assms(2) by (simp add: free_list_def pages_ok_Cons)
  ultimately show ?thesis
    by (simp add: alloc_pages_find_run [OF assms(1,2)] run_result_def)
qed

lemma page_memalign_cases:
  assumes "page_inv s m" "is_power_of_2 al" "heap_fits al sz PAGE_SIZE"
  shows "\<exists>p s' m0 mem m'.
    page_memalign (max (max 4 al) PAGE_SIZE) (request_size al sz PAGE_SIZE) s m =
      Some (Inr (p, s', m0)) \<and>
    memalign page_alloc_ops al sz s m = Some (Inr (mem, s', m')) \<and>
    (\<forall>x xs. free_list m (pg_freelist s) (x # xs) \<and> unat (request_size al sz PAGE_SIZE) \<le> 4096 \<longrightarrow>
      p = x \<and> p \<noteq> 0) \<and>
    (if p = 0
     then s' = s \<and> mem = ALIGN 8 (max 4 al) \<and>
       m' = store32 (store32 m (mem - 8) mem) (mem - 4) (request_size al sz PAGE_SIZE)
     else page_inv s' m' \<and> aligned mem (unat (max 4 al)) \<and>
       block_begin m' mem = p \<and> block_size m' mem = request_size al sz PAGE_SIZE \<and>
       unat p + 8 \<le> unat mem \<and>
       unat mem + unat sz \<le> unat p + unat (request_size al sz PAGE_SIZE) \<and>
       span p (unat (request_size al sz PAGE_SIZE)) \<subseteq> page_own s m - page_own s' m' \<and>
       page_own s' m' \<subseteq> page_own s m \<and> (\<forall>b. b \<notin> page_own s m \<longrightarrow> m' b = m b))"
proof -
  let ?n = "request_size al sz PAGE_SIZE"
  have am: "ops_align_min page_alloc_ops s = PAGE_SIZE" by (simp add: page_alloc_ops_def)
  have fits: "heap_fits al sz (ops_align_min page_alloc_ops s)" using assms(3) am by simp
  have pow: "is_power_of_2 PAGE_SIZE" by (simp add: PAGE_SIZE_def is_power_of_2_def)
  have n0: "0 < ?n"
    using request_size_bounds(1) [OF assms(2) pow assms(3)] by (simp add: word_less_nat_alt)
  have "pa_sane (max (max 4 al) PAGE_SIZE) ?n" using request_sane [OF assms(2) pow assms(3)] .
  moreover have "4096 \<le> unat (max (max 4 al) PAGE_SIZE)" by (simp add: PAGE_SIZE_def max_word_unat)
  ultimately have sz: "unat ?n + 4096 \<le> 2 ^ 32" by (simp add: pa_sane_def)
  obtain p s' m0 where op: "page_memalign (max (max 4 al) PAGE_SIZE) ?n s m = Some (Inr (p, s', m0))"
      "p = 0 \<longrightarrow> s' = s \<and> m0 = m"
    using page_memalign_null [OF assms(1) n0 sz] by blast
  then have op': "ops_memalign page_alloc_ops (max (max 4 al) (ops_align_min page_alloc_ops s))
      (request_size al sz (ops_align_min page_alloc_ops s)) s m = Some (Inr (p, s', m0))"
    unfolding am by (simp add: page_alloc_ops_def)
  obtain mem m' where r: "memalign page_alloc_ops al sz s m = Some (Inr (mem, s', m'))"
      "mem = ALIGN (p + 8) (max 4 al)"
      "m' = store32 (store32 m0 (mem + OFS_SLACK) (mem - p)) (mem + OFS_SIZE) ?n"
    using op' unfolding am by (simp add: memalign_def alignment_max am METADATA_EXTRA_def Let_def)
  have one: "p = x \<and> p \<noteq> 0" if "free_list m (pg_freelist s) (x # xs)" "unat ?n \<le> 4096" for x xs
  proof -
    have "lock_free (pg_lock s)" using assms(1) by (simp add: page_inv_def)
    from page_memalign_one [OF this that(1) n0 that(2), of "max (max 4 al) PAGE_SIZE"] op(1)
    have "p = x" by auto
    then show ?thesis using that(1) by (simp add: free_list_def pages_ok_Cons)
  qed
  show ?thesis
  proof (cases "p = 0")
    case True
    with op r one show ?thesis
      by (intro exI [of _ p] exI [of _ s'] exI [of _ m0] exI [of _ mem] exI [of _ m'])
        (auto simp: OFS_SLACK_def OFS_SIZE_def)
  next
    case False
    from page.memalign_granted_at [OF assms(1,2) fits op' False r(1)] False op(1) r(1) one
    show ?thesis unfolding am
      by (intro exI [of _ p] exI [of _ s'] exI [of _ m0] exI [of _ mem] exI [of _ m'])
        (auto simp: heap_block_def)
  qed
qed

text \<open>C20. With the page allocator behind it, and for requests whose sizes do not wrap (\<open>heap_fits\<close>: a positive
  size; the alignment is a power of two), \<open>memalign\<close> (and so \<open>malloc\<close>) always returns, and the page
  allocator's answer decides. If that gives a block \<open>p\<close>, the user's part is aligned as asked, lies
  inside the block behind its metadata, which record \<open>p\<close> and the size, the whole block was owned by the
  allocator and has been given up, and no byte outside the allocator's own pages has changed. If it
  is NULL, which for a request of at most a page happens with an empty free list only, the allocator
  is as before and the result is the address of an empty NULL block, whose metadata are written.\<close>

theorem page_memalign_heap:
  assumes "page_inv s m" "is_power_of_2 al" "heap_fits al sz PAGE_SIZE"
  shows "\<exists>p s' m0 mem m'.
    page_memalign (max (max 4 al) PAGE_SIZE) (request_size al sz PAGE_SIZE) s m =
      Some (Inr (p, s', m0)) \<and>
    memalign page_alloc_ops al sz s m = Some (Inr (mem, s', m')) \<and>
    (\<forall>x xs. free_list m (pg_freelist s) (x # xs) \<and> unat (request_size al sz PAGE_SIZE) \<le> 4096 \<longrightarrow>
      p = x \<and> p \<noteq> 0) \<and>
    (if p = 0
     then s' = s \<and> mem = ALIGN 8 (max 4 al) \<and>
       m' = store32 (store32 m (mem - 8) mem) (mem - 4) (request_size al sz PAGE_SIZE)
     else page_inv s' m' \<and> aligned mem (unat (max 4 al)) \<and>
       block_begin m' mem = p \<and> block_size m' mem = request_size al sz PAGE_SIZE \<and>
       unat p + 8 \<le> unat mem \<and>
       unat mem + unat sz \<le> unat p + unat (request_size al sz PAGE_SIZE) \<and>
       span p (unat (request_size al sz PAGE_SIZE)) \<subseteq> page_own s m - page_own s' m' \<and>
       page_own s' m' \<subseteq> page_own s m \<and> (\<forall>b. b \<notin> page_own s m \<longrightarrow> m' b = m b))"
  by (rule page_memalign_cases [OF assms])

theorem page_memalign_heap_witness:
  "\<exists>s' m'. memalign page_alloc_ops 16 100 page_state0 zero_mem = Some (Inr (0x200010, s', m')) \<and>
    page_inv s' m' \<and> block_begin m' 0x200010 = 0x200000 \<and> block_size m' 0x200010 = 0x1000 \<and>
    span 0x200000 0x1000 \<subseteq> page_own page_state0 zero_mem - page_own s' m'"
proof -
  have n: "request_size 16 100 PAGE_SIZE = 0x1000"
    by (simp add: request_size_def METADATA_EXTRA_def ALIGN_def align_mask_def PAGE_SIZE_def)
  have "is_power_of_2 16" "heap_fits 16 100 PAGE_SIZE"
    by (simp_all add: is_power_of_2_def heap_fits_def PAGE_SIZE_def max_word_unat)
  from page_memalign_heap [OF page_state0_inv this] obtain p s' m0 mem m' where
    c: "page_memalign (max (max 4 16) PAGE_SIZE) 0x1000 page_state0 zero_mem = Some (Inr (p, s', m0))"
    and r: "memalign page_alloc_ops 16 100 page_state0 zero_mem = Some (Inr (mem, s', m'))"
    and g: "\<forall>x xs. free_list zero_mem (pg_freelist page_state0) (x # xs) \<and>
      unat (0x1000 :: u32) \<le> 4096 \<longrightarrow> p = x \<and> p \<noteq> 0"
    and b: "if p = 0
     then s' = page_state0 \<and> mem = ALIGN 8 (max 4 16) \<and>
       m' = store32 (store32 zero_mem (mem - 8) mem) (mem - 4) 0x1000
     else page_inv s' m' \<and> aligned mem (unat (max 4 16 :: u32)) \<and>
       block_begin m' mem = p \<and> block_size m' mem = 0x1000 \<and> unat p + 8 \<le> unat mem \<and>
       unat mem + unat (100 :: u32) \<le> unat p + unat (0x1000 :: u32) \<and>
       span p (unat (0x1000 :: u32)) \<subseteq> page_own page_state0 zero_mem - page_own s' m' \<and>
       page_own s' m' \<subseteq> page_own page_state0 zero_mem \<and>
       (\<forall>b. b \<notin> page_own page_state0 zero_mem \<longrightarrow> m' b = zero_mem b)"
    unfolding n by blast
  have p: "p = 0x200000" using g page_state0_free_list by fastforce
  then have "mem = 0x200010"
    using r c by (auto simp: memalign_def page_alloc_ops_def n [unfolded PAGE_SIZE_def] PAGE_SIZE_def Let_def
        METADATA_EXTRA_def ALIGN_def align_mask_def max_def)
  with r b p show ?thesis by auto
qed

text \<open>C33. The whole blocks that \<open>memalign\<close> takes from the early allocator, for two requests whose sizes do not
  wrap (\<open>heap_fits\<close>) and which are not answered with a NULL block, from the recorded start over the
  recorded size, hold the metadata and the user's part of each request and do not overlap, and
  the second request does not write into the first block, its metadata included.\<close>

theorem early_heap_disjoint:
  assumes "early_inv s m" "is_power_of_2 al" "heap_fits al sz (pa_align_min s)"
    "memalign early_alloc_ops al sz s m = Some (Inr (p, s1, m1))"
    "p \<noteq> ALIGN METADATA_EXTRA (max 4 al)"
    "is_power_of_2 al2" "heap_fits al2 sz2 (pa_align_min s1)"
    "memalign early_alloc_ops al2 sz2 s1 m1 = Some (Inr (q, s2, m2))"
    "q \<noteq> ALIGN METADATA_EXTRA (max 4 al2)"
  shows "span (block_begin m1 p) (unat (block_size m1 p)) \<inter>
      span (block_begin m2 q) (unat (block_size m2 q)) = {} \<and>
    (\<forall>b\<in>span (block_begin m1 p) (unat (block_size m1 p)). m2 b = m1 b) \<and>
    span (p - 8) 8 \<union> span p (unat sz) \<subseteq> span (block_begin m1 p) (unat (block_size m1 p)) \<and>
    span (q - 8) 8 \<union> span q (unat sz2) \<subseteq> span (block_begin m2 q) (unat (block_size m2 q))"
proof -
  have am: "ops_align_min early_alloc_ops = pa_align_min" by (simp add: early_alloc_ops_def)
  show ?thesis
    using early.granted_disjoint [OF assms(1,2) _ assms(4,5,6) _ assms(8,9)] assms(3,7)
    unfolding am heap_block_def by blast
qed

text \<open>C34. Freeing a block of the page-backed heap, after the user has written anything in its part,
  returns the allocator to a well-formed state that owns again exactly the block that the metadata
  describe, besides what it owned before the call.\<close>

theorem page_heap_free:
  assumes "page_inv s m" "is_power_of_2 al" "heap_fits al sz PAGE_SIZE"
    "memalign page_alloc_ops al sz s m = Some (Inr (mem, s', m'))"
    "mem \<noteq> ALIGN METADATA_EXTRA (max 4 al)"
    "\<And>b. b \<in> page_own s' m' \<union> span (mem - 8) 8 \<Longrightarrow> m2 b = m' b"
  shows "\<exists>s3 m3. free page_alloc_ops mem s' m2 = Some (s3, m3) \<and> page_inv s3 m3 \<and>
    page_own s3 m3 =
      page_own s' m' \<union> span (block_begin m' mem) (unat (request_size al sz PAGE_SIZE)) \<and>
    (\<forall>b. b \<notin> span (block_begin m' mem) (unat (request_size al sz PAGE_SIZE)) \<longrightarrow> m3 b = m2 b)"
proof -
  have am: "ops_align_min page_alloc_ops s = PAGE_SIZE" by (simp add: page_alloc_ops_def)
  have fits: "heap_fits al sz (ops_align_min page_alloc_ops s)" using assms(3) am by simp
  have "block_size m' mem = request_size al sz PAGE_SIZE"
    using page.memalign_granted [OF assms(1,2) fits assms(4,5)] unfolding am by blast
  then show ?thesis
    using page.free_granted [OF assms(1,2) fits assms(4,5,6)] by auto
qed


text \<open>\<open>malloc\<close> does not check for exhaustion: when the early allocator refuses the request, \<open>malloc\<close>
  still returns a non-NULL pointer, 8, after writing the block's metadata to the addresses 0 to 7.\<close>

theorem malloc_out_of_memory:
  assumes "early_inv s m" "heap_fits 4 sz (pa_align_min s)"
    "\<not> pa_enough (max 4 (pa_align_min s)) (request_size 4 sz (pa_align_min s)) s"
  shows "\<exists>s' m'. malloc early_alloc_ops sz s m = Some (Inr (8, s', m')) \<and>
    load32 m' 0 = 8 \<and> load32 m' 4 = request_size 4 sz (pa_align_min s) \<and>
    pa_base s' = pa_base s"
proof -
  let ?n = "request_size 4 sz (pa_align_min s)"
  have am: "ops_align_min early_alloc_ops s = pa_align_min s" by (simp add: early_alloc_ops_def)
  obtain lo hi where ph: "phys_inv lo hi s" and pow: "is_power_of_2 (pa_align_min s)"
    using assms(1) by (auto simp: early_inv_def)
  have sane: "pa_sane (max 4 (pa_align_min s)) ?n"
    using request_sane [OF is_power_of_2_4 pow assms(2)] by simp
  obtain c where "early_memalign (max 4 (pa_align_min s)) ?n s = Some (0, pa_print [c] s)"
    using early_memalign_fail [OF ph sane assms(3)] by blast
  then have "ops_memalign early_alloc_ops (max (max 4 4) (ops_align_min early_alloc_ops s))
      (request_size 4 sz (ops_align_min early_alloc_ops s)) s m = Some (Inr (0, pa_print [c] s, m))"
    by (simp add: am) (simp add: early_alloc_ops_def)
  note r = early.memalign_refused [OF this, folded malloc_def]
  have "load32 (with_metadata m 8 8 ?n) 0 = 8" "load32 (with_metadata m 8 8 ?n) 4 = ?n"
    using metadata_read [of 8 m 8 ?n]
    by (simp_all add: block_begin_def block_size_def OFS_SLACK_def OFS_SIZE_def)
  then show ?thesis
    using r by (simp add: am max_4_4 [simplified] pa_print_def)
qed

theorem malloc_out_of_memory_witness:
  "\<exists>s' m'. malloc early_alloc_ops 100 (early_boot\<lparr>pa_base := 0x7FE0000\<rparr>) zero_mem =
      Some (Inr (8, s', m')) \<and> load32 m' 0 = 8"
proof -
  let ?s = "early_boot\<lparr>pa_base := 0x7FE0000\<rparr>"
  have am: "pa_align_min ?s = 64" by (simp add: early_boot_def phys_state0_def DEFAULT_MINIMUM_ALIGNMENT_def)
  have "phys_inv 0x300000 0x7FE0000 ?s"
    by (simp add: early_boot_def phys_inv_def phys_state0_def lock_free_def)
  then have i: "early_inv ?s zero_mem"
    by (auto simp: early_inv_def am is_power_of_2_def phys_inv_def intro!: exI [of _ "0x300000 :: nat"])
  have n: "request_size 4 100 64 = 128"
    by (simp add: request_size_def METADATA_EXTRA_def ALIGN_def align_mask_def)
  have "\<not> pa_enough (max 4 (pa_align_min ?s)) (request_size 4 100 (pa_align_min ?s)) ?s"
    unfolding am n by (simp add: pa_enough_def early_boot_def)
  moreover have "heap_fits 4 100 (pa_align_min ?s)"
    unfolding am by (simp add: heap_fits_def max_word_unat)
  ultimately show ?thesis using malloc_out_of_memory [OF i] by blast
qed

text \<open>The metadata record the size asked of the page allocator, not the size of the power-of-two
  block it granted, so a free returns fewer pages than the allocation took: with the four free pages
  from 0x4000 on, allocating and freeing 0x2001 bytes loses the page 0x7000.\<close>

theorem malloc_free_leaks_pages:
  "\<exists>s m s1 m1 s2 m2. page_inv s m \<and>
     free_list m (pg_freelist s) [0x4000, 0x5000, 0x6000, 0x7000] \<and>
     malloc page_alloc_ops 0x2001 s m = Some (Inr (0x4008, s1, m1)) \<and>
     free page_alloc_ops 0x4008 s1 m1 = Some (s2, m2) \<and>
     free_list m2 (pg_freelist s2) [0x4000, 0x5000, 0x6000]"
proof -
  let ?m = "store32 (store32 (store32 zero_mem 0x4000 0x5000) 0x5000 0x6000) 0x6000 0x7000"
  let ?s = "page_state0\<lparr>pg_freelist := 0x4000\<rparr>"
  have l: "lock_free (pg_lock ?s)" by (simp add: page_state0_def lock_free_def)
  have f: "free_list ?m (pg_freelist ?s) [0x4000, 0x5000, 0x6000, 0x7000]"
    by (simp add: free_list_def pages_ok_Cons aligned_def aligned_load32_store32 load32_store32)
  have "alloc_pages 2 ?s ?m = Some (0x4000, ?s\<lparr>pg_freelist := 0\<rparr>, ?m)"
    by (simp add: alloc_pages_find_run [OF l f] run_result_def aligned_def)
  then have op: "page_memalign 4096 0x3000 ?s ?m = Some (Inr (0x4000, ?s\<lparr>pg_freelist := 0\<rparr>, ?m))"
    by (simp add: page_memalign_def PAGE_SHIFT_def PAGE_SIZE_def ALIGN_def align_mask_def Let_def
        is_power_of_2_def fls_def clz_def upt_rec)
  let ?m1 = "with_metadata ?m 0x4008 8 0x3000"
  have mal: "malloc page_alloc_ops 0x2001 ?s ?m = Some (Inr (0x4008, ?s\<lparr>pg_freelist := 0\<rparr>, ?m1))"
    using op by (simp add: malloc_def memalign_def page_alloc_ops_def request_size_def Let_def
        METADATA_EXTRA_def ALIGN_def align_mask_def PAGE_SIZE_def with_metadata_def max_def)
  have meta: "block_begin ?m1 0x4008 = 0x4000" "block_size ?m1 0x4008 = 0x3000"
    using metadata_read [of "0x4008" ?m 8 "0x3000"] by simp_all
  have run: "page_run 0x4000 3 = [0x4000, 0x5000, 0x6000]" by (simp add: page_run_def upt_rec)
  have "lock_free (pg_lock (?s\<lparr>pg_freelist := 0\<rparr>))" using l by simp
  moreover have "free_list ?m1 (pg_freelist (?s\<lparr>pg_freelist := 0\<rparr>)) []" by (simp add: free_list_0)
  moreover have "pages_ok (page_run 0x4000 3 @ [])" by (simp add: run pages_ok_Cons aligned_def)
  ultimately obtain s2 m2 where
    "free_pages 0x4000 (of_nat 3 * 4096) (?s\<lparr>pg_freelist := 0\<rparr>) ?m1 = Some (s2, m2)"
    "free_list m2 (pg_freelist s2) (page_run 0x4000 3 @ [])"
    using free_pages_spec [of "?s\<lparr>pg_freelist := 0\<rparr>" ?m1 "[]" 3 "0x4000"] by auto
  then have "free page_alloc_ops 0x4008 (?s\<lparr>pg_freelist := 0\<rparr>) ?m1 = Some (s2, m2)"
      "free_list m2 (pg_freelist s2) [0x4000, 0x5000, 0x6000]"
    by (simp_all add: free_def page_alloc_ops_def page_free_def meta run)
  moreover have "page_inv ?s ?m" using l f by (auto simp: page_inv_def)
  ultimately show ?thesis using mal f by blast
qed

text \<open>A block taken from the early allocator must not be freed after \<open>page_alloc_ops_enable\<close>: its
  recorded size is a multiple of 64 only, and unless that happens to be a multiple of the page size
  the call of \<open>free\<close> never returns.\<close>

theorem early_block_free_hangs:
  assumes "kmalloc sz h m = Some (Inr (mem, h', m'))" "h_ops h = Early_ops" "early_inv (h_phys h) m"
    "heap_fits 4 sz (pa_align_min (h_phys h))" "mem \<noteq> 8"
    "\<not> aligned (request_size 4 sz (pa_align_min (h_phys h))) 4096"
  shows "kfree mem (page_alloc_ops_enable h') m' = None \<and> kfree mem h' m' = Some (h', m')"
proof -
  have am: "ops_align_min early_alloc_ops s = pa_align_min s" for s by (simp add: early_alloc_ops_def)
  have r: "map_option (map_sum id (\<lambda>(p, s', m'). (p, h\<lparr>h_phys := s'\<rparr>, m')))
      (memalign early_alloc_ops 4 sz (h_phys h) m) = Some (Inr (mem, h', m'))"
    using assms(1,2) by (simp add: kmalloc_def malloc_def current_ops_def memalign_lift)
  obtain s' where s': "memalign early_alloc_ops 4 sz (h_phys h) m = Some (Inr (mem, s', m'))"
      "h' = h\<lparr>h_phys := s'\<rparr>"
  proof (cases "memalign early_alloc_ops 4 sz (h_phys h) m")
    case (Some r)
    with r show ?thesis using that by (cases r) auto
  qed (use r in simp)
  have "mem \<noteq> ALIGN METADATA_EXTRA (max 4 4)" using assms(5) max_4_4 by simp
  from early.memalign_granted [OF assms(3) is_power_of_2_4 _ s'(1) this] assms(4)
  have "block_size m' mem = request_size 4 sz (pa_align_min (h_phys h))" by (simp add: am)
  then have bs: "\<not> aligned (block_size m' mem) 4096" using assms(6) by simp
  then have "block_size m' mem \<noteq> 0" by auto
  moreover have "link_pages m' (block_begin m' mem) (block_begin m' mem + block_size m' mem) = None"
    using link_pages_Some_aligned [of m' "block_begin m' mem"
        "block_begin m' mem + block_size m' mem"] bs
    by (cases "link_pages m' (block_begin m' mem) (block_begin m' mem + block_size m' mem)") auto
  ultimately have "free_pages (block_begin m' mem) (block_size m' mem) s m' = None" for s
    by (simp add: free_pages_def Let_def split: option.splits)
  then have "kfree mem (page_alloc_ops_enable h') m' = None"
    by (simp add: kfree_def free_def current_ops_def page_alloc_ops_enable_def lift_ops_def
        page_alloc_ops_def page_free_def)
  moreover have "kfree mem h' m' = Some (h', m')"
    using assms(2) s'(2) by (simp add: kfree_def free_def current_ops_def lift_ops_def early_alloc_ops_def)
  ultimately show ?thesis by blast
qed


text \<open>Concrete blocks for the witnesses.\<close>

lemma early_boot_fits: "heap_fits 4 56 (pa_align_min early_boot)"
  by (simp add: heap_fits_def max_word_unat early_boot_def phys_state0_def DEFAULT_MINIMUM_ALIGNMENT_def)

lemma early_boot_request: "request_size 4 56 (pa_align_min early_boot) = 64"
  by (simp add: request_size_def METADATA_EXTRA_def ALIGN_def align_mask_def early_boot_def
      phys_state0_def DEFAULT_MINIMUM_ALIGNMENT_def)

theorem early_block_free_hangs_witness:
  "\<exists>h' m'. kmalloc 56 (heap_state0\<lparr>h_phys := early_boot\<rparr>) zero_mem = Some (Inr (0x300008, h', m')) \<and>
     kfree 0x300008 (page_alloc_ops_enable h') m' = None"
proof -
  let ?h = "heap_state0\<lparr>h_phys := early_boot\<rparr>"
  have e: "h_ops ?h = Early_ops" by (simp add: heap_state0_def)
  obtain h' m' where k: "kmalloc 56 ?h zero_mem = Some (Inr (0x300008, h', m'))"
    by (simp add: kmalloc_def malloc_def current_ops_def e memalign_lift early_boot_malloc)
  have "kfree 0x300008 (page_alloc_ops_enable h') m' = None \<and> kfree 0x300008 h' m' = Some (h', m')"
    by (rule early_block_free_hangs [OF k e])
      (simp_all add: early_boot_inv early_boot_fits early_boot_request aligned_def)
  with k show ?thesis by blast
qed

lemma early_boot_malloc2:
  "\<exists>s2 m2. memalign early_alloc_ops 4 56 (early_boot\<lparr>pa_base := 0x300040,
       pa_regions := (pa_regions early_boot)[0 := \<lparr>r_base = 0x300000, r_size = 64\<rparr>],
       pa_nr_regions := 1\<rparr>) m = Some (Inr (0x300048, s2, m2))"
  by (simp add: memalign_def early_alloc_ops_def request_size_def Let_def METADATA_EXTRA_def ALIGN_def
      align_mask_def early_memalign_def phys_alloc_aligned_safe_def spin_lock_def top_safe_eq
      early_boot_def phys_state0_def DEFAULT_MINIMUM_ALIGNMENT_def INVALID_PHYS_ADDR_def c_assert_def max_def)

theorem early_heap_disjoint_witness:
  "\<exists>s2 m2. memalign early_alloc_ops 4 56 (early_boot\<lparr>pa_base := 0x300040,
       pa_regions := (pa_regions early_boot)[0 := \<lparr>r_base = 0x300000, r_size = 64\<rparr>],
       pa_nr_regions := 1\<rparr>) (with_metadata zero_mem 0x300008 8 64) = Some (Inr (0x300048, s2, m2)) \<and>
     span 0x300000 64 \<inter> span (block_begin m2 0x300048) (unat (block_size m2 0x300048)) = {} \<and>
     load32 m2 0x300004 = 64"
proof -
  let ?s1 = "pa_log_region 0x300000 64 (early_boot\<lparr>pa_base := 0x300040\<rparr>)"
  let ?m1 = "with_metadata zero_mem 0x300008 8 64"
  have s1: "?s1 = early_boot\<lparr>pa_base := 0x300040,
       pa_regions := (pa_regions early_boot)[0 := \<lparr>r_base = 0x300000, r_size = 64\<rparr>],
       pa_nr_regions := 1\<rparr>"
    by (simp add: pa_log_region_def early_boot_def phys_state0_def PHYS_ALLOC_NR_REGIONS_def)
  have ne: "(0x300008 :: u32) \<noteq> ALIGN METADATA_EXTRA (max 4 4)"
    "(0x300048 :: u32) \<noteq> ALIGN METADATA_EXTRA (max 4 4)" using max_4_4 by simp_all
  have f1: "heap_fits 4 56 (pa_align_min ?s1)" using early_boot_fits by (simp add: early_boot_def)
  obtain s2 m2 where q: "memalign early_alloc_ops 4 56 ?s1 ?m1 = Some (Inr (0x300048, s2, m2))"
    using early_boot_malloc2 unfolding s1 by blast
  have meta: "block_begin ?m1 0x300008 = 0x300000" "block_size ?m1 0x300008 = 64"
    using metadata_read [of "0x300008" zero_mem 8 64] by simp_all
  note d = early_heap_disjoint [OF early_boot_inv is_power_of_2_4 early_boot_fits early_boot_malloc
      ne(1) is_power_of_2_4 f1 q ne(2), unfolded meta]
  have "span 0x300004 4 \<subseteq> span 0x300000 64" by (auto simp: span_nowrap)
  then have "load32 m2 0x300004 = load32 ?m1 0x300004"
    using d by (intro load32_cong) auto
  also have "\<dots> = 64" using meta(2) by (simp add: block_size_def OFS_SIZE_def)
  finally show ?thesis using d q unfolding s1 by auto
qed

lemma page_boot_malloc:
  "memalign page_alloc_ops 4 100 page_state0 zero_mem =
     Some (Inr (0x200008, page_state0\<lparr>pg_freelist := 0\<rparr>, with_metadata zero_mem 0x200008 8 0x1000))"
proof -
  have "page_memalign 4096 0x1000 page_state0 zero_mem =
      Some (Inr (0x200000, page_state0\<lparr>pg_freelist := 0\<rparr>, zero_mem))"
    using alloc_pages_state0
    by (simp add: page_memalign_def PAGE_SHIFT_def PAGE_SIZE_def ALIGN_def align_mask_def Let_def
        is_power_of_2_def fls_def clz_def upt_rec)
  then show ?thesis
    by (simp add: memalign_def page_alloc_ops_def request_size_def Let_def METADATA_EXTRA_def
        ALIGN_def align_mask_def PAGE_SIZE_def with_metadata_def max_def)
qed

theorem page_heap_free_witness:
  "\<exists>s3 m3. free page_alloc_ops 0x200008 (page_state0\<lparr>pg_freelist := 0\<rparr>)
      (with_metadata zero_mem 0x200008 8 0x1000) = Some (s3, m3) \<and> page_inv s3 m3"
proof -
  have f: "heap_fits 4 100 PAGE_SIZE" by (simp add: heap_fits_def PAGE_SIZE_def max_word_unat)
  have ne: "(0x200008 :: u32) \<noteq> ALIGN METADATA_EXTRA (max 4 4)" using max_4_4 by simp
  show ?thesis
    using page_heap_free [OF page_state0_inv is_power_of_2_4 f page_boot_malloc ne refl] by blast
qed

text \<open>\<open>calloc\<close> over the page allocator zeroes the whole block that it returns. The product of its
  arguments is taken modulo 2^32 and not checked: the block has only that many bytes.\<close>

theorem page_calloc_zeroed:
  assumes "page_inv s m" "heap_fits 4 (nmemb * sz) PAGE_SIZE"
    "calloc page_alloc_ops nmemb sz s m = Some (Inr (mem, s', m'))" "mem \<noteq> 8" "mem \<noteq> 0"
  shows "page_inv s' m' \<and> span mem (unat (nmemb * sz)) \<subseteq> page_own s m - page_own s' m' \<and>
    (\<forall>b\<in>span mem (unat (nmemb * sz)). m' b = 0) \<and> (\<forall>b. b \<notin> page_own s m \<longrightarrow> m' b = m b) \<and>
    block_size m' mem = request_size 4 (nmemb * sz) PAGE_SIZE"
proof -
  have am: "ops_align_min page_alloc_ops s = PAGE_SIZE" by (simp add: page_alloc_ops_def)
  show ?thesis
    using page.calloc_granted [OF assms(1) _ assms(3,4,5)] assms(2) unfolding am by blast
qed

theorem page_calloc_zeroed_witness:
  "\<exists>s' m'. calloc page_alloc_ops 0x40000019 4 page_state0 zero_mem = Some (Inr (0x200008, s', m')) \<and>
     block_size m' 0x200008 = 0x1000"
proof -
  have wrap: "0x40000019 * 4 = (100 :: u32)" by simp
  have f: "heap_fits 4 (0x40000019 * 4) PAGE_SIZE"
    unfolding wrap by (simp add: heap_fits_def PAGE_SIZE_def max_word_unat)
  have c: "calloc page_alloc_ops 0x40000019 4 page_state0 zero_mem =
      Some (Inr (0x200008, page_state0\<lparr>pg_freelist := 0\<rparr>,
        memset (with_metadata zero_mem 0x200008 8 0x1000) 0x200008 0 (0x40000019 * 4)))"
    using page_boot_malloc unfolding calloc_def malloc_def wrap by simp
  show ?thesis
    using page_calloc_zeroed [OF page_state0_inv f c] c unfolding wrap
    by (simp add: request_size_def METADATA_EXTRA_def ALIGN_def align_mask_def PAGE_SIZE_def)
qed

end
