(* ===== verification/Printf.thy ===== *)
theory Printf
  imports Cstring "HOL-Library.Signed_Division"
begin

text \<open>
  Formatted output (\<open>src/kernel/printf.c\<close>). A stream is a buffer in memory with the room that is left
  and the count of all characters; a format string and the \<open>%s\<close> arguments are read as byte lists
  before the output is written (C forbids that they overlap the buffer). The variable arguments are
  the 32-bit slots of the stack; a \<open>long long\<close> takes two of them.
\<close>

unbundle bit_operations_syntax

abbreviation ch :: "char \<Rightarrow> u8" where
  "ch \<equiv> of_char"

section \<open>Streams\<close>

record pstream =
  ps_mem :: memory
  ps_buffer :: u32
  ps_remain :: u32
  ps_added :: u32

record strprops =
  sp_pad :: u8
  sp_npad :: int
  sp_alternate :: bool

definition addchar :: "pstream \<Rightarrow> u8 \<Rightarrow> pstream" where
  "addchar p c =
     (let p1 = (if ps_remain p \<noteq> 0 then
                  p\<lparr>ps_mem := (ps_mem p)(ps_buffer p := c), ps_buffer := ps_buffer p + 1,
                    ps_remain := ps_remain p - 1\<rparr>
                else p)
      in p1\<lparr>ps_added := ps_added p1 + 1\<rparr>)"

definition addchars :: "u8 list \<Rightarrow> pstream \<Rightarrow> pstream" where
  "addchars s p = foldl addchar p s"

text \<open>\<open>int\<close> arithmetic of the code that mixes in a \<open>uint32_t\<close> is done modulo 2^32.\<close>

definition wrap32 :: "int \<Rightarrow> int" where
  "wrap32 k = sint (of_int k :: u32)"

definition print_str :: "pstream \<Rightarrow> u8 list \<Rightarrow> strprops \<Rightarrow> pstream" where
  "print_str p s props =
     (let npad = sp_npad props;
          npad1 = (if npad > 0 then wrap32 (npad - int (length s)) else npad);
          p1 = (if npad > 0 then (\<lambda>q. addchar q (sp_pad props)) ^^ nat npad1 else id) p;
          npad2 = (if npad > 0 \<and> npad1 > 0 then 0 else npad1);
          p2 = addchars s p1
      in if npad2 < 0 then
           ((\<lambda>q. addchar q (ch CHR '' '')) ^^ nat (- wrap32 (npad2 + int (length s)))) p2
         else p2)"

section \<open>Numbers\<close>

definition digits :: "u8 list" where
  "digits = map ch ''0123456789abcdef''"

text \<open>The digits in the order in which they are stored in the local buffer, lowest first. For a
  negative number the remainder is negative, and the read of \<open>digits\<close> leaves the array. (A base
  below 2 does not occur; it would divide by 0 or overrun the buffer.)\<close>

function int_digits :: "int \<Rightarrow> int \<Rightarrow> fault + u8 list" where
  "int_digits base n =
     (if n = 0 then Inr []
      else if base < 2 then Inl (Undefined ''base'')
      else if n smod base < 0 \<or> 16 \<le> n smod base then Inl (OutOfBounds ''digits'' (n smod base))
      else map_sum id (Cons (digits ! nat (n smod base))) (int_digits base (n sdiv base)))"
  by pat_completeness auto
termination
proof (relation "measure (\<lambda>(base, n). nat \<bar>n\<bar>)")
  fix base n :: int
  assume n: "n \<noteq> 0" and b: "\<not> base < 2"
  have "\<bar>n sdiv base\<bar> = \<bar>n\<bar> div base"
    using b n pos_imp_zdiv_nonneg_iff [of base "\<bar>n\<bar>"] by (simp add: signed_divide_int_def abs_mult)
  also have "\<dots> < \<bar>n\<bar>" using n b by (intro int_div_less_self) auto
  finally show "((base, n sdiv base), base, n) \<in> measure (\<lambda>(base, n). nat \<bar>n\<bar>)" by simp
qed simp

function unsigned_digits :: "u32 \<Rightarrow> u32 \<Rightarrow> fault + u8 list" where
  "unsigned_digits base n =
     (if n = 0 then Inr []
      else if base < 2 then Inl (Undefined ''base'')
      else if 16 \<le> n mod base then Inl (OutOfBounds ''digits'' (uint (n mod base)))
      else map_sum id (Cons (digits ! unat (n mod base))) (unsigned_digits base (n div base)))"
  by pat_completeness auto
termination
proof (relation "measure (\<lambda>(base, n). unat n)")
  fix base n :: u32
  assume "n \<noteq> 0" "\<not> base < 2"
  then have "unat n div unat base < unat n"
    by (intro div_less_dividend) (simp_all add: word_less_nat_alt unat_gt_0)
  then show "((base, n div base), base, n) \<in> measure (\<lambda>(base, n). unat n)" by (simp add: unat_div)
qed simp

text \<open>The in-place reversal of the buffer, by swapping \<open>buf[i]\<close> with \<open>p[-1-i]\<close>.\<close>

definition reverse_buf :: "u8 list \<Rightarrow> u8 list" where
  "reverse_buf buf =
     (let n = length buf
      in fold (\<lambda>i b. b[i := b ! (n - 1 - i), n - 1 - i := b ! i]) [0..<n div 2] buf)"

text \<open>The text that \<open>print_int\<close> builds in its buffer before it is reversed: digits, sign, or \<open>0\<close>.
  \<open>n = -n\<close> wraps.\<close>

definition int_buf :: "int \<Rightarrow> int \<Rightarrow> fault + u8 list" where
  "int_buf n base =
     map_sum id (\<lambda>ds. let b = ds @ (if n < 0 then [ch CHR ''-''] else [])
                      in if b = [] then [ch CHR ''0''] else b)
       (int_digits base (if n < 0 then wrap32 (- n) else n))"

definition print_int :: "pstream \<Rightarrow> int \<Rightarrow> int \<Rightarrow> strprops \<Rightarrow> fault + pstream" where
  "print_int ps n base props =
     map_sum id (\<lambda>b. print_str ps (reverse_buf b) props) (int_buf n base)"

definition print_unsigned :: "pstream \<Rightarrow> u32 \<Rightarrow> u32 \<Rightarrow> strprops \<Rightarrow> fault + pstream" where
  "print_unsigned ps n base props =
     (case unsigned_digits base n of
        Inl f \<Rightarrow> Inl f
      | Inr ds \<Rightarrow>
         if ds = [] then Inr (print_str ps (reverse_buf [ch CHR ''0'']) props)
         else if sp_alternate props \<and> base = 16 then
           (if sp_pad props = ch CHR ''0'' then
              Inr (print_str (addchar (addchar ps (ch CHR ''0'')) (ch CHR ''x'')) (reverse_buf ds)
                (if sp_npad props > 0 then props\<lparr>sp_npad := max (sp_npad props - 2) 0\<rparr> else props))
            else Inr (print_str ps (reverse_buf (ds @ [ch CHR ''x'', ch CHR ''0''])) props))
         else Inr (print_str ps (reverse_buf ds) props))"

section \<open>Format strings\<close>

text \<open>\<open>atol\<close> on the bytes of a string (it is \<open>Cstring.atol\<close>, see \<open>atol_string\<close> below).\<close>

definition atol_bytes :: "u8 list \<Rightarrow> u32" where
  "atol_bytes s =
     (let s1 = dropWhile (\<lambda>c. c = ch CHR '' '' \<or> c = 0x09) s;
          neg = (s1 \<noteq> [] \<and> hd s1 = ch CHR ''-'');
          s2 = (if s1 \<noteq> [] \<and> (hd s1 = ch CHR ''-'' \<or> hd s1 = ch CHR ''+'') then tl s1 else s1);
          acc = of_int (digits_value (takeWhile is_digit s2))
      in if neg then - acc else acc)"

text \<open>\<open>fmtnum\<close>: the number and what is left of the format. The length skipped does not count the blanks
  and the plus sign that \<open>atol\<close> accepts.\<close>

definition fmtnum :: "u8 list \<Rightarrow> int \<times> u8 list" where
  "fmtnum fmt =
     (let sgn = (if fmt \<noteq> [] \<and> hd fmt = ch CHR ''-'' then 1 else 0);
          len = sgn + length (takeWhile is_digit (drop sgn fmt))
      in (sint (atol_bytes fmt), drop len fmt))"

text \<open>A variable argument: one stack slot, with the string behind it when the slot is a pointer to
  one.\<close>

datatype vslot = Slot u32 | Str "u8 list"

definition va_word :: "vslot list \<Rightarrow> fault + u32 \<times> vslot list" where
  "va_word va =
     (case va of Slot w # va' \<Rightarrow> Inr (w, va') | _ \<Rightarrow> Inl (Undefined ''va_arg''))"

definition va_llong :: "vslot list \<Rightarrow> fault + u32 \<times> vslot list" where
  "va_llong va =
     (case va of Slot w # Slot h # va' \<Rightarrow> Inr (w, va') | _ \<Rightarrow> Inl (Undefined ''va_arg''))"

definition va_str :: "vslot list \<Rightarrow> fault + u8 list \<times> vslot list" where
  "va_str va =
     (case va of Str s # va' \<Rightarrow> Inr (s, va') | _ \<Rightarrow> Inl (Undefined ''va_arg''))"

definition props0 :: strprops where
  "props0 = \<lparr>sp_pad = ch CHR '' '', sp_npad = 0, sp_alternate = False\<rparr>"


section \<open>The interpreter of formats\<close>

text \<open>\<open>vs_loop fmt va st s\<close> is the loop of \<open>vsnprintf\<close>: \<open>st\<close> is \<open>None\<close> at the head of the loop and
  \<open>Some (nlong, props)\<close> at the label \<open>morefmt\<close>. An exhausted format reads as the terminator.\<close>

function vs_loop :: "u8 list \<Rightarrow> vslot list \<Rightarrow> (nat \<times> strprops) option \<Rightarrow> pstream \<Rightarrow> fault + pstream" where
  "vs_loop [] va st s = Inr s"
| "vs_loop (f # fmt) va None s =
     (if f \<noteq> ch CHR ''%'' then vs_loop fmt va None (addchar s f)
      else vs_loop fmt va (Some (0, props0)) s)"
| "vs_loop (f # fmt) va (Some (nlong, props)) s =
     (if f = ch CHR ''%'' then vs_loop fmt va None (addchar s (ch CHR ''%''))
      else if f = ch CHR ''c'' then
        (case va_word va of Inl e \<Rightarrow> Inl e | Inr (w, va') \<Rightarrow> vs_loop fmt va' None (addchar s (ucast w)))
      else if f = ch CHR ''#'' then vs_loop fmt va (Some (nlong, props\<lparr>sp_alternate := True\<rparr>)) s
      else if f = ch CHR ''0'' then
        (let (num, fmt') = fmtnum fmt
         in vs_loop fmt' va (Some (nlong, props\<lparr>sp_pad := ch CHR ''0'', sp_npad := num\<rparr>)) s)
      else if is_digit f \<or> f = ch CHR ''-'' then
        (let (num, fmt') = fmtnum (f # fmt)
         in vs_loop fmt' va (Some (nlong, props\<lparr>sp_npad := num\<rparr>)) s)
      else if f = ch CHR ''l'' then vs_loop fmt va (Some (Suc nlong, props)) s
      else if f = ch CHR ''t'' \<or> f = ch CHR ''z'' then vs_loop fmt va (Some (1, props)) s
      else if f = ch CHR ''d'' then
        (case (if nlong \<le> 1 then va_word va else va_llong va) of
           Inl e \<Rightarrow> Inl e
         | Inr (w, va') \<Rightarrow>
            (case print_int s (sint w) 10 props of
               Inl e \<Rightarrow> Inl e | Inr s' \<Rightarrow> vs_loop fmt va' None s'))
      else if f = ch CHR ''u'' \<or> f = ch CHR ''x'' \<or> f = ch CHR ''p'' then
        (case va_word va of
           Inl e \<Rightarrow> Inl e
         | Inr (w, va') \<Rightarrow>
            (case print_unsigned s w (if f = ch CHR ''u'' then 10 else 16)
                    (if f = ch CHR ''p'' then props\<lparr>sp_alternate := True\<rparr> else props) of
               Inl e \<Rightarrow> Inl e | Inr s' \<Rightarrow> vs_loop fmt va' None s'))
      else if f = ch CHR ''s'' then
        (case va_str va of
           Inl e \<Rightarrow> Inl e | Inr (t, va') \<Rightarrow> vs_loop fmt va' None (print_str s t props))
      else vs_loop fmt va None (addchar s f))"
  by pat_completeness auto
termination
proof (relation "measure (\<lambda>(fmt, va, st, s). length fmt)", goal_cases)
  case 1
  show ?case by simp
qed (auto simp: fmtnum_def Let_def is_digit_def)

definition vsnprintf ::
    "memory \<Rightarrow> u32 \<Rightarrow> u32 \<Rightarrow> u8 list \<Rightarrow> vslot list \<Rightarrow> fault + memory \<times> u32" where
  "vsnprintf m buf sz fmt va =
     map_sum id (\<lambda>s. ((ps_mem s)(ps_buffer s := 0), ps_added s))
       (vs_loop fmt va None \<lparr>ps_mem = m, ps_buffer = buf, ps_remain = sz - 1, ps_added = 0\<rparr>)"

definition snprintf ::
    "memory \<Rightarrow> u32 \<Rightarrow> u32 \<Rightarrow> u8 list \<Rightarrow> vslot list \<Rightarrow> fault + memory \<times> u32" where
  "snprintf m buf sz fmt va = vsnprintf m buf sz fmt va"

text \<open>\<open>printf\<close> (and \<open>vprintf\<close>, \<open>warning\<close>, \<open>error\<close>, with the same body) formats into a buffer on the
  stack at \<open>sp\<close>; the result is the memory, the pointer passed to \<open>puts\<close> and the value returned.\<close>

definition BUFSZ :: u32 where
  "BUFSZ = 512"

definition printf :: "memory \<Rightarrow> u32 \<Rightarrow> u8 list \<Rightarrow> vslot list \<Rightarrow> fault + memory \<times> u32 \<times> u32" where
  "printf m sp fmt va = map_sum id (\<lambda>(m', r). (m', sp, r)) (vsnprintf m sp BUFSZ fmt va)"

text \<open>\<open>binstr\<close>: the bytes written to \<open>out\<close>; \<open>i\<close> counts from 0 to \<open>n\<close>.\<close>

definition BINSTR_SZ :: nat where
  "BINSTR_SZ = 4 * 8 + 4 * 2"

function binstr_loop :: "u32 \<Rightarrow> nat \<Rightarrow> u8 list" where
  "binstr_loop x i =
     (let c = (if x AND push_bit (32 - i - 1) 1 \<noteq> 0 then ch CHR ''1'' else ch CHR ''0'')
      in if 32 \<le> i + 1 then [c, 0]
         else if (i + 1) mod 4 = 0 then c # 0x27 # binstr_loop x (i + 1)
         else c # binstr_loop x (i + 1))"
  by pat_completeness auto
termination
  by (relation "measure (\<lambda>(x, i). 32 - i)") auto

definition binstr :: "u32 \<Rightarrow> u8 list" where
  "binstr x = binstr_loop x 0"


section \<open>What a stream holds\<close>

lemma addchars_simps [simp]: "addchars [] p = p" "addchars (c # s) p = addchars s (addchar p c)"
  by (simp_all add: addchars_def)

lemma addchars_append [simp]: "addchars (s @ t) p = addchars t (addchars s p)"
  by (simp add: addchars_def)

lemma addchar_funpow: "((\<lambda>q. addchar q c) ^^ n) p = addchars (replicate n c) p"
  by (induction n arbitrary: p) (simp_all add: funpow_Suc_right del: funpow.simps(2))

text \<open>\<open>stream_of m buf cap out\<close>: the stream over a buffer with room for \<open>cap\<close> characters after the
  characters \<open>out\<close>: the first \<open>cap\<close> of them are in the buffer, all of them are counted.\<close>

definition stream_of :: "memory \<Rightarrow> u32 \<Rightarrow> nat \<Rightarrow> u8 list \<Rightarrow> pstream" where
  "stream_of m buf cap out =
     \<lparr>ps_mem = write_bytes m buf (take cap out), ps_buffer = buf + of_nat (min cap (length out)),
      ps_remain = of_nat (cap - length out), ps_added = of_nat (length out)\<rparr>"

lemma addchar_stream:
  assumes "cap < 2 ^ 32"
  shows "addchar (stream_of m buf cap out) c = stream_of m buf cap (out @ [c])"
proof (cases "length out < cap")
  case True
  then have "of_nat (cap - length out) \<noteq> (0 :: u32)"
    using assms of_nat_32_0 [of "cap - length out"] by simp
  moreover have "(of_nat (cap - length out) :: u32) - 1 = of_nat (cap - Suc (length out))"
    using True by (simp add: of_nat_diff algebra_simps)
  ultimately show ?thesis
    using True by (simp add: addchar_def stream_of_def write_bytes_append Suc_diff_Suc min_absorb2
        algebra_simps)
qed (simp add: addchar_def stream_of_def)

lemma addchars_stream:
  "cap < 2 ^ 32 \<Longrightarrow> addchars s (stream_of m buf cap out) = stream_of m buf cap (out @ s)"
  by (induction s arbitrary: out) (simp_all add: addchar_stream)

section \<open>Padding\<close>

text \<open>The characters of \<open>print_str\<close>.\<close>

definition pad_text :: "u8 list \<Rightarrow> strprops \<Rightarrow> u8 list" where
  "pad_text s props =
     (let npad = sp_npad props;
          npad1 = (if npad > 0 then wrap32 (npad - int (length s)) else npad);
          npad2 = (if npad > 0 \<and> npad1 > 0 then 0 else npad1)
      in (if npad > 0 then replicate (nat npad1) (sp_pad props) else []) @ s @
         (if npad2 < 0 then replicate (nat (- wrap32 (npad2 + int (length s)))) (ch CHR '' '') else []))"

lemma print_str_addchars: "print_str p s props = addchars (pad_text s props) p"
  by (simp add: print_str_def pad_text_def Let_def addchar_funpow)

lemma wrap32_id: "- (2 ^ 31) \<le> k \<Longrightarrow> k < 2 ^ 31 \<Longrightarrow> wrap32 k = k"
proof -
  assume "- (2 ^ 31) \<le> k" "k < 2 ^ 31"
  then have "signed_take_bit 31 k = k" by (intro signed_take_bit_int_eq_self) simp_all
  then show ?thesis by (simp add: wrap32_def sint_sbintrunc')
qed

lemma pad_text_eq:
  assumes "length s < 2 ^ 31" "- (2 ^ 31) \<le> sp_npad props" "sp_npad props < 2 ^ 31"
  shows "pad_text s props =
    (if sp_npad props > 0 then replicate (nat (sp_npad props) - length s) (sp_pad props) @ s
     else s @ replicate (nat (- sp_npad props) - length s) (ch CHR '' ''))"
proof (cases "sp_npad props > 0")
  case True
  have "int (length s) < 2 ^ 31" using assms(1) by simp
  with True assms(3) have "wrap32 (sp_npad props - int (length s)) = sp_npad props - int (length s)"
    by (intro wrap32_id) linarith+
  moreover have "wrap32 (sp_npad props) = sp_npad props"
    using assms by (intro wrap32_id) simp_all
  ultimately show ?thesis using True by (simp add: pad_text_def Let_def nat_diff_distrib')
next
  case False
  have "int (length s) < 2 ^ 31" using assms(1) by simp
  with False assms(2) have "wrap32 (sp_npad props + int (length s)) = sp_npad props + int (length s)"
    by (intro wrap32_id) linarith+
  with False show ?thesis by (simp add: pad_text_def Let_def nat_diff_distrib' algebra_simps)
qed

section \<open>One format, any buffer\<close>

text \<open>A computation that only appends characters to the stream, the same for every stream.\<close>

definition appends :: "(pstream \<Rightarrow> fault + pstream) \<Rightarrow> bool" where
  "appends F \<longleftrightarrow> (\<exists>r. \<forall>s. F s = map_sum id (\<lambda>t. addchars t s) r)"

named_theorems appends_intros \<open>computations that only append\<close>

lemma appends_Inl [appends_intros]: "appends (\<lambda>s. Inl e)"
  unfolding appends_def by (rule exI [of _ "Inl e"]) simp

lemma appends_Inr [appends_intros]: "appends Inr"
  unfolding appends_def by (rule exI [of _ "Inr []"]) simp

lemma appends_addchars: "appends F \<Longrightarrow> appends (\<lambda>s. F (addchars t s))"
proof -
  assume "appends F"
  then obtain r where r: "\<And>s. F s = map_sum id (\<lambda>t. addchars t s) r" by (auto simp: appends_def)
  show ?thesis
    unfolding appends_def
    by (rule exI [of _ "map_sum id ((@) t) r"]) (cases r; simp add: r)
qed

lemma appends_addchar [appends_intros]: "appends F \<Longrightarrow> appends (\<lambda>s. F (addchar s c))"
  using appends_addchars [of F "[c]"] by simp

lemma appends_print_str [appends_intros]: "appends F \<Longrightarrow> appends (\<lambda>s. F (print_str s t props))"
  unfolding print_str_addchars by (rule appends_addchars)

lemma appends_bind:
  assumes "appends G" "appends F"
  shows "appends (\<lambda>s. case G s of Inl e \<Rightarrow> Inl e | Inr s' \<Rightarrow> F s')"
proof -
  obtain r where r: "\<And>s. G s = map_sum id (\<lambda>t. addchars t s) r" using assms(1) by (auto simp: appends_def)
  show ?thesis
  proof (cases r)
    case (Inr t)
    then show ?thesis using appends_addchars [OF assms(2), of t] by (simp add: r)
  qed (simp add: r appends_Inl)
qed

lemma appends_If [appends_intros]:
  "appends F \<Longrightarrow> appends G \<Longrightarrow> appends (\<lambda>s. if b then F s else G s)"
  by (cases b) simp_all

lemma appends_arg [appends_intros]:
  "(\<And>w va'. x = Inr (w, va') \<Longrightarrow> appends (F w va')) \<Longrightarrow>
   appends (\<lambda>s. case x of Inl e \<Rightarrow> Inl e | Inr (w, va') \<Rightarrow> F w va' s)"
  by (cases x) (auto intro: appends_Inl)

lemma appends_print_int: "appends (\<lambda>s. print_int s n base props)"
proof (cases "int_buf n base")
  case (Inr b)
  then show ?thesis
    using appends_print_str [OF appends_Inr] by (simp add: print_int_def)
qed (simp add: print_int_def appends_Inl)

lemma appends_print_unsigned: "appends (\<lambda>s. print_unsigned s n base props)"
proof (cases "unsigned_digits base n")
  case (Inr ds)
  have two: "appends (\<lambda>s. Inr (print_str (addchar (addchar s a) b) t p))" for a b t p
    by (rule appends_addchar [OF appends_addchar [OF appends_print_str [OF appends_Inr]]])
  show ?thesis
    unfolding print_unsigned_def Inr sum.case
    by (intro appends_If two appends_print_str [OF appends_Inr])
qed (simp add: print_unsigned_def appends_Inl)

lemma appends_bind_int [appends_intros]:
  "appends F \<Longrightarrow>
   appends (\<lambda>s. case print_int s n base props of Inl e \<Rightarrow> Inl e | Inr s' \<Rightarrow> F s')"
  using appends_bind [OF appends_print_int] .

lemma appends_bind_unsigned [appends_intros]:
  "appends F \<Longrightarrow>
   appends (\<lambda>s. case print_unsigned s n base props of Inl e \<Rightarrow> Inl e | Inr s' \<Rightarrow> F s')"
  using appends_bind [OF appends_print_unsigned] .

lemma fmtnum_length: "length (snd (fmtnum fmt)) \<le> length fmt"
  by (simp add: fmtnum_def Let_def)

lemma fmtnum_shorter:
  "is_digit f \<or> f = ch CHR ''-'' \<Longrightarrow> length (snd (fmtnum (f # fmt))) < Suc (length fmt)"
  by (auto simp: fmtnum_def Let_def is_digit_def)

lemma appends_vs_loop: "appends (vs_loop fmt va st)"
proof (induction "length fmt" arbitrary: fmt va st rule: less_induct)
  case less
  show ?case
  proof (cases fmt)
    case Nil
    have "vs_loop [] va st = Inr" by (rule ext) simp
    then show ?thesis using appends_Inr Nil by simp
  next
    case (Cons f fs)
    then have IH: "appends (vs_loop fs va' st')" for va' st' using less by simp
    have num: "appends (vs_loop (snd (fmtnum fs)) va' st')" for va' st'
      using fmtnum_length [of fs] Cons by (intro less) simp
    have num': "appends (vs_loop (snd (fmtnum (f # fs))) va' st')"
      if "is_digit f \<or> f = ch CHR ''-''" for va' st'
      using fmtnum_shorter [OF that] Cons by (intro less) simp
    show ?thesis
    proof (cases st)
      case None
      have "vs_loop fmt va st = (\<lambda>s. if f \<noteq> ch CHR ''%'' then vs_loop fs va None (addchar s f)
          else vs_loop fs va (Some (0, props0)) s)"
        by (rule ext) (simp add: Cons None)
      then show ?thesis by (simp only:) (intro appends_intros IH)
    next
      case (Some np)
      obtain nlong props where np: "np = (nlong, props)" by fastforce
      show ?thesis
        unfolding Cons Some np fun_eq_iff [THEN iffD2, OF allI, OF vs_loop.simps(3)]
          case_prod_beta [of _ "fmtnum _"] Let_def
        by (cases "is_digit f \<or> f = ch CHR ''-''")
          (simp_all only: if_True if_False, (intro appends_intros IH num num'; assumption?)+)
    qed
  qed
qed

section \<open>The buffer of vsnprintf\<close>

lemma stream_of_start:
  "\<lparr>ps_mem = m, ps_buffer = buf, ps_remain = r, ps_added = 0\<rparr> = stream_of m buf (unat r) []"
  by (simp add: stream_of_def)

lemma stream_of_finish:
  assumes "cap < 2 ^ 32"
  shows "(ps_mem (stream_of m buf cap out))(ps_buffer (stream_of m buf cap out) := 0) =
    write_bytes m buf (take cap out @ [0])"
  by (simp add: stream_of_def write_bytes_append min.commute)

lemma vsnprintf_text:
  "\<exists>r. \<forall>m buf sz. vsnprintf m buf sz fmt va =
     map_sum id (\<lambda>t. (write_bytes m buf (take (unat (sz - 1)) t @ [0]), of_nat (length t))) r"
proof -
  obtain r where r: "\<And>s. vs_loop fmt va None s = map_sum id (\<lambda>t. addchars t s) r"
    using appends_vs_loop [of fmt va None] by (auto simp: appends_def)
  have "vsnprintf m buf sz fmt va =
     map_sum id (\<lambda>t. (write_bytes m buf (take (unat (sz - 1)) t @ [0]), of_nat (length t))) r" for m buf sz
  proof -
    have cap: "unat (sz - 1) < 2 ^ 32" using unat_less_32 [of "sz - 1"] by simp
    have "addchars t (stream_of m buf (unat (sz - 1)) []) = stream_of m buf (unat (sz - 1)) t" for t
      using addchars_stream [OF cap, of t m buf "[]"] by simp
    then show ?thesis
      by (cases r) (simp_all add: vsnprintf_def r stream_of_start stream_of_finish [OF cap],
        simp add: stream_of_def)
  qed
  then show ?thesis by blast
qed

text \<open>C21. Formatting does not depend on the buffer: a format and its arguments determine one text (or
  one fault); \<open>vsnprintf\<close> stores as much of the text as fits in front of a terminator, within the
  \<open>size\<close> bytes of the buffer, and returns the length of the whole text. For size 0 the count of free
  characters wraps and the whole text is written.\<close>

theorem vsnprintf_correct:
  "\<exists>r. \<forall>m buf sz. vsnprintf m buf sz fmt va =
     map_sum id (\<lambda>t. (write_bytes m buf (take (unat (sz - 1)) t @ [0]), of_nat (length t))) r"
  by (rule vsnprintf_text)

lemma printf_in_buffer:
  assumes "printf m sp fmt va = Inr (m', s, n)"
  shows "s = sp \<and> (\<forall>a. a \<notin> span sp 512 \<longrightarrow> m' a = m a) \<and> (\<exists>k<512. m' (sp + of_nat k) = 0)"
proof -
  obtain r where "\<forall>m buf sz. vsnprintf m buf sz fmt va =
     map_sum id (\<lambda>t. (write_bytes m buf (take (unat (sz - 1)) t @ [0]), of_nat (length t))) r"
    using vsnprintf_text by blast
  then obtain t where s: "s = sp" and m': "m' = write_bytes m sp (take 511 t @ [0])"
    using assms by (cases r) (auto simp: printf_def BUFSZ_def)
  let ?b = "take 511 t @ [0 :: u8]"
  have len: "length ?b \<le> 2 ^ 32" "length ?b \<le> 512" by simp_all
  have "m' a = m a" if "a \<notin> span sp 512" for a
    unfolding m' using that span_mono [OF len(2), of sp] by (intro write_bytes_outside [OF len(1)]) blast
  moreover have "m' (sp + of_nat (length (take 511 t))) = 0"
  proof -
    have "unat (of_nat (length (take 511 t)) :: u32) = length (take 511 t)"
      by (intro unat_of_nat32) (rule le_less_trans [of _ 511], simp_all)
    then show ?thesis
      unfolding m' write_bytes_apply [OF len(1)] add_diff_cancel_left' by (simp only: nth_append_length) simp
  qed
  moreover have "length (take 511 t) < 512" by (rule le_less_trans [of _ 511]) simp_all
  ultimately show ?thesis using s by blast
qed

lemma printf_42:
  "\<exists>m'. printf (\<lambda>_. 7) 0x8000 [ch CHR ''%'', ch CHR ''u''] [Slot 42] = Inr (m', 0x8000, 2)"
  by (simp add: printf_def vsnprintf_def va_word_def print_unsigned_def digits_def print_str_def
      props0_def reverse_buf_def addchar_def BUFSZ_def is_digit_def)

section \<open>Padding and numbers\<close>

text \<open>\<open>print_str\<close> pads to the field width: on the left with the padding character for a positive
  width, on the right with blanks for a negative one, and not at all when the string is wider.\<close>

theorem print_str_pads:
  assumes "length s < 2 ^ 31" "- (2 ^ 31) \<le> sp_npad props" "sp_npad props < 2 ^ 31"
  shows "print_str p s props = addchars
    (if sp_npad props > 0 then replicate (nat (sp_npad props) - length s) (sp_pad props) @ s
     else s @ replicate (nat (- sp_npad props) - length s) (ch CHR '' '')) p"
  using pad_text_eq [OF assms] by (simp add: print_str_addchars)

theorem print_str_pads_witness:
  "\<forall>p. print_str p [1, 2] \<lparr>sp_pad = 9, sp_npad = 4, sp_alternate = False\<rparr> = addchars [9, 9, 1, 2] p"
proof
  fix p
  have two: "replicate 2 (9 :: u8) = [9, 9]" by (simp add: numeral_2_eq_2)
  show "print_str p [1, 2] \<lparr>sp_pad = 9, sp_npad = 4, sp_alternate = False\<rparr> = addchars [9, 9, 1, 2] p"
    using print_str_pads [of "[1, 2]" "\<lparr>sp_pad = 9, sp_npad = 4, sp_alternate = False\<rparr>" p]
    by (simp add: two)
qed

text \<open>The swap loop reverses.\<close>

lemma swaps_reverse:
  fixes b :: "u8 list"
  defines "n \<equiv> length b"
  defines "sw \<equiv> (\<lambda>i b'. b'[i := b' ! (n - 1 - i), n - 1 - i := b' ! i])"
  assumes "k \<le> n div 2"
  shows "length (fold sw [0..<k] b) = n \<and> (\<forall>i<n. fold sw [0..<k] b ! i =
     (if i < k \<or> n - 1 - i < k then b ! (n - 1 - i) else b ! i))"
  using assms(3)
proof (induction k)
  case 0
  show ?case by (simp add: n_def)
next
  case (Suc k)
  let ?b = "fold sw [0..<k] b"
  have k: "2 * Suc k \<le> n" using Suc.prems by simp
  have IH: "length ?b = n" "\<And>i. i < n \<Longrightarrow> ?b ! i =
     (if i < k \<or> n - 1 - i < k then b ! (n - 1 - i) else b ! i)"
    using Suc by auto
  have ends: "?b ! k = b ! k" "?b ! (n - 1 - k) = b ! (n - 1 - k)"
    using IH(2) [of k] IH(2) [of "n - 1 - k"] k by auto
  have step: "fold sw [0..<Suc k] b = ?b[k := b ! (n - 1 - k), n - 1 - k := b ! k]"
    using ends by (simp add: sw_def)
  have "?b[k := b ! (n - 1 - k), n - 1 - k := b ! k] ! i =
     (if i < Suc k \<or> n - 1 - i < Suc k then b ! (n - 1 - i) else b ! i)" if i: "i < n" for i
  proof -
    consider "i = n - 1 - k" | "i = k" "i \<noteq> n - 1 - k" | "i \<noteq> k" "i \<noteq> n - 1 - k" by blast
    then show ?thesis
    proof cases
      case 1
      then have "n - 1 - i = k" using k by simp
      with 1 i k show ?thesis by (simp add: IH(1))
    next
      case 2
      with i k show ?thesis by (simp add: IH(1))
    next
      case 3
      then have "i < Suc k \<longleftrightarrow> i < k" "n - 1 - i < Suc k \<longleftrightarrow> n - 1 - i < k" using i by auto
      with 3 IH(2) [OF i] show ?thesis by simp
    qed
  qed
  then show ?case unfolding step using IH(1) by simp
qed

lemma reverse_buf_rev: "reverse_buf b = rev b"
proof (rule nth_equalityI)
  note sw = swaps_reverse [of "length b div 2" b, OF order_refl]
  show len: "length (reverse_buf b) = length (rev b)"
    using sw by (simp add: reverse_buf_def Let_def)
  fix i assume "i < length (reverse_buf b)"
  then have i: "i < length b" using len by simp
  have at: "reverse_buf b ! i = (if i < length b div 2 \<or> length b - 1 - i < length b div 2
      then b ! (length b - 1 - i) else b ! i)"
    using sw i by (simp add: reverse_buf_def Let_def)
  show "reverse_buf b ! i = rev b ! i"
  proof (cases "i < length b div 2 \<or> length b - 1 - i < length b div 2")
    case True
    with at i show ?thesis by (simp add: rev_nth)
  next
    case False
    with i have "length b - Suc i = i" by linarith
    with False at i show ?thesis by (simp only: rev_nth if_False)
  qed
qed

text \<open>The digits of a number that is not negative.\<close>

lemma digits_nth: "k < 10 \<Longrightarrow> is_digit (digits ! k) \<and> uint (digits ! k) - 48 = int k"
proof -
  assume "k < 10"
  then have "k \<in> set [0..<10]" by simp
  moreover have "\<forall>k\<in>set [0..<10]. is_digit (digits ! k) \<and> uint (digits ! k) - 48 = int k"
    by (simp add: digits_def is_digit_def upt_rec)
  ultimately show ?thesis by blast
qed

lemma int_digits_decimal:
  "0 \<le> n \<Longrightarrow> \<exists>ds. int_digits 10 n = Inr ds \<and> (\<forall>d\<in>set ds. is_digit d) \<and>
     digits_value (rev ds) = n \<and> (ds = [] \<longleftrightarrow> n = 0)"
proof (induction "nat n" arbitrary: n rule: less_induct)
  case less
  show ?case
  proof (cases "n = 0")
    case True
    then show ?thesis by (simp add: digits_value_def)
  next
    case False
    with less.prems have pos: "0 < n" by simp
    have m: "n smod 10 = n mod 10" "n sdiv 10 = n div 10"
      using pos by (simp_all add: signed_modulo_int_def signed_divide_int_def)
    have "nat (n div 10) < nat n" "0 \<le> n div 10" using pos by (simp_all add: nat_less_eq_zless)
    with less.hyps obtain ds where ds: "int_digits 10 (n div 10) = Inr ds" "\<forall>d\<in>set ds. is_digit d"
      "digits_value (rev ds) = n div 10" by blast
    have d: "is_digit (digits ! nat (n mod 10))" "uint (digits ! nat (n mod 10)) - 48 = n mod 10"
      using digits_nth [of "nat (n mod 10)"] by (simp_all add: nat_less_iff)
    have r: "\<not> (n smod 10 < 0 \<or> 16 \<le> n smod 10)"
      using pos_mod_bound [of 10 n] pos_mod_sign [of 10 n] unfolding m by linarith
    have "int_digits 10 n = Inr (digits ! nat (n mod 10) # ds)"
      using False r ds(1) m by (subst int_digits.simps) simp
    moreover have "digits_value (rev (digits ! nat (n mod 10) # ds)) = n"
      using ds(3) d(2) by (simp add: digits_value_snoc)
    ultimately show ?thesis using ds(2) d(1) False by simp
  qed
qed

lemma int_buf_decimal:
  assumes "- (2 ^ 31) < n" "n < 2 ^ 31"
  shows "\<exists>sg ds. int_buf n 10 = Inr (rev (sg @ ds)) \<and> ds \<noteq> [] \<and> (\<forall>d\<in>set ds. is_digit d) \<and>
    sg = (if n < 0 then [ch CHR ''-''] else []) \<and> digits_value ds = \<bar>n\<bar>"
proof -
  have abs: "(if n < 0 then wrap32 (- n) else n) = \<bar>n\<bar>"
    using wrap32_id [of "- n"] assms by simp
  obtain ds where ds: "int_digits 10 \<bar>n\<bar> = Inr ds" "\<forall>d\<in>set ds. is_digit d"
    "digits_value (rev ds) = \<bar>n\<bar>" "ds = [] \<longleftrightarrow> n = 0"
    using int_digits_decimal [OF abs_ge_zero] abs_eq_0 [of n] by metis
  show ?thesis
  proof (cases "n = 0")
    case True
    then have "int_buf n 10 = Inr (rev ([] @ [ch CHR ''0'']))"
      by (simp add: int_buf_def)
    moreover have "is_digit (ch CHR ''0'')" "digits_value [ch CHR ''0''] = 0"
      by (simp_all add: is_digit_def digits_value_def)
    ultimately show ?thesis using True by (intro exI [of _ "[]"] exI [of _ "[ch CHR ''0'']"]) simp
  next
    case False
    have "int_buf n 10 = Inr (rev ((if n < 0 then [ch CHR ''-''] else []) @ rev ds))"
      unfolding int_buf_def abs ds(1) using ds(4) False by simp
    with ds False show ?thesis by (intro exI conjI) (assumption, simp_all)
  qed
qed

text \<open>C37. \<open>print_int\<close> prints every \<open>int\<close> above the smallest as a decimal text that \<open>atol\<close> reads back as
  the same number.\<close>

theorem print_int_atol:
  assumes "- (2 ^ 31) < n" "n < 2 ^ 31"
  shows "\<exists>t. (\<forall>ps props. print_int ps n 10 props = Inr (print_str ps t props)) \<and> 0 \<notin> set t \<and>
    (\<forall>m p. string_at m p t \<longrightarrow> atol m p = Some (of_int n))"
proof -
  obtain sg ds where t: "int_buf n 10 = Inr (rev (sg @ ds))" "ds \<noteq> []" "\<forall>d\<in>set ds. is_digit d"
    "sg = (if n < 0 then [ch CHR ''-''] else [])" "digits_value ds = \<bar>n\<bar>"
    using int_buf_decimal [OF assms] by blast
  have "atol m p = Some (of_int n)" if "string_at m p (sg @ ds)" for m p
  proof -
    have "atol m p = Some (of_int (if sg = [0x2D] then - digits_value ds else digits_value ds))"
      using that t(2-4) by (intro atol_read [where bl = "[]"]) (auto simp: string_at_iff)
    then show ?thesis using t(4,5) by auto
  qed
  moreover have "print_int ps n 10 props = Inr (print_str ps (sg @ ds) props)" for ps props
    by (simp add: print_int_def t(1) reverse_buf_rev)
  moreover have "0 \<notin> set (sg @ ds)" using t(3,4) by (auto simp: is_digit_def)
  ultimately show ?thesis by blast
qed

theorem print_int_atol_witness:
  "\<exists>t. (\<forall>ps props. print_int ps (- 42) 10 props = Inr (print_str ps t props)) \<and> 0 \<notin> set t"
  using print_int_atol [of "- 42"] by auto

text \<open>The smallest \<open>int\<close> cannot be printed: its negation is itself, the remainder is -8, and \<open>%d\<close>
  reads in front of the array of digits.\<close>

theorem vsnprintf_int_min:
  "vsnprintf m buf sz [ch CHR ''%'', ch CHR ''d''] [Slot 0x80000000] =
     Inl (OutOfBounds ''digits'' (- 8))"
proof -
  have "int_digits 10 (- 2147483648) = Inl (OutOfBounds ''digits'' (- 8))"
    by (subst int_digits.simps) (simp add: signed_modulo_int_def)
  moreover have "wrap32 2147483648 = - 2147483648"
    by (simp add: wrap32_def)
  ultimately show ?thesis
    by (simp add: vsnprintf_def va_word_def print_int_def int_buf_def is_digit_def)
qed

lemma unsigned_digits_value:
  assumes "2 \<le> base" "base \<le> 16"
  shows "\<exists>ks. unsigned_digits base n = Inr (map ((!) digits) ks) \<and> (\<forall>k\<in>set ks. k < unat base) \<and>
    foldr (\<lambda>k acc. k + unat base * acc) ks 0 = unat n \<and> (ks = [] \<longleftrightarrow> n = 0) \<and>
    (ks \<noteq> [] \<longrightarrow> last ks \<noteq> 0)"
proof (induction "unat n" arbitrary: n rule: less_induct)
  case less
  have b: "2 \<le> unat base" "unat base \<le> 16" using assms by (simp_all add: word_le_nat_alt)
  show ?case
  proof (cases "n = 0")
    case False
    have "unat (n div base) < unat n"
      using False b by (simp add: unat_div unat_gt_0)
    with less obtain ks where ks: "unsigned_digits base (n div base) = Inr (map ((!) digits) ks)"
      "\<forall>k\<in>set ks. k < unat base" "foldr (\<lambda>k acc. k + unat base * acc) ks 0 = unat n div unat base"
      "ks = [] \<longleftrightarrow> n div base = 0" "ks \<noteq> [] \<longrightarrow> last ks \<noteq> 0"
      by (metis unat_div)
    let ?k = "unat n mod unat base"
    have m: "unat (n mod base) = ?k" by (rule unat_mod)
    have k: "?k < unat base" using b by simp
    have "unat (n mod base) < 16" unfolding m using k b(2) by linarith
    then have "\<not> 16 \<le> n mod base" by (simp only: word_le_nat_alt) simp
    then have "unsigned_digits base n = Inr (map ((!) digits) (?k # ks))"
      using False ks(1) assms by (subst unsigned_digits.simps) (simp add: m linorder_not_less)
    moreover have "last (?k # ks) \<noteq> 0"
    proof (cases "ks = []")
      case True
      then have "unat n div unat base = 0" using ks(3) by simp
      then have "?k = unat n" using b by (simp add: div_eq_0_iff)
      with True False show ?thesis by (simp add: unat_eq_zero)
    qed (use ks(5) in simp)
    moreover have "foldr (\<lambda>k acc. k + unat base * acc) (?k # ks) 0 = unat n"
      using ks(3) by simp
    moreover have "\<forall>j\<in>set (?k # ks). j < unat base" using ks(2) k by simp
    ultimately show ?thesis using False by (intro exI [of _ "?k # ks"]) simp
  qed (simp add: exI [of _ "[]"])
qed

lemma foldr_digits_ge:
  assumes "ks \<noteq> []" "last ks \<noteq> 0" "0 < b"
  shows "(b :: nat) ^ (length ks - 1) \<le> foldr (\<lambda>k acc. k + b * acc) ks 0"
  using assms
proof (induction ks)
  case (Cons k ks)
  show ?case
  proof (cases "ks = []")
    case False
    then have "b ^ (length ks - 1) \<le> foldr (\<lambda>k acc. k + b * acc) ks 0" using Cons by simp
    then have "b * b ^ (length ks - 1) \<le> b * foldr (\<lambda>k acc. k + b * acc) ks 0" by (rule mult_le_mono2)
    moreover have "b * b ^ (length ks - 1) = b ^ length ks" using False by (cases ks) simp_all
    ultimately have "b ^ length ks \<le> k + b * foldr (\<lambda>k acc. k + b * acc) ks 0" by linarith
    then show ?thesis by simp
  qed (use Cons in simp)
qed simp

text \<open>\<open>%u\<close>, \<open>%x\<close> and \<open>%p\<close> never fault: for every base up to 16 the digits are those of the number,
  without a leading zero, and in base 10 or 16 there are so few that the local buffer suffices.\<close>

theorem print_unsigned_digits:
  assumes "base = 10 \<or> base = 16"
  shows "\<exists>ks. unsigned_digits base n = Inr (map ((!) digits) ks) \<and> (\<forall>k\<in>set ks. k < unat base) \<and>
    foldr (\<lambda>k acc. k + unat base * acc) ks 0 = unat n \<and> (ks \<noteq> [] \<longrightarrow> last ks \<noteq> 0) \<and>
    length ks \<le> (if base = 10 then 10 else 8)"
proof -
  have b: "2 \<le> base" "base \<le> 16" "0 < unat base" using assms by auto
  obtain ks where ks: "unsigned_digits base n = Inr (map ((!) digits) ks)" "\<forall>k\<in>set ks. k < unat base"
    "foldr (\<lambda>k acc. k + unat base * acc) ks 0 = unat n" "ks \<noteq> [] \<longrightarrow> last ks \<noteq> 0"
    using unsigned_digits_value [OF b(1,2), of n] by blast
  have "length ks \<le> (if base = 10 then 10 else 8)"
  proof (cases "ks = []")
    case False
    then have "unat base ^ (length ks - 1) < 4294967296"
      using foldr_digits_ge [OF False _ b(3)] ks(3,4) unat_less_32 [of n] by simp
    moreover have "(4294967296 :: nat) \<le> 10 ^ 10" "(4294967296 :: nat) \<le> 16 ^ 8" by simp_all
    ultimately have "unat base ^ (length ks - 1) < unat base ^ (if base = 10 then 10 else 8)"
      using assms by (cases "base = 10") simp_all
    then have "length ks - 1 < (if base = 10 then 10 else 8)"
      by (rule power_less_imp_less_exp [rotated]) (use assms in auto)
    then show ?thesis by auto
  qed simp
  with ks show ?thesis by blast
qed

theorem print_unsigned_digits_witness:
  "\<exists>ks. unsigned_digits 16 0xBEEF = Inr (map ((!) digits) ks) \<and> length ks \<le> 8"
proof -
  obtain ks where "unsigned_digits 16 0xBEEF = Inr (map ((!) digits) ks)"
    "length ks \<le> (if (16 :: u32) = 10 then 10 else 8)"
    using print_unsigned_digits [OF disjI2 [OF refl], of "0xBEEF"] by blast
  then show ?thesis by (intro exI [of _ ks]) (simp del: unsigned_digits.simps)
qed

section \<open>The remaining routines\<close>

lemma takeWhile_read:
  "string_at m p s \<Longrightarrow> string_at m (p + of_nat (length (takeWhile P s))) (dropWhile P s)"
  using string_at_drop [of m p s "length (takeWhile P s)"] length_takeWhile_le [of P s]
  by (simp add: dropWhile_eq_drop)

lemma string_at_hd: "string_at m p s \<Longrightarrow> m p = (if s = [] then 0 else hd s)"
  by (cases s) simp_all

text \<open>The \<open>atol\<close> of the format interpreter, on byte lists, is the \<open>atol\<close> of \<open>string.c\<close> on memory.\<close>

lemma atol_string:
  assumes "string_at m p s"
  shows "atol m p = Some (atol_bytes s)"
proof -
  let ?P = "\<lambda>c :: u8. c = 32 \<or> c = 9"
  let ?s1 = "dropWhile ?P s" and ?q = "p + of_nat (length (takeWhile ?P s))"
  have s1: "string_at m ?q ?s1" using takeWhile_read [OF assms] .
  have hd1: "m ?q = (if ?s1 = [] then 0 else hd ?s1)" using string_at_hd [OF s1] .
  have "read_bytes m p (length (takeWhile ?P s)) = takeWhile ?P s"
    using assms string_at_append [of m p "takeWhile ?P s" ?s1] by simp
  moreover have "set (takeWhile ?P s) \<subseteq> {0x20, 0x09}" by (auto dest: set_takeWhileD)
  moreover have "m ?q \<notin> {0x20, 0x09}"
    using hd1 hd_dropWhile [of ?P s] by (cases "?s1 = []") (simp_all del: dropWhile_eq_Nil_conv)
  ultimately have sk: "skip_blanks m p = Some ?q" by (rule skip_blanks_read)
  have digs: "atol_digits m r 0 = Some (of_int (digits_value (takeWhile is_digit t)))"
    if t: "string_at m r t" for r t
  proof -
    have "read_bytes m r (length (takeWhile is_digit t)) = takeWhile is_digit t"
      using t string_at_append [of m r "takeWhile is_digit t" "dropWhile is_digit t"] by simp
    moreover have "\<not> is_digit (m (r + of_nat (length (takeWhile is_digit t))))"
      using string_at_hd [OF takeWhile_read [OF t, of is_digit]] hd_dropWhile [of is_digit t]
      by (cases "dropWhile is_digit t = []") (simp_all del: dropWhile_eq_Nil_conv)
    ultimately show ?thesis
      using atol_digits_read [of m r "takeWhile is_digit t" "[]"]
      by (auto simp: digits_value_def dest: set_takeWhileD)
  qed
  show ?thesis
  proof (cases ?s1)
    case Nil
    with sk hd1 digs [OF s1] show ?thesis
      by (simp add: atol_def atol_bytes_def Let_def del: dropWhile_eq_Nil_conv)
  next
    case (Cons c cs)
    then have "m ?q = c" "string_at m (?q + 1) cs" using s1 by simp_all
    then show ?thesis
      using sk digs [OF s1] digs [of "?q + 1" cs]
      by (simp add: atol_def atol_bytes_def Let_def Cons)
  qed
qed

text \<open>A 64-bit argument takes two stack slots but \<open>%llx\<close> and \<open>%llu\<close> read only one: the high half of
  the number is printed for the next conversion, whose own argument is lost.\<close>

theorem vsnprintf_llx_one_slot:
  "vsnprintf m buf 64 (map ch ''%llx %x'') [Slot lo, Slot hi, Slot y] =
   vsnprintf m buf 64 (map ch ''%x %x'') [Slot lo, Slot hi]"
  by (simp add: vsnprintf_def va_word_def is_digit_def props0_def split: sum.split)

definition bin_char :: "u32 \<Rightarrow> nat \<Rightarrow> u8" where
  "bin_char x k = (if bit x k then ch CHR ''1'' else ch CHR ''0'')"

lemma and_one_bit: "k < 32 \<Longrightarrow> (x :: u32) AND push_bit k 1 \<noteq> 0 \<longleftrightarrow> bit x k"
  by (simp add: and_exp_eq_0_iff_not_bit push_bit_eq_mult)

lemma binstr_loop_step: "i < 31 \<Longrightarrow> binstr_loop x i =
    bin_char x (31 - i) # (if (i + 1) mod 4 = 0 then [0x27] else []) @ binstr_loop x (i + 1)"
  using and_one_bit [of "31 - i" x]
  by (subst binstr_loop.simps) (simp add: bin_char_def Let_def del: binstr_loop.simps)

lemma binstr_loop_last: "binstr_loop x 31 = [bin_char x 0, 0]"
  using and_one_bit [of 0 x] by (subst binstr_loop.simps) (simp add: bin_char_def Let_def)

lemma bin_char_not_quote [simp]: "bin_char x k \<noteq> 0x27"
  by (simp add: bin_char_def)

text \<open>\<open>binstr\<close> fills its buffer of \<open>BINSTR_SZ\<close> bytes exactly: the 32 bits of the number from the
  highest to the lowest, a quote after every fourth, and the terminator.\<close>

theorem binstr_correct:
  "length (binstr x) = BINSTR_SZ \<and> last (binstr x) = 0 \<and>
   filter (\<lambda>c. c \<noteq> 0x27) (butlast (binstr x)) =
     map (\<lambda>i. if bit x i then ch CHR ''1'' else ch CHR ''0'') (rev [0..<32])"
proof -
  have "rev [0..<32] = [31, 30, 29, 28, 27, 26, 25, 24, 23, 22, 21, 20, 19, 18, 17, 16,
      15, 14, 13, 12, 11, 10, 9, 8, 7, 6, 5, 4, 3, 2, 1, 0 :: nat]"
    by (simp add: upt_rec)
  then show ?thesis
    by (simp add: binstr_def binstr_loop_step binstr_loop_last BINSTR_SZ_def
        flip: bin_char_def del: binstr_loop.simps One_nat_def) simp
qed

section \<open>Texts without conversions\<close>

lemma vs_loop_literal: "ch CHR ''%'' \<notin> set fmt \<Longrightarrow> vs_loop fmt va None s = Inr (addchars fmt s)"
  by (induction fmt arbitrary: s) auto

lemma printf_literal:
  assumes "ch CHR ''%'' \<notin> set fmt" "length fmt < 512"
  shows "printf m sp fmt va = Inr (write_bytes m sp (fmt @ [0]), sp, of_nat (length fmt))"
proof -
  have s0: "\<lparr>ps_mem = m, ps_buffer = sp, ps_remain = BUFSZ - 1, ps_added = 0\<rparr> = stream_of m sp 511 []"
    by (simp add: stream_of_def BUFSZ_def)
  have "vs_loop fmt va None (stream_of m sp 511 []) = Inr (stream_of m sp 511 fmt)"
    by (simp add: vs_loop_literal [OF assms(1)] addchars_stream)
  then show ?thesis
    using assms(2) by (simp add: printf_def vsnprintf_def s0) (simp add: stream_of_def write_bytes_append)
qed

end
