(* ===== verification/Port_Io.thy ===== *)
theory Port_Io
  imports C_Prelude
begin

text \<open>
  The ports of the machine, as \<open>include/cpu.h\<close> reaches them. A device is what the successive reads
  of each port return; the bytes written are kept in order. The two busy loops of the kernel that wait
  for a status bit are one function, \<open>poll\<close>, which does not return when the bit never comes.
\<close>

section \<open>Ports\<close>

record ports =
  p_dev :: "u16 \<Rightarrow> nat \<Rightarrow> u16"  \<comment> \<open>what the n-th read of a port returns\<close>
  p_count :: "u16 \<Rightarrow> nat"  \<comment> \<open>the number of reads so far\<close>
  p_out :: "(u16 \<times> u8) list"  \<comment> \<open>the writes so far\<close>

definition outb :: "u16 \<Rightarrow> u8 \<Rightarrow> ports \<Rightarrow> ports" where
  "outb port data s = s\<lparr>p_out := p_out s @ [(port, data)]\<rparr>"

definition inw :: "u16 \<Rightarrow> ports \<Rightarrow> u16 \<times> ports" where
  "inw port s =
     (p_dev s port (p_count s port), s\<lparr>p_count := (p_count s)(port := Suc (p_count s port))\<rparr>)"

definition inb :: "u16 \<Rightarrow> ports \<Rightarrow> u8 \<times> ports" where
  "inb port s = (let (x, s') = inw port s in (ucast x, s'))"

text \<open>A sequence of writes.\<close>

definition outbs :: "(u16 \<times> u8) list \<Rightarrow> ports \<Rightarrow> ports" where
  "outbs ws s = fold (\<lambda>(port, data). outb port data) ws s"

lemma outbs_eq: "outbs ws s = s\<lparr>p_out := p_out s @ ws\<rparr>"
  by (induction ws arbitrary: s) (auto simp: outbs_def outb_def)

lemma ports_fields [simp]:
  "p_dev (outb port data s) = p_dev s" "p_count (outb port data s) = p_count s"
  "p_out (outb port data s) = p_out s @ [(port, data)]"
  "p_dev (snd (inb port s)) = p_dev s" "p_out (snd (inb port s)) = p_out s"
  "p_count (snd (inb port s)) = (p_count s)(port := Suc (p_count s port))"
  by (simp_all add: outb_def inb_def inw_def)

section \<open>Waiting for a status\<close>

partial_function (option) poll :: "u16 \<Rightarrow> (u8 \<Rightarrow> bool) \<Rightarrow> ports \<Rightarrow> ports option" where
  "poll port ready s =
     (let (x, s') = inb port s in if ready x then Some s' else poll port ready s')"

text \<open>Whether the \<open>n\<close>-th read of a port is ready, and the devices that are ready again and again.\<close>

definition ready_at :: "(u16 \<Rightarrow> nat \<Rightarrow> u16) \<Rightarrow> u16 \<Rightarrow> (u8 \<Rightarrow> bool) \<Rightarrow> nat \<Rightarrow> bool" where
  "ready_at dev port ready n \<longleftrightarrow> ready (ucast (dev port n))"

definition keeps_ready :: "(u16 \<Rightarrow> nat \<Rightarrow> u16) \<Rightarrow> u16 \<Rightarrow> (u8 \<Rightarrow> bool) \<Rightarrow> bool" where
  "keeps_ready dev port ready \<longleftrightarrow> (\<forall>n. \<exists>k\<ge>n. ready_at dev port ready k)"

lemma poll_step:
  "poll port ready s =
     (let s' = s\<lparr>p_count := (p_count s)(port := Suc (p_count s port))\<rparr>
      in if ready_at (p_dev s) port ready (p_count s port) then Some s' else poll port ready s')"
  by (subst poll.simps) (simp add: inb_def inw_def ready_at_def Let_def)

lemma poll_wait:
  assumes "ready_at (p_dev s) port ready (p_count s port + k)"
    and "\<And>j. j < k \<Longrightarrow> \<not> ready_at (p_dev s) port ready (p_count s port + j)"
  shows "poll port ready s = Some (s\<lparr>p_count := (p_count s)(port := Suc (p_count s port + k))\<rparr>)"
  using assms
proof (induction k arbitrary: s)
  case 0
  then show ?case by (subst poll_step) (simp add: Let_def)
next
  case (Suc k)
  let ?s' = "s\<lparr>p_count := (p_count s)(port := Suc (p_count s port))\<rparr>"
  have "\<not> ready_at (p_dev s) port ready (p_count s port)" using Suc.prems(2) [of 0] by simp
  moreover have "\<not> ready_at (p_dev ?s') port ready (p_count ?s' port + j)" if "j < k" for j
    using Suc.prems(2) [of "Suc j"] that by simp
  moreover have "ready_at (p_dev ?s') port ready (p_count ?s' port + k)" using Suc.prems(1) by simp
  ultimately show ?case
    using Suc.IH [of ?s'] by (subst poll_step) (simp add: Let_def fun_upd_def cong: if_cong)
qed

lemma poll_ready:
  assumes "\<exists>k\<ge>p_count s port. ready_at (p_dev s) port ready k"
  shows "\<exists>n. poll port ready s = Some (s\<lparr>p_count := (p_count s)(port := n)\<rparr>)"
proof -
  let ?ok = "\<lambda>j. ready_at (p_dev s) port ready (p_count s port + j)"
  obtain k where "?ok k" using assms by (metis le_iff_add)
  then have "?ok (LEAST j. ?ok j)" by (rule LeastI)
  moreover have "\<not> ?ok j" if "j < (LEAST j. ?ok j)" for j using that by (rule not_less_Least)
  ultimately show ?thesis using poll_wait by blast
qed

lemma poll_Some:
  assumes "poll port ready s = Some s'"
  shows "\<exists>k\<ge>p_count s port. ready_at (p_dev s) port ready k"
proof (rule poll.raw_induct [where P =
      "\<lambda>port ready s y. \<exists>k\<ge>p_count s port. ready_at (p_dev s) port ready k", OF _ assms])
  fix poll' port ready s y
  assume IH: "\<And>port ready s y. poll' port ready s = Some y \<Longrightarrow>
      \<exists>k\<ge>p_count s port. ready_at (p_dev s) port ready k"
    and step: "(let (x, s') = inb port s in if ready x then Some s' else poll' port ready s') = Some y"
  show "\<exists>k\<ge>p_count s port. ready_at (p_dev s) port ready k"
  proof (cases "ready_at (p_dev s) port ready (p_count s port)")
    case False
    let ?s' = "s\<lparr>p_count := (p_count s)(port := Suc (p_count s port))\<rparr>"
    have "poll' port ready ?s' = Some y"
      using step False by (simp add: inb_def inw_def ready_at_def Let_def)
    from IH [OF this] show ?thesis by (auto dest: Suc_leD)
  qed blast
qed

text \<open>A wait for a status returns exactly when the device shows it at some later read.\<close>

theorem poll_returns_iff:
  "poll port ready s \<noteq> None \<longleftrightarrow> (\<exists>k\<ge>p_count s port. ready_at (p_dev s) port ready k)"
  using poll_ready [of s port ready] poll_Some [of port ready s] by auto

end
