(* ===== verification/Console.thy ===== *)
theory Console
  imports Printf Port_Io
begin

text \<open>
  Where the text of \<open>printf\<close> goes: the serial line (\<open>src/kernel/io.c\<close>) and, through the call gate
  7, the text screen (\<open>do_syscall\<close> of \<open>src/kernel/syscall.c\<close>). That the call gate and
  \<open>syscall_handler\<close> hand over the three words that \<open>sys_show\<close> pushes is shown in \<open>Entry_Stubs\<close>.
\<close>

unbundle bit_operations_syntax

section \<open>State\<close>

text \<open>The static variables of \<open>io.c\<close> and \<open>syscall.c\<close>, and the ports.\<close>

record console =
  con_lock :: spinlock
  serial_inited :: u32
  con_ports :: ports
  con_row :: int
  con_cleared :: u32

definition serial_iobase :: u16 where
  "serial_iobase = 0x3f8"

section \<open>The serial line\<close>

definition tx_empty :: "u8 \<Rightarrow> bool" where
  "tx_empty lsr \<longleftrightarrow> lsr AND 0x20 \<noteq> 0"

definition serial_outb :: "u8 \<Rightarrow> ports \<Rightarrow> ports option" where
  "serial_outb c s = map_option (outb (serial_iobase + 0x00) c) (poll (serial_iobase + 0x05) tx_empty s)"

definition serial_put :: "u8 \<Rightarrow> ports \<Rightarrow> ports option" where
  "serial_put c s =
     (case (if c = 0x0A then serial_outb 0x0D s else Some s) of
        None \<Rightarrow> None
      | Some s' \<Rightarrow> serial_outb c s')"

definition serial_init :: "ports \<Rightarrow> ports" where
  "serial_init s =
     (let (lcr, s1) = inb (serial_iobase + 0x03) s;
          s2 = outb (serial_iobase + 0x03) (lcr OR 0x80) s1;
          s3 = outb (serial_iobase + 0x00) 0x01 s2;
          s4 = outb (serial_iobase + 0x01) 0x00 s3;
          (lcr', s5) = inb (serial_iobase + 0x03) s4;
          s6 = outb (serial_iobase + 0x03) (lcr' AND NOT 0x80) s5;
          s7 = outb (serial_iobase + 0x01) 0x00 s6;
          s8 = outb (serial_iobase + 0x03) 0x03 s7;
          s9 = outb (serial_iobase + 0x02) 0x00 s8
      in outb (serial_iobase + 0x04) 0x03 s9)"

text \<open>The loop of \<open>print_serial\<close>, with \<open>n\<close> characters left.\<close>

primrec serial_loop :: "memory \<Rightarrow> u32 \<Rightarrow> nat \<Rightarrow> ports \<Rightarrow> ports option" where
  "serial_loop m p 0 s = Some s"
| "serial_loop m p (Suc n) s =
     (case serial_put (m p) s of None \<Rightarrow> None | Some s' \<Rightarrow> serial_loop m (p + 1) n s')"

definition print_serial :: "memory \<Rightarrow> u32 \<Rightarrow> console \<Rightarrow> console option" where
  "print_serial m buf c =
     (case strlen m buf of
        None \<Rightarrow> None
      | Some len \<Rightarrow>
         let c1 = (if serial_inited c = 0
                   then c\<lparr>con_ports := serial_init (con_ports c), serial_inited := 1\<rparr> else c)
         in map_option (\<lambda>s. c1\<lparr>con_ports := s\<rparr>) (serial_loop m buf (unat len) (con_ports c1)))"

section \<open>The screen\<close>

text \<open>A cell of the screen: \<open>*str | (color << 8)\<close>, computed in \<open>int\<close> from two signed characters.\<close>

definition vga_cell :: "u8 \<Rightarrow> u8 \<Rightarrow> u16" where
  "vga_cell c color = ucast ((scast c :: u32) OR push_bit 8 (scast color))"

partial_function (option) vga_copy :: "memory \<Rightarrow> u32 \<Rightarrow> u32 \<Rightarrow> u8 \<Rightarrow> memory option" where
  "vga_copy m dest str color =
     (if m str = 0 then Some m
      else vga_copy (store16 m dest (vga_cell (m str) color)) (dest + 2) (str + 1) color)"

definition clear_screen :: "memory \<Rightarrow> memory" where
  "clear_screen m = fold (\<lambda>i m. store16 m (0xb8000 + 2 * of_nat i) (0x20 OR push_bit 8 0x02)) [0..<80 * 25] m"

definition do_syscall :: "u32 \<Rightarrow> u32 \<Rightarrow> u8 \<Rightarrow> console \<Rightarrow> memory \<Rightarrow> (console \<times> memory) option" where
  "do_syscall func str color c m =
     (if func = 2 then
        (let (c1, m1) = (if con_cleared c = 0 then (c\<lparr>con_cleared := 1, con_row := 0\<rparr>, clear_screen m)
                         else (c, m));
             dest = 0xb8000 + of_int (2 * (80 * con_row c1))
         in map_option (\<lambda>m2. (c1\<lparr>con_row := (if 25 \<le> con_row c1 then 0 else con_row c1 + 1)\<rparr>, m2))
              (vga_copy m1 dest str color))
      else Some (c, m))"

definition sys_show :: "u32 \<Rightarrow> u8 \<Rightarrow> console \<Rightarrow> memory \<Rightarrow> (console \<times> memory) option" where
  "sys_show str color c m = do_syscall 2 str color c m"

definition puts :: "u32 \<Rightarrow> console \<Rightarrow> memory \<Rightarrow> (console \<times> memory) option" where
  "puts s c m =
     (case spin_lock (con_lock c) of
        None \<Rightarrow> None
      | Some l \<Rightarrow>
         (case print_serial m s (c\<lparr>con_lock := l\<rparr>) of
            None \<Rightarrow> None
          | Some c1 \<Rightarrow>
             (case sys_show s 0x02 c1 m of
                None \<Rightarrow> None
              | Some (c2, m2) \<Rightarrow> Some (c2\<lparr>con_lock := spin_unlock (con_lock c2)\<rparr>, m2))))"

text \<open>A whole call of \<open>printf\<close> with its buffer at \<open>sp\<close>: formatting, then \<open>puts\<close>. The other functions
  that print have the same body.\<close>

definition kprintf ::
    "u32 \<Rightarrow> u8 list \<Rightarrow> vslot list \<Rightarrow> console \<Rightarrow> memory \<Rightarrow> (fault + u32 \<times> console \<times> memory) option" where
  "kprintf sp fmt va c m =
     (case printf m sp fmt va of
        Inl f \<Rightarrow> Some (Inl f)
      | Inr (m1, buf, r) \<Rightarrow> map_option (\<lambda>(c2, m2). Inr (r, c2, m2)) (puts buf c m1))"

definition vprintf ::
    "u32 \<Rightarrow> u8 list \<Rightarrow> vslot list \<Rightarrow> console \<Rightarrow> memory \<Rightarrow> (fault + u32 \<times> console \<times> memory) option" where
  "vprintf sp fmt va c m =
     (case vsnprintf m sp BUFSZ fmt va of
        Inl f \<Rightarrow> Some (Inl f)
      | Inr (m1, r) \<Rightarrow> map_option (\<lambda>(c2, m2). Inr (r, c2, m2)) (puts sp c m1))"

definition warning ::
    "u32 \<Rightarrow> u8 list \<Rightarrow> vslot list \<Rightarrow> console \<Rightarrow> memory \<Rightarrow> (fault + u32 \<times> console \<times> memory) option" where
  "warning sp fmt va c m =
     (case vsnprintf m sp BUFSZ fmt va of
        Inl f \<Rightarrow> Some (Inl f)
      | Inr (m1, r) \<Rightarrow> map_option (\<lambda>(c2, m2). Inr (r, c2, m2)) (puts sp c m1))"

definition error ::
    "u32 \<Rightarrow> u8 list \<Rightarrow> vslot list \<Rightarrow> console \<Rightarrow> memory \<Rightarrow> (fault + u32 \<times> console \<times> memory) option" where
  "error sp fmt va c m =
     (case vsnprintf m sp BUFSZ fmt va of
        Inl f \<Rightarrow> Some (Inl f)
      | Inr (m1, r) \<Rightarrow> map_option (\<lambda>(c2, m2). Inr (r, c2, m2)) (puts sp c m1))"

lemma printf_variants: "vprintf = kprintf" "warning = kprintf" "error = kprintf"
  by (intro ext; simp add: vprintf_def warning_def error_def kprintf_def printf_def case_prod_beta split: sum.split)+

text \<open>\<open>print_binstr\<close> with its buffer at \<open>out\<close>.\<close>

definition print_binstr ::
    "u32 \<Rightarrow> u32 \<Rightarrow> u32 \<Rightarrow> console \<Rightarrow> memory \<Rightarrow> (fault + u32 \<times> console \<times> memory) option" where
  "print_binstr sp out x c m =
     kprintf sp [ch CHR ''%'', ch CHR ''s''] [Str (takeWhile (\<lambda>b. b \<noteq> 0) (binstr x))] c (write_bytes m out (binstr x))"

section \<open>Characters into a sink\<close>

text \<open>The interface that the loop of \<open>print_serial\<close> relies on: putting a character succeeds and
  appends the encoding of that character to what was sent.\<close>

locale char_sink =
  fixes put :: "u8 \<Rightarrow> 's \<Rightarrow> 's option" and enc :: "u8 \<Rightarrow> 'e list"
    and inv :: "'s \<Rightarrow> bool" and sent :: "'s \<Rightarrow> 'e list"
  assumes put_ok: "inv s \<Longrightarrow> \<exists>s'. put c s = Some s' \<and> inv s' \<and> sent s' = sent s @ enc c"

primrec put_all :: "('c \<Rightarrow> 's \<Rightarrow> 's option) \<Rightarrow> 'c list \<Rightarrow> 's \<Rightarrow> 's option" where
  "put_all put [] s = Some s"
| "put_all put (c # cs) s = (case put c s of None \<Rightarrow> None | Some s' \<Rightarrow> put_all put cs s')"

context char_sink
begin

lemma put_all_ok:
  "inv s \<Longrightarrow> \<exists>s'. put_all put cs s = Some s' \<and> inv s' \<and> sent s' = sent s @ concat (map enc cs)"
proof (induction cs arbitrary: s)
  case (Cons c cs)
  obtain s1 where s1: "put c s = Some s1" "inv s1" "sent s1 = sent s @ enc c"
    using put_ok [OF Cons.prems] by blast
  then show ?case using Cons.IH [OF s1(2)] by auto
qed simp

end

definition line_ready :: "ports \<Rightarrow> bool" where
  "line_ready s \<longleftrightarrow> keeps_ready (p_dev s) 0x3fd tx_empty"

definition crlf :: "u8 \<Rightarrow> (u16 \<times> u8) list" where
  "crlf c = (if c = 0x0A then [(0x3f8, 0x0D)] else []) @ [(0x3f8, c)]"

lemma serial_outb_ok:
  "line_ready s \<Longrightarrow> \<exists>s'. serial_outb c s = Some s' \<and> line_ready s' \<and> p_out s' = p_out s @ [(0x3f8, c)]"
  using poll_ready [of s "0x3fd" tx_empty]
  by (fastforce simp: serial_outb_def serial_iobase_def line_ready_def keeps_ready_def)

interpretation thr: char_sink serial_outb "\<lambda>c. [(0x3f8, c)]" line_ready p_out
  by unfold_locales (rule serial_outb_ok)

lemma serial_put_eq: "serial_put c = put_all serial_outb ((if c = 0x0A then [0x0D] else []) @ [c])"
  by (auto simp: serial_put_def fun_eq_iff split: option.split)

interpretation tty: char_sink serial_put crlf line_ready p_out
proof
  fix s c assume "line_ready s"
  then show "\<exists>s'. serial_put c s = Some s' \<and> line_ready s' \<and> p_out s' = p_out s @ crlf c"
    using thr.put_all_ok [where s = s and cs = "(if c = 0x0A then [0x0D] else []) @ [c]"]
    by (auto simp: serial_put_eq crlf_def)
qed

lemma serial_loop_eq: "serial_loop m p n = put_all serial_put (read_bytes m p n)"
  by (induction n arbitrary: p) (auto simp: read_bytes_Suc fun_eq_iff split: option.split)

section \<open>The screen as a list of bytes\<close>

definition text_cells :: "u8 list \<Rightarrow> u8 \<Rightarrow> u8 list" where
  "text_cells s color = concat (map (\<lambda>c. le16 (vga_cell c color)) s)"

definition screen :: "memory \<Rightarrow> u8 list" where
  "screen m = read_bytes m 0xb8000 4000"

definition blank_screen :: "u8 list" where
  "blank_screen = concat (replicate 2000 [0x20, 0x02])"

text \<open>\<open>splice i bs xs\<close>: \<open>xs\<close> with \<open>bs\<close> written over it from position \<open>i\<close> on, as far as \<open>xs\<close> goes.\<close>

definition splice :: "nat \<Rightarrow> 'a list \<Rightarrow> 'a list \<Rightarrow> 'a list" where
  "splice i bs xs = take i xs @ take (length xs - i) bs @ drop (i + length bs) xs"

lemma length_splice [simp]: "length (splice i bs xs) = length xs"
  by (simp add: splice_def)

lemma nth_splice:
  assumes "j < length xs"
  shows "splice i bs xs ! j = (if i \<le> j \<and> j < i + length bs then bs ! (j - i) else xs ! j)"
  using assms by (auto simp: splice_def nth_append min_def)

lemma length_text_cells [simp]: "length (text_cells s color) = 2 * length s"
  by (induction s) (simp_all add: text_cells_def le16_def)

lemma read_write_splice:
  assumes "i + length bs \<le> 2 ^ 32" "n \<le> 2 ^ 32" "i < 2 ^ 32"
  shows "read_bytes (write_bytes m (p + of_nat i) bs) p n = splice i bs (read_bytes m p n)"
proof (rule nth_equalityI)
  fix j assume "j < length (read_bytes (write_bytes m (p + of_nat i) bs) p n)"
  then have j: "j < n" by simp
  have off: "unat (p + of_nat j - (p + of_nat i) :: u32) < length bs \<longleftrightarrow> i \<le> j \<and> j < i + length bs"
    and pos: "i \<le> j \<Longrightarrow> unat (p + of_nat j - (p + of_nat i) :: u32) = j - i"
  proof -
    show pos: "unat (p + of_nat j - (p + of_nat i) :: u32) = j - i" if "i \<le> j"
    proof -
      have "p + of_nat j - (p + of_nat i) = (of_nat (j - i) :: u32)" using that by (simp add: of_nat_diff)
      then show ?thesis using j assms(2) by (simp only: unat_of_nat32)
    qed
    show "unat (p + of_nat j - (p + of_nat i) :: u32) < length bs \<longleftrightarrow> i \<le> j \<and> j < i + length bs"
    proof (cases "i \<le> j")
      case False
      then have "p + of_nat j - (p + of_nat i) = - (of_nat (i - j) :: u32)" by (simp add: of_nat_diff)
      moreover have "- (of_nat (i - j) :: u32) = of_nat (2 ^ 32 - (i - j))"
        using assms(3) by (simp add: of_nat_diff)
      moreover have "2 ^ 32 - (i - j) < 2 ^ 32" using False by simp
      ultimately have "unat (p + of_nat j - (p + of_nat i) :: u32) = 2 ^ 32 - (i - j)"
        by (simp only: unat_of_nat32)
      then show ?thesis using False assms(1,3) by simp
    qed (use pos in auto)
  qed
  show "read_bytes (write_bytes m (p + of_nat i) bs) p n ! j = splice i bs (read_bytes m p n) ! j"
    using j off pos assms(1) by (auto simp: nth_splice write_bytes_apply)
qed simp

lemma store16_fold:
  "fold (\<lambda>i m. store16 m (p + 2 * of_nat i) w) [0..<n] m = write_bytes m p (concat (replicate n (le16 w)))"
proof (induction n)
  case (Suc n)
  have len: "length (concat (replicate n (le16 w))) = 2 * n"
    by (induction n) (simp_all add: le16_def)
  have snoc: "concat (replicate (Suc n) (le16 w)) = concat (replicate n (le16 w)) @ le16 w"
    by (induction n) simp_all
  show ?case
    unfolding snoc by (simp add: Suc.IH [unfolded store16_bytes] write_bytes_append len store16_bytes)
qed simp

lemma clear_screen_eq: "clear_screen m = write_bytes m 0xb8000 blank_screen"
proof -
  have w: "le16 (0x20 OR push_bit 8 0x02) = [0x20, 0x02]" by (simp add: le16_def)
  have n: "80 * 25 = (2000 :: nat)" by simp
  show ?thesis unfolding clear_screen_def blank_screen_def store16_fold w n ..
qed

lemma length_blank_screen: "length blank_screen = 4000"
  by (simp add: blank_screen_def length_concat sum_list_replicate)

section \<open>What a line of output does\<close>

lemma vga_copy_string:
  "string_at m str s \<Longrightarrow> 2 * length s \<le> 2 ^ 32 \<Longrightarrow>
   span dest (2 * length s) \<inter> span str (Suc (length s)) = {} \<Longrightarrow>
   vga_copy m dest str color = Some (write_bytes m dest (text_cells s color))"
proof (induction s arbitrary: m dest str)
  case Nil
  then show ?case by (subst vga_copy.simps) (simp add: text_cells_def)
next
  case (Cons c s)
  let ?m = "store16 m dest (vga_cell c color)"
  have sub: "span (dest + 2) (2 * length s) \<subseteq> span dest (2 * length (c # s))"
    using span_sub [of 2 "2 * length s" "2 * length (c # s)" dest] by simp
  have at: "dest \<in> span dest (2 * length (c # s))" "dest + 1 \<in> span dest (2 * length (c # s))"
    using span_first [of dest "Suc (2 * length s)"] span_step [of dest "Suc (2 * length s)"]
      span_first [of "dest + 1" "2 * length s"] by auto
  have "string_at ?m (str + 1) s"
  proof (rule string_at_cong)
    show "string_at m (str + 1) s" using Cons.prems(1) by simp
    fix a assume "a \<in> span (str + 1) (Suc (length s))"
    then have "a \<in> span str (Suc (length (c # s)))" using span_step [of str "Suc (length s)"] by auto
    then have "a \<noteq> dest" "a \<noteq> dest + 1" using at Cons.prems(3) by auto
    then show "?m a = m a" by (simp add: store16_def)
  qed
  moreover have "span (dest + 2) (2 * length s) \<inter> span (str + 1) (Suc (length s)) = {}"
    using Cons.prems(3) sub span_step [of str "Suc (length s)"] by auto
  ultimately have "vga_copy ?m (dest + 2) (str + 1) color = Some (write_bytes ?m (dest + 2) (text_cells s color))"
    using Cons.prems(2) by (intro Cons.IH) simp_all
  then show ?case
    using Cons.prems(1) by (subst vga_copy.simps) (simp add: text_cells_def store16_bytes le16_def algebra_simps)
qed

text \<open>The screen that a call of \<open>do_syscall\<close> starts from, and the row.\<close>

definition shown :: "console \<Rightarrow> memory \<Rightarrow> u8 list" where
  "shown c m = (if con_cleared c = 0 then blank_screen else screen m)"

definition shown_row :: "console \<Rightarrow> int" where
  "shown_row c = (if con_cleared c = 0 then 0 else con_row c)"

definition row_ok :: "console \<Rightarrow> bool" where
  "row_ok c \<longleftrightarrow> 0 \<le> con_row c \<and> con_row c \<le> 25"

definition next_row :: "int \<Rightarrow> int" where
  "next_row r = (if r = 25 then 0 else r + 1)"

text \<open>\<open>clear_of_screen p n\<close>: the \<open>n\<close> bytes at \<open>p\<close> stay clear of all that writing them can touch.\<close>

definition clear_of_screen :: "u32 \<Rightarrow> nat \<Rightarrow> bool" where
  "clear_of_screen p n \<longleftrightarrow> span p (Suc n) \<inter> span 0xb8000 (4000 + 2 * n) = {}"

lemma shown_cleared:
  "screen (if con_cleared c = 0 then clear_screen m else m) = shown c m"
proof -
  have "read_bytes (write_bytes m 0xb8000 blank_screen) 0xb8000 (length blank_screen) = blank_screen"
    by (rule read_write_bytes) (simp add: length_blank_screen)
  then show ?thesis by (simp add: screen_def shown_def clear_screen_eq length_blank_screen)
qed

lemma string_at_cleared:
  assumes "string_at m str s" "clear_of_screen str (length s)"
  shows "string_at (if con_cleared c = 0 then clear_screen m else m) str s"
proof (rule string_at_cong [OF assms(1)])
  fix a assume "a \<in> span str (Suc (length s))"
  then have "a \<notin> span 0xb8000 4000"
    using assms(2) span_mono [of 4000 "4000 + 2 * length s" "0xb8000"] by (auto simp: clear_of_screen_def)
  then show "(if con_cleared c = 0 then clear_screen m else m) a = m a"
    by (simp add: clear_screen_eq write_bytes_outside length_blank_screen)
qed

lemma do_syscall_eq:
  assumes "string_at m str s" "clear_of_screen str (length s)" "row_ok c" "length s < 2 ^ 30"
  defines "m1 \<equiv> if con_cleared c = 0 then clear_screen m else m"
  shows "do_syscall 2 str color c m =
    Some (c\<lparr>con_cleared := (if con_cleared c = 0 then 1 else con_cleared c), con_row := next_row (shown_row c)\<rparr>,
      write_bytes m1 (0xb8000 + of_nat (160 * nat (shown_row c))) (text_cells s color))"
proof -
  let ?r = "nat (shown_row c)"
  have r: "0 \<le> shown_row c" "?r \<le> 25" using assms(3) by (auto simp: shown_row_def row_ok_def)
  have dest: "of_int (2 * (80 * shown_row c)) = (of_nat (160 * ?r) :: u32)"
  proof -
    have "2 * (80 * shown_row c) = int (160 * ?r)" using r(1) by simp
    then show ?thesis by (simp only: of_int_of_nat_eq)
  qed
  have "span (0xb8000 + of_nat (160 * ?r)) (2 * length s) \<subseteq> span 0xb8000 (4000 + 2 * length s)"
    using r(2) by (intro span_sub) simp_all
  then have copy: "vga_copy m1 (0xb8000 + of_nat (160 * ?r)) str color =
      Some (write_bytes m1 (0xb8000 + of_nat (160 * ?r)) (text_cells s color))"
    using string_at_cleared [OF assms(1,2), of c] assms(2,4)
    by (intro vga_copy_string) (auto simp: m1_def clear_of_screen_def)
  show ?thesis
  proof (cases "con_cleared c = 0")
    case True
    then have "shown_row c = 0" "m1 = clear_screen m" by (simp_all add: shown_row_def m1_def)
    with copy True show ?thesis by (simp add: do_syscall_def next_row_def)
  next
    case False
    then have s: "shown_row c = con_row c" "m1 = m" by (simp_all add: shown_row_def m1_def)
    have row: "(if 25 \<le> con_row c then 0 else con_row c + 1) = next_row (con_row c)"
      using assms(3) by (simp add: next_row_def row_ok_def)
    show ?thesis
      using copy dest False unfolding do_syscall_def s row [symmetric] by simp
  qed
qed

lemma do_syscall_screen:
  assumes "string_at m str s" "clear_of_screen str (length s)" "row_ok c" "length s < 2 ^ 30"
  shows "\<exists>c' m'. do_syscall 2 str color c m = Some (c', m')
    \<and> screen m' = (if shown_row c = 25 then shown c m
                   else splice (160 * nat (shown_row c)) (text_cells s color) (shown c m))
    \<and> con_row c' = next_row (shown_row c) \<and> row_ok c'
    \<and> (\<forall>a. a \<notin> span 0xb8000 (4000 + 2 * length s) \<longrightarrow> m' a = m a)"
proof -
  let ?m1 = "if con_cleared c = 0 then clear_screen m else m"
  let ?i = "160 * nat (shown_row c)"
  let ?m2 = "write_bytes ?m1 (0xb8000 + of_nat ?i) (text_cells s color)"
  have r: "0 \<le> shown_row c" "shown_row c \<le> 25" "nat (shown_row c) \<le> 25" using assms(3) by (auto simp: shown_row_def row_ok_def)
  have "screen ?m2 = splice ?i (text_cells s color) (screen ?m1)"
    unfolding screen_def using r assms(4) by (intro read_write_splice) simp_all
  moreover have "length (shown c m) = 4000"
    by (simp add: shown_def screen_def length_blank_screen)
  moreover have "splice 4000 (text_cells s color) (shown c m) = shown c m" if "length (shown c m) = 4000"
    using that by (simp add: splice_def)
  ultimately have "screen ?m2 = (if shown_row c = 25 then shown c m
      else splice ?i (text_cells s color) (shown c m))"
    by (auto simp: shown_cleared)
  moreover have "?m2 a = m a" if "a \<notin> span 0xb8000 (4000 + 2 * length s)" for a
  proof -
    have "a \<notin> span (0xb8000 + of_nat ?i) (2 * length s)" "a \<notin> span 0xb8000 4000"
      using that span_sub [of ?i "2 * length s" "4000 + 2 * length s" "0xb8000"]
        span_mono [of 4000 "4000 + 2 * length s" "0xb8000"] r by auto
    then show ?thesis using assms(4) by (simp add: write_bytes_outside clear_screen_eq length_blank_screen)
  qed
  ultimately show ?thesis
    using do_syscall_eq [OF assms] r by (auto simp: row_ok_def next_row_def)
qed

text \<open>The bytes that a call of \<open>do_syscall\<close> writes, whether they are on the screen or not.\<close>

lemma do_syscall_bytes:
  assumes "string_at m str s" "clear_of_screen str (length s)" "row_ok c" "length s < 2 ^ 30"
    "do_syscall 2 str color c m = Some (c', m')"
  defines "dest \<equiv> 0xb8000 + of_nat (160 * nat (shown_row c))"
  shows "read_bytes m' dest (2 * length s) = text_cells s color"
    and "a \<notin> span dest (2 * length s) \<Longrightarrow> a \<notin> span 0xb8000 4000 \<Longrightarrow> m' a = m a"
proof -
  have m': "m' = write_bytes (if con_cleared c = 0 then clear_screen m else m) dest (text_cells s color)"
    using do_syscall_eq [OF assms(1-4), of color] assms(5) unfolding dest_def by simp
  have l: "length (text_cells s color) = 2 * length s" by simp
  show "read_bytes m' dest (2 * length s) = text_cells s color"
    unfolding m' l [symmetric] using assms(4) by (intro read_write_bytes) simp
  show "m' a = m a" if "a \<notin> span dest (2 * length s)" "a \<notin> span 0xb8000 4000"
    using that assms(4)
    by (simp add: m' write_bytes_outside clear_screen_eq length_blank_screen)
qed

text \<open>C31. A line of text is written, cell by cell, to the row whose turn it is (the first call clears the
  screen before and starts with row 0), over what stands there. For the rows 0 to 24 it appears there
  on the screen and the rest of the screen stays. The turn of a row 25 comes after row 24: the screen
  has 25 rows, so the cells of that line are written behind it, from 0xB8FA0 on, and the screen stays
  as it was: every 26th line is not shown. The row then moves on, from 25 to 0, and no other byte of the
  memory changes.\<close>

theorem do_syscall_shows:
  assumes "string_at m str s" "clear_of_screen str (length s)" "row_ok c" "length s < 2 ^ 30"
  shows "\<exists>c' m'. do_syscall 2 str color c m = Some (c', m')
    \<and> screen m' = (if shown_row c = 25 then shown c m
                   else splice (160 * nat (shown_row c)) (text_cells s color) (shown c m))
    \<and> read_bytes m' (0xb8000 + of_nat (160 * nat (shown_row c))) (2 * length s) = text_cells s color
    \<and> con_row c' = next_row (shown_row c) \<and> row_ok c'
    \<and> (\<forall>a. a \<notin> span (0xb8000 + of_nat (160 * nat (shown_row c))) (2 * length s) \<and>
           a \<notin> span 0xb8000 4000 \<longrightarrow> m' a = m a)
    \<and> (\<forall>a. a \<notin> span 0xb8000 (4000 + 2 * length s) \<longrightarrow> m' a = m a)"
proof -
  from do_syscall_screen [OF assms, of color] obtain c' m' where
    d: "do_syscall 2 str color c m = Some (c', m')" and
    r: "screen m' = (if shown_row c = 25 then shown c m
          else splice (160 * nat (shown_row c)) (text_cells s color) (shown c m))"
      "con_row c' = next_row (shown_row c)" "row_ok c'"
      "\<forall>a. a \<notin> span 0xb8000 (4000 + 2 * length s) \<longrightarrow> m' a = m a" by blast
  from do_syscall_bytes [OF assms d] d r show ?thesis by (intro exI conjI) auto
qed

definition console0 :: console where
  "console0 = \<lparr>con_lock = \<lparr>v = 0\<rparr>, serial_inited = 0,
     con_ports = \<lparr>p_dev = (\<lambda>_ _. 0x60), p_count = (\<lambda>_. 0), p_out = []\<rparr>, con_row = 0, con_cleared = 0\<rparr>"

lemma clear_of_screen_low: "unat p + n < 0xb8000 \<Longrightarrow> n < 2 ^ 28 \<Longrightarrow> clear_of_screen p n"
  unfolding clear_of_screen_def by (intro span_disjoint) simp_all

definition hello :: memory where
  "hello = write_bytes (\<lambda>_. 0) 0x1000 [0x68, 0x69, 0x0A]"

lemma hello_string: "string_at hello 0x1000 [0x68, 0x69, 0x0A]"
  by (simp add: hello_def)

theorem do_syscall_shows_witness:
  "\<exists>c' m'. do_syscall 2 0x1000 2 (console0\<lparr>con_cleared := 1, con_row := 25\<rparr>) hello = Some (c', m')
     \<and> screen m' = screen hello \<and> read_bytes m' 0xb8fa0 6 = [0x68, 2, 0x69, 2, 0x0A, 2] \<and> con_row c' = 0"
proof -
  have "clear_of_screen 0x1000 (length [0x68, 0x69, 0x0A :: u8])" by (rule clear_of_screen_low) simp_all
  from do_syscall_shows [OF hello_string this, of "console0\<lparr>con_cleared := 1, con_row := 25\<rparr>" 2]
  show ?thesis
    by (auto simp: row_ok_def shown_row_def shown_def next_row_def text_cells_def vga_cell_def le16_def)
qed

section \<open>The serial line\<close>

text \<open>What \<open>serial_init\<close> writes, for the two values read of the line control register.\<close>

definition uart_setup :: "u8 \<Rightarrow> u8 \<Rightarrow> (u16 \<times> u8) list" where
  "uart_setup lcr lcr' = [(0x3fb, lcr OR 0x80), (0x3f8, 0x01), (0x3f9, 0x00), (0x3fb, lcr' AND NOT 0x80),
     (0x3f9, 0x00), (0x3fb, 0x03), (0x3fa, 0x00), (0x3fc, 0x03)]"

lemma serial_init_out:
  "\<exists>lcr lcr'. p_out (serial_init s) = p_out s @ uart_setup lcr lcr'" "p_dev (serial_init s) = p_dev s"
proof -
  obtain lcr s1 where 1: "inb 0x3fb s = (lcr, s1)" by fastforce
  let ?s4 = "outb 0x3f9 0x00 (outb 0x3f8 0x01 (outb 0x3fb (lcr OR 0x80) s1))"
  obtain lcr' s5 where 2: "inb 0x3fb ?s4 = (lcr', s5)" by fastforce
  have f: "p_out s1 = p_out s" "p_dev s1 = p_dev s" "p_out s5 = p_out ?s4" "p_dev s5 = p_dev ?s4"
    using arg_cong [OF 1, of "\<lambda>x. p_out (snd x)"] arg_cong [OF 1, of "\<lambda>x. p_dev (snd x)"]
      arg_cong [OF 2, of "\<lambda>x. p_out (snd x)"] arg_cong [OF 2, of "\<lambda>x. p_dev (snd x)"] by simp_all
  show "\<exists>lcr lcr'. p_out (serial_init s) = p_out s @ uart_setup lcr lcr'" "p_dev (serial_init s) = p_dev s"
    by (auto simp: serial_init_def serial_iobase_def 1 2 f uart_setup_def)
qed

text \<open>The characters a line of output puts on the serial line, with what sets the line up before the
  first of them.\<close>

definition setup_of :: "u32 \<Rightarrow> (u16 \<times> u8) list \<Rightarrow> bool" where
  "setup_of inited ws \<longleftrightarrow> (if inited = 0 then \<exists>lcr lcr'. ws = uart_setup lcr lcr' else ws = [])"

lemma print_serial_ok:
  assumes "string_at m s t" "line_ready (con_ports c)"
  shows "\<exists>c' ws. print_serial m s c = Some c' \<and> line_ready (con_ports c') \<and> setup_of (serial_inited c) ws
    \<and> p_out (con_ports c') = p_out (con_ports c) @ ws @ concat (map crlf t)
    \<and> serial_inited c' \<noteq> 0
    \<and> con_lock c' = con_lock c \<and> con_row c' = con_row c \<and> con_cleared c' = con_cleared c"
proof -
  let ?c1 = "if serial_inited c = 0
    then c\<lparr>con_ports := serial_init (con_ports c), serial_inited := 1\<rparr> else c"
  obtain ws where ws: "setup_of (serial_inited c) ws" "p_out (con_ports ?c1) = p_out (con_ports c) @ ws"
    using serial_init_out(1) [of "con_ports c"] by (cases "serial_inited c = 0") (auto simp: setup_of_def)
  have "line_ready (con_ports ?c1)"
    using assms(2) by (simp add: line_ready_def serial_init_out(2))
  from tty.put_all_ok [OF this, of t] obtain q where q: "put_all serial_put t (con_ports ?c1) = Some q"
    "line_ready q" "p_out q = p_out (con_ports ?c1) @ concat (map crlf t)" by blast
  have "read_bytes m s (unat (of_nat (length t) :: u32)) = t"
    using assms(1) string_at_length [OF assms(1)] by (simp add: string_at_iff unat_of_nat32)
  then have "print_serial m s c = Some (?c1\<lparr>con_ports := q\<rparr>)"
    using q(1) strlen_string [OF assms(1)] by (simp add: print_serial_def serial_loop_eq Let_def)
  with q ws show ?thesis by (auto split: if_splits)
qed

lemma puts_ok:
  assumes "string_at m s t" "lock_free (con_lock c)" "line_ready (con_ports c)"
    "clear_of_screen s (length t)" "row_ok c" "length t < 2 ^ 30"
  shows "\<exists>c' m' ws. puts s c m = Some (c', m') \<and> lock_free (con_lock c') \<and> line_ready (con_ports c') \<and> row_ok c'
    \<and> setup_of (serial_inited c) ws \<and> serial_inited c' \<noteq> 0
    \<and> p_out (con_ports c') = p_out (con_ports c) @ ws @ concat (map crlf t)
    \<and> screen m' = (if shown_row c = 25 then shown c m
                   else splice (160 * nat (shown_row c)) (text_cells t 0x02) (shown c m))"
proof -
  obtain l where l: "spin_lock (con_lock c) = Some l" using assms(2) by (auto simp: spin_lock_free)
  let ?c = "c\<lparr>con_lock := l\<rparr>"
  have "line_ready (con_ports ?c)" using assms(3) by simp
  from print_serial_ok [OF assms(1) this] obtain c1 ws where c1: "print_serial m s ?c = Some c1"
    "line_ready (con_ports c1)" "setup_of (serial_inited c) ws" "serial_inited c1 \<noteq> 0"
    "p_out (con_ports c1) = p_out (con_ports c) @ ws @ concat (map crlf t)"
    "con_row c1 = con_row c" "con_cleared c1 = con_cleared c"
    by auto
  have row: "row_ok c1" "shown_row c1 = shown_row c" "shown c1 m = shown c m"
    using assms(5) c1 by (simp_all add: row_ok_def shown_row_def shown_def)
  obtain c2 m2 where d: "do_syscall 2 s 2 c1 m = Some (c2, m2)" "row_ok c2"
    "screen m2 = (if shown_row c = 25 then shown c m
       else splice (160 * nat (shown_row c)) (text_cells t 2) (shown c m))"
    using do_syscall_screen [OF assms(1,4) row(1) assms(6), of 2] unfolding row by blast
  have c2: "con_ports c2 = con_ports c1" "serial_inited c2 = serial_inited c1"
    using do_syscall_eq [OF assms(1,4) row(1) assms(6), of 2] d(1) by (auto simp del: of_nat_mult)
  have "puts s c m = Some (c2\<lparr>con_lock := spin_unlock (con_lock c2)\<rparr>, m2)"
    by (simp add: puts_def l c1(1) sys_show_def d(1))
  moreover have "row_ok (c2\<lparr>con_lock := spin_unlock (con_lock c2)\<rparr>)" using d(2) by (simp add: row_ok_def)
  ultimately show ?thesis
    using c1 c2 d(3) by (intro exI conjI) (assumption | simp)+
qed

text \<open>C30. \<open>puts\<close> returns, with the lock free, when the lock was free and the line becomes ready again
  and again; the string has gone out on the serial line, with a carriage return in front of every
  newline, behind the line's setup when this was the first output, and to the screen.\<close>

theorem puts_correct:
  assumes "string_at m s t" "lock_free (con_lock c)" "line_ready (con_ports c)"
    "clear_of_screen s (length t)" "row_ok c" "length t < 2 ^ 30"
  shows "\<exists>c' m' ws. puts s c m = Some (c', m') \<and> lock_free (con_lock c') \<and> line_ready (con_ports c') \<and> row_ok c'
    \<and> setup_of (serial_inited c) ws \<and> serial_inited c' \<noteq> 0
    \<and> p_out (con_ports c') = p_out (con_ports c) @ ws @ concat (map crlf t)
    \<and> screen m' = (if shown_row c = 25 then shown c m
                   else splice (160 * nat (shown_row c)) (text_cells t 0x02) (shown c m))"
  using assms by (rule puts_ok)

lemma console0_line: "line_ready (con_ports console0)"
  by (auto simp: line_ready_def keeps_ready_def ready_at_def console0_def tx_empty_def)

theorem puts_correct_witness:
  "\<exists>c' m' lcr lcr'. puts 0x1000 console0 hello = Some (c', m') \<and>
     p_out (con_ports c') =
       uart_setup lcr lcr' @ [(0x3f8, 0x68), (0x3f8, 0x69), (0x3f8, 0x0D), (0x3f8, 0x0A)]"
proof -
  have "clear_of_screen 0x1000 (length [0x68, 0x69, 0x0A :: u8])" by (rule clear_of_screen_low) simp_all
  moreover have "lock_free (con_lock console0)" "row_ok console0" "serial_inited console0 = 0"
    "p_out (con_ports console0) = []"
    by (simp_all add: console0_def lock_free_def row_ok_def)
  ultimately show ?thesis
    using puts_correct [OF hello_string _ console0_line] by (auto simp: setup_of_def crlf_def)
qed

text \<open>On a line whose transmitter never gets empty, \<open>puts\<close> of any text does not return, and so
  does no \<open>printf\<close> of the kernel that prints something.\<close>

theorem puts_dead_line_hangs:
  assumes "string_at m s (x # t)" "\<And>n. \<not> ready_at (p_dev (con_ports c)) 0x3fd tx_empty n"
  shows "puts s c m = None"
proof (cases "spin_lock (con_lock c)")
  case (Some l)
  let ?c = "c\<lparr>con_lock := l\<rparr>"
  let ?c1 = "if serial_inited ?c = 0
    then ?c\<lparr>con_ports := serial_init (con_ports ?c), serial_inited := 1\<rparr> else ?c"
  have "p_dev (con_ports ?c1) = p_dev (con_ports c)" by (simp add: serial_init_out(2))
  then have "poll 0x3fd tx_empty (con_ports ?c1) = None"
    using poll_Some [of "0x3fd" tx_empty "con_ports ?c1"] assms(2) by (metis not_None_eq)
  then have out: "serial_outb y (con_ports ?c1) = None" for y
    by (simp add: serial_outb_def serial_iobase_def)
  have put: "serial_put x (con_ports ?c1) = None"
  proof -
    have "serial_put x q = None" if "\<And>y. serial_outb y q = None" for q
      using that by (simp add: serial_put_def)
    then show ?thesis using out by blast
  qed
  have "unat (of_nat (length (x # t)) :: u32) = Suc (length t)"
    using string_at_length [OF assms(1)] by (subst unat_of_nat32) simp_all
  moreover have "m s = x" using assms(1) by simp
  ultimately have "print_serial m s ?c = None"
    using strlen_string [OF assms(1)] put unfolding print_serial_def
    by (simp only: option.case Let_def serial_loop.simps option.map)
  then show ?thesis by (simp add: puts_def Some)
qed (simp add: puts_def)

theorem puts_dead_line_hangs_witness:
  "puts 0x1000 (console0\<lparr>con_ports := (con_ports console0)\<lparr>p_dev := (\<lambda>_ _. 0)\<rparr>\<rparr>) hello = None"
  by (rule puts_dead_line_hangs [OF hello_string]) (simp add: ready_at_def tx_empty_def)

section \<open>A whole \<open>printf\<close>\<close>

text \<open>C15. Every \<open>printf\<close> whose formatting does not fault returns the count of its characters, with the
  lock free, and the line and the screen have got the text that stands in its buffer, which has at most
  511 characters: formatting, strings, serial line and screen put together.\<close>

theorem kprintf_correct:
  assumes "printf m sp fmt va = Inr (m1, buf, n)"
    and "lock_free (con_lock c)" "line_ready (con_ports c)" "row_ok c" "clear_of_screen sp 512"
  shows "\<exists>t c' m' ws. kprintf sp fmt va c m = Some (Inr (n, c', m')) \<and> lock_free (con_lock c')
    \<and> string_at m1 sp t \<and> length t < 512 \<and> setup_of (serial_inited c) ws
    \<and> p_out (con_ports c') = p_out (con_ports c) @ ws @ concat (map crlf t)"
proof -
  have b: "buf = sp" "\<exists>k<512. m1 (sp + of_nat k) = 0" using printf_in_buffer [OF assms(1)] by blast+
  then obtain k where k: "k < 512" "m1 (sp + of_nat k) = 0" by blast
  then obtain t where t: "string_at m1 sp t" using ex_string_at by blast
  have len: "length t < 512"
  proof (rule ccontr)
    assume "\<not> length t < 512"
    then show False using string_at_nonzero [OF t, of k] k by simp
  qed
  have "clear_of_screen sp (length t)"
  proof -
    have "span sp (Suc (length t)) \<subseteq> span sp (Suc 512)"
      "span 0xb8000 (4000 + 2 * length t) \<subseteq> span 0xb8000 (4000 + 2 * 512)"
      using len by (intro span_mono; simp)+
    then show ?thesis using assms(5) unfolding clear_of_screen_def by blast
  qed
  from puts_ok [OF t assms(2,3) this assms(4)] len t b show ?thesis
    by (fastforce simp: kprintf_def assms(1))
qed

theorem kprintf_correct_witness:
  "\<exists>c' m'. kprintf 0x8000 [ch CHR ''%'', ch CHR ''u''] [Slot 42] console0 (\<lambda>_. 7) = Some (Inr (2, c', m'))
     \<and> lock_free (con_lock c')"
proof -
  obtain m1 where m1: "printf (\<lambda>_. 7) 0x8000 [ch CHR ''%'', ch CHR ''u''] [Slot 42] = Inr (m1, 0x8000, 2)"
    using printf_42 by blast
  have "lock_free (con_lock console0)" "row_ok console0"
    by (simp_all add: console0_def lock_free_def row_ok_def)
  moreover have "clear_of_screen 0x8000 512" by (rule clear_of_screen_low) simp_all
  ultimately show ?thesis using kprintf_correct [OF m1 _ console0_line] by blast
qed

end
