(* ===== verification/Descriptors.thy ===== *)
theory Descriptors
  imports Port_Io Phys_Alloc
begin

text \<open>
  Segments, gates and tasks: the descriptor tables of \<open>include/desc.h\<close> and
  \<open>src/basic_set/os.c\<close>, the interrupt setup of \<open>src/kernel/irq.c\<close>, the system call gate of
  \<open>src/kernel/syscall.c\<close> and the task segments of \<open>src/kernel/task.c\<close>. The tables are lists of
  the structures; what the processor reads are their eight bytes.
\<close>

unbundle bit_operations_syntax

section \<open>Privilege levels\<close>

datatype ring = Ring0 | Ring1 | Ring2 | Ring3

primrec ring_num :: "ring \<Rightarrow> nat" where
  "ring_num Ring0 = 0"
| "ring_num Ring1 = 1"
| "ring_num Ring2 = 2"
| "ring_num Ring3 = 3"

lemma ring_num_inject [simp]: "ring_num r = ring_num q \<longleftrightarrow> r = q"
  by (cases r; cases q) simp_all

instantiation ring :: linorder
begin

definition less_eq_ring :: "ring \<Rightarrow> ring \<Rightarrow> bool" where
  "r \<le> q \<longleftrightarrow> ring_num r \<le> ring_num q"

definition less_ring :: "ring \<Rightarrow> ring \<Rightarrow> bool" where
  "r < q \<longleftrightarrow> ring_num r < ring_num q"

instance
  by standard (auto simp: less_eq_ring_def less_ring_def)

end

definition ring_of :: "u8 \<Rightarrow> ring" where
  "ring_of w =
     (if w AND 3 = 0 then Ring0 else if w AND 3 = 1 then Ring1 else if w AND 3 = 2 then Ring2 else Ring3)"

section \<open>The structures\<close>

record gdt_entry =
  limit_low :: u16
  base_low :: u16
  base_middle :: u8
  access :: u8
  granularity :: u8
  base_high :: u8

text \<open>The bit fields of a gate are kept as their own small numbers; \<open>_pad5\<close> and \<open>_pad1\<close> are the unnamed
  ones, which no assignment touches.\<close>

record idt_entry =
  i_offset0 :: u16
  i_selector :: u16
  i_ist :: u16
  i_pad5 :: u16
  i_type :: u16
  i_pad1 :: u16
  i_dpl :: u16
  i_p :: u16
  i_offset1 :: u16

record syscall_des_t =
  s_offset0 :: u16
  s_sellector :: u16
  s_param_count :: u16
  s_pad3 :: u16
  s_type :: u16
  s_pad1 :: u16
  s_dpl :: u16
  s_p :: u16
  s_offset1 :: u16

text \<open>An assignment to a bit field of \<open>n\<close> bits keeps the low \<open>n\<close> bits of the value.\<close>

definition bitfield :: "nat \<Rightarrow> u16 \<Rightarrow> u16" where
  "bitfield n x = take_bit n x"

definition gdt_bytes :: "gdt_entry \<Rightarrow> u8 list" where
  "gdt_bytes e = le16 (limit_low e) @ le16 (base_low e) @ [base_middle e, access e, granularity e, base_high e]"

definition idt_bytes :: "idt_entry \<Rightarrow> u8 list" where
  "idt_bytes e = le16 (i_offset0 e) @ le16 (i_selector e)
     @ le16 (i_ist e OR push_bit 3 (i_pad5 e) OR push_bit 8 (i_type e) OR push_bit 12 (i_pad1 e)
         OR push_bit 13 (i_dpl e) OR push_bit 15 (i_p e))
     @ le16 (i_offset1 e)"

definition syscall_bytes :: "syscall_des_t \<Rightarrow> u8 list" where
  "syscall_bytes e = le16 (s_offset0 e) @ le16 (s_sellector e)
     @ le16 (s_param_count e OR push_bit 5 (s_pad3 e) OR push_bit 8 (s_type e) OR push_bit 12 (s_pad1 e)
         OR push_bit 13 (s_dpl e) OR push_bit 15 (s_p e))
     @ le16 (s_offset1 e)"

text \<open>Reading eight bytes back as a \<open>gdt_table_t\<close>, for the \<open>memcpy\<close> of \<open>init_syscall\<close>.\<close>

definition of_le16 :: "u8 \<Rightarrow> u8 \<Rightarrow> u16" where
  "of_le16 l h = ucast l OR push_bit 8 (ucast h)"

definition gdt_of_bytes :: "u8 list \<Rightarrow> gdt_entry" where
  "gdt_of_bytes bs = \<lparr>limit_low = of_le16 (bs ! 0) (bs ! 1), base_low = of_le16 (bs ! 2) (bs ! 3),
     base_middle = bs ! 4, access = bs ! 5, granularity = bs ! 6, base_high = bs ! 7\<rparr>"

section \<open>What the processor reads\<close>

text \<open>A segment or task descriptor: base, limit in bytes, and the type, system and privilege bits.\<close>

definition seg_base :: "gdt_entry \<Rightarrow> u32" where
  "seg_base e = ucast (base_low e) OR push_bit 16 (ucast (base_middle e)) OR push_bit 24 (ucast (base_high e))"

definition seg_limit :: "gdt_entry \<Rightarrow> u32" where
  "seg_limit e =
     (let l = ucast (limit_low e) OR push_bit 16 (ucast (granularity e AND 0x0F))
      in if bit (granularity e) 7 then push_bit 12 l OR 0xFFF else l)"

definition seg_type :: "gdt_entry \<Rightarrow> u8" where
  "seg_type e = access e AND 0x0F"

definition seg_is_system :: "gdt_entry \<Rightarrow> bool" where
  "seg_is_system e \<longleftrightarrow> \<not> bit (access e) 4"

definition seg_dpl :: "gdt_entry \<Rightarrow> ring" where
  "seg_dpl e = ring_of (drop_bit 5 (access e))"

definition seg_present :: "gdt_entry \<Rightarrow> bool" where
  "seg_present e \<longleftrightarrow> bit (access e) 7"

text \<open>A gate, from its eight bytes.\<close>

definition gate_offset :: "u8 list \<Rightarrow> u32" where
  "gate_offset bs = ucast (of_le16 (bs ! 0) (bs ! 1)) OR push_bit 16 (ucast (of_le16 (bs ! 6) (bs ! 7)))"

definition gate_selector :: "u8 list \<Rightarrow> u16" where
  "gate_selector bs = of_le16 (bs ! 2) (bs ! 3)"

definition gate_params :: "u8 list \<Rightarrow> u8" where
  "gate_params bs = bs ! 4 AND 0x1F"

definition gate_type :: "u8 list \<Rightarrow> u8" where
  "gate_type bs = bs ! 5 AND 0x1F"

definition gate_dpl :: "u8 list \<Rightarrow> ring" where
  "gate_dpl bs = ring_of (drop_bit 5 (bs ! 5))"

definition gate_present :: "u8 list \<Rightarrow> bool" where
  "gate_present bs \<longleftrightarrow> bit (bs ! 5) 7"

text \<open>The descriptor a selector names.\<close>

definition selector_index :: "u16 \<Rightarrow> nat" where
  "selector_index sel = unat (drop_bit 3 sel)"

definition selector_rpl :: "u16 \<Rightarrow> ring" where
  "selector_rpl sel = ring_of (ucast sel)"

section \<open>The tables\<close>

record tables =
  gdt_table :: "gdt_entry list"
  idt_table :: "idt_entry list"
  syscall_des :: syscall_des_t
  task_tss :: u32  \<comment> \<open>the static variable of \<open>task_sched\<close>\<close>

definition KERNEL_CODE_SEG :: u16 where "KERNEL_CODE_SEG = 1 * 8"
definition KERNEL_DATA_SEG :: u16 where "KERNEL_DATA_SEG = 2 * 8"
definition APP_CODE_SEG :: u16 where "APP_CODE_SEG = (3 * 8) OR 3"
definition APP_DATA_SEG :: u16 where "APP_DATA_SEG = (4 * 8) OR 3"
definition TASK_0_TSS :: u32 where "TASK_0_TSS = 5 * 8"
definition TASK_1_TSS :: u32 where "TASK_1_TSS = 6 * 8"
definition KERNEL_TSS :: u16 where "KERNEL_TSS = 16 * 8"

definition gdt_zero :: gdt_entry where
  "gdt_zero = \<lparr>limit_low = 0, base_low = 0, base_middle = 0, access = 0, granularity = 0, base_high = 0\<rparr>"

definition idt_zero :: idt_entry where
  "idt_zero = \<lparr>i_offset0 = 0, i_selector = 0, i_ist = 0, i_pad5 = 0, i_type = 0, i_pad1 = 0, i_dpl = 0, i_p = 0,
     i_offset1 = 0\<rparr>"

definition syscall_zero :: syscall_des_t where
  "syscall_zero = \<lparr>s_offset0 = 0, s_sellector = 0, s_param_count = 0, s_pad3 = 0, s_type = 0, s_pad1 = 0, s_dpl = 0,
     s_p = 0, s_offset1 = 0\<rparr>"

definition gdt_boot :: "gdt_entry list" where
  "gdt_boot =
     [gdt_zero,
      \<lparr>limit_low = 0xffff, base_low = 0x0000, base_middle = 0x0, access = 0x9a, granularity = 0xcf, base_high = 0x00\<rparr>,
      \<lparr>limit_low = 0xffff, base_low = 0x0000, base_middle = 0x0, access = 0x92, granularity = 0xcf, base_high = 0x00\<rparr>,
      \<lparr>limit_low = 0xffff, base_low = 0x0000, base_middle = 0x0, access = 0xfa, granularity = 0xcf, base_high = 0x00\<rparr>,
      \<lparr>limit_low = 0xffff, base_low = 0x0000, base_middle = 0x0, access = 0xf3, granularity = 0xcf, base_high = 0x00\<rparr>]
     @ replicate 251 gdt_zero"

definition idt_boot :: "idt_entry list" where
  "idt_boot = replicate 256 idt_zero"

definition tables_boot :: tables where
  "tables_boot = \<lparr>gdt_table = gdt_boot, idt_table = idt_boot, syscall_des = syscall_zero, task_tss = TASK_0_TSS\<rparr>"

section \<open>Interrupts\<close>

text \<open>An index is not checked by the code; outside the 256 entries the write leaves the array.\<close>

definition idt_update :: "int \<Rightarrow> (idt_entry \<Rightarrow> idt_entry) \<Rightarrow> tables \<Rightarrow> fault + tables" where
  "idt_update vec f t =
     (if 0 \<le> vec \<and> vec < int (length (idt_table t))
      then Inr (t\<lparr>idt_table := (idt_table t)[nat vec := f (idt_table t ! nat vec)]\<rparr>)
      else Inl (OutOfBounds ''idt_table'' vec))"

definition set_idt_entry :: "int \<Rightarrow> u32 \<Rightarrow> u16 \<Rightarrow> u32 \<Rightarrow> tables \<Rightarrow> fault + tables" where
  "set_idt_entry vec addr selector dpl t =
     idt_update vec (\<lambda>e. e\<lparr>i_offset0 := ucast addr, i_selector := selector, i_ist := 0, i_type := bitfield 4 0xE,
        i_dpl := bitfield 2 (ucast dpl), i_p := 1, i_offset1 := ucast (drop_bit 16 addr)\<rparr>) t"

definition set_idt_dpl :: "int \<Rightarrow> u16 \<Rightarrow> tables \<Rightarrow> fault + tables" where
  "set_idt_dpl vec dpl t = idt_update vec (\<lambda>e. e\<lparr>i_dpl := bitfield 2 dpl\<rparr>) t"

definition set_idt_sel :: "int \<Rightarrow> u16 \<Rightarrow> tables \<Rightarrow> fault + tables" where
  "set_idt_sel vec sel t = idt_update vec (\<lambda>e. e\<lparr>i_selector := sel\<rparr>) t"

text \<open>The ports of the two interrupt controllers.\<close>

definition PIC0_ICW1 :: u16 where "PIC0_ICW1 = 0x20"
definition PIC0_ICW2 :: u16 where "PIC0_ICW2 = 0x21"
definition PIC0_ICW3 :: u16 where "PIC0_ICW3 = 0x21"
definition PIC0_ICW4 :: u16 where "PIC0_ICW4 = 0x21"
definition PIC0_IMR :: u16 where "PIC0_IMR = 0x21"
definition PIC1_ICW1 :: u16 where "PIC1_ICW1 = 0xa0"
definition PIC1_ICW2 :: u16 where "PIC1_ICW2 = 0xa1"
definition PIC1_ICW3 :: u16 where "PIC1_ICW3 = 0xa1"
definition PIC1_ICW4 :: u16 where "PIC1_ICW4 = 0xa1"
definition PIC1_IMR :: u16 where "PIC1_IMR = 0xa1"

lemmas pic_ports = PIC0_ICW1_def PIC0_ICW2_def PIC0_ICW3_def PIC0_ICW4_def PIC0_IMR_def
  PIC1_ICW1_def PIC1_ICW2_def PIC1_ICW3_def PIC1_ICW4_def PIC1_IMR_def

definition PIC_ICW1_ICW4 :: u8 where "PIC_ICW1_ICW4 = push_bit 0 1"
definition PIC_ICW1_ALWAYS_1 :: u8 where "PIC_ICW1_ALWAYS_1 = push_bit 4 1"
definition PIC_ICW4_8086 :: u8 where "PIC_ICW4_8086 = push_bit 0 1"
definition IRQ_PIC_START :: u8 where "IRQ_PIC_START = 0x20"

text \<open>The last three writes have port and value the wrong way round: \<open>outb\<close> takes the port first.\<close>

definition irq_writes :: "(u16 \<times> u8) list" where
  "irq_writes =
     (let tmo = 1193180 div 1 :: u32
      in [(PIC0_ICW1, PIC_ICW1_ALWAYS_1 OR PIC_ICW1_ICW4), (PIC0_ICW2, IRQ_PIC_START), (PIC0_ICW3, push_bit 2 1),
          (PIC0_ICW4, PIC_ICW4_8086),
          (PIC1_ICW1, PIC_ICW1_ALWAYS_1 OR PIC_ICW1_ICW4), (PIC1_ICW2, IRQ_PIC_START + 8), (PIC1_ICW3, 2),
          (PIC1_ICW4, PIC_ICW4_8086),
          (PIC0_IMR, 0xFE), (PIC1_IMR, 0xFF),
          (0x36, 0x43), (ucast (ucast tmo :: u8), 0x40), (ucast (drop_bit 8 tmo), 0x40)])"

definition irq_init :: "u32 \<Rightarrow> ports \<Rightarrow> tables \<Rightarrow> fault + ports \<times> tables" where
  "irq_init timer_int s t =
     (let s1 = outbs irq_writes s
      in map_sum id (Pair s1) (set_idt_entry 0x20 timer_int KERNEL_CODE_SEG 0 t))"

section \<open>The system call gate\<close>

definition init_syscall :: "u32 \<Rightarrow> tables \<Rightarrow> tables" where
  "init_syscall syscall_handler t =
     (let des = (syscall_des t)\<lparr>s_offset0 := ucast syscall_handler, s_offset1 := ucast (drop_bit 16 syscall_handler),
                  s_sellector := KERNEL_CODE_SEG, s_param_count := bitfield 5 3, s_type := bitfield 4 0xC,
                  s_dpl := bitfield 2 3, s_p := 1\<rparr>
      in t\<lparr>syscall_des := des, gdt_table := (gdt_table t)[7 := gdt_of_bytes (syscall_bytes des)]\<rparr>)"

section \<open>Tasks\<close>

text \<open>The three segments that \<open>task_init\<close> fills in, field by field, for the addresses of the arrays.\<close>

definition tss_entry :: "u16 \<Rightarrow> u8 \<Rightarrow> u32 \<Rightarrow> gdt_entry \<Rightarrow> gdt_entry" where
  "tss_entry limit acc tss e =
     e\<lparr>limit_low := limit, base_low := ucast (tss AND 0xffff), base_middle := ucast (drop_bit 16 tss AND 0xff),
       access := acc, granularity := 0x0, base_high := ucast (drop_bit 24 tss AND 0xff)\<rparr>"

definition task_init :: "u32 \<Rightarrow> u32 \<Rightarrow> u32 \<Rightarrow> tables \<Rightarrow> tables" where
  "task_init task0_tss task1_tss kernel_tss t =
     (let g = gdt_table t;
          g1 = g[5 := tss_entry 0x86 0xe9 task0_tss (g ! 5)];
          g2 = g1[6 := tss_entry 0x86 0xe9 task1_tss (g1 ! 6)];
          g3 = g2[16 := tss_entry 0xffff 0x89 kernel_tss (g2 ! 16)]
      in t\<lparr>gdt_table := g3\<rparr>)"

text \<open>\<open>task_sched\<close>, with the selector of its far jump.\<close>

definition task_sched :: "tables \<Rightarrow> u32 \<times> tables" where
  "task_sched t =
     (let nxt = (if task_tss t = TASK_0_TSS then TASK_1_TSS else TASK_0_TSS)
      in (nxt, t\<lparr>task_tss := nxt\<rparr>))"

text \<open>The initialisers of the task segments, in the order of the structure \<open>tss_t\<close>.\<close>

definition user_tss :: "u32 \<Rightarrow> u32 \<Rightarrow> u32 \<Rightarrow> u32 list" where
  "user_tss stack_dpl1 stack_dpl3 entry =
     [0, stack_dpl1 + 4096, ucast KERNEL_DATA_SEG, 0x0, 0x0, 0x0, 0x0,
      0xA000, entry, 0x202, 0xa, 0xc, 0xd, 0xb,
      stack_dpl3 + 4096, 0x1, 0x2, 0x3,
      ucast APP_DATA_SEG, ucast APP_CODE_SEG, ucast APP_DATA_SEG, ucast APP_DATA_SEG, ucast APP_DATA_SEG,
      ucast APP_DATA_SEG, 0x0, 0x0]"

definition task0_tss :: "u32 \<Rightarrow> u32 \<Rightarrow> u32 \<Rightarrow> u32 list" where
  "task0_tss task_0_stack_dpl1 task_0_stack_dpl3 task_0_entry = user_tss task_0_stack_dpl1 task_0_stack_dpl3 task_0_entry"

definition task1_tss :: "u32 \<Rightarrow> u32 \<Rightarrow> u32 \<Rightarrow> u32 list" where
  "task1_tss task_1_stack_dpl1 task_1_stack_dpl3 task_1_entry = user_tss task_1_stack_dpl1 task_1_stack_dpl3 task_1_entry"

definition kernel_tss_of :: "u32 \<Rightarrow> u32 list" where
  "kernel_tss_of stack =
     [0, stack, ucast KERNEL_DATA_SEG, 0x0, 0x0, 0x0, 0x0,
      0x0, 0x0, 0x0, 0x0, 0x0, 0x0, 0x0,
      0x0, 0x0, 0x0, 0x0,
      0x0, ucast KERNEL_CODE_SEG, ucast KERNEL_DATA_SEG, 0x0, 0x0, 0x0, 0x0, 0x0]"

definition kernel_tss :: "u32 list" where
  "kernel_tss = kernel_tss_of 0x7c00"

definition kernel_tss2 :: "u32 list" where
  "kernel_tss2 = kernel_tss_of 0x6c00"

section \<open>The initialisation\<close>

text \<open>\<open>init\<close> of \<open>src/kernel/init.c\<close>, on the ports, the tables and the state of the early
  allocator. The addresses of code and data that the linker assigns are parameters.\<close>

record addresses =
  a_timer_int :: u32
  a_syscall_handler :: u32
  a_task0_tss :: u32
  a_task1_tss :: u32
  a_kernel_tss :: u32

definition init ::
    "addresses \<Rightarrow> ports \<Rightarrow> tables \<Rightarrow> phys_state \<Rightarrow> (fault + ports \<times> tables \<times> phys_state) option" where
  "init a p t s =
     (case irq_init (a_timer_int a) p (init_syscall (a_syscall_handler a) t) of
        Inl f \<Rightarrow> Some (Inl f)
      | Inr (p1, t1) \<Rightarrow>
         (case mem_init s of
            None \<Rightarrow> None
          | Some s1 \<Rightarrow> Some (Inr (p1, task_init (a_task0_tss a) (a_task1_tss a) (a_kernel_tss a) t1, s1))))"

section \<open>Lemmas on bytes\<close>

lemma of_le16_le16: "of_le16 (ucast x) (ucast (drop_bit 8 x)) = x"
  by (rule bit_word_eqI) (auto simp: of_le16_def bit_simps)

lemma offset_halves:
  "(ucast (ucast a :: u16) :: u32) OR push_bit 16 (ucast (ucast (drop_bit 16 a) :: u16)) = a"
  by (rule bit_word_eqI) (auto simp: bit_simps)

lemma base_parts:
  "(ucast (ucast (a AND 0xffff) :: u16) :: u32) OR push_bit 16 (ucast (ucast (drop_bit 16 a AND 0xff) :: u8))
     OR push_bit 24 (ucast (ucast (drop_bit 24 a AND 0xff) :: u8)) = a"
proof -
  have m: "(0xffff :: u32) = mask 16" "(0xff :: u32) = mask 8" by (simp_all add: mask_eq_exp_minus_1)
  show ?thesis unfolding m
  proof (rule bit_word_eqI)
    fix n assume "n < LENGTH(32)"
    then consider "n < 16" | "16 \<le> n" "n < 24" | "24 \<le> n" "n < 32" by fastforce
    then show "bit (ucast (ucast (a AND mask 16) :: u16) OR push_bit 16 (ucast (ucast (drop_bit 16 a AND mask 8) :: u8))
      OR push_bit 24 (ucast (ucast (drop_bit 24 a AND mask 8) :: u8)) :: u32) n \<longleftrightarrow> bit a n"
      by cases (auto simp: bit_simps)
  qed
qed

lemma gdt_of_gdt_bytes: "gdt_of_bytes (gdt_bytes e) = e"
  by (simp add: gdt_of_bytes_def gdt_bytes_def le16_def of_le16_le16)

lemma gdt_bytes_of:
  assumes "length bs = 8"
  shows "gdt_bytes (gdt_of_bytes bs) = bs"
proof -
  have l: "(ucast (of_le16 l h) :: u8) = l" and h: "(ucast (drop_bit 8 (of_le16 l h)) :: u8) = h" for l h
    by (rule bit_word_eqI, auto simp: of_le16_def bit_simps dest: bit_imp_le_length)+
  obtain b0 b1 b2 b3 b4 b5 b6 b7 where "bs = [b0, b1, b2, b3, b4, b5, b6, b7]"
    using assms by (auto simp: eval_nat_numeral length_Suc_conv)
  then show ?thesis by (simp add: gdt_bytes_def gdt_of_bytes_def le16_def l h)
qed

section \<open>What the tables say\<close>

text \<open>The eight bytes of a gate, read as the processor reads them.\<close>

definition gate_is :: "u8 list \<Rightarrow> u32 \<Rightarrow> u16 \<Rightarrow> u8 \<Rightarrow> u8 \<Rightarrow> ring \<Rightarrow> bool" where
  "gate_is bs off sel ty params dpl \<longleftrightarrow>
     gate_offset bs = off \<and> gate_selector bs = sel \<and> gate_type bs = ty \<and> gate_params bs = params
     \<and> gate_dpl bs = dpl \<and> gate_present bs"

text \<open>Who may go through a gate by an instruction.\<close>

definition gate_usable :: "ring \<Rightarrow> u8 list \<Rightarrow> bool" where
  "gate_usable cpl bs \<longleftrightarrow> gate_present bs \<and> cpl \<le> gate_dpl bs"

lemma gate_usable_iff:
  "gate_is bs off sel ty params Ring3 \<Longrightarrow> gate_usable r bs"
  "gate_is bs off sel ty params Ring0 \<Longrightarrow> gate_usable r bs \<longleftrightarrow> r = Ring0"
  by (cases r; simp add: gate_is_def gate_usable_def less_eq_ring_def)+

lemma take_bit_2_cases:
  fixes x :: u16
  obtains "take_bit 2 x = 0" | "take_bit 2 x = 1" | "take_bit 2 x = 2" | "take_bit 2 x = 3"
proof -
  have "unat (take_bit 2 x) < 2 ^ 2"
    unfolding unsigned_take_bit_eq by (rule take_bit_nat_less_exp)
  then have "unat (take_bit 2 x) \<in> {0, 1, 2, 3}" by auto
  then show thesis using that by (auto simp del: unat_take_bit simp: word_unat_eq_iff)
qed

lemma ring_of_take_bit: "ring_of (ucast (take_bit 2 x :: u16)) = ring_of (ucast x)"
proof -
  have m: "(3 :: u8) = mask 2" by (simp add: mask_eq_exp_minus_1)
  have "(ucast (take_bit 2 x) :: u8) AND 3 = ucast x AND 3"
    unfolding m by (rule bit_word_eqI) (auto simp: bit_simps)
  then show ?thesis by (simp add: ring_of_def)
qed

lemma idt_gate:
  assumes "i_offset0 e = ucast addr" "i_offset1 e = ucast (drop_bit 16 addr)" "i_ist e = 0" "i_pad5 e = 0"
    "i_pad1 e = 0" "i_type e = 0xE" "i_dpl e = bitfield 2 d" "i_p e = 1"
  shows "gate_is (idt_bytes e) addr (i_selector e) 0xE 0 (ring_of (ucast d))"
proof -
  have "gate_offset (idt_bytes e) = addr" "gate_selector (idt_bytes e) = i_selector e"
    by (simp_all add: gate_offset_def gate_selector_def idt_bytes_def le16_def of_le16_le16 assms offset_halves)
  moreover have "gate_type (idt_bytes e) = 0xE \<and> gate_params (idt_bytes e) = 0
      \<and> gate_dpl (idt_bytes e) = ring_of (ucast d) \<and> gate_present (idt_bytes e)"
    unfolding ring_of_take_bit [of d, symmetric]
    by (cases rule: take_bit_2_cases [of d])
      (simp_all add: gate_type_def gate_params_def gate_dpl_def gate_present_def ring_of_def idt_bytes_def le16_def
        assms bitfield_def)
  ultimately show ?thesis by (simp add: gate_is_def)
qed

lemma syscall_gate:
  assumes "s_offset0 e = ucast addr" "s_offset1 e = ucast (drop_bit 16 addr)" "s_pad3 e = 0" "s_pad1 e = 0"
    "s_param_count e = 3" "s_type e = 0xC" "s_dpl e = 3" "s_p e = 1"
  shows "gate_is (syscall_bytes e) addr (s_sellector e) 0xC 3 Ring3"
proof -
  have "gate_offset (syscall_bytes e) = addr" "gate_selector (syscall_bytes e) = s_sellector e"
    by (simp_all add: gate_offset_def gate_selector_def syscall_bytes_def le16_def of_le16_le16 assms offset_halves)
  moreover have "gate_type (syscall_bytes e) = 0xC \<and> gate_params (syscall_bytes e) = 3
      \<and> gate_dpl (syscall_bytes e) = Ring3 \<and> gate_present (syscall_bytes e)"
    by (simp add: gate_type_def gate_params_def gate_dpl_def gate_present_def ring_of_def syscall_bytes_def le16_def
        assms)
  ultimately show ?thesis by (simp add: gate_is_def)
qed

lemma set_idt_entry_gate:
  assumes "i_pad5 (idt_table t ! nat vec) = 0" "i_pad1 (idt_table t ! nat vec) = 0"
  shows "if 0 \<le> vec \<and> vec < int (length (idt_table t))
    then \<exists>t'. set_idt_entry vec addr selector dpl t = Inr t'
      \<and> gate_is (idt_bytes (idt_table t' ! nat vec)) addr selector 0xE 0 (ring_of (ucast dpl))
      \<and> (\<forall>k. k \<noteq> nat vec \<longrightarrow> idt_table t' ! k = idt_table t ! k) \<and> gdt_table t' = gdt_table t
    else set_idt_entry vec addr selector dpl t = Inl (OutOfBounds ''idt_table'' vec)"
proof (cases "0 \<le> vec \<and> vec < int (length (idt_table t))")
  case True
  let ?e = "(idt_table t ! nat vec)\<lparr>i_offset0 := ucast addr, i_selector := selector, i_ist := 0,
    i_type := bitfield 4 0xE, i_dpl := bitfield 2 (ucast dpl), i_p := 1, i_offset1 := ucast (drop_bit 16 addr)\<rparr>"
  have "bitfield 4 0xE = 0xE" by (simp add: bitfield_def)
  then have "gate_is (idt_bytes ?e) addr (i_selector ?e) 0xE 0 (ring_of (ucast (ucast dpl :: u16)))"
    using assms by (intro idt_gate) simp_all
  moreover have "(ucast (ucast dpl :: u16) :: u8) = ucast dpl"
    by (rule bit_word_eqI) (auto simp: bit_simps)
  moreover have "set_idt_entry vec addr selector dpl t = Inr (t\<lparr>idt_table := (idt_table t)[nat vec := ?e]\<rparr>)"
    using True by (simp add: set_idt_entry_def idt_update_def)
  ultimately show ?thesis using True by (auto simp: nat_less_iff)
qed (auto simp: set_idt_entry_def idt_update_def)

text \<open>\<open>set_idt_entry\<close> makes the entry a present 32-bit interrupt gate to the given address, code
  segment and (in two bits) privilege level, as the processor decodes its bytes, and touches no other
  entry; an index outside the table is not caught and leaves the array.\<close>

theorem set_idt_entry_correct:
  assumes "i_pad5 (idt_table t ! nat vec) = 0" "i_pad1 (idt_table t ! nat vec) = 0"
  shows "if 0 \<le> vec \<and> vec < int (length (idt_table t))
    then \<exists>t'. set_idt_entry vec addr selector dpl t = Inr t'
      \<and> gate_is (idt_bytes (idt_table t' ! nat vec)) addr selector 0xE 0 (ring_of (ucast dpl))
      \<and> (\<forall>k. k \<noteq> nat vec \<longrightarrow> idt_table t' ! k = idt_table t ! k) \<and> gdt_table t' = gdt_table t
    else set_idt_entry vec addr selector dpl t = Inl (OutOfBounds ''idt_table'' vec)"
  using assms by (rule set_idt_entry_gate)

theorem set_idt_entry_correct_witness:
  "(\<exists>t'. set_idt_entry 0x20 0x12345678 KERNEL_CODE_SEG 0 tables_boot = Inr t'
      \<and> gate_is (idt_bytes (idt_table t' ! 0x20)) 0x12345678 KERNEL_CODE_SEG 0xE 0 Ring0)
   \<and> set_idt_entry 256 0x12345678 KERNEL_CODE_SEG 0 tables_boot = Inl (OutOfBounds ''idt_table'' 256)"
proof -
  have z: "idt_table tables_boot = replicate 256 idt_zero" "length (idt_table tables_boot) = 256"
    by (simp_all add: tables_boot_def idt_boot_def)
  have "i_pad5 (idt_table tables_boot ! nat 0x20) = 0" "i_pad1 (idt_table tables_boot ! nat 0x20) = 0"
    unfolding z(1) by (simp_all add: idt_zero_def)
  note a = set_idt_entry_correct [OF this, of "0x12345678" KERNEL_CODE_SEG 0]
  have "set_idt_entry 256 0x12345678 KERNEL_CODE_SEG 0 tables_boot = Inl (OutOfBounds ''idt_table'' 256)"
    by (simp add: set_idt_entry_def idt_update_def z(2))
  with a show ?thesis unfolding z(2) by (auto simp: ring_of_def)
qed

section \<open>Segments and tasks\<close>

lemma seg_base_tss: "seg_base (tss_entry limit acc tss e) = tss"
  by (simp add: seg_base_def tss_entry_def base_parts)

lemma seg_limit_tss: "seg_limit (tss_entry limit acc tss e) = ucast limit"
  by (simp add: seg_limit_def tss_entry_def)

text \<open>A present task segment, available, at an address, with a limit and a privilege level.\<close>

definition tss_is :: "gdt_entry \<Rightarrow> u32 \<Rightarrow> u32 \<Rightarrow> ring \<Rightarrow> bool" where
  "tss_is e addr limit dpl \<longleftrightarrow>
     seg_base e = addr \<and> seg_limit e = limit \<and> seg_type e = 9 \<and> seg_is_system e \<and> seg_dpl e = dpl \<and> seg_present e"

text \<open>A present flat segment: base 0 and 4 GB, with its type and privilege level.\<close>

definition flat_is :: "gdt_entry \<Rightarrow> u8 \<Rightarrow> ring \<Rightarrow> bool" where
  "flat_is e ty dpl \<longleftrightarrow>
     seg_base e = 0 \<and> seg_limit e = 0xFFFFFFFF \<and> seg_type e = ty \<and> \<not> seg_is_system e \<and> seg_dpl e = dpl
     \<and> seg_present e"

lemma tss_entry_is:
  "tss_is (tss_entry limit 0xe9 tss e) tss (ucast limit) Ring3"
  "tss_is (tss_entry limit 0x89 tss e) tss (ucast limit) Ring0"
  by (simp_all add: tss_is_def seg_base_tss seg_limit_tss)
    (simp_all add: tss_entry_def seg_type_def seg_is_system_def seg_dpl_def seg_present_def ring_of_def bit_simps)

lemma gdt_boot_nth:
  "length gdt_boot = 256" "gdt_boot ! 0 = gdt_zero"
  "flat_is (gdt_boot ! 1) 0xA Ring0" "flat_is (gdt_boot ! 2) 0x2 Ring0"
  "flat_is (gdt_boot ! 3) 0xA Ring3" "flat_is (gdt_boot ! 4) 0x3 Ring3"
  by (simp_all add: gdt_boot_def flat_is_def seg_base_def seg_limit_def seg_type_def seg_is_system_def seg_dpl_def
      seg_present_def ring_of_def)

lemma init_tables:
  "\<exists>p' t' s'. init a p tables_boot phys_state0 = Some (Inr (p', t', s'))
    \<and> phys_inv 0x300000 0x7FE0000 s'
    \<and> gate_is (idt_bytes (idt_table t' ! 0x20)) (a_timer_int a) KERNEL_CODE_SEG 0xE 0 Ring0
    \<and> (gate_usable r (idt_bytes (idt_table t' ! 0x20)) \<longleftrightarrow> r = Ring0)
    \<and> gate_is (gdt_bytes (gdt_table t' ! 7)) (a_syscall_handler a) KERNEL_CODE_SEG 0xC 3 Ring3
    \<and> gate_usable r (gdt_bytes (gdt_table t' ! 7))
    \<and> tss_is (gdt_table t' ! 5) (a_task0_tss a) 0x86 Ring3
    \<and> tss_is (gdt_table t' ! 6) (a_task1_tss a) 0x86 Ring3
    \<and> tss_is (gdt_table t' ! 16) (a_kernel_tss a) 0xFFFF Ring0
    \<and> flat_is (gdt_table t' ! 1) 0xA Ring0 \<and> flat_is (gdt_table t' ! 2) 0x2 Ring0
    \<and> flat_is (gdt_table t' ! 3) 0xA Ring3 \<and> flat_is (gdt_table t' ! 4) 0x3 Ring3"
proof -
  let ?t1 = "init_syscall (a_syscall_handler a) tables_boot"
  have b: "gdt_table tables_boot = gdt_boot" "idt_table tables_boot = idt_boot" "syscall_des tables_boot = syscall_zero"
    by (simp_all add: tables_boot_def)
  have len: "length (gdt_table ?t1) = 256" "length (idt_table ?t1) = 256"
    by (simp_all add: init_syscall_def Let_def b gdt_boot_nth idt_boot_def)
  have z: "idt_table ?t1 ! nat 0x20 = idt_zero" by (simp add: init_syscall_def Let_def b idt_boot_def)
  define des where "des = syscall_des ?t1"
  have des: "gate_is (syscall_bytes des) (a_syscall_handler a) KERNEL_CODE_SEG 0xC 3 Ring3"
  proof -
    have "s_sellector des = KERNEL_CODE_SEG" by (simp add: des_def init_syscall_def Let_def)
    moreover have "gate_is (syscall_bytes des) (a_syscall_handler a) (s_sellector des) 0xC 3 Ring3"
      by (rule syscall_gate) (simp_all add: des_def init_syscall_def Let_def b syscall_zero_def bitfield_def)
    ultimately show ?thesis by simp
  qed
  have g7: "gdt_table ?t1 = gdt_boot[7 := gdt_of_bytes (syscall_bytes des)]"
    by (simp add: des_def init_syscall_def Let_def b)
  have bytes: "gdt_bytes (gdt_of_bytes (syscall_bytes des)) = syscall_bytes des"
    by (rule gdt_bytes_of) (simp add: syscall_bytes_def le16_def)
  obtain t2 where t2: "set_idt_entry 0x20 (a_timer_int a) KERNEL_CODE_SEG 0 ?t1 = Inr t2"
    "gate_is (idt_bytes (idt_table t2 ! nat 0x20)) (a_timer_int a) KERNEL_CODE_SEG 0xE 0 (ring_of (ucast (0 :: u32)))"
    "gdt_table t2 = gdt_table ?t1"
    using set_idt_entry_gate [of ?t1 "0x20" "a_timer_int a" KERNEL_CODE_SEG 0] len z by (auto simp: idt_zero_def)
  let ?t3 = "task_init (a_task0_tss a) (a_task1_tss a) (a_kernel_tss a) t2"
  obtain s' where s': "mem_init phys_state0 = Some s'" using mem_init_result by blast
  have run: "init a p tables_boot phys_state0 = Some (Inr (outbs irq_writes p, ?t3, s'))"
    by (simp add: init_def irq_init_def Let_def t2(1) s')
  have i: "idt_table ?t3 = idt_table t2" by (simp add: task_init_def Let_def)
  have g: "gdt_table ?t3 ! 7 = gdt_of_bytes (syscall_bytes des)"
    "gdt_table ?t3 ! 1 = gdt_boot ! 1" "gdt_table ?t3 ! 2 = gdt_boot ! 2"
    "gdt_table ?t3 ! 3 = gdt_boot ! 3" "gdt_table ?t3 ! 4 = gdt_boot ! 4"
    by (simp_all add: task_init_def Let_def t2(3) g7 gdt_boot_nth(1))
  note lim = tss_entry_is(1) [where limit = "0x86", simplified] tss_entry_is(2) [where limit = "0xffff", simplified]
  have tss: "tss_is (gdt_table ?t3 ! 5) (a_task0_tss a) 0x86 Ring3"
    "tss_is (gdt_table ?t3 ! 6) (a_task1_tss a) 0x86 Ring3" "tss_is (gdt_table ?t3 ! 16) (a_kernel_tss a) 0xFFFF Ring0"
    by (simp_all add: task_init_def Let_def t2(3) g7 gdt_boot_nth(1) lim)
  have r: "ring_of (ucast (0 :: u32)) = Ring0" by (simp add: ring_of_def)
  have "nat 0x20 = 0x20" by simp
  then have "gate_is (idt_bytes (idt_table ?t3 ! 0x20)) (a_timer_int a) KERNEL_CODE_SEG 0xE 0 Ring0"
    using t2(2) unfolding i r by (simp only:)
  moreover have "gate_is (gdt_bytes (gdt_table ?t3 ! 7)) (a_syscall_handler a) KERNEL_CODE_SEG 0xC 3 Ring3"
    using des unfolding g(1) bytes .
  ultimately show ?thesis using run tss gdt_boot_nth(3-6) g(2-5) gate_usable_iff mem_init_inv [OF s'] by metis
qed

lemma init_lengths:
  assumes "init a p t0 s0 = Some (Inr (p', t, s))"
  shows "length (gdt_table t) = length (gdt_table t0)" "length (idt_table t) = length (idt_table t0)"
  using assms
  by (auto simp: init_def irq_init_def set_idt_entry_def idt_update_def task_init_def init_syscall_def Let_def
      split: sum.splits option.splits if_splits)

text \<open>C22. \<open>init\<close> on the tables of the loader: the timer's vector is a kernel interrupt gate to
  \<open>timer_int\<close> that no other ring may call, the descriptor 7 a call gate that every ring may use, with three parameters, to
  \<open>syscall_handler\<close>, the descriptors 5 and 6 are the tasks' segments and 16 the kernel's, at their
  arrays, the four flat segments are still in place, and the early allocator has its pool.\<close>

theorem init_descriptors:
  "\<exists>p' t' s'. init a p tables_boot phys_state0 = Some (Inr (p', t', s'))
    \<and> phys_inv 0x300000 0x7FE0000 s'
    \<and> gate_is (idt_bytes (idt_table t' ! 0x20)) (a_timer_int a) KERNEL_CODE_SEG 0xE 0 Ring0
    \<and> (gate_usable r (idt_bytes (idt_table t' ! 0x20)) \<longleftrightarrow> r = Ring0)
    \<and> gate_is (gdt_bytes (gdt_table t' ! 7)) (a_syscall_handler a) KERNEL_CODE_SEG 0xC 3 Ring3
    \<and> gate_usable r (gdt_bytes (gdt_table t' ! 7))
    \<and> tss_is (gdt_table t' ! 5) (a_task0_tss a) 0x86 Ring3
    \<and> tss_is (gdt_table t' ! 6) (a_task1_tss a) 0x86 Ring3
    \<and> tss_is (gdt_table t' ! 16) (a_kernel_tss a) 0xFFFF Ring0
    \<and> flat_is (gdt_table t' ! 1) 0xA Ring0 \<and> flat_is (gdt_table t' ! 2) 0x2 Ring0
    \<and> flat_is (gdt_table t' ! 3) 0xA Ring3 \<and> flat_is (gdt_table t' ! 4) 0x3 Ring3"
  by (rule init_tables)

text \<open>What \<open>irq_init\<close> writes to the ports: the two interrupt controllers are set up for the vectors
  0x20 and 0x28 and all interrupts but the timer are masked, but the interval timer (ports 0x43 and
  0x40) is never programmed: the three writes meant for it have port and value exchanged and go to the
  ports 0x36, 0xDC and 0x1234.\<close>

theorem irq_init_misses_timer:
  "\<exists>t'. irq_init h s tables_boot = Inr (outbs irq_writes s, t')
    \<and> p_out (outbs irq_writes s) = p_out s @ irq_writes
    \<and> irq_writes = [(0x20, 0x11), (0x21, 0x20), (0x21, 4), (0x21, 1), (0xA0, 0x11), (0xA1, 0x28), (0xA1, 2),
        (0xA1, 1), (0x21, 0xFE), (0xA1, 0xFF), (0x36, 0x43), (0xDC, 0x40), (0x1234, 0x40)]
    \<and> 0x43 \<notin> fst ` set irq_writes \<and> 0x40 \<notin> fst ` set irq_writes"
proof -
  have w: "irq_writes = [(0x20, 0x11), (0x21, 0x20), (0x21, 4), (0x21, 1), (0xA0, 0x11), (0xA1, 0x28), (0xA1, 2),
        (0xA1, 1), (0x21, 0xFE), (0xA1, 0xFF), (0x36, 0x43), (0xDC, 0x40), (0x1234, 0x40)]"
    by (simp add: irq_writes_def pic_ports PIC_ICW1_ALWAYS_1_def PIC_ICW1_ICW4_def PIC_ICW4_8086_def IRQ_PIC_START_def)
  have "length (idt_table tables_boot) = 256" by (simp add: tables_boot_def idt_boot_def)
  then have "\<exists>t'. irq_init h s tables_boot = Inr (outbs irq_writes s, t')"
    by (simp add: irq_init_def set_idt_entry_def idt_update_def)
  moreover have "0x43 \<notin> fst ` set irq_writes \<and> 0x40 \<notin> fst ` set irq_writes" by (simp add: w)
  ultimately show ?thesis using w by (simp add: outbs_eq)
qed

section \<open>Scheduling\<close>

text \<open>The jumps of \<open>n\<close> timer interrupts.\<close>

primrec scheds :: "nat \<Rightarrow> tables \<Rightarrow> u32 list" where
  "scheds 0 t = []"
| "scheds (Suc n) t = (let (sel, t') = task_sched t in sel # scheds n t')"

lemma scheds_alternate:
  "task_tss t = TASK_0_TSS \<Longrightarrow> scheds n t = map (\<lambda>i. if even i then TASK_1_TSS else TASK_0_TSS) [0..<n]"
  "task_tss t = TASK_1_TSS \<Longrightarrow> scheds n t = map (\<lambda>i. if even i then TASK_0_TSS else TASK_1_TSS) [0..<n]"
proof (induction n arbitrary: t)
  case (Suc n)
  have ne: "TASK_0_TSS \<noteq> TASK_1_TSS" by (simp add: TASK_0_TSS_def TASK_1_TSS_def)
  have shift: "map f [0..<Suc n] = f 0 # map (\<lambda>i. f (Suc i)) [0..<n]" for f :: "nat \<Rightarrow> u32"
    by (simp add: upt_conv_Cons map_Suc_upt [symmetric] del: upt_Suc map_Suc_upt)
  {
    case 1
    with Suc.IH(2) [of "t\<lparr>task_tss := TASK_1_TSS\<rparr>"] show ?case
      by (simp only: shift) (simp add: task_sched_def cong: if_cong)
  next
    case 2
    with Suc.IH(1) [of "t\<lparr>task_tss := TASK_0_TSS\<rparr>"] ne show ?case
      by (simp only: shift) (simp add: task_sched_def cong: if_cong)
  }
qed simp_all

text \<open>The scheduler is fair: timer interrupts run the two tasks in turn, the second one first.\<close>

theorem task_sched_alternates:
  "scheds n tables_boot = map (\<lambda>i. if even i then TASK_1_TSS else TASK_0_TSS) [0..<n]"
  by (rule scheds_alternate(1)) (simp add: tables_boot_def)

text \<open>The user tasks' segments fit the tables: code and stack selectors have privilege 3 and name the
  flat user segments, the stack for ring 0 the kernel's data segment. The limit of the descriptors
  covers the 104 bytes of the array and 31 bytes behind it: the I/O permission bitmap (its base is 0)
  for the ports of the serial line is looked up there.\<close>

theorem user_tss_fits:
  "length (user_tss k u e) = 26
   \<and> selector_rpl (ucast (user_tss k u e ! 19)) = Ring3
   \<and> flat_is (gdt_boot ! selector_index (ucast (user_tss k u e ! 19))) 0xA Ring3
   \<and> selector_rpl (ucast (user_tss k u e ! 20)) = Ring3
   \<and> flat_is (gdt_boot ! selector_index (ucast (user_tss k u e ! 20))) 0x3 Ring3
   \<and> flat_is (gdt_boot ! selector_index (ucast (user_tss k u e ! 2))) 0x2 Ring0
   \<and> user_tss k u e ! 25 = 0
   \<and> 4 * length (user_tss k u e) \<le> 0x3f8 div 8 \<and> 0x3f8 div 8 \<le> (0x86 :: nat)"
proof -
  have sel: "ucast (ucast APP_CODE_SEG :: u32) = APP_CODE_SEG" "ucast (ucast APP_DATA_SEG :: u32) = APP_DATA_SEG"
    "ucast (ucast KERNEL_DATA_SEG :: u32) = KERNEL_DATA_SEG"
    by (simp_all add: APP_CODE_SEG_def APP_DATA_SEG_def KERNEL_DATA_SEG_def)
  have idx: "selector_index APP_CODE_SEG = 3" "selector_index APP_DATA_SEG = 4" "selector_index KERNEL_DATA_SEG = 2"
    "selector_rpl APP_CODE_SEG = Ring3" "selector_rpl APP_DATA_SEG = Ring3"
    by (simp_all add: selector_index_def selector_rpl_def ring_of_def APP_CODE_SEG_def APP_DATA_SEG_def
        KERNEL_DATA_SEG_def)
  show ?thesis using gdt_boot_nth by (simp add: user_tss_def sel idx)
qed

end
