(* ===== verification/Multitask.thy ===== *)
theory Multitask
  imports Console Descriptors
begin

text \<open>
  The two tasks of \<open>src/kernel/task.c\<close>, which print for ever, under the timer, which may switch from one
  to the other between any two steps. The critical section of \<open>puts\<close> is taken apart into its single
  accesses to the lock, the ports, the screen and the shared variables, and put together again: the
  section behaves as the function \<open>puts\<close> does without interruption. The text of a message stands in
  the automatic buffer of its \<open>printf\<close>, so that each task works on its own copy.
\<close>

unbundle bit_operations_syntax

section \<open>Sections under a lock\<close>

text \<open>Any number of tasks, each with a control state of its own, and a shared state: at every turn one
  of them takes a step.\<close>

inductive conc :: "('t \<Rightarrow> 'p \<Rightarrow> 's \<Rightarrow> 'p \<times> 's) \<Rightarrow> ('t \<Rightarrow> 'p) \<times> 's \<Rightarrow> ('t \<Rightarrow> 'p) \<times> 's \<Rightarrow> bool"
  for step where
  "step t (ps t) s = (p', s') \<Longrightarrow> conc step (ps, s) (ps(t := p'), s')"

inductive_cases concE: "conc step a b"

text \<open>The results of a sequence of whole sections, one after the other.\<close>

primrec wholes :: "('t \<Rightarrow> 's \<Rightarrow> 's option) \<Rightarrow> 't list \<Rightarrow> 's \<Rightarrow> 's option" where
  "wholes whole [] s = Some s"
| "wholes whole (t # ts) s = (case whole t s of None \<Rightarrow> None | Some s' \<Rightarrow> wholes whole ts s')"

lemma wholes_snoc:
  "wholes whole (ts @ [t]) s = (case wholes whole ts s of None \<Rightarrow> None | Some s' \<Rightarrow> whole t s')"
  by (induction ts arbitrary: s) (auto split: option.splits)

text \<open>What a section has to keep to: outside, a task leaves the shared state alone; it enters only when
  the lock is free and holds it then; \<open>finish\<close> is what is left of the section and is the same
  after every step inside; the last step gives its result and frees the lock.\<close>

locale section_under_lock =
  fixes step :: "'t \<Rightarrow> 'p \<Rightarrow> 's \<Rightarrow> 'p \<times> 's"
    and inside :: "'p \<Rightarrow> bool"
    and free :: "'s \<Rightarrow> bool"
    and finish :: "'t \<Rightarrow> 'p \<Rightarrow> 's \<Rightarrow> 's option"
    and whole :: "'t \<Rightarrow> 's \<Rightarrow> 's option"
  assumes outside: "\<not> inside p \<Longrightarrow> step t p s = (p', s') \<Longrightarrow> \<not> inside p' \<Longrightarrow> s' = s"
    and enter: "\<not> inside p \<Longrightarrow> step t p s = (p', s') \<Longrightarrow> inside p' \<Longrightarrow>
        free s \<and> \<not> free s' \<and> finish t p' s' = whole t s"
    and within: "inside p \<Longrightarrow> \<not> free s \<Longrightarrow> step t p s = (p', s') \<Longrightarrow> inside p' \<Longrightarrow>
        \<not> free s' \<and> finish t p' s' = finish t p s"
    and leave: "inside p \<Longrightarrow> \<not> free s \<Longrightarrow> step t p s = (p', s') \<Longrightarrow> \<not> inside p' \<Longrightarrow>
        free s' \<and> finish t p s = Some s'"

text \<open>The shared state is the one after a sequence of whole sections, or one task is inside and will
  take it to the state after one section more.\<close>

definition serial :: "('p \<Rightarrow> bool) \<Rightarrow> ('s \<Rightarrow> bool) \<Rightarrow> ('t \<Rightarrow> 'p \<Rightarrow> 's \<Rightarrow> 's option) \<Rightarrow> ('t \<Rightarrow> 's \<Rightarrow> 's option)
    \<Rightarrow> 's \<Rightarrow> ('t \<Rightarrow> 'p) \<Rightarrow> 's \<Rightarrow> 't list \<Rightarrow> bool" where
  "serial inside free finish whole s0 ps s ts \<longleftrightarrow>
     (if free s then (\<forall>t. \<not> inside (ps t)) \<and> wholes whole ts s0 = Some s
      else \<exists>t. inside (ps t) \<and> (\<forall>u. u \<noteq> t \<longrightarrow> \<not> inside (ps u)) \<and> wholes whole ts s0 \<noteq> None
        \<and> wholes whole (ts @ [t]) s0 = finish t (ps t) s)"

context section_under_lock
begin

lemma serial_step:
  assumes "serial inside free finish whole s0 ps s ts" "step t (ps t) s = (p', s')"
  shows "\<exists>ts'. serial inside free finish whole s0 (ps(t := p')) s' ts'"
proof (cases "inside (ps t)")
  case False
  show ?thesis
  proof (cases "inside p'")
    case True
    with False assms(2) have e: "free s" "\<not> free s'" "finish t p' s' = whole t s" using enter by blast+
    then have "serial inside free finish whole s0 (ps(t := p')) s' ts"
      using assms(1) True by (auto simp: serial_def wholes_snoc)
    then show ?thesis ..
  next
    case p': False
    with False assms(2) have "s' = s" using outside by blast
    moreover have "inside ((ps(t := p')) u) = inside (ps u)" for u using False p' by simp
    moreover have "inside (ps u) \<Longrightarrow> (ps(t := p')) u = ps u" for u using False by auto
    ultimately have "serial inside free finish whole s0 (ps(t := p')) s' ts"
      using assms(1) unfolding serial_def by metis
    then show ?thesis ..
  qed
next
  case True
  then have f: "\<not> free s" using assms(1) by (auto simp: serial_def split: if_splits)
  with assms(1) True have inv: "\<forall>u. u \<noteq> t \<longrightarrow> \<not> inside (ps u)" "wholes whole ts s0 \<noteq> None"
    "wholes whole (ts @ [t]) s0 = finish t (ps t) s"
    unfolding serial_def by metis+
  show ?thesis
  proof (cases "inside p'")
    case p': True
    from within [OF True f assms(2) p'] inv p'
    have "serial inside free finish whole s0 (ps(t := p')) s' ts"
      by (auto simp: serial_def)
    then show ?thesis ..
  next
    case False
    from leave [OF True f assms(2) False] inv False
    have "serial inside free finish whole s0 (ps(t := p')) s' (ts @ [t])"
      by (auto simp: serial_def)
    then show ?thesis ..
  qed
qed

lemma serial_reachable:
  assumes "(conc step)\<^sup>*\<^sup>* (ps0, s0) x" "free s0" "\<forall>t. \<not> inside (ps0 t)"
  shows "\<exists>ts. serial inside free finish whole s0 (fst x) (snd x) ts"
  using assms(1)
proof (induction rule: rtranclp_induct)
  case base
  have "serial inside free finish whole s0 ps0 s0 []" using assms(2,3) by (simp add: serial_def)
  then show ?case by auto
next
  case (step y z)
  note st = step(2) and IH = step(3)
  from st obtain ps s t p' s' where e: "y = (ps, s)" "z = (ps(t := p'), s')" "step t (ps t) s = (p', s')"
    by (rule concE)
  from IH obtain ts where "serial inside free finish whole s0 ps s ts" unfolding e(1) fst_conv snd_conv ..
  from serial_step [OF this e(3)] show ?case unfolding e(2) fst_conv snd_conv .
qed

end

section \<open>The tasks\<close>

datatype task = Task0 | Task1

primrec other :: "task \<Rightarrow> task" where
  "other Task0 = Task1"
| "other Task1 = Task0"

text \<open>What the bodies of \<open>task_0_entry\<close> and \<open>task_1_entry\<close> print at every turn of their loops. The formats
  have no conversion, so that the text is the format.\<close>

primrec task_fmt :: "task \<Rightarrow> u8 list" where
  "task_fmt Task0 = map ch ''this is --------''"
| "task_fmt Task1 = map ch ''this is ++++++++''"

text \<open>Where a task is in its loop. The argument of \<open>Poll\<close> and \<open>Out\<close> are the bytes that still go on the
  wire, of \<open>Copy\<close> the place on the screen and the rest of the text.\<close>

datatype pc =
    Format_text  \<comment> \<open>\<open>vsnprintf\<close> into the task's own buffer\<close>
  | Take_lock
  | Test_inited
  | Set_up nat u8  \<comment> \<open>the n-th access of \<open>serial_init\<close>, with \<open>lcr\<close>\<close>
  | Set_inited
  | Poll "u8 list"
  | Out "u8 list"
  | Test_cleared
  | Clear nat
  | Set_cleared
  | Start_row
  | Copy u32 "u8 list"
  | Next_row
  | Release

primrec inside :: "pc \<Rightarrow> bool" where
  "inside Format_text = False"
| "inside Take_lock = False"
| "inside Test_inited = True"
| "inside (Set_up n lcr) = True"
| "inside Set_inited = True"
| "inside (Poll bs) = True"
| "inside (Out bs) = True"
| "inside Test_cleared = True"
| "inside (Clear n) = True"
| "inside Set_cleared = True"
| "inside Start_row = True"
| "inside (Copy d bs) = True"
| "inside Next_row = True"
| "inside Release = True"

text \<open>The accesses of \<open>serial_init\<close> to the ports, one by one.\<close>

definition init_access :: "nat \<Rightarrow> u8 \<Rightarrow> ports \<Rightarrow> u8 \<times> ports" where
  "init_access n lcr s =
     (if n = 0 then inb (serial_iobase + 0x03) s
      else if n = 1 then (lcr, outb (serial_iobase + 0x03) (lcr OR 0x80) s)
      else if n = 2 then (lcr, outb (serial_iobase + 0x00) 0x01 s)
      else if n = 3 then (lcr, outb (serial_iobase + 0x01) 0x00 s)
      else if n = 4 then inb (serial_iobase + 0x03) s
      else if n = 5 then (lcr, outb (serial_iobase + 0x03) (lcr AND NOT 0x80) s)
      else if n = 6 then (lcr, outb (serial_iobase + 0x01) 0x00 s)
      else if n = 7 then (lcr, outb (serial_iobase + 0x03) 0x03 s)
      else if n = 8 then (lcr, outb (serial_iobase + 0x02) 0x00 s)
      else (lcr, outb (serial_iobase + 0x04) 0x03 s))"

text \<open>The bytes of a text on the wire.\<close>

definition wire :: "u8 list \<Rightarrow> u8 list" where
  "wire t = concat (map (\<lambda>c. (if c = 0x0A then [0x0D] else []) @ [c]) t)"

text \<open>One step of a task, on the console and the memory of the screen: an attempt on the lock, one access
  to a port, one store to the screen, or the use of one shared variable.\<close>

fun task_step :: "task \<Rightarrow> pc \<Rightarrow> console \<times> memory \<Rightarrow> pc \<times> console \<times> memory" where
  "task_step t Format_text (c, m) = (Take_lock, c, m)"
| "task_step t Take_lock (c, m) =
     (case spin_lock (con_lock c) of
        None \<Rightarrow> (Take_lock, c, m)
      | Some l \<Rightarrow> (Test_inited, c\<lparr>con_lock := l\<rparr>, m))"
| "task_step t Test_inited (c, m) =
     (if serial_inited c = 0 then Set_up 0 0 else Poll (wire (task_fmt t)), c, m)"
| "task_step t (Set_up n lcr) (c, m) =
     (if n < 10 then
        (let (lcr', s) = init_access n lcr (con_ports c) in (Set_up (Suc n) lcr', c\<lparr>con_ports := s\<rparr>, m))
      else (Set_inited, c, m))"
| "task_step t Set_inited (c, m) = (Poll (wire (task_fmt t)), c\<lparr>serial_inited := 1\<rparr>, m)"
| "task_step t (Poll bs) (c, m) =
     (if bs = [] then (Test_cleared, c, m)
      else let (lsr, s) = inb (serial_iobase + 0x05) (con_ports c)
           in (if tx_empty lsr then Out bs else Poll bs, c\<lparr>con_ports := s\<rparr>, m))"
| "task_step t (Out bs) (c, m) =
     (Poll (tl bs), c\<lparr>con_ports := outb (serial_iobase + 0x00) (hd bs) (con_ports c)\<rparr>, m)"
| "task_step t Test_cleared (c, m) = (if con_cleared c = 0 then Clear 0 else Start_row, c, m)"
| "task_step t (Clear n) (c, m) =
     (if n < 80 * 25 then (Clear (Suc n), c, store16 m (0xb8000 + 2 * of_nat n) (0x20 OR push_bit 8 0x02))
      else (Set_cleared, c, m))"
| "task_step t Set_cleared (c, m) = (Start_row, c\<lparr>con_cleared := 1, con_row := 0\<rparr>, m)"
| "task_step t Start_row (c, m) = (Copy (0xb8000 + of_int (2 * (80 * con_row c))) (task_fmt t), c, m)"
| "task_step t (Copy d bs) (c, m) =
     (case bs of [] \<Rightarrow> (Next_row, c, m) | b # bs' \<Rightarrow> (Copy (d + 2) bs', c, store16 m d (vga_cell b 0x02)))"
| "task_step t Next_row (c, m) =
     (Release, c\<lparr>con_row := (if 25 \<le> con_row c then 0 else con_row c + 1)\<rparr>, m)"
| "task_step t Release (c, m) = (Format_text, c\<lparr>con_lock := spin_unlock (con_lock c)\<rparr>, m)"

text \<open>Out of an empty list does not arise; \<open>finish\<close> says what the section comes to from each of its
  points.\<close>

section \<open>The rest of a section\<close>

primrec copy_cells :: "u32 \<Rightarrow> u8 list \<Rightarrow> memory \<Rightarrow> memory" where
  "copy_cells d [] m = m"
| "copy_cells d (b # bs) m = copy_cells (d + 2) bs (store16 m d (vga_cell b 0x02))"

definition end_section :: "console \<Rightarrow> memory \<Rightarrow> console \<times> memory" where
  "end_section c m = (c\<lparr>con_row := (if 25 \<le> con_row c then 0 else con_row c + 1),
     con_lock := spin_unlock (con_lock c)\<rparr>, m)"

definition end_row :: "task \<Rightarrow> console \<Rightarrow> memory \<Rightarrow> console \<times> memory" where
  "end_row t c m = end_section c (copy_cells (0xb8000 + of_int (2 * (80 * con_row c))) (task_fmt t) m)"

definition end_clear :: "task \<Rightarrow> nat \<Rightarrow> console \<Rightarrow> memory \<Rightarrow> console \<times> memory" where
  "end_clear t n c m = end_row t (c\<lparr>con_cleared := 1, con_row := 0\<rparr>)
     (fold (\<lambda>i m. store16 m (0xb8000 + 2 * of_nat i) (0x20 OR push_bit 8 0x02)) [n..<80 * 25] m)"

definition end_screen :: "task \<Rightarrow> console \<Rightarrow> memory \<Rightarrow> console \<times> memory" where
  "end_screen t c m = (if con_cleared c = 0 then end_clear t 0 c m else end_row t c m)"

definition end_wire :: "task \<Rightarrow> u8 list \<Rightarrow> console \<Rightarrow> memory \<Rightarrow> (console \<times> memory) option" where
  "end_wire t bs c m =
     map_option (\<lambda>s. end_screen t (c\<lparr>con_ports := s\<rparr>) m) (put_all serial_outb bs (con_ports c))"

definition end_init :: "task \<Rightarrow> nat \<Rightarrow> u8 \<Rightarrow> console \<Rightarrow> memory \<Rightarrow> (console \<times> memory) option" where
  "end_init t n lcr c m = end_wire t (wire (task_fmt t))
     (c\<lparr>con_ports := snd (fold (\<lambda>i (l, s). init_access i l s) [n..<10] (lcr, con_ports c)), serial_inited := 1\<rparr>) m"

primrec finish :: "task \<Rightarrow> pc \<Rightarrow> console \<times> memory \<Rightarrow> (console \<times> memory) option" where
  "finish t Format_text x = Some x"
| "finish t Take_lock x = Some x"
| "finish t Test_inited x =
     (if serial_inited (fst x) = 0 then end_init t 0 0 (fst x) (snd x)
      else end_wire t (wire (task_fmt t)) (fst x) (snd x))"
| "finish t (Set_up n lcr) x = end_init t n lcr (fst x) (snd x)"
| "finish t Set_inited x = end_wire t (wire (task_fmt t)) ((fst x)\<lparr>serial_inited := 1\<rparr>) (snd x)"
| "finish t (Poll bs) x = end_wire t bs (fst x) (snd x)"
| "finish t (Out bs) x = end_wire t (tl bs)
     ((fst x)\<lparr>con_ports := outb (serial_iobase + 0x00) (hd bs) (con_ports (fst x))\<rparr>) (snd x)"
| "finish t Test_cleared x = Some (end_screen t (fst x) (snd x))"
| "finish t (Clear n) x = Some (end_clear t n (fst x) (snd x))"
| "finish t Set_cleared x = Some (end_row t ((fst x)\<lparr>con_cleared := 1, con_row := 0\<rparr>) (snd x))"
| "finish t Start_row x = Some (end_row t (fst x) (snd x))"
| "finish t (Copy d bs) x = Some (end_section (fst x) (copy_cells d bs (snd x)))"
| "finish t Next_row x = Some (end_section (fst x) (snd x))"
| "finish t Release x = Some ((fst x)\<lparr>con_lock := spin_unlock (con_lock (fst x))\<rparr>, snd x)"

definition say :: "task \<Rightarrow> console \<times> memory \<Rightarrow> (console \<times> memory) option" where
  "say t x = (case spin_lock (con_lock (fst x)) of
     None \<Rightarrow> None
   | Some l \<Rightarrow> finish t Test_inited ((fst x)\<lparr>con_lock := l\<rparr>, snd x))"

definition idle :: "console \<times> memory \<Rightarrow> bool" where
  "idle x \<longleftrightarrow> lock_free (con_lock (fst x))"

lemma init_upt: "n < 10 \<Longrightarrow> fold f [n..<10] a = fold f [Suc n..<10] (f n a)" for n :: nat
  by (simp add: upt_conv_Cons)

lemma put_all_outb_Cons:
  "put_all serial_outb (b # bs) s =
     (let (lsr, s') = inb (serial_iobase + 0x05) s
      in if tx_empty lsr then put_all serial_outb bs (outb (serial_iobase + 0x00) b s')
         else put_all serial_outb (b # bs) s')"
proof -
  obtain lsr s' where i: "inb (serial_iobase + 0x05) s = (lsr, s')" by fastforce
  show ?thesis unfolding i by (simp add: serial_outb_def poll.simps [of _ _ s] i)
qed

lemma task_step_lock: "inside p \<Longrightarrow> \<not> idle x \<Longrightarrow> task_step t p x = (p', x') \<Longrightarrow> inside p' \<Longrightarrow> \<not> idle x'"
  by (cases x; cases p) (auto simp: idle_def Let_def split: prod.splits if_splits list.splits)

lemma task_step_finish:
  assumes "inside p" "task_step t p x = (p', x')" "inside p'"
  shows "finish t p' x' = finish t p x"
proof (cases x)
  case (Pair c m)
  show ?thesis
  proof (cases p)
    case (Set_up n lcr)
    then show ?thesis
      using assms Pair by (cases "n < 10")
        (auto simp: end_init_def init_upt end_wire_def split: prod.splits)
  next
    case (Poll bs)
    show ?thesis
    proof (cases bs)
      case Nil
      then show ?thesis using assms Pair Poll by (auto simp: end_wire_def)
    next
      case (Cons b bs')
      obtain lsr s where i: "inb (serial_iobase + 0x05) (con_ports c) = (lsr, s)" by fastforce
      show ?thesis
        using assms Pair Poll Cons i put_all_outb_Cons [of b bs' "con_ports c"]
        by (auto simp: end_wire_def split: if_splits)
    qed
  next
    case (Clear n)
    then show ?thesis using assms Pair by (auto simp: end_clear_def upt_conv_Cons split: if_splits)
  qed (use assms Pair in \<open>auto simp: end_screen_def end_row_def end_section_def split: if_splits list.splits option.splits\<close>)
qed

interpretation console: section_under_lock task_step inside idle finish say
proof
  fix p t x p' x'
  show "\<not> inside p \<Longrightarrow> task_step t p x = (p', x') \<Longrightarrow> \<not> inside p' \<Longrightarrow> x' = x"
    by (cases x; cases p) (auto split: option.splits)
  show "\<not> inside p \<Longrightarrow> task_step t p x = (p', x') \<Longrightarrow> inside p' \<Longrightarrow>
      idle x \<and> \<not> idle x' \<and> finish t p' x' = say t x"
    by (cases x; cases p) (auto simp: idle_def say_def lock_free_def spin_lock_def split: option.splits if_splits)
  show "inside p \<Longrightarrow> \<not> idle x \<Longrightarrow> task_step t p x = (p', x') \<Longrightarrow> inside p' \<Longrightarrow>
      \<not> idle x' \<and> finish t p' x' = finish t p x"
    using task_step_lock task_step_finish by blast
  show "inside p \<Longrightarrow> \<not> idle x \<Longrightarrow> task_step t p x = (p', x') \<Longrightarrow> \<not> inside p' \<Longrightarrow> idle x' \<and> finish t p x = Some x'"
    by (cases x; cases p) (auto simp: idle_def Let_def split: prod.splits if_splits list.splits)
qed

section \<open>The section is \<open>puts\<close>\<close>

lemma put_all_append:
  "put_all put (as @ bs) s = (case put_all put as s of None \<Rightarrow> None | Some s' \<Rightarrow> put_all put bs s')"
  by (induction as arbitrary: s) (auto split: option.split)

lemma put_all_wire: "put_all serial_put t = put_all serial_outb (wire t)"
proof (induction t)
  case (Cons c t)
  have "wire (c # t) = ((if c = 0x0A then [0x0D] else []) @ [c]) @ wire t" by (simp add: wire_def)
  moreover have "put_all serial_put (c # t) s =
      (case put_all serial_outb ((if c = 0x0A then [0x0D] else []) @ [c]) s of
         None \<Rightarrow> None | Some s' \<Rightarrow> put_all serial_outb (wire t) s')" for s
    by (simp only: put_all.simps serial_put_eq Cons)
  ultimately show ?case by (simp only: fun_eq_iff put_all_append) blast
qed (simp add: wire_def fun_eq_iff)

lemma serial_init_accesses: "serial_init s = snd (fold (\<lambda>i (l, s). init_access i l s) [0..<10] (l, s))"
  by (simp add: upt_rec init_access_def serial_init_def split: prod.split)

lemma copy_cells_eq:
  "2 * length bs \<le> 2 ^ 32 \<Longrightarrow> copy_cells d bs m = write_bytes m d (text_cells bs 0x02)"
proof (induction bs arbitrary: d m)
  case (Cons b bs)
  then show ?case by (simp add: text_cells_def store16_bytes le16_def algebra_simps)
qed (simp add: text_cells_def)

text \<open>The texts stand in the buffers, away from the screen, as they do once each task has formatted its
  first message.\<close>

definition texts_at :: "(task \<Rightarrow> u32) \<Rightarrow> memory \<Rightarrow> bool" where
  "texts_at buf m \<longleftrightarrow> (\<forall>t. string_at m (buf t) (task_fmt t) \<and> clear_of_screen (buf t) 16)"

lemma length_task_fmt [simp]: "length (task_fmt t) = 16"
  by (cases t) simp_all

definition puts_task :: "(task \<Rightarrow> u32) \<Rightarrow> task \<Rightarrow> console \<times> memory \<Rightarrow> (console \<times> memory) option" where
  "puts_task buf t x = puts (buf t) (fst x) (snd x)"

lemma end_screen_do_syscall:
  assumes "string_at m s (task_fmt t)" "clear_of_screen s 16" "row_ok c"
  shows "sys_show s 0x02 c m = Some (c', m') \<Longrightarrow>
    end_screen t c m = (c'\<lparr>con_lock := spin_unlock (con_lock c')\<rparr>, m')"
    and "sys_show s 0x02 c m \<noteq> None"
proof -
  note e = do_syscall_eq [OF assms(1) _ assms(3), of 2, simplified, OF assms(2)]
  show "sys_show s 0x02 c m \<noteq> None" using e by (simp add: sys_show_def)
  have r: "0 \<le> con_row c" "con_row c \<le> 25" using assms(3) by (simp_all add: row_ok_def)
  have dest: "word_of_int (160 * con_row c) = 160 * (word_of_int (con_row c) :: u32)"
    using of_int_mult [of 160 "con_row c", where 'a = u32] by simp
  show "end_screen t c m = (c'\<lparr>con_lock := spin_unlock (con_lock c')\<rparr>, m')"
    if "sys_show s 0x02 c m = Some (c', m')"
  proof (cases "con_cleared c = 0")
    case True
    then show ?thesis
      using e that by (auto simp: sys_show_def end_screen_def end_clear_def end_row_def end_section_def
          clear_screen_def copy_cells_eq shown_row_def next_row_def)
  next
    case False
    then show ?thesis
      using e that r by (auto simp: sys_show_def end_screen_def end_row_def end_section_def
          copy_cells_eq shown_row_def next_row_def dest)
  qed
qed

lemma say_puts:
  assumes "texts_at buf (snd x)" "row_ok (fst x)"
  shows "say t x = puts_task buf t x"
proof -
  obtain c m where x: "x = (c, m)" by fastforce
  have str: "string_at m (buf t) (task_fmt t)" and clear: "clear_of_screen (buf t) 16"
    using assms(1) x by (auto simp: texts_at_def)
  show ?thesis
  proof (cases "spin_lock (con_lock c)")
    case (Some l)
    let ?c = "c\<lparr>con_lock := l\<rparr>"
    let ?c1 = "if serial_inited ?c = 0 then ?c\<lparr>con_ports := serial_init (con_ports ?c), serial_inited := 1\<rparr> else ?c"
    have rb: "read_bytes m (buf t) 16 = task_fmt t" using str by (simp add: string_at_iff)
    have ps: "print_serial m (buf t) ?c =
        map_option (\<lambda>s. ?c1\<lparr>con_ports := s\<rparr>) (put_all serial_outb (wire (task_fmt t)) (con_ports ?c1))"
      using strlen_string [OF str] by (simp add: print_serial_def serial_loop_eq put_all_wire rb Let_def)
    have fin: "finish t Test_inited (?c, m) = end_wire t (wire (task_fmt t)) ?c1 m"
      by (simp add: end_init_def serial_init_accesses [symmetric])
    show ?thesis
    proof (cases "put_all serial_outb (wire (task_fmt t)) (con_ports ?c1)")
      case None
      then show ?thesis
        unfolding x say_def puts_task_def puts_def fst_conv snd_conv Some option.case fin ps end_wire_def by simp
    next
      case (Some s)
      have row: "row_ok (?c1\<lparr>con_ports := s\<rparr>)" using assms(2) x by (simp add: row_ok_def)
      obtain c2 m2 where d: "sys_show (buf t) 0x02 (?c1\<lparr>con_ports := s\<rparr>) m = Some (c2, m2)"
        using end_screen_do_syscall(2) [OF str clear row] by (cases "sys_show (buf t) 0x02 (?c1\<lparr>con_ports := s\<rparr>) m") auto
      show ?thesis
        unfolding x say_def puts_task_def puts_def fst_conv snd_conv \<open>spin_lock (con_lock c) = Some l\<close>
          option.case fin ps end_wire_def Some option.map d prod.case
          end_screen_do_syscall(1) [OF str clear row d] ..
    qed
  qed (simp add: x say_def puts_task_def puts_def)
qed

lemma puts_task_keeps:
  assumes "puts_task buf t x = Some y" "texts_at buf (snd x)" "row_ok (fst x)"
  shows "texts_at buf (snd y) \<and> row_ok (fst y)"
proof -
  obtain c m where x: "x = (c, m)" by fastforce
  have str: "string_at m (buf t) (task_fmt t)" and clear: "clear_of_screen (buf t) (length (task_fmt t))"
    using assms(2) x by (auto simp: texts_at_def)
  obtain l c1 c2 where run: "print_serial m (buf t) (c\<lparr>con_lock := l\<rparr>) = Some c1"
    "sys_show (buf t) 0x02 c1 m = Some (c2, snd y)" "fst y = c2\<lparr>con_lock := spin_unlock (con_lock c2)\<rparr>"
    using assms(1) unfolding x puts_task_def puts_def by (auto split: option.splits)
  have "con_row c1 = con_row c" using run(1) by (auto simp: print_serial_def Let_def split: option.splits if_splits)
  then have row: "row_ok c1" using assms(3) x by (simp add: row_ok_def)
  from do_syscall_screen [OF str clear row, of 2] run(2)
  have f: "row_ok c2" "\<forall>a. a \<notin> span 0xb8000 (4000 + 2 * 16) \<longrightarrow> snd y a = m a" by (auto simp: sys_show_def)
  have "string_at (snd y) (buf u) (task_fmt u)" for u
  proof (rule string_at_cong)
    show "string_at m (buf u) (task_fmt u)" using assms(2) x by (simp add: texts_at_def)
    fix a assume "a \<in> span (buf u) (Suc (length (task_fmt u)))"
    moreover have "clear_of_screen (buf u) 16" using assms(2) by (simp add: texts_at_def)
    ultimately show "snd y a = m a" using f(2) by (auto simp: clear_of_screen_def)
  qed
  then show ?thesis using assms(2) f(1) run(3) by (simp add: texts_at_def row_ok_def)
qed

lemma wholes_say_puts:
  "texts_at buf (snd x) \<Longrightarrow> row_ok (fst x) \<Longrightarrow> wholes say ts x = wholes (puts_task buf) ts x"
proof (induction ts arbitrary: x)
  case (Cons t ts)
  show ?case
  proof (cases "puts_task buf t x")
    case (Some y)
    with Cons puts_task_keeps [OF Some] show ?thesis by (simp add: say_puts)
  qed (use Cons in \<open>simp add: say_puts\<close>)
qed simp

lemma wholes_keeps:
  "wholes (puts_task buf) ts x = Some y \<Longrightarrow> texts_at buf (snd x) \<Longrightarrow> row_ok (fst x) \<Longrightarrow>
   texts_at buf (snd y) \<and> row_ok (fst y)"
proof (induction ts arbitrary: x)
  case (Cons t ts)
  then show ?case using puts_task_keeps by (fastforce split: option.splits)
qed simp

text \<open>A whole \<open>printf\<close> of a task: with the text already in the buffer, formatting it again changes
  nothing, and \<open>puts\<close> remains.\<close>

definition print_task :: "(task \<Rightarrow> u32) \<Rightarrow> task \<Rightarrow> console \<times> memory \<Rightarrow> (console \<times> memory) option" where
  "print_task buf t x =
     (case kprintf (buf t) (task_fmt t) [] (fst x) (snd x) of
        Some (Inr (n, c, m)) \<Rightarrow> Some (c, m)
      | _ \<Rightarrow> None)"

lemma write_string_again:
  assumes "string_at m p s" "length s < 2 ^ 32"
  shows "write_bytes m p (s @ [0]) = m"
proof
  fix a
  have r: "read_bytes m p (Suc (length s)) = s @ [0]" using assms(1) by (simp add: string_at_iff read_bytes_snoc)
  show "write_bytes m p (s @ [0]) a = m a"
  proof (cases "unat (a - p) < Suc (length s)")
    case True
    have "(s @ [0]) ! unat (a - p) = m (p + of_nat (unat (a - p)))"
      using True by (simp flip: r)
    then show ?thesis using True assms(2) by (simp add: write_bytes_apply)
  qed (use assms(2) in \<open>simp add: write_bytes_apply\<close>)
qed

lemma print_task_puts:
  assumes "texts_at buf (snd x)"
  shows "print_task buf t x = puts_task buf t x"
proof -
  have "string_at (snd x) (buf t) (task_fmt t)" using assms by (simp add: texts_at_def)
  then have m: "write_bytes (snd x) (buf t) (task_fmt t @ [0]) = snd x" by (rule write_string_again) simp
  have "ch CHR ''%'' \<notin> set (task_fmt t)" by (cases t) simp_all
  from printf_literal [OF this, of "snd x" "buf t" "[]"] show ?thesis
    by (simp add: print_task_def puts_task_def kprintf_def m split: option.split)
qed

lemma wholes_print_puts:
  "texts_at buf (snd x) \<Longrightarrow> row_ok (fst x) \<Longrightarrow> wholes (print_task buf) ts x = wholes (puts_task buf) ts x"
proof (induction ts arbitrary: x)
  case (Cons t ts)
  show ?case
  proof (cases "puts_task buf t x")
    case (Some y)
    with Cons puts_task_keeps [OF Some] show ?thesis by (simp add: print_task_puts)
  qed (use Cons in \<open>simp add: print_task_puts\<close>)
qed simp

section \<open>The system\<close>

text \<open>The processor runs the task whose segment \<open>task_sched\<close> has jumped to last; the timer interrupt runs
  \<open>task_sched\<close> once more.\<close>

definition current :: "tables \<Rightarrow> task" where
  "current T = (if task_tss T = TASK_0_TSS then Task0 else Task1)"

type_synonym system = "tables \<times> (task \<Rightarrow> pc) \<times> console \<times> memory"

inductive sys_step :: "system \<Rightarrow> system \<Rightarrow> bool" where
  turn: "task_step (current T) (ps (current T)) x = (p', x') \<Longrightarrow> sys_step (T, ps, x) (T, ps(current T := p'), x')"
| timer: "task_sched T = (sel, T') \<Longrightarrow> sys_step (T, ps, x) (T', ps, x)"

inductive_cases sys_stepE: "sys_step a b"

text \<open>At the start both tasks are before their first call, with the tables as \<open>task_sched\<close> finds them.\<close>

definition started :: "console \<times> memory \<Rightarrow> system" where
  "started x = (tables_boot, \<lambda>_. Format_text, x)"

lemma current_sched: "task_sched T = (sel, T') \<Longrightarrow> current T' = other (current T)"
  by (auto simp: task_sched_def current_def Let_def TASK_0_TSS_def TASK_1_TSS_def)

lemma sys_conc: "sys_step\<^sup>*\<^sup>* a b \<Longrightarrow> (conc task_step)\<^sup>*\<^sup>* (snd a) (snd b)"
proof (induction rule: rtranclp_induct)
  case (step y z)
  from step(2) have "conc task_step (snd y) (snd z) \<or> snd z = snd y"
    by (auto elim!: sys_stepE intro: conc.intros)
  with step(3) show ?case by auto
qed simp

lemma sys_serial:
  assumes "texts_at buf m0" "row_ok c0" "lock_free (con_lock c0)" "sys_step\<^sup>*\<^sup>* (started (c0, m0)) (T, ps, x)"
  shows "\<exists>ts. serial inside idle finish (puts_task buf) (c0, m0) ps x ts"
proof -
  have "(conc task_step)\<^sup>*\<^sup>* (\<lambda>_. Format_text, c0, m0) (ps, x)"
    using sys_conc [OF assms(4)] by (simp add: started_def)
  from console.serial_reachable [OF this] assms(3)
  obtain ts where "serial inside idle finish say (c0, m0) ps x ts" by (auto simp: idle_def)
  moreover have "wholes say us (c0, m0) = wholes (puts_task buf) us (c0, m0)" for us
    using assms(1,2) by (intro wholes_say_puts) simp_all
  ultimately have "serial inside idle finish (puts_task buf) (c0, m0) ps x ts" unfolding serial_def by (simp only:)
  then show ?thesis ..
qed

lemma other_neq: "u \<noteq> t \<longleftrightarrow> u = other t"
  by (cases u; cases t) simp_all

text \<open>C5. Two tasks that print for ever, with the timer switching between them after any step: at every
  point, at most one of them is between taking and releasing the lock, exactly when the lock is held,
  and the console and the screen are those after some sequence of whole calls of \<open>printf\<close>, one after the
  other, or one task is inside a further call and what is left of it leads to its result.\<close>

theorem tasks_serialised:
  assumes "texts_at buf m0" "row_ok c0" "lock_free (con_lock c0)" "sys_step\<^sup>*\<^sup>* (started (c0, m0)) (T, ps, c, m)"
  shows "\<exists>ts. if lock_free (con_lock c)
    then (\<forall>t. \<not> inside (ps t)) \<and> wholes (print_task buf) ts (c0, m0) = Some (c, m)
    else \<exists>t. inside (ps t) \<and> \<not> inside (ps (other t)) \<and> wholes (print_task buf) ts (c0, m0) \<noteq> None
      \<and> wholes (print_task buf) (ts @ [t]) (c0, m0) = finish t (ps t) (c, m)"
proof -
  have "wholes (print_task buf) ts (c0, m0) = wholes (puts_task buf) ts (c0, m0)" for ts
    using assms(1,2) by (intro wholes_print_puts) simp_all
  then show ?thesis
    using sys_serial [OF assms] unfolding serial_def idle_def fst_conv other_neq by (simp only: simp_thms)
qed

section \<open>The section ends\<close>

definition within :: "task \<Rightarrow> pc \<times> console \<times> memory \<Rightarrow> pc \<times> console \<times> memory \<Rightarrow> bool" where
  "within t a b \<longleftrightarrow> inside (fst a) \<and> inside (fst b) \<and> task_step t (fst a) (snd a) = b"

definition gets_out :: "task \<Rightarrow> pc \<Rightarrow> console \<times> memory \<Rightarrow> bool" where
  "gets_out t p x \<longleftrightarrow> (\<exists>y. (within t)\<^sup>*\<^sup>* (p, x) (Release, y))"

lemma gets_step:
  "task_step t p x = (q, y) \<Longrightarrow> inside p \<Longrightarrow> inside q \<Longrightarrow> gets_out t q y \<Longrightarrow> gets_out t p x"
  unfolding gets_out_def
  by (blast intro: converse_rtranclp_into_rtranclp [where a = "(p, x)" and b = "(q, y)"]
      within_def [of t "(p, x)" "(q, y)", unfolded fst_conv snd_conv, THEN iffD2])

lemma out_Release [simp]: "gets_out t Release x"
  unfolding gets_out_def by blast

lemma out_Next_row [simp]: "gets_out t Next_row x"
  by (cases x) (simp add: gets_step [where p = Next_row])

lemma out_Copy [simp]: "gets_out t (Copy d bs) x"
proof (induction bs arbitrary: d x)
  case Nil
  show ?case by (cases x) (simp add: gets_step [where p = "Copy d []"])
next
  case (Cons b bs)
  show ?case by (cases x) (simp add: gets_step [where p = "Copy d (b # bs)"] Cons.IH)
qed

lemma out_Start_row [simp]: "gets_out t Start_row x"
  by (cases x) (simp add: gets_step [where p = Start_row])

lemma out_Set_cleared [simp]: "gets_out t Set_cleared x"
  by (cases x) (simp add: gets_step [where p = Set_cleared])

lemma out_Clear [simp]: "gets_out t (Clear n) x"
proof (induction "2000 - n" arbitrary: n x)
  case 0
  then show ?case by (cases x) (simp add: gets_step [where p = "Clear n"])
next
  case (Suc k)
  have "gets_out t (Clear (Suc n)) y" for y using Suc.hyps by simp
  moreover have "n < 80 * 25" using Suc.hyps(2) by simp
  ultimately show ?case by (cases x) (simp add: gets_step [where p = "Clear n"])
qed

lemma out_Test_cleared [simp]: "gets_out t Test_cleared x"
  by (cases x) (simp add: gets_step [where p = Test_cleared])

text \<open>Waiting for the line: the \<open>k\<close>-th read from now on finds it ready.\<close>

lemma out_wait:
  assumes "ready_at (p_dev (con_ports c)) 0x3fd tx_empty (p_count (con_ports c) 0x3fd + k)"
    and "\<And>s. p_dev s = p_dev (con_ports c) \<Longrightarrow> gets_out t (Out (b # bs)) (c\<lparr>con_ports := s\<rparr>, m)"
  shows "gets_out t (Poll (b # bs)) (c, m)"
  using assms
proof (induction k arbitrary: c)
  case 0
  let ?s = "(con_ports c)\<lparr>p_count := (p_count (con_ports c))(0x3fd := Suc (p_count (con_ports c) 0x3fd))\<rparr>"
  have "task_step t (Poll (b # bs)) (c, m) = (Out (b # bs), c\<lparr>con_ports := ?s\<rparr>, m)"
    using 0(1) by (simp add: inb_def inw_def ready_at_def serial_iobase_def)
  moreover have "gets_out t (Out (b # bs)) (c\<lparr>con_ports := ?s\<rparr>, m)" by (rule 0(2)) simp
  ultimately show ?case by (simp add: gets_step [where p = "Poll (b # bs)"])
next
  case (Suc k)
  let ?s = "(con_ports c)\<lparr>p_count := (p_count (con_ports c))(0x3fd := Suc (p_count (con_ports c) 0x3fd))\<rparr>"
  have step: "task_step t (Poll (b # bs)) (c, m) =
      (if ready_at (p_dev (con_ports c)) 0x3fd tx_empty (p_count (con_ports c) 0x3fd)
       then Out (b # bs) else Poll (b # bs), c\<lparr>con_ports := ?s\<rparr>, m)"
    by (simp add: inb_def inw_def ready_at_def serial_iobase_def)
  have "gets_out t (Poll (b # bs)) (c\<lparr>con_ports := ?s\<rparr>, m)"
  proof (rule Suc.IH)
    show "ready_at (p_dev (con_ports (c\<lparr>con_ports := ?s\<rparr>))) 0x3fd tx_empty (p_count (con_ports (c\<lparr>con_ports := ?s\<rparr>)) 0x3fd + k)"
      using Suc.prems(1) by simp
    show "gets_out t (Out (b # bs)) (c\<lparr>con_ports := ?s\<rparr>\<lparr>con_ports := s\<rparr>, m)"
      if "p_dev s = p_dev (con_ports (c\<lparr>con_ports := ?s\<rparr>))" for s
      using Suc.prems(2) [of s] that by simp
  qed
  moreover have "gets_out t (Out (b # bs)) (c\<lparr>con_ports := ?s\<rparr>, m)" by (rule Suc.prems(2)) simp
  ultimately have "gets_out t (if ready_at (p_dev (con_ports c)) 0x3fd tx_empty (p_count (con_ports c) 0x3fd)
       then Out (b # bs) else Poll (b # bs)) (c\<lparr>con_ports := ?s\<rparr>, m)" by simp
  from gets_step [OF step _ _ this] show ?case by simp
qed

lemma out_Poll: "line_ready (con_ports c) \<Longrightarrow> gets_out t (Poll bs) (c, m)"
proof (induction bs arbitrary: c)
  case Nil
  show ?case by (simp add: gets_step [where p = "Poll []"])
next
  case (Cons b bs)
  have dev: "line_ready s" if "p_dev s = p_dev (con_ports c)" for s :: ports
    using Cons.prems that by (simp add: line_ready_def)
  obtain k where k: "ready_at (p_dev (con_ports c)) 0x3fd tx_empty (p_count (con_ports c) 0x3fd + k)"
    using Cons.prems unfolding line_ready_def keeps_ready_def by (metis le_iff_add)
  show ?case
  proof (rule out_wait [OF k])
    fix s :: ports assume s: "p_dev s = p_dev (con_ports c)"
    have "gets_out t (Poll bs) (c\<lparr>con_ports := outb (serial_iobase + 0x00) b s\<rparr>, m)"
      by (rule Cons.IH) (simp add: dev s)
    then show "gets_out t (Out (b # bs)) (c\<lparr>con_ports := s\<rparr>, m)"
      by (simp add: gets_step [where p = "Out (b # bs)"])
  qed
qed

lemma init_access_dev: "p_dev (snd (init_access n lcr s)) = p_dev s"
  by (simp add: init_access_def)

lemma out_Set_up: "line_ready (con_ports c) \<Longrightarrow> gets_out t (Set_up n lcr) (c, m)"
proof (induction "10 - n" arbitrary: n lcr c)
  case 0
  have "gets_out t Set_inited (c, m)" by (simp add: gets_step [where p = Set_inited] out_Poll 0)
  with 0 show ?case by (simp add: gets_step [where p = "Set_up n lcr"])
next
  case (Suc k)
  obtain lcr' s where a: "init_access n lcr (con_ports c) = (lcr', s)" by fastforce
  have "p_dev s = p_dev (con_ports c)"
    using init_access_dev [of n lcr "con_ports c"] a by simp
  then have "line_ready (con_ports (c\<lparr>con_ports := s\<rparr>))" using Suc.prems by (simp add: line_ready_def)
  then have r: "gets_out t (Set_up (Suc n) lcr') (c\<lparr>con_ports := s\<rparr>, m)" using Suc.hyps by simp
  have "n < 10" using Suc.hyps(2) by simp
  then have "task_step t (Set_up n lcr) (c, m) = (Set_up (Suc n) lcr', c\<lparr>con_ports := s\<rparr>, m)" by (simp add: a)
  from gets_step [OF this _ _ r] show ?case by simp
qed

lemma out_inside:
  assumes "line_ready (con_ports c)" "inside p"
  shows "gets_out t p (c, m)"
proof (cases p)
  case Set_inited
  then show ?thesis using assms by (simp add: gets_step [where p = Set_inited] out_Poll)
next
  case Test_inited
  have "gets_out t (if serial_inited c = 0 then Set_up 0 0 else Poll (wire (task_fmt t))) (c, m)"
    using assms by (simp add: out_Poll out_Set_up)
  then show ?thesis using Test_inited by (simp add: gets_step [where p = Test_inited])
next
  case (Out bs)
  have "line_ready (outb (serial_iobase + 0x00) (hd bs) (con_ports c))" using assms by (simp add: line_ready_def)
  then show ?thesis using Out by (simp add: gets_step [where p = "Out bs"] out_Poll)
qed (use assms in \<open>simp_all add: out_Poll out_Set_up\<close>)

lemma task_step_dev:
  "task_step t p x = (q, y) \<Longrightarrow> p_dev (con_ports (fst y)) = p_dev (con_ports (fst x))"
  by (cases x; cases p)
    (auto simp: Let_def inb_def inw_def init_access_def split: prod.splits if_splits list.splits option.splits)

text \<open>Along the way nothing is lost: the section ends with the result that \<open>finish\<close> foretells.\<close>

lemma within_finish:
  "(within t)\<^sup>*\<^sup>* a b \<Longrightarrow> finish t (fst b) (snd b) = finish t (fst a) (snd a)
    \<and> p_dev (con_ports (fst (snd b))) = p_dev (con_ports (fst (snd a)))"
proof (induction rule: rtranclp_induct)
  case (step y z)
  from step(2) have "finish t (fst z) (snd z) = finish t (fst y) (snd y)"
    "p_dev (con_ports (fst (snd z))) = p_dev (con_ports (fst (snd y)))"
    using task_step_finish [of "fst y" t "snd y" "fst z" "snd z"] task_step_dev [of t "fst y" "snd y" "fst z" "snd z"]
    by (auto simp: within_def)
  with step(3) show ?case by simp
qed simp

lemma sys_dev: "sys_step\<^sup>*\<^sup>* a b \<Longrightarrow> p_dev (con_ports (fst (snd (snd b)))) = p_dev (con_ports (fst (snd (snd a))))"
proof (induction rule: rtranclp_induct)
  case (step y z)
  from step(2) have "p_dev (con_ports (fst (snd (snd z)))) = p_dev (con_ports (fst (snd (snd y))))"
    by (auto elim!: sys_stepE dest: task_step_dev)
  with step(3) show ?case by simp
qed simp

lemma within_sys:
  assumes "(within t)\<^sup>*\<^sup>* a b" "current T = t"
  shows "sys_step\<^sup>*\<^sup>* (T, ps(t := fst a), snd a) (T, ps(t := fst b), snd b) \<and> (\<not> idle (snd a) \<longrightarrow> \<not> idle (snd b))"
  using assms(1)
proof (induction rule: rtranclp_induct)
  case (step y z)
  have st: "task_step t (fst y) (snd y) = (fst z, snd z)" "inside (fst y)" "inside (fst z)"
    using step(2) by (auto simp: within_def)
  have "sys_step (T, ps(t := fst y), snd y) (T, ps(t := fst z), snd z)"
    using sys_step.turn [of T "ps(t := fst y)" "snd y" "fst z" "snd z"] assms(2) st(1) by simp
  from rtranclp.rtrancl_into_rtrancl [OF conjunct1 [OF step(3)] this]
  show ?case using task_step_lock [OF st(2) _ st(1,3)] step(3) by blast
qed simp

lemma section_done:
  assumes "line_ready (con_ports (fst x))" "inside (ps t)" "current T = t" "\<not> idle x"
  shows "\<exists>y. sys_step\<^sup>*\<^sup>* (T, ps, x) (T, ps(t := Format_text), y) \<and> finish t (ps t) x = Some y \<and> idle y"
proof -
  obtain c m where x: "x = (c, m)" by fastforce
  obtain z where z: "(within t)\<^sup>*\<^sup>* (ps t, x) (Release, z)"
    using out_inside [of c "ps t" t m] assms(1,2) x by (auto simp: gets_out_def)
  from within_sys [OF z assms(3), of ps] have "sys_step\<^sup>*\<^sup>* (T, ps, x) (T, ps(t := Release), z)" by simp
  moreover have "sys_step (T, ps(t := Release), z) (T, (ps(t := Release))(t := Format_text),
      (fst z)\<lparr>con_lock := spin_unlock (con_lock (fst z))\<rparr>, snd z)"
    using sys_step.turn [of T "ps(t := Release)" z] assms(3) by (cases z) simp
  ultimately have "sys_step\<^sup>*\<^sup>* (T, ps, x) (T, ps(t := Format_text),
      (fst z)\<lparr>con_lock := spin_unlock (con_lock (fst z))\<rparr>, snd z)" by simp
  moreover have "finish t (ps t) x = Some ((fst z)\<lparr>con_lock := spin_unlock (con_lock (fst z))\<rparr>, snd z)"
    using within_finish [OF z] by simp
  ultimately show ?thesis by (auto simp: idle_def)
qed

text \<open>From any point, the processor can be brought to a task of one's choice.\<close>

lemma switch_to: "\<exists>T'. sys_step\<^sup>*\<^sup>* (T, ps, x) (T', ps, x) \<and> current T' = t"
proof (cases "current T = t")
  case False
  obtain sel T' where "task_sched T = (sel, T')" by fastforce
  then have "sys_step (T, ps, x) (T', ps, x)" "current T' = other (current T)"
    by (auto intro: sys_step.timer current_sched)
  then show ?thesis using False other_neq [of t "current T"] by auto
qed auto

lemma release_lock:
  assumes "serial inside idle finish whole s0 ps x ts" "line_ready (con_ports (fst x))"
  shows "\<exists>T1 ps1 x1. sys_step\<^sup>*\<^sup>* (T, ps, x) (T1, ps1, x1) \<and> idle x1 \<and> (\<forall>t. \<not> inside (ps1 t))"
proof (cases "idle x")
  case True
  then have "\<forall>t. \<not> inside (ps t)" using assms(1) by (simp add: serial_def)
  with True show ?thesis by blast
next
  case False
  then obtain t where t: "inside (ps t)" "\<forall>u. u \<noteq> t \<longrightarrow> \<not> inside (ps u)" using assms(1) by (auto simp: serial_def)
  obtain T' where T': "sys_step\<^sup>*\<^sup>* (T, ps, x) (T', ps, x)" "current T' = t" using switch_to by blast
  obtain y where "sys_step\<^sup>*\<^sup>* (T', ps, x) (T', ps(t := Format_text), y)" "idle y"
    using section_done [where ps = ps and t = t and T = T', OF assms(2) t(1) T'(2) False] by blast
  moreover have "\<forall>u. \<not> inside ((ps(t := Format_text)) u)" using t(2) by simp
  ultimately show ?thesis using T'(1) by (meson rtranclp_trans)
qed

lemma say_once:
  assumes "idle x" "\<not> inside (ps t)" "line_ready (con_ports (fst x))" "current T = t"
  shows "\<exists>y. sys_step\<^sup>*\<^sup>* (T, ps, x) (T, ps(t := Format_text), y) \<and> say t x = Some y \<and> idle y"
proof -
  obtain c m where x: "x = (c, m)" by fastforce
  have f: "sys_step (T, ps(t := Format_text), x) (T, ps(t := Take_lock), x)"
    using sys_step.turn [of T "ps(t := Format_text)" x] assms(4) x by simp
  have "ps t = Format_text \<or> ps t = Take_lock" using assms(2) by (cases "ps t") simp_all
  then have 1: "sys_step\<^sup>*\<^sup>* (T, ps, x) (T, ps(t := Take_lock), x)"
  proof
    assume "ps t = Format_text"
    then have "ps = ps(t := Format_text)" by auto
    then show ?thesis using r_into_rtranclp [of sys_step, OF f] by simp
  next
    assume "ps t = Take_lock"
    then show ?thesis by (simp add: fun_upd_idem)
  qed
  let ?x = "(c\<lparr>con_lock := (con_lock c)\<lparr>v := 1\<rparr>\<rparr>, m)"
  have "task_step t Take_lock x = (Test_inited, ?x)"
    using assms(1) x by (simp add: idle_def spin_lock_free)
  then have 2: "sys_step (T, ps(t := Take_lock), x) (T, ps(t := Test_inited), ?x)"
    using sys_step.turn [of T "ps(t := Take_lock)" x] assms(4) by simp
  obtain y where y: "sys_step\<^sup>*\<^sup>* (T, ps(t := Test_inited), ?x) (T, ps(t := Format_text), y)"
    "finish t Test_inited ?x = Some y" "idle y"
  proof -
    let ?ps = "ps(t := Test_inited)"
    have "line_ready (con_ports (fst ?x))" "inside (?ps t)" "\<not> idle ?x"
      using assms(3) x by (simp_all add: idle_def lock_free_def)
    from section_done [where ps = ?ps and t = t and T = T, OF this(1,2) assms(4) this(3)] that show ?thesis by (simp only: fun_upd_upd fun_upd_same) blast
  qed
  have "say t x = finish t Test_inited ?x" using assms(1) x by (simp add: say_def idle_def spin_lock_free)
  then have "say t x = Some y" using y(2) by (rule trans)
  with rtranclp_trans [OF rtranclp.rtrancl_into_rtrancl [OF 1 2] y(1)] y(3) show ?thesis by blast
qed

text \<open>C13. No deadlock and no starvation by the lock: on a line that becomes ready again and again, from
  every point that the two tasks can reach, and for either of them, there is a schedule under which
  whoever holds the lock releases it and then this task completes a whole \<open>printf\<close>.\<close>

theorem tasks_progress:
  assumes "texts_at buf m0" "row_ok c0" "lock_free (con_lock c0)" "line_ready (con_ports c0)"
    "sys_step\<^sup>*\<^sup>* (started (c0, m0)) s"
  shows "\<exists>T1 ps1 x1 ps2 x2. sys_step\<^sup>*\<^sup>* s (T1, ps1, x1) \<and> sys_step\<^sup>*\<^sup>* (T1, ps1, x1) (T1, ps2, x2)
    \<and> print_task buf t x1 = Some x2 \<and> lock_free (con_lock (fst x2))"
proof -
  obtain T ps x where s: "s = (T, ps, x)" by (cases s) auto
  from sys_serial [OF assms(1-3) assms(5) [unfolded s]] obtain ts where
    ser: "serial inside idle finish (puts_task buf) (c0, m0) ps x ts" by blast
  have line: "line_ready (con_ports (fst y))" if "sys_step\<^sup>*\<^sup>* s (T', ps', y)" for T' ps' y
    using sys_dev [OF rtranclp_trans [OF assms(5) that]] assms(4) by (simp add: started_def line_ready_def)
  obtain T1 ps1 x1 where r: "sys_step\<^sup>*\<^sup>* s (T1, ps1, x1)" "idle x1" "\<forall>t. \<not> inside (ps1 t)"
    using release_lock [OF ser, of T] line [of T ps x] s by auto
  obtain T2 where T2: "sys_step\<^sup>*\<^sup>* (T1, ps1, x1) (T2, ps1, x1)" "current T2 = t" using switch_to by blast
  then have r2: "sys_step\<^sup>*\<^sup>* s (T2, ps1, x1)" using r(1) by (meson rtranclp_trans)
  obtain y where y: "sys_step\<^sup>*\<^sup>* (T2, ps1, x1) (T2, ps1(t := Format_text), y)" "say t x1 = Some y" "idle y"
    using say_once [OF r(2) _ line [OF r2] T2(2)] r(3) by blast
  from sys_serial [OF assms(1-3) rtranclp_trans [OF assms(5) r2]] obtain ts' where
    "serial inside idle finish (puts_task buf) (c0, m0) ps1 x1 ts'" by blast
  with r(2) have "wholes (puts_task buf) ts' (c0, m0) = Some x1" by (simp add: serial_def)
  from wholes_keeps [OF this] have "texts_at buf (snd x1)" "row_ok (fst x1)" using assms(1,2) by simp_all
  then have "print_task buf t x1 = Some y" using y(2) say_puts print_task_puts by simp
  moreover have "lock_free (con_lock (fst y))" using y(3) by (simp add: idle_def)
  ultimately show ?thesis using r2 y(1) by blast
qed

section \<open>What goes out on the line\<close>

lemma init_access_out: "\<exists>zs. p_out (snd (init_access n lcr s)) = p_out s @ zs"
  by (auto simp: init_access_def)

lemma init_fold_out:
  "\<exists>zs. p_out (snd (fold (\<lambda>i (l, s). init_access i l s) is a)) = p_out (snd a) @ zs"
proof (induction "is" arbitrary: a)
  case (Cons i js)
  obtain l s where a: "a = (l, s)" by fastforce
  from init_access_out [of i l s] Cons.IH [of "init_access i l s"] show ?case by (auto simp: a)
qed simp

lemma outb_all_out: "put_all serial_outb bs s = Some s' \<Longrightarrow> \<exists>zs. p_out s' = p_out s @ zs"
proof (induction bs arbitrary: s)
  case (Cons b bs)
  then obtain s1 where s1: "serial_outb b s = Some s1" "put_all serial_outb bs s1 = Some s'"
    by (auto split: option.splits)
  then obtain s2 where s2: "poll 0x3fd tx_empty s = Some s2" "s1 = outb 0x3f8 b s2"
    by (auto simp: serial_outb_def serial_iobase_def)
  from poll_ready [OF poll_Some [OF s2(1)]] s2 have "p_out s1 = p_out s @ [(0x3f8, b)]" by auto
  with Cons.IH [OF s1(2)] show ?case by auto
qed simp

lemma end_screen_ports [simp]: "con_ports (fst (end_screen t c m)) = con_ports c"
  by (simp add: end_screen_def end_clear_def end_row_def end_section_def)

lemma end_wire_out:
  "end_wire t bs c m = Some y \<Longrightarrow> \<exists>zs. p_out (con_ports (fst y)) = p_out (con_ports c) @ zs"
  using outb_all_out by (fastforce simp: end_wire_def)

lemma finish_out:
  assumes "finish t p x = Some y"
  shows "\<exists>zs. p_out (con_ports (fst y)) = p_out (con_ports (fst x)) @ zs"
proof -
  have init: "\<exists>zs. p_out (con_ports (fst y)) = p_out (con_ports c) @ zs" if "end_init t n lcr c m = Some y" for n lcr c m
    using end_wire_out [OF that [unfolded end_init_def]] init_fold_out [of "[n..<10]" "(lcr, con_ports c)"] by auto
  show ?thesis
    using assms by (cases p) (auto simp: end_clear_def end_row_def end_section_def split: if_splits dest: init end_wire_out)
qed

text \<open>The messages of a list of tasks, as they go to the port.\<close>

definition messages :: "task list \<Rightarrow> (u16 \<times> u8) list" where
  "messages ts = concat (map (\<lambda>t. map (Pair 0x3f8) (task_fmt t)) ts)"

lemma crlf_task: "concat (map crlf (task_fmt t)) = map (Pair 0x3f8) (task_fmt t)"
  by (cases t) (simp_all add: crlf_def)

lemma puts_task_out:
  assumes "texts_at buf (snd x)" "row_ok (fst x)" "idle x" "line_ready (con_ports (fst x))"
  shows "\<exists>y ws. puts_task buf t x = Some y \<and> idle y \<and> line_ready (con_ports (fst y))
    \<and> setup_of (serial_inited (fst x)) ws \<and> serial_inited (fst y) \<noteq> 0
    \<and> p_out (con_ports (fst y)) = p_out (con_ports (fst x)) @ ws @ messages [t]"
proof -
  have "string_at (snd x) (buf t) (task_fmt t)" "clear_of_screen (buf t) (length (task_fmt t))"
    using assms(1) by (auto simp: texts_at_def)
  from puts_ok [OF this(1) _ assms(4) this(2) assms(2)] assms(3) show ?thesis
    by (fastforce simp: puts_task_def idle_def messages_def crlf_task)
qed

lemma wholes_out:
  assumes "texts_at buf (snd x)" "row_ok (fst x)" "idle x" "line_ready (con_ports (fst x))"
  shows "\<exists>y ws. wholes (puts_task buf) ts x = Some y \<and> (ts = [] \<or> setup_of (serial_inited (fst x)) ws)
    \<and> (ts = [] \<longrightarrow> ws = []) \<and> p_out (con_ports (fst y)) = p_out (con_ports (fst x)) @ ws @ messages ts"
  using assms
proof (induction ts arbitrary: x)
  case Nil
  show ?case by (auto simp: messages_def)
next
  case (Cons t ts)
  from puts_task_out [OF Cons.prems] obtain y ws where y: "puts_task buf t x = Some y" "idle y"
    "line_ready (con_ports (fst y))" "setup_of (serial_inited (fst x)) ws" "serial_inited (fst y) \<noteq> 0"
    "p_out (con_ports (fst y)) = p_out (con_ports (fst x)) @ ws @ messages [t]" by blast
  from puts_task_keeps [OF y(1) Cons.prems(1,2)] Cons.IH [of y] y(2,3) obtain z vs where z:
    "wholes (puts_task buf) ts y = Some z" "ts = [] \<or> setup_of (serial_inited (fst y)) vs" "ts = [] \<longrightarrow> vs = []"
    "p_out (con_ports (fst z)) = p_out (con_ports (fst y)) @ vs @ messages ts" by blast
  have "vs = []" using z(2,3) y(5) by (auto simp: setup_of_def)
  with y z show ?case by (auto simp: messages_def)
qed

text \<open>C12. The messages of the two tasks never mix on the serial line: at every point, under every schedule,
  what has gone out is the setup of the line followed by whole messages in some order, up to a point
  inside the last one.\<close>

theorem tasks_output:
  assumes "texts_at buf m0" "row_ok c0" "lock_free (con_lock c0)" "line_ready (con_ports c0)"
    "sys_step\<^sup>*\<^sup>* (started (c0, m0)) (T, ps, c, m)"
  shows "\<exists>ts ws rest. setup_of (serial_inited c0) ws
    \<and> p_out (con_ports c) @ rest = p_out (con_ports c0) @ ws @ messages ts"
proof -
  have w: "\<exists>y ws. wholes (puts_task buf) us (c0, m0) = Some y \<and> (us = [] \<or> setup_of (serial_inited c0) ws)
    \<and> (us = [] \<longrightarrow> ws = []) \<and> p_out (con_ports (fst y)) = p_out (con_ports c0) @ ws @ messages us" for us
    using wholes_out [of buf "(c0, m0)" us] assms(1-4) by (simp add: idle_def)
  have s: "\<exists>ws. setup_of i ws" for i by (auto simp: setup_of_def)
  from sys_serial [OF assms(1-3,5)] obtain ts where ts: "serial inside idle finish (puts_task buf) (c0, m0) ps (c, m) ts" by blast
  show ?thesis
  proof (cases "idle (c, m)")
    case True
    then have "wholes (puts_task buf) ts (c0, m0) = Some (c, m)" using ts by (simp add: serial_def)
    with w [of ts] obtain ws where "ts = [] \<or> setup_of (serial_inited c0) ws" "ts = [] \<longrightarrow> ws = []"
      "p_out (con_ports c) = p_out (con_ports c0) @ ws @ messages ts" by auto
    then show ?thesis using s [of "serial_inited c0"] by (cases "ts = []") (fastforce simp: messages_def)+
  next
    case False
    then obtain t where t: "wholes (puts_task buf) (ts @ [t]) (c0, m0) = finish t (ps t) (c, m)"
      using ts by (auto simp: serial_def)
    with w [of "ts @ [t]"] obtain y ws where "finish t (ps t) (c, m) = Some y" "setup_of (serial_inited c0) ws"
      "p_out (con_ports (fst y)) = p_out (con_ports c0) @ ws @ messages (ts @ [t])" by auto
    with finish_out show ?thesis by fastforce
  qed
qed


section \<open>A run\<close>

primrec buf0 :: "task \<Rightarrow> u32" where
  "buf0 Task0 = 0x8000"
| "buf0 Task1 = 0x9000"

definition texts0 :: memory where
  "texts0 = write_bytes (write_bytes (\<lambda>_. 0) 0x8000 (task_fmt Task0)) 0x9000 (task_fmt Task1)"

lemma texts0_ok: "texts_at buf0 texts0"
proof -
  have b: "texts0 a = (if unat (a - 0x9000) < 16 then task_fmt Task1 ! unat (a - 0x9000)
      else if unat (a - 0x8000) < 16 then task_fmt Task0 ! unat (a - 0x8000) else 0)" for a
    by (simp add: texts0_def write_bytes_apply del: task_fmt.simps)
  have "string_at texts0 (buf0 t) (task_fmt t)" for t by (cases t) (simp_all add: b)
  moreover have "clear_of_screen (buf0 t) 16" for t by (cases t) (simp_all add: clear_of_screen_low)
  ultimately show ?thesis by (simp add: texts_at_def)
qed

lemma console0_start: "row_ok console0" "lock_free (con_lock console0)"
  by (simp_all add: console0_def row_ok_def lock_free_def)

text \<open>The first task has taken the lock when the timer comes; the second one then spins.\<close>

lemma spinning:
  "\<exists>T. sys_step\<^sup>*\<^sup>* (started (console0, texts0))
     (T, (\<lambda>_. Format_text)(Task0 := Test_inited, Task1 := Take_lock), console0\<lparr>con_lock := \<lparr>v = 1\<rparr>\<rparr>, texts0)"
proof -
  let ?T = "tables_boot" and ?c = "console0\<lparr>con_lock := \<lparr>v = 1\<rparr>\<rparr>" and ?p = "\<lambda>_ :: task. Format_text"
  have cur: "current ?T = Task0" by (simp add: current_def tables_boot_def)
  obtain sel T' where sched: "task_sched ?T = (sel, T')" by fastforce
  then have cur': "current T' = Task1" using current_sched cur by simp
  have l: "spin_lock (con_lock console0) = Some \<lparr>v = 1\<rparr>" "spin_lock (con_lock ?c) = None"
    by (simp_all add: console0_def spin_lock_def)
  have 1: "sys_step (?T, ?p, console0, texts0) (?T, ?p(Task0 := Take_lock), console0, texts0)"
    using sys_step.turn [of ?T ?p "(console0, texts0)"] cur by simp
  have 2: "sys_step (?T, ?p(Task0 := Take_lock), console0, texts0) (?T, ?p(Task0 := Test_inited), ?c, texts0)"
    using sys_step.turn [of ?T "?p(Task0 := Take_lock)" "(console0, texts0)"] cur l by simp
  have 3: "sys_step (?T, ?p(Task0 := Test_inited), ?c, texts0) (T', ?p(Task0 := Test_inited), ?c, texts0)"
    by (rule sys_step.timer [OF sched])
  have 4: "sys_step (T', ?p(Task0 := Test_inited), ?c, texts0)
      (T', ?p(Task0 := Test_inited, Task1 := Take_lock), ?c, texts0)"
    using sys_step.turn [of T' "?p(Task0 := Test_inited)" "(?c, texts0)"] cur' by simp
  note rtranclp.rtrancl_into_rtrancl [OF rtranclp.rtrancl_into_rtrancl [OF
      rtranclp.rtrancl_into_rtrancl [OF r_into_rtranclp [of sys_step, OF 1] 2] 3] 4]
  then show ?thesis unfolding started_def by blast
qed

theorem tasks_serialised_witness:
  "\<exists>ts. wholes (print_task buf0) ts (console0, texts0) \<noteq> None \<and>
     wholes (print_task buf0) (ts @ [Task0]) (console0, texts0) =
       finish Task0 Test_inited (console0\<lparr>con_lock := \<lparr>v = 1\<rparr>\<rparr>, texts0)"
proof -
  obtain T where "sys_step\<^sup>*\<^sup>* (started (console0, texts0))
     (T, (\<lambda>_. Format_text)(Task0 := Test_inited, Task1 := Take_lock), console0\<lparr>con_lock := \<lparr>v = 1\<rparr>\<rparr>, texts0)"
    using spinning by blast
  from tasks_serialised [OF texts0_ok console0_start this] obtain ts t where
    t: "inside (((\<lambda>_. Format_text)(Task0 := Test_inited, Task1 := Take_lock)) t)"
    "wholes (print_task buf0) ts (console0, texts0) \<noteq> None"
    "wholes (print_task buf0) (ts @ [t]) (console0, texts0) =
      finish t (((\<lambda>_. Format_text)(Task0 := Test_inited, Task1 := Take_lock)) t) (console0\<lparr>con_lock := \<lparr>v = 1\<rparr>\<rparr>, texts0)"
    by (auto simp: lock_free_def simp del: finish.simps)
  then have "t = Task0" by (cases t) simp_all
  with t show ?thesis by (auto simp del: finish.simps)
qed

theorem tasks_progress_witness:
  "\<exists>x1 x2. print_task buf0 Task1 x1 = Some x2 \<and> lock_free (con_lock (fst x2))"
proof -
  obtain T where "sys_step\<^sup>*\<^sup>* (started (console0, texts0))
     (T, (\<lambda>_. Format_text)(Task0 := Test_inited, Task1 := Take_lock), console0\<lparr>con_lock := \<lparr>v = 1\<rparr>\<rparr>, texts0)"
    using spinning by blast
  from tasks_progress [OF texts0_ok console0_start console0_line this, of Task1] show ?thesis by blast
qed

theorem tasks_output_witness:
  "\<exists>ts ws rest. setup_of 0 ws \<and> p_out (con_ports (console0\<lparr>con_lock := \<lparr>v = 1\<rparr>\<rparr>)) @ rest = ws @ messages ts"
proof -
  obtain T where "sys_step\<^sup>*\<^sup>* (started (console0, texts0))
     (T, (\<lambda>_. Format_text)(Task0 := Test_inited, Task1 := Take_lock), console0\<lparr>con_lock := \<lparr>v = 1\<rparr>\<rparr>, texts0)"
    using spinning by blast
  from tasks_output [OF texts0_ok console0_start console0_line this] show ?thesis
    by (simp add: console0_def)
qed

end
