(* ===== verification/Guest_Paging.thy ===== *)
theory Guest_Paging
  imports Cstring
begin

text \<open>
  The page tables that \<open>src/kernel/vm/vm.c\<close> builds for the guest (\<open>setup_guest_page_tables\<close>), the page
  directory of the host (\<open>src/basic_set/os.c\<close>), and the two-level page walk of 32-bit paging with
  4 MB pages as the specification against which both are proved. The addresses of the two static
  arrays are chosen by the linker and are parameters.
\<close>

unbundle bit_operations_syntax

section \<open>Flags\<close>

definition PDE_P :: u32 where "PDE_P = push_bit 0 1"
definition PDE_W :: u32 where "PDE_W = push_bit 1 1"
definition PDE_U :: u32 where "PDE_U = push_bit 2 1"
definition PDE_PS :: u32 where "PDE_PS = push_bit 7 1"

definition PTE_P :: u32 where "PTE_P = push_bit 0 1"
definition PTE_W :: u32 where "PTE_W = push_bit 1 1"
definition PTE_U :: u32 where "PTE_U = push_bit 2 1"

lemmas page_flags = PDE_P_def PDE_W_def PDE_U_def PDE_PS_def PTE_P_def PTE_W_def PTE_U_def

definition TEST_READONLY_ADDR :: u32 where
  "TEST_READONLY_ADDR = 0x103b46"

section \<open>Construction\<close>

text \<open>\<open>a[i] = w\<close> for an array of \<open>uint32_t\<close> at address \<open>a\<close>.\<close>

definition store_elem :: "u32 \<Rightarrow> nat \<Rightarrow> u32 \<Rightarrow> memory \<Rightarrow> memory" where
  "store_elem a i w m = store32 m (a + 4 * of_nat i) w"

definition load_elem :: "memory \<Rightarrow> u32 \<Rightarrow> nat \<Rightarrow> u32" where
  "load_elem m a i = load32 m (a + 4 * of_nat i)"

definition pte_identity :: "nat \<Rightarrow> u32" where
  "pte_identity i = push_bit 12 (of_nat i) OR PTE_P OR PTE_W OR PTE_U"

definition pde_identity :: "nat \<Rightarrow> u32" where
  "pde_identity i = push_bit 22 (of_nat i) OR PDE_P OR PDE_W OR PDE_U OR PDE_PS"

definition setup_guest_page_tables :: "u32 \<Rightarrow> u32 \<Rightarrow> memory \<Rightarrow> memory \<times> pcall list \<times> u32" where
  "setup_guest_page_tables guest_page_dir guest_page_table m =
     (let m1 = memset m guest_page_dir 0 4096;
          m2 = memset m1 guest_page_table 0 4096;
          m3 = store_elem guest_page_dir 0 (guest_page_table OR PDE_P OR PDE_W OR PDE_U) m2;
          m4 = fold (\<lambda>i. store_elem guest_page_table i (pte_identity i)) [0..<1024] m3;
          test_page_idx = drop_bit 12 TEST_READONLY_ADDR;
          i = unat test_page_idx;
          m5 = store_elem guest_page_table i (load_elem m4 guest_page_table i AND NOT PTE_W) m4;
          m6 = fold (\<lambda>i. store_elem guest_page_dir i (pde_identity i)) [1..<1024] m5
      in (m6,
          [Printf ''Setting up guest page tables...\<newline>'' [],
           Printf ''Guest page directory at %#x\<newline>'' [PWord guest_page_dir],
           Printf ''Guest page table at %#x\<newline>'' [PWord guest_page_table],
           Printf ''Test page %#x (index %d) set to READ-ONLY\<newline>''
             [PWord (push_bit 12 test_page_idx), PWord test_page_idx]],
          guest_page_dir))"

text \<open>The page directory of the host: one 4 MB page, the other 1023 entries are zero.\<close>

definition page_dir :: "u32 list" where
  "page_dir = (PDE_P OR PDE_W OR PDE_U OR PDE_PS OR 0) # replicate 1023 0"

section \<open>The page walk\<close>

text \<open>\<open>page_walk m cr3 wr a\<close>: the physical address that a read (or a write, for \<open>wr\<close>) of the linear
  address \<open>a\<close> reaches under \<open>CR3 = cr3\<close>, with \<open>CR0.WP\<close> and \<open>CR4.PSE\<close> set; \<open>None\<close> is a page fault.\<close>

definition page_walk :: "memory \<Rightarrow> u32 \<Rightarrow> bool \<Rightarrow> u32 \<Rightarrow> u32 option" where
  "page_walk m cr3 wr a =
     (let pde = load_elem m (cr3 AND NOT (mask 12)) (unat (drop_bit 22 a))
      in if pde AND PDE_P = 0 then None
         else if pde AND PDE_PS \<noteq> 0 then
           (if wr \<and> pde AND PDE_W = 0 then None
            else Some ((pde AND NOT (mask 22)) OR (a AND mask 22)))
         else let pte = load_elem m (pde AND NOT (mask 12)) (unat (drop_bit 12 a AND mask 10))
              in if pte AND PTE_P = 0 \<or> wr \<and> (pde AND PDE_W = 0 \<or> pte AND PTE_W = 0) then None
                 else Some ((pte AND NOT (mask 12)) OR (a AND mask 12)))"

section \<open>Arrays of words in memory\<close>

lemma elem_addr:
  assumes "aligned a 4096" "i < 1024"
  shows "unat (a + 4 * of_nat i) = unat a + 4 * i"
proof -
  have "unat a + 4096 \<le> 2 ^ 32" using aligned_bound [OF assms(1)] by simp
  then have "unat (a + of_nat (4 * i)) = unat a + 4 * i"
    using assms(2) by (intro offset_add) simp
  then show ?thesis by simp
qed

lemma elem_span:
  assumes "aligned a 4096" "i < 1024"
  shows "span (a + 4 * of_nat i) 4 \<subseteq> span a 4096"
proof -
  have "unat a + 4096 \<le> 2 ^ 32" using aligned_bound [OF assms(1)] by simp
  then show ?thesis
    using elem_addr [OF assms] assms(2) by (auto simp: span_nowrap)
qed

lemma load_store_elem:
  assumes "aligned a 4096" "i < 1024" "j < 1024"
  shows "load_elem (store_elem a j w m) a i = (if i = j then w else load_elem m a i)"
proof (cases "i = j")
  case False
  have "unat a + 4096 \<le> 2 ^ 32" using aligned_bound [OF assms(1)] by simp
  then have "span (a + 4 * of_nat i) 4 \<inter> span (a + 4 * of_nat j) 4 = {}"
    using elem_addr [OF assms(1,2)] elem_addr [OF assms(1,3)] assms False
    by (intro span_disjoint) auto
  with False show ?thesis by (simp add: load_elem_def store_elem_def load32_store32_other)
qed (simp add: load_elem_def store_elem_def load32_store32)

lemma load_elem_cong:
  "aligned a 4096 \<Longrightarrow> i < 1024 \<Longrightarrow> (\<And>b. b \<in> span a 4096 \<Longrightarrow> m b = m' b) \<Longrightarrow>
   load_elem m a i = load_elem m' a i"
  unfolding load_elem_def using elem_span [of a i] by (intro load32_cong) blast

lemma store_elem_outside:
  "aligned a 4096 \<Longrightarrow> i < 1024 \<Longrightarrow> b \<notin> span a 4096 \<Longrightarrow> store_elem a i w m b = m b"
  unfolding store_elem_def using elem_span [of a i] by (intro store32_outside) blast

lemma fold_store_elem:
  assumes "aligned a 4096" "n \<le> 1024" "i < 1024"
  shows "load_elem (fold (\<lambda>j. store_elem a j (f j)) [k..<n] m) a i =
    (if k \<le> i \<and> i < n then f i else load_elem m a i)"
  using assms(2)
proof (induction n)
  case (Suc n)
  show ?case
  proof (cases "k \<le> n")
    case True
    with Suc show ?thesis by (auto simp: load_store_elem [OF assms(1,3)])
  qed (use Suc in auto)
qed simp

lemma fold_store_elem_outside:
  assumes "aligned a 4096" "n \<le> 1024" "b \<notin> span a 4096"
  shows "fold (\<lambda>j. store_elem a j (f j)) [k..<n] m b = m b"
  using assms(2)
proof (induction n)
  case (Suc n)
  then show ?case
    by (cases "k \<le> n") (simp_all add: store_elem_outside [OF assms(1) _ assms(3)])
qed simp

lemma memset_outside: "b \<notin> span a (unat n) \<Longrightarrow> memset m a c n b = m b"
  using unat_less_32 [of n] by (simp add: memset_fill write_bytes_outside)

section \<open>What the guest's tables hold\<close>

lemma pages_disjoint:
  "aligned pd 4096 \<Longrightarrow> aligned pt 4096 \<Longrightarrow> pd \<noteq> pt \<Longrightarrow> span pd 4096 \<inter> span pt 4096 = {}"
  by (rule aligned_disjoint) simp_all

lemma guest_tables:
  assumes pd: "aligned pd 4096" and pt: "aligned pt 4096" and ne: "pd \<noteq> pt" and i: "i < 1024"
    and m': "m' = fst (setup_guest_page_tables pd pt m)"
  shows "load_elem m' pd i = (if i = 0 then pt OR PDE_P OR PDE_W OR PDE_U else pde_identity i)"
    and "load_elem m' pt i =
      (if i = 0x103 then pte_identity i AND NOT PTE_W else pte_identity i)"
    and "b \<notin> span pd 4096 \<Longrightarrow> b \<notin> span pt 4096 \<Longrightarrow> m' b = m b"
proof -
  note disj = pages_disjoint [OF pd pt ne]
  let ?m2 = "memset (memset m pd 0 4096) pt 0 4096"
  define m3 where "m3 = store_elem pd 0 (pt OR PDE_P OR PDE_W OR PDE_U) ?m2"
  define m4 where "m4 = fold (\<lambda>i. store_elem pt i (pte_identity i)) [0..<1024] m3"
  define m5 where "m5 = store_elem pt 0x103 (load_elem m4 pt 0x103 AND NOT PTE_W) m4"
  have idx: "unat (drop_bit 12 TEST_READONLY_ADDR) = 0x103"
    by (simp add: TEST_READONLY_ADDR_def)
  have m6: "m' = fold (\<lambda>i. store_elem pd i (pde_identity i)) [1..<1024] m5"
    unfolding m' setup_guest_page_tables_def Let_def idx m5_def m4_def m3_def by simp
  have keep: "load_elem m5 pd j = load_elem m3 pd j" "load_elem m' pt j = load_elem m5 pt j"
    if "j < 1024" for j
  proof -
    have "m5 b = m3 b" if "b \<in> span pd 4096" for b
    proof -
      have b: "b \<notin> span pt 4096" using that disj by blast
      show ?thesis
        unfolding m5_def m4_def
        by (simp add: store_elem_outside [OF pt _ b] fold_store_elem_outside [OF pt _ b])
    qed
    then show "load_elem m5 pd j = load_elem m3 pd j" using that by (intro load_elem_cong [OF pd])
    have "m' b = m5 b" if "b \<in> span pt 4096" for b
      unfolding m6 using that disj by (intro fold_store_elem_outside [OF pd]) auto
    then show "load_elem m' pt j = load_elem m5 pt j" using that by (intro load_elem_cong [OF pt])
  qed
  show "load_elem m' pd i = (if i = 0 then pt OR PDE_P OR PDE_W OR PDE_U else pde_identity i)"
    using keep(1) [of 0] keep(1) [OF i] i
    by (simp add: m6 fold_store_elem [OF pd _ i]) (simp add: m3_def load_store_elem [OF pd])
  have m4: "load_elem m4 pt j = pte_identity j" if "j < 1024" for j
    unfolding m4_def using that by (simp add: fold_store_elem [OF pt])
  then show "load_elem m' pt i =
      (if i = 0x103 then pte_identity i AND NOT PTE_W else pte_identity i)"
    using keep(2) [OF i] i by (simp add: m5_def load_store_elem [OF pt i])
  assume b: "b \<notin> span pd 4096" "b \<notin> span pt 4096"
  then show "m' b = m b"
    unfolding m6 m5_def m4_def m3_def
    by (simp add: fold_store_elem_outside [OF pd] fold_store_elem_outside [OF pt]
        store_elem_outside [OF pt] store_elem_outside [OF pd] memset_outside)
qed

section \<open>The walk through them\<close>

lemma flag_bits [simp]:
  "bit PDE_P n \<longleftrightarrow> n = 0" "bit PDE_W n \<longleftrightarrow> n = 1" "bit PDE_U n \<longleftrightarrow> n = 2" "bit PDE_PS n \<longleftrightarrow> n = 7"
  "bit PTE_P n \<longleftrightarrow> n = 0" "bit PTE_W n \<longleftrightarrow> n = 1" "bit PTE_U n \<longleftrightarrow> n = 2"
  unfolding page_flags bit_push_bit_iff bit_1_iff by auto

lemma flag_set: "bit (e AND f) k \<Longrightarrow> e AND f \<noteq> 0"
  by auto

lemma pte_identity_bits:
  assumes "i < 1024"
  shows "pte_identity i AND PTE_P \<noteq> 0" "pte_identity i AND PTE_W \<noteq> 0"
    "(pte_identity i AND NOT PTE_W) AND PTE_P \<noteq> 0" "(pte_identity i AND NOT PTE_W) AND PTE_W = 0"
    "pte_identity i AND NOT (mask 12) = push_bit 12 (of_nat i)"
    "(pte_identity i AND NOT PTE_W) AND NOT (mask 12) = push_bit 12 (of_nat i)"
proof -
  show "pte_identity i AND PTE_P \<noteq> 0" "(pte_identity i AND NOT PTE_W) AND PTE_P \<noteq> 0"
    by (rule flag_set [of _ _ 0]; simp add: pte_identity_def bit_simps)+
  show "pte_identity i AND PTE_W \<noteq> 0"
    by (rule flag_set [of _ _ 1]) (simp add: pte_identity_def bit_simps)
  show "(pte_identity i AND NOT PTE_W) AND PTE_W = 0" by (rule bit_eqI) (auto simp: bit_simps)
  show "pte_identity i AND NOT (mask 12) = push_bit 12 (of_nat i)"
    "(pte_identity i AND NOT PTE_W) AND NOT (mask 12) = push_bit 12 (of_nat i)"
    by (rule bit_eqI; auto simp: pte_identity_def bit_simps)+
qed

lemma pde_identity_bits:
  shows "pde_identity i AND PDE_P \<noteq> 0" "pde_identity i AND PDE_W \<noteq> 0" "pde_identity i AND PDE_PS \<noteq> 0"
    "pde_identity i AND NOT (mask 22) = push_bit 22 (of_nat i)"
proof -
  have "bit (pde_identity i AND PDE_P) 0" "bit (pde_identity i AND PDE_W) 1"
    "bit (pde_identity i AND PDE_PS) 7"
    by (simp_all add: pde_identity_def bit_simps)
  then show "pde_identity i AND PDE_P \<noteq> 0" "pde_identity i AND PDE_W \<noteq> 0"
    "pde_identity i AND PDE_PS \<noteq> 0" by auto
  show "pde_identity i AND NOT (mask 22) = push_bit 22 (of_nat i)"
    by (rule bit_eqI) (auto simp: pde_identity_def bit_simps)
qed

lemma pde_table_bits:
  assumes "aligned pt 4096"
  defines "e \<equiv> pt OR PDE_P OR PDE_W OR PDE_U"
  shows "e AND PDE_P \<noteq> 0" "e AND PDE_W \<noteq> 0" "e AND PDE_PS = 0" "e AND NOT (mask 12) = pt"
proof -
  have pt: "pt AND mask 12 = 0" using assms(1) aligned_and_mask [of pt 12] by simp
  then have low: "\<not> bit pt n" if "n < 12" for n
  proof -
    have "\<not> bit (pt AND mask 12) n" using pt by simp
    then show ?thesis using that by (simp add: bit_and_iff bit_mask_iff)
  qed
  have "bit (e AND PDE_P) 0" "bit (e AND PDE_W) 1"
    by (simp_all add: e_def bit_simps)
  then show "e AND PDE_P \<noteq> 0" "e AND PDE_W \<noteq> 0" by auto
  show "e AND PDE_PS = 0"
    using low [of 7] by (intro bit_eqI) (auto simp: e_def bit_simps)
  show "e AND NOT (mask 12) = pt"
    using low by (intro bit_eqI) (auto simp: e_def bit_simps)
qed

lemma high_bits_clear: "drop_bit n (a :: u32) = 0 \<Longrightarrow> n \<le> k \<Longrightarrow> \<not> bit a k"
proof -
  assume "drop_bit n a = 0" "n \<le> k"
  then have "\<not> bit (drop_bit n a) (k - n)" by simp
  with \<open>n \<le> k\<close> show ?thesis by (simp add: bit_drop_bit_eq)
qed

lemma address_parts:
  "push_bit 22 (drop_bit 22 (a :: u32)) OR (a AND mask 22) = a"
  "drop_bit 22 a = 0 \<Longrightarrow> push_bit 12 (drop_bit 12 a AND mask 10) OR (a AND mask 12) = a"
proof -
  show "push_bit 22 (drop_bit 22 a) OR (a AND mask 22) = a"
    by (rule bit_eqI) (auto simp: bit_simps)
  assume "drop_bit 22 a = 0"
  then have "\<not> bit a n" if "22 \<le> n" for n using that by (rule high_bits_clear)
  then have lt: "n < 22" if "bit a n" for n using that by (meson leI)
  then show "push_bit 12 (drop_bit 12 a AND mask 10) OR (a AND mask 12) = a"
    by (intro bit_eqI) (auto simp: bit_simps dest: lt)
qed

lemma unat_drop_bit_22: "unat (drop_bit 22 (a :: u32)) < 1024"
proof -
  have "unat (drop_bit 22 a) = unat a div 4194304" by (simp add: drop_bit_eq_div unat_div)
  then show ?thesis using unat_less_32 [of a] by (simp add: less_mult_imp_div_less)
qed

text \<open>The walk through any memory that has the pages of the tables as they were built.\<close>

lemma guest_walk:
  assumes "aligned pd 4096" "aligned pt 4096" "pd \<noteq> pt"
    and same: "\<And>b. b \<in> span pd 4096 \<union> span pt 4096 \<Longrightarrow> mt b = fst (setup_guest_page_tables pd pt m) b"
  shows "page_walk mt pd wr a = (if wr \<and> drop_bit 12 a = 0x103 then None else Some a)"
proof -
  let ?m = "fst (setup_guest_page_tables pd pt m)"
  have same_elem: "load_elem mt pd i = load_elem ?m pd i" "load_elem mt pt i = load_elem ?m pt i" if "i < 1024" for i
    using load_elem_cong [OF assms(1) that, of mt ?m] load_elem_cong [OF assms(2) that, of mt ?m] same by simp_all
  note dir = guest_tables(1) [OF assms(1-3) unat_drop_bit_22 refl, of m a, folded same_elem(1) [OF unat_drop_bit_22]]
  have cr3: "pd AND NOT (mask 12) = pd"
    using ALIGN_aligned [of pd 12] assms(1) aligned_and_mask [of pd 12]
    by (intro bit_eqI) (auto simp: bit_simps bit_eq_iff)
  show ?thesis
  proof (cases "drop_bit 22 a = 0")
    case True
    have i: "unat (drop_bit 12 a AND mask 10) < 1024"
      unfolding take_bit_eq_mask [symmetric] unat_take_bit by simp
    note tab = guest_tables(2) [OF assms(1-3) i refl, of m, folded same_elem(2) [OF i]]
    have "drop_bit 12 a AND mask 10 = drop_bit 12 a"
    proof (rule bit_eqI)
      fix n assume "possible_bit TYPE(32 word) n"
      show "bit (drop_bit 12 a AND mask 10) n \<longleftrightarrow> bit (drop_bit 12 a) n"
        using high_bits_clear [OF True, of "12 + n"]
        by (cases "n < 10") (simp_all add: bit_and_iff bit_mask_iff bit_drop_bit_eq)
    qed
    then have test: "unat (drop_bit 12 a AND mask 10) = 0x103 \<longleftrightarrow> drop_bit 12 a = 0x103"
      by (simp add: word_unat_eq_iff)
    show ?thesis
    proof -
      have e: "load_elem mt pd (unat (drop_bit 22 a)) = pt OR PDE_P OR PDE_W OR PDE_U"
        using dir True by simp
      note eb = pde_table_bits [OF assms(2)]
      show ?thesis
      proof (cases "drop_bit 12 a = 0x103")
        case t: True
        then have "load_elem mt pt (unat (drop_bit 12 a AND mask 10)) =
            pte_identity (unat (drop_bit 12 a AND mask 10)) AND NOT PTE_W"
          using tab test by simp
        with t show ?thesis
          using address_parts(2) [OF True] eb pte_identity_bits [OF i]
          unfolding page_walk_def Let_def cr3 e by simp
      next
        case f: False
        then have "load_elem mt pt (unat (drop_bit 12 a AND mask 10)) =
            pte_identity (unat (drop_bit 12 a AND mask 10))"
          using tab test by simp
        with f show ?thesis
          using address_parts(2) [OF True] eb pte_identity_bits [OF i]
          unfolding page_walk_def Let_def cr3 e by simp
      qed
    qed
  next
    case False
    have "drop_bit 12 a \<noteq> 0x103"
    proof
      assume "drop_bit 12 a = 0x103"
      then have "drop_bit 10 (drop_bit 12 a) = 0" by simp
      with False show False by (simp add: drop_bit_drop_bit)
    qed
    moreover have "unat (drop_bit 22 a) \<noteq> 0" using False by (simp add: unat_eq_zero)
    ultimately show ?thesis
      using dir address_parts(1) [of a] pde_identity_bits [of "unat (drop_bit 22 a)"]
      by (simp add: page_walk_def Let_def cr3)
  qed
qed

section \<open>Properties\<close>

text \<open>C27. The tables built for the guest map every address to itself for reading and for writing, except
  that writes to the page of \<open>TEST_READONLY_ADDR\<close> (0x103000 to 0x103FFF) fault; building them writes
  into the two arrays only, and the value returned for CR3 is the directory's address.\<close>

theorem guest_tables_identity:
  assumes "aligned pd 4096" "aligned pt 4096" "pd \<noteq> pt"
    "setup_guest_page_tables pd pt m = (m', out, cr3)"
  shows "cr3 = pd \<and>
    page_walk m' cr3 wr a =
      (if wr \<and> drop_bit 12 a = drop_bit 12 TEST_READONLY_ADDR then None else Some a) \<and>
    (b \<notin> span pd 4096 \<longrightarrow> b \<notin> span pt 4096 \<longrightarrow> m' b = m b)"
proof -
  have m': "m' = fst (setup_guest_page_tables pd pt m)" and cr3: "cr3 = pd"
    using assms(4) by (auto simp: setup_guest_page_tables_def Let_def)
  have t: "drop_bit 12 TEST_READONLY_ADDR = 0x103" by (simp add: TEST_READONLY_ADDR_def)
  show ?thesis
    using guest_walk [OF assms(1-3), of m' m wr a] guest_tables(3) [OF assms(1-3) _ m', of 0 b]
    unfolding m' cr3 t by simp
qed

theorem guest_tables_identity_witness:
  "\<exists>m' out. setup_guest_page_tables 0x110000 0x111000 (\<lambda>_. 0) = (m', out, 0x110000) \<and>
     page_walk m' 0x110000 True 0x103b46 = None \<and> page_walk m' 0x110000 False 0x103b46 = Some 0x103b46"
proof -
  obtain m' out cr3 where s: "setup_guest_page_tables 0x110000 0x111000 (\<lambda>_. 0) = (m', out, cr3)"
    using prod_cases3 by blast
  have al: "aligned 0x110000 4096" "aligned 0x111000 4096" "(0x110000 :: u32) \<noteq> 0x111000"
    by (simp_all add: aligned_def)
  have t: "drop_bit 12 TEST_READONLY_ADDR = 0x103" by (simp add: TEST_READONLY_ADDR_def)
  note rd = guest_tables_identity [OF al s, of False "0x103b46" 0, unfolded t]
    and wr = guest_tables_identity [OF al s, of True "0x103b46" 0, unfolded t]
  have cr3: "cr3 = 0x110000" using rd by blast
  have w: "page_walk m' 0x110000 True 0x103b46 = None"
    "page_walk m' 0x110000 False 0x103b46 = Some 0x103b46"
    using rd wr unfolding cr3 by simp_all
  show ?thesis using s w unfolding cr3 by blast
qed

lemma host_pde_bits:
  "page_dir ! 0 AND PDE_P \<noteq> 0" "page_dir ! 0 AND PDE_W \<noteq> 0" "page_dir ! 0 AND PDE_PS \<noteq> 0"
  "page_dir ! 0 AND NOT (mask 22) = 0"
proof -
  have e: "page_dir ! 0 = PDE_P OR PDE_W OR PDE_U OR PDE_PS" by (simp add: page_dir_def)
  show "page_dir ! 0 AND PDE_P \<noteq> 0" unfolding e by (rule flag_set [of _ _ 0]) (simp add: bit_simps)
  show "page_dir ! 0 AND PDE_W \<noteq> 0" unfolding e by (rule flag_set [of _ _ 1]) (simp add: bit_simps)
  show "page_dir ! 0 AND PDE_PS \<noteq> 0" unfolding e by (rule flag_set [of _ _ 7]) (simp add: bit_simps)
  show "page_dir ! 0 AND NOT (mask 22) = 0" unfolding e by (rule bit_eqI) (auto simp: bit_simps)
qed

lemma host_walk:
  assumes "aligned pd 4096" "\<forall>i<1024. load_elem m pd i = page_dir ! i"
  shows "page_walk m pd wr a = (if a < 0x400000 then Some a else None)"
proof -
  have cr3: "pd AND NOT (mask 12) = pd"
    using ALIGN_aligned [of pd 12] assms(1) aligned_and_mask [of pd 12]
    by (intro bit_eqI) (auto simp: bit_simps bit_eq_iff)
  have e: "load_elem m pd (unat (drop_bit 22 a)) = page_dir ! unat (drop_bit 22 a)"
    using assms(2) unat_drop_bit_22 by blast
  have z: "drop_bit 22 a = 0 \<longleftrightarrow> a < 0x400000"
  proof -
    have "unat (drop_bit 22 a) = unat a div 4194304" by (simp add: drop_bit_eq_div unat_div)
    then show ?thesis by (simp add: word_unat_eq_iff word_less_nat_alt div_eq_0_iff)
  qed
  show ?thesis
  proof (cases "drop_bit 22 a = 0")
    case True
    then have i: "unat (drop_bit 22 a) = 0" by simp
    have "a AND mask 22 = a" using address_parts(1) [of a] True by simp
    with True z show ?thesis
      using host_pde_bits e unfolding page_walk_def Let_def cr3 i by simp
  next
    case False
    have "0 < unat (drop_bit 22 a)" using False by (simp add: unat_gt_0)
    then have "page_dir ! unat (drop_bit 22 a) = 0"
      using unat_drop_bit_22 [of a] by (simp add: page_dir_def nth_Cons')
    with False z e show ?thesis unfolding page_walk_def Let_def cr3 by simp
  qed
qed

text \<open>The page directory of the host maps the first 4 MB to themselves, writable, and nothing else.
  So the write that faulted in the guest succeeds once the handler has loaded the host's CR3, and so
  no address of the allocator's pool from 0x400000 up to its end 0x7FE0000 can be accessed.\<close>

theorem host_page_dir_walk:
  assumes "aligned pd 4096" "\<forall>i<1024. load_elem m pd i = page_dir ! i"
  shows "page_walk m pd wr a = (if a < 0x400000 then Some a else None)"
  using assms by (rule host_walk)

theorem host_page_dir_walk_witness:
  "page_walk (store_elem 0xa000 0 (page_dir ! 0) (\<lambda>_. 0)) 0xa000 True 0x103b46 = Some 0x103b46 \<and>
   page_walk (store_elem 0xa000 0 (page_dir ! 0) (\<lambda>_. 0)) 0xa000 False 0x400000 = None"
proof -
  have al: "aligned 0xa000 4096" by (simp add: aligned_def)
  have z: "load_elem (\<lambda>_. 0) 0xa000 i = 0" for i by (simp add: load_elem_def load32_def)
  have "\<forall>i<1024. load_elem (store_elem 0xa000 0 (page_dir ! 0) (\<lambda>_. 0)) 0xa000 i = page_dir ! i"
    by (auto simp: load_store_elem [OF al] z page_dir_def nth_Cons')
  note w = host_page_dir_walk [OF al this]
  show ?thesis by (simp only: w) simp
qed

section \<open>A mapping added at run time\<close>

text \<open>\<open>mem_test\<close> of \<open>src/kernel/mem/mem.c\<close>, on the tables that \<open>base.c\<close> names by address. The copy
  of the memory map into a local variable has no effect. The address of \<open>map_test\<close> is a parameter.\<close>

definition page_dir_addr :: u32 where "page_dir_addr = 0xa000"
definition page_table_addr :: u32 where "page_table_addr = 0xc000"
definition MAP_ADDR :: u32 where "MAP_ADDR = 0x80000000"

definition mem_test :: "u32 \<Rightarrow> memory \<Rightarrow> memory" where
  "mem_test map_test m =
     (let index = unat (drop_bit 22 MAP_ADDR);
          offset = unat (drop_bit 12 MAP_ADDR AND 0x3ff);
          m1 = store_elem page_dir_addr index (page_table_addr OR PDE_P OR PDE_W OR PDE_U) m
      in store_elem page_table_addr offset (map_test OR PDE_P OR PDE_W OR PDE_U) m1)"

lemma mem_test_elems:
  assumes "i < 1024"
  shows "load_elem (mem_test mt m) 0xa000 i = (if i = 512 then 0xc007 else load_elem m 0xa000 i)"
    and "load_elem (mem_test mt m) 0xc000 i = (if i = 0 then mt OR PDE_P OR PDE_W OR PDE_U else load_elem m 0xc000 i)"
proof -
  have al: "aligned (0xa000 :: u32) 4096" "aligned (0xc000 :: u32) 4096" by (simp_all add: aligned_def)
  have dis: "span (0xa000 :: u32) 4096 \<inter> span 0xc000 4096 = {}" by (rule pages_disjoint [OF al]) simp
  have mt: "mem_test mt m = store_elem 0xc000 0 (mt OR PDE_P OR PDE_W OR PDE_U) (store_elem 0xa000 512 0xc007 m)"
    by (simp add: mem_test_def MAP_ADDR_def page_dir_addr_def page_table_addr_def page_flags)
  have "load_elem (mem_test mt m) 0xa000 i = load_elem (store_elem 0xa000 512 0xc007 m) 0xa000 i"
    unfolding mt using dis by (intro load_elem_cong [OF al(1) assms] store_elem_outside [OF al(2)]) auto
  then show "load_elem (mem_test mt m) 0xa000 i = (if i = 512 then 0xc007 else load_elem m 0xa000 i)"
    by (simp add: load_store_elem [OF al(1) assms])
  have "load_elem (store_elem 0xa000 512 0xc007 m) 0xc000 i = load_elem m 0xc000 i"
    using dis by (intro load_elem_cong [OF al(2) assms] store_elem_outside [OF al(1)]) auto
  then show "load_elem (mem_test mt m) 0xc000 i = (if i = 0 then mt OR PDE_P OR PDE_W OR PDE_U else load_elem m 0xc000 i)"
    unfolding mt by (simp add: load_store_elem [OF al(2) assms])
qed

text \<open>\<open>mem_test\<close>, on the loader's tables with an empty page table, maps exactly one page more: the
  page at 0x80000000 goes to \<open>map_test\<close>, writable, and every other address is translated as before.\<close>

theorem mem_test_maps_one_page:
  assumes "\<forall>i<1024. load_elem m 0xa000 i = page_dir ! i" "\<forall>i<1024. load_elem m 0xc000 i = 0"
    "aligned map_test 4096"
  shows "page_walk (mem_test map_test m) 0xa000 wr a =
    (if drop_bit 12 a = drop_bit 12 MAP_ADDR then Some (map_test OR (a AND mask 12)) else page_walk m 0xa000 wr a)"
proof -
  define i where "i = unat (drop_bit 22 a)"
  define j where "j = unat (drop_bit 12 a AND mask 10)"
  have i: "i < 1024" unfolding i_def by (rule unat_drop_bit_22)
  have j: "j < 1024"
  proof -
    have "drop_bit 12 a AND mask 10 \<le> mask 10" by (rule word_and_le1)
    then have "j \<le> unat (mask 10 :: u32)" unfolding j_def by (simp add: word_le_nat_alt)
    then show ?thesis by (simp add: mask_eq_exp_minus_1)
  qed
  have cr3: "(0xa000 :: u32) AND NOT (mask 12) = 0xa000" by (simp add: mask_eq_exp_minus_1)
  note D = mem_test_elems(1) [OF i, of map_test m]
    and T = mem_test_elems(2) [OF j, of map_test m]
  have parts: "i = unat (drop_bit 12 a) div 1024" "j = unat (drop_bit 12 a) mod 1024"
  proof -
    have "unat (drop_bit 22 a) = unat a div 4096 div 1024"
      by (simp add: drop_bit_eq_div unat_div div_mult2_eq [symmetric])
    then show "i = unat (drop_bit 12 a) div 1024" by (simp add: i_def drop_bit_eq_div unat_div)
    show "j = unat (drop_bit 12 a) mod 1024"
      unfolding j_def by (simp add: take_bit_eq_mask [symmetric] unat_take_bit)
  qed
  have "drop_bit 12 a = drop_bit 12 MAP_ADDR \<longleftrightarrow> unat (drop_bit 12 a) = 0x80000"
    by (simp add: word_unat_eq_iff MAP_ADDR_def)
  moreover have nn: "n = 0x80000 \<longleftrightarrow> n div 1024 = 512 \<and> n mod 1024 = 0" for n :: nat
    using div_mult_mod_eq [of n 1024] by auto
  ultimately have split: "drop_bit 12 a = drop_bit 12 MAP_ADDR \<longleftrightarrow> i = 512 \<and> j = 0"
    unfolding parts by (simp only: nn [of "unat (drop_bit 12 a)"])
  note eb = pde_table_bits [OF assms(3)]
  show ?thesis
  proof (cases "i = 512")
    case True
    have "page_walk m 0xa000 wr a = None"
    proof -
      have "load_elem m 0xa000 i = page_dir ! i" using assms(1) i by blast
      also have "\<dots> = 0" using True by (simp add: page_dir_def nth_Cons')
      finally show ?thesis unfolding page_walk_def cr3 Let_def i_def [symmetric] by simp
    qed
    moreover have "page_walk (mem_test map_test m) 0xa000 wr a = (if j = 0 then Some (map_test OR (a AND mask 12)) else None)"
    proof -
      have "(0xc007 :: u32) AND PDE_P \<noteq> 0" "(0xc007 :: u32) AND PDE_PS = 0" "(0xc007 :: u32) AND PDE_W \<noteq> 0"
        "(0xc007 :: u32) AND NOT (mask 12) = 0xc000"
        by (simp_all add: page_flags mask_eq_exp_minus_1)
      moreover have "load_elem (mem_test map_test m) 0xc000 j AND PTE_P \<noteq> 0 \<longleftrightarrow> j = 0"
        "j = 0 \<Longrightarrow> load_elem (mem_test map_test m) 0xc000 j AND PTE_W \<noteq> 0"
        "j = 0 \<Longrightarrow> load_elem (mem_test map_test m) 0xc000 j AND NOT (mask 12) = map_test"
        using T assms(2) j eb by (simp_all add: PTE_P_def PTE_W_def PDE_P_def PDE_W_def)
      moreover have "load_elem (mem_test map_test m) 0xa000 i = 0xc007" using D True by simp
      ultimately show ?thesis
        unfolding page_walk_def cr3 Let_def i_def [symmetric] j_def [symmetric]
        by (cases "j = 0") simp_all
    qed
    ultimately show ?thesis unfolding split by (simp add: True)
  next
    case False
    have "load_elem (mem_test map_test m) 0xa000 i = page_dir ! i" using D False assms(1) i by simp
    moreover have "load_elem m 0xa000 i = page_dir ! i" using assms(1) i by simp
    moreover have "page_dir ! i AND PDE_P = 0 \<or> page_dir ! i AND PDE_PS \<noteq> 0"
      using host_pde_bits i by (cases "i = 0") (simp_all add: page_dir_def nth_Cons')
    ultimately show ?thesis using False unfolding split page_walk_def cr3 Let_def i_def [symmetric] by auto
  qed
qed

theorem mem_test_maps_one_page_witness:
  "page_walk (mem_test 0x109000 (store_elem 0xa000 0 (page_dir ! 0) (\<lambda>_. 0))) 0xa000 True 0x80000abc = Some 0x109abc \<and>
   page_walk (mem_test 0x109000 (store_elem 0xa000 0 (page_dir ! 0) (\<lambda>_. 0))) 0xa000 True 0x80001000 = None"
proof -
  let ?m = "store_elem 0xa000 0 (page_dir ! 0) (\<lambda>_. 0)"
  have al: "aligned (0xa000 :: u32) 4096" "aligned (0xc000 :: u32) 4096" "aligned (0x109000 :: u32) 4096"
    by (simp_all add: aligned_def)
  have z: "load_elem (\<lambda>_. 0) p i = 0" for p i by (simp add: load_elem_def load32_def)
  have d: "\<forall>i<1024. load_elem ?m 0xa000 i = page_dir ! i"
    by (auto simp: load_store_elem [OF al(1)] z page_dir_def nth_Cons')
  have dis: "span (0xa000 :: u32) 4096 \<inter> span 0xc000 4096 = {}" by (rule pages_disjoint [OF al(1,2)]) simp
  have t: "\<forall>i<1024. load_elem ?m 0xc000 i = 0"
  proof (intro allI impI)
    fix i :: nat assume i: "i < 1024"
    have "load_elem ?m 0xc000 i = load_elem (\<lambda>_. 0) 0xc000 i"
      using dis by (intro load_elem_cong [OF al(2) i] store_elem_outside [OF al(1)]) auto
    then show "load_elem ?m 0xc000 i = 0" by (simp add: z)
  qed
  note w = mem_test_maps_one_page [OF d t al(3)]
  have "page_walk ?m 0xa000 True 0x80001000 = None" by (simp only: host_walk [OF al(1) d]) simp
  then show ?thesis by (simp only: w) (simp add: MAP_ADDR_def mask_eq_exp_minus_1)
qed

end
