(* ===== verification/Cpuinfo.thy ===== *)
theory Cpuinfo
  imports C_Prelude
begin

text \<open>
  Reading what the processor is (\<open>src/kernel/cpuinfo.c\<close>). The CPUID instruction is a parameter:
  the values of EAX, EBX, ECX and EDX for each leaf. The structure on the stack is not initialised, so
  its first contents are a parameter too.
\<close>

unbundle bit_operations_syntax

section \<open>The structure\<close>

type_synonym cpuid_fn = "u32 \<Rightarrow> u32 \<times> u32 \<times> u32 \<times> u32"

record cpuinfo_x86 =
  x86 :: u8
  x86_vendor :: u8
  x86_model_no :: u8
  x86_stepping_no :: u8
  cpuid_level :: u32
  x86_vendor_id :: "u8 list"  \<comment> \<open>16 bytes\<close>
  x86_model_id :: "u8 list"  \<comment> \<open>64 bytes\<close>
  x86_cache_alignment :: u32
  x86_clflush_size :: u16
  x86_virt_bits :: u8
  x86_phys_bits :: u8
  x86_cache_bits :: u8

section \<open>The signature\<close>

definition x86_family :: "u32 \<Rightarrow> u32" where
  "x86_family sig =
     (let x86 = drop_bit 8 sig AND 0xf
      in if x86 = 0xf then x86 + (drop_bit 20 sig AND 0xff) else x86)"

definition x86_model :: "u32 \<Rightarrow> u32" where
  "x86_model sig =
     (let fam = x86_family sig;
          model = drop_bit 4 sig AND 0xf
      in if fam \<ge> 0x6 then model + push_bit 4 (drop_bit 16 sig AND 0xf) else model)"

definition x86_stepping :: "u32 \<Rightarrow> u32" where
  "x86_stepping sig = sig AND 0xf"

section \<open>Filling in the structure\<close>

text \<open>The twelve words of the three leaves, and the terminator behind them.\<close>

definition get_model_name :: "cpuid_fn \<Rightarrow> cpuinfo_x86 \<Rightarrow> cpuinfo_x86" where
  "get_model_name cpuid c =
     (let words = (\<lambda>(a, b, c, d). [a, b, c, d]);
          v = words (cpuid 0x80000002) @ words (cpuid 0x80000003) @ words (cpuid 0x80000004);
          m = concat (map le32 v) @ drop 48 (x86_model_id c)
      in c\<lparr>x86_model_id := m[48 := 0]\<rparr>)"

definition cpu_detect :: "cpuid_fn \<Rightarrow> cpuinfo_x86 \<Rightarrow> cpuinfo_x86" where
  "cpu_detect cpuid c =
     (let (a, b, cx, d) = cpuid 0x00000000;
          c1 = c\<lparr>x86_vendor_id := le32 b @ le32 d @ le32 cx @ replicate 4 0, cpuid_level := a, x86 := 4\<rparr>
      in if 0x00000001 \<le>s cpuid_level c1 then
           (let (tfms, misc, junk, cap0) = cpuid 0x00000001;
                c2 = c1\<lparr>x86 := ucast (x86_family tfms), x86_model_no := ucast (x86_model tfms),
                        x86_stepping_no := ucast (x86_stepping tfms)\<rparr>
            in if cap0 AND push_bit 19 1 \<noteq> 0 then
                 (let size = ucast ((drop_bit 8 misc AND 0xff) * 8)
                  in c2\<lparr>x86_clflush_size := size, x86_cache_alignment := ucast size\<rparr>)
               else c2)
         else c1)"

definition get_cpu_address_sizes :: "cpuid_fn \<Rightarrow> cpuinfo_x86 \<Rightarrow> cpuinfo_x86" where
  "get_cpu_address_sizes cpuid c =
     (let eax = fst (cpuid 0x80000008);
          phys = ucast (eax AND 0xff)
      in c\<lparr>x86_virt_bits := ucast (drop_bit 8 eax AND 0xff), x86_phys_bits := phys, x86_cache_bits := phys\<rparr>)"

text \<open>A character array as the string that \<open>%s\<close> prints, if it is terminated.\<close>

definition c_string :: "u8 list \<Rightarrow> string" where
  "c_string bs = map (\<lambda>b. char_of (unat b)) (takeWhile (\<lambda>b. b \<noteq> 0) bs)"

definition cpushow :: "cpuid_fn \<Rightarrow> cpuinfo_x86 \<Rightarrow> pcall list" where
  "cpushow cpuid garbage =
     (let (eax, ebx, ecx, edx) = cpuid 0;
          c = get_model_name cpuid (cpu_detect cpuid (get_cpu_address_sizes cpuid garbage))
      in [Printf ''EBX <- %x (\"Genu\")EDX <- %x (\"ineI\") ECX <- %x (\"ntel\")'' [PWord ebx, PWord edx, PWord ecx],
          Printf ''Address sizes:   phys_bits = %d  virt_bits = %d''
            [PWord (ucast (x86_phys_bits c)), PWord (ucast (x86_virt_bits c))],
          Printf ''Vendor Id= %s'' [PStr (c_string (x86_vendor_id c))],
          Printf ''cpuid level = %d'' [PWord (cpuid_level c)],
          Printf ''CPU family = %d'' [PWord (ucast (x86 c))],
          Printf ''Model = %d'' [PWord (ucast (x86_model_no c))],
          Printf ''Stepping = %d'' [PWord (ucast (x86_stepping_no c))],
          Printf ''Model name = %s'' [PStr (c_string (x86_model_id c))],
          Printf ''clflush_size = %d'' [PWord (ucast (x86_clflush_size c))],
          Printf ''cache_alignment = %d'' [PWord (x86_cache_alignment c)]])"

section \<open>Lemmas\<close>

text \<open>The signature put together from its fields.\<close>

definition signature :: "u32 \<Rightarrow> u32 \<Rightarrow> u32 \<Rightarrow> u32 \<Rightarrow> u32 \<Rightarrow> u32" where
  "signature ext_fam ext_model fam model step =
     push_bit 20 ext_fam OR push_bit 16 ext_model OR push_bit 8 fam OR push_bit 4 model OR step"

lemma signature_fields:
  assumes "step < 16" "model < 16" "fam < 16" "ext_model < 16" "ext_fam < 256"
  shows "signature ext_fam ext_model fam model step AND 0xf = step"
    "drop_bit 4 (signature ext_fam ext_model fam model step) AND 0xf = model"
    "drop_bit 8 (signature ext_fam ext_model fam model step) AND 0xf = fam"
    "drop_bit 16 (signature ext_fam ext_model fam model step) AND 0xf = ext_model"
    "drop_bit 20 (signature ext_fam ext_model fam model step) AND 0xff = ext_fam"
proof -
  have f: "(0xf :: u32) = mask 4" "(0xff :: u32) = mask 8" by (simp_all add: mask_eq_exp_minus_1)
  have small: "x = take_bit n x" if "x < 2 ^ n" "n < 32" for x :: u32 and n
    using that by (simp add: word_unat_eq_iff unat_take_bit word_less_nat_alt)
  have s: "step = take_bit 4 step" "model = take_bit 4 model" "fam = take_bit 4 fam" "ext_model = take_bit 4 ext_model"
    "ext_fam = take_bit 8 ext_fam"
    using assms small [of step 4] small [of model 4] small [of fam 4] small [of ext_model 4] small [of ext_fam 8]
    by simp_all
  have low: "bit step n \<Longrightarrow> n < 4" "bit model n \<Longrightarrow> n < 4" "bit fam n \<Longrightarrow> n < 4" "bit ext_model n \<Longrightarrow> n < 4"
    "bit ext_fam n \<Longrightarrow> n < 8" for n
    using s by (metis bit_take_bit_iff)+
  show "signature ext_fam ext_model fam model step AND 0xf = step"
    "drop_bit 4 (signature ext_fam ext_model fam model step) AND 0xf = model"
    "drop_bit 8 (signature ext_fam ext_model fam model step) AND 0xf = fam"
    "drop_bit 16 (signature ext_fam ext_model fam model step) AND 0xf = ext_model"
    "drop_bit 20 (signature ext_fam ext_model fam model step) AND 0xff = ext_fam"
    unfolding f signature_def
    by (rule bit_word_eqI, auto simp: bit_simps dest: low)+
qed

text \<open>Family, model and stepping are read back from a signature as they were put in, with the
  extended family added for family 15 and the extended model used from family 6 on.\<close>

theorem signature_roundtrip:
  assumes "step < 16" "model < 16" "fam < 16" "ext_model < 16" "ext_fam < 256"
  defines "sig \<equiv> signature ext_fam ext_model fam model step"
  shows "x86_stepping sig = step
    \<and> x86_family sig = (if fam = 15 then 15 + ext_fam else fam)
    \<and> x86_model sig = (if 6 \<le> fam then model + 16 * ext_model else model)"
proof -
  note f = signature_fields [OF assms(1-5), folded sig_def]
  have "6 \<le> 15 + ext_fam" using assms(5) by (simp add: word_le_nat_alt word_less_nat_alt unat_word_ariths)
  moreover have "push_bit 4 ext_model = 16 * ext_model" by (simp add: push_bit_eq_mult)
  ultimately show ?thesis
    by (simp add: x86_stepping_def x86_family_def x86_model_def f Let_def)
qed

theorem signature_roundtrip_witness:
  "x86_family 0x000906EA = 6 \<and> x86_model 0x000906EA = 0x9E \<and> x86_stepping 0x000906EA = 0xA"
proof -
  have "signature 0 9 6 14 10 = 0x000906EA" by (simp add: signature_def)
  then show ?thesis using signature_roundtrip [of 10 14 6 9 0] by simp
qed

lemma cpu_detect_fields:
  assumes "cpuid 0 = (a, b, cx, d)"
  shows "x86_vendor_id (cpu_detect cpuid c) = le32 b @ le32 d @ le32 cx @ replicate 4 0"
    "cpuid_level (cpu_detect cpuid c) = a"
  by (auto simp: cpu_detect_def assms Let_def split: prod.split)

text \<open>\<open>cpu_detect\<close> leaves the twelve letters of the vendor, in the order EBX, EDX, ECX, terminated in
  their array of 16. The family it keeps has lost everything above 255; and for a processor whose
  highest leaf is 0 it keeps family 4 and whatever was in the other fields before.\<close>

theorem cpu_detect_correct:
  assumes "cpuid 0 = (a, b, cx, d)" "cpuid 1 = (tfms, misc, junk, cap0)"
  shows "take 12 (x86_vendor_id (cpu_detect cpuid c)) = le32 b @ le32 d @ le32 cx
    \<and> drop 12 (x86_vendor_id (cpu_detect cpuid c)) = replicate 4 0
    \<and> unat (x86 (cpu_detect cpuid c)) = (if 0 <s a then unat (x86_family tfms) mod 256 else 4)
    \<and> x86_model_no (cpu_detect cpuid c) = (if 0 <s a then ucast (x86_model tfms) else x86_model_no c)
    \<and> x86_clflush_size (cpu_detect cpuid c) =
        (if 0 <s a \<and> bit cap0 19 then 8 * ucast (drop_bit 8 misc AND 0xff) else x86_clflush_size c)"
proof -
  have le: "(1 \<le>s a) = (0 <s a)" by (auto simp: word_sle_eq word_sless_alt)
  have b19: "(cap0 AND 0x80000 = 0) = (\<not> bit cap0 19)"
  proof -
    have "(0x80000 :: u32) = push_bit 19 1" by simp
    then show ?thesis by (simp only: bit_iff_and_push_bit_not_eq_0 not_not)
  qed
  have u: "unat (ucast x :: u8) = unat x mod 256" for x :: u32
    by (simp add: unsigned_ucast_eq take_bit_eq_mod)
  have m: "(ucast (x * 8 :: u32) :: u16) = 8 * ucast x" for x
  proof -
    have "x * 8 = push_bit 3 x" "8 * (ucast x :: u16) = push_bit 3 (ucast x)" by (simp_all add: push_bit_eq_mult)
    then show ?thesis by (simp only:) (rule bit_word_eqI, auto simp: bit_simps)
  qed
  have "take 12 (x86_vendor_id (cpu_detect cpuid c)) = le32 b @ le32 d @ le32 cx"
    "drop 12 (x86_vendor_id (cpu_detect cpuid c)) = replicate 4 0"
    by (simp_all add: cpu_detect_fields [where cpuid = cpuid, OF assms(1)])
  then show ?thesis
    unfolding cpu_detect_def assms Let_def prod.case by (simp add: le b19 u m cong: if_cong)
qed

definition intel :: cpuid_fn where
  "intel leaf =
     (if leaf = 0 then (0x16, 0x756e6547, 0x6c65746e, 0x49656e69)
      else if leaf = 1 then (0x000906EA, 0x00100800, 0, 0x00080000) else (0, 0, 0, 0))"

definition info0 :: cpuinfo_x86 where
  "info0 = \<lparr>x86 = 0, x86_vendor = 0, x86_model_no = 0, x86_stepping_no = 0, cpuid_level = 0,
     x86_vendor_id = replicate 16 0, x86_model_id = replicate 64 0, x86_cache_alignment = 0, x86_clflush_size = 0,
     x86_virt_bits = 0, x86_phys_bits = 0, x86_cache_bits = 0\<rparr>"

theorem cpu_detect_correct_witness:
  "c_string (x86_vendor_id (cpu_detect intel info0)) = ''GenuineIntel''
   \<and> x86 (cpu_detect intel info0) = 6 \<and> x86_clflush_size (cpu_detect intel info0) = 64"
proof -
  have l: "intel 0 = (0x16, 0x756e6547, 0x6c65746e, 0x49656e69)"
    "intel 1 = (0x000906EA, 0x00100800, 0, 0x00080000)" by (simp_all add: intel_def)
  note d = cpu_detect_correct [OF l, of info0]
  have fam: "x86_family 0x000906EA = 6" by (simp add: x86_family_def)
  have pos: "(0 :: u32) <s 0x16" "bit (0x00080000 :: u32) 19" by (simp_all add: word_sless_alt)
  have letters: "le32 0x756e6547 = [0x47, 0x65, 0x6e, 0x75]" "le32 0x49656e69 = [0x69, 0x6e, 0x65, 0x49]"
    "le32 0x6c65746e = [0x6e, 0x74, 0x65, 0x6c]" by (simp_all add: le32_def)
  have v: "x86_vendor_id (cpu_detect intel info0) = map (\<lambda>c. of_char c) ''GenuineIntel'' @ replicate 4 0"
    using d append_take_drop_id [of 12 "x86_vendor_id (cpu_detect intel info0)"] by (simp add: letters)
  have "c_string (x86_vendor_id (cpu_detect intel info0)) = ''GenuineIntel''"
    unfolding v by (simp add: c_string_def char_of_def bit_0)
  moreover have "x86 (cpu_detect intel info0) = 6" using d pos by (simp add: fam word_unat_eq_iff)
  ultimately show ?thesis using d pos by simp
qed

end
