(* ===== verification/Format_Types.thy ===== *)
theory Format_Types
  imports Printf
begin

text \<open>
  The types of formats: which arguments a format of \<open>src/kernel/printf.c\<close> takes, and that a call with these
  arguments never faults. The compiler does not check this here, as \<open>printf\<close> is declared without the
  attribute that asks for it.
\<close>

section \<open>The arguments a format takes\<close>

datatype argty = TWord | TStr

text \<open>By the conversions of the loop of \<open>vsnprintf\<close>; the state is the one of the loop, without the padding.\<close>

function fmt_types :: "u8 list \<Rightarrow> nat option \<Rightarrow> argty list" where
  "fmt_types [] st = []"
| "fmt_types (f # fmt) None = (if f \<noteq> ch CHR ''%'' then fmt_types fmt None else fmt_types fmt (Some 0))"
| "fmt_types (f # fmt) (Some n) =
     (if f = ch CHR ''%'' then fmt_types fmt None
      else if f = ch CHR ''c'' then TWord # fmt_types fmt None
      else if f = ch CHR ''#'' then fmt_types fmt (Some n)
      else if f = ch CHR ''0'' then fmt_types (snd (fmtnum fmt)) (Some n)
      else if is_digit f \<or> f = ch CHR ''-'' then fmt_types (snd (fmtnum (f # fmt))) (Some n)
      else if f = ch CHR ''l'' then fmt_types fmt (Some (Suc n))
      else if f = ch CHR ''t'' \<or> f = ch CHR ''z'' then fmt_types fmt (Some 1)
      else if f = ch CHR ''d'' then (if n \<le> 1 then [TWord] else [TWord, TWord]) @ fmt_types fmt None
      else if f = ch CHR ''u'' \<or> f = ch CHR ''x'' \<or> f = ch CHR ''p'' then TWord # fmt_types fmt None
      else if f = ch CHR ''s'' then TStr # fmt_types fmt None
      else fmt_types fmt None)"
  by pat_completeness auto
termination
proof (relation "measure (\<lambda>(fmt, st). length fmt)", goal_cases)
  case 1
  show ?case by simp
qed (auto simp: fmtnum_def Let_def is_digit_def)

primrec has_type :: "vslot \<Rightarrow> argty \<Rightarrow> bool" where
  "has_type (Slot w) t = (t = TWord)"
| "has_type (Str s) t = (t = TStr)"

fun args_ok :: "argty list \<Rightarrow> vslot list \<Rightarrow> bool" where
  "args_ok [] va = True"
| "args_ok (t # ts) [] = False"
| "args_ok (t # ts) (a # va) = (has_type a t \<and> args_ok ts va)"

definition well_typed :: "u8 list \<Rightarrow> vslot list \<Rightarrow> bool" where
  "well_typed fmt va = args_ok (fmt_types fmt None) va"

section \<open>Well-typed calls do not fault\<close>

text \<open>The one number that \<open>%d\<close> cannot print.\<close>

definition printable :: "vslot list \<Rightarrow> bool" where
  "printable va \<longleftrightarrow> Slot 0x80000000 \<notin> set va"

lemma printable_Cons [simp]: "printable (Slot w # va) \<longleftrightarrow> w \<noteq> 0x80000000 \<and> printable va"
  "printable (Str s # va) = printable va"
  by (auto simp: printable_def)

lemma print_int_total:
  fixes w :: u32
  assumes "w \<noteq> 0x80000000"
  shows "\<exists>t. print_int s (sint w) 10 props = Inr t"
proof -
  have "sint w \<noteq> - (2 ^ 31)"
  proof
    assume "sint w = - (2 ^ 31)"
    then have "of_int (sint w) = (of_int (- (2 ^ 31)) :: u32)" by (rule arg_cong)
    then have "w = of_int (- (2 ^ 31))" by simp
    with assms show False by simp
  qed
  moreover have "- (2 ^ 31) \<le> sint w" "sint w < 2 ^ 31" using sint_ge [of w] sint_lt [of w] by simp_all
  ultimately obtain sg ds where "int_buf (sint w) 10 = Inr (rev (sg @ ds))" using int_buf_decimal [of "sint w"] by force
  then show ?thesis by (simp add: print_int_def)
qed

lemma print_unsigned_total:
  assumes "base = 10 \<or> base = 16"
  shows "\<exists>t. print_unsigned s w base props = Inr t"
proof -
  obtain ks where "unsigned_digits base w = Inr (map ((!) digits) ks)"
  proof -
    have "2 \<le> base" "base \<le> 16" using assms by auto
    from unsigned_digits_value [OF this, of w] show thesis using that by blast
  qed
  then show ?thesis by (simp add: print_unsigned_def del: unsigned_digits.simps)
qed

text \<open>A result of the right kind: none if the arguments fit, else the fault of an argument that is missing
  or of another kind.\<close>

definition typed_result :: "bool \<Rightarrow> fault + 'a \<Rightarrow> bool" where
  "typed_result ok r \<longleftrightarrow> (if ok then \<exists>x. r = Inr x else r = Inl (Undefined ''va_arg''))"

lemma typed_word:
  assumes "\<And>w va'. va = Slot w # va' \<Longrightarrow> typed_result (args_ok ts va') (F w va')"
  shows "typed_result (args_ok (TWord # ts) va) (case va_word va of Inl e \<Rightarrow> Inl e | Inr (w, va') \<Rightarrow> F w va')"
proof (cases va)
  case (Cons a va')
  then show ?thesis using assms by (cases a) (simp_all add: va_word_def typed_result_def)
qed (simp add: va_word_def typed_result_def)

lemma typed_llong:
  assumes "\<And>w h va'. va = Slot w # Slot h # va' \<Longrightarrow> typed_result (args_ok ts va') (F w va')"
  shows "typed_result (args_ok (TWord # TWord # ts) va) (case va_llong va of Inl e \<Rightarrow> Inl e | Inr (w, va') \<Rightarrow> F w va')"
proof (cases va)
  case (Cons a va1)
  then show ?thesis
  proof (cases va1)
    case (Cons b va2)
    then show ?thesis using assms \<open>va = a # va1\<close> by (cases a; cases b) (simp_all add: va_llong_def typed_result_def)
  qed (cases a; simp add: va_llong_def typed_result_def)
qed (simp add: va_llong_def typed_result_def)

lemma typed_str:
  assumes "\<And>t va'. va = Str t # va' \<Longrightarrow> typed_result (args_ok ts va') (F t va')"
  shows "typed_result (args_ok (TStr # ts) va) (case va_str va of Inl e \<Rightarrow> Inl e | Inr (t, va') \<Rightarrow> F t va')"
proof (cases va)
  case (Cons a va')
  then show ?thesis using assms by (cases a) (simp_all add: va_str_def typed_result_def)
qed (simp add: va_str_def typed_result_def)

lemma typed_print_int:
  fixes w :: u32
  assumes "w \<noteq> 0x80000000" "\<And>s'. typed_result ok (F s')"
  shows "typed_result ok (case print_int s (sint w) 10 props of Inl e \<Rightarrow> Inl e | Inr s' \<Rightarrow> F s')"
  using print_int_total [OF assms(1), of s props] assms(2) by auto

lemma typed_print_unsigned:
  assumes "base = 10 \<or> base = 16" "\<And>s'. typed_result ok (F s')"
  shows "typed_result ok (case print_unsigned s w base props of Inl e \<Rightarrow> Inl e | Inr s' \<Rightarrow> F s')"
  using print_unsigned_total [OF assms(1), of s w props] assms(2) by auto

lemma vs_loop_typed:
  "printable va \<Longrightarrow> typed_result (args_ok (fmt_types fmt (map_option fst st)) va) (vs_loop fmt va st s)"
proof (induction "length fmt" arbitrary: fmt va st s rule: less_induct)
  case less
  show ?case
  proof (cases fmt)
    case Nil
    then show ?thesis by (simp add: typed_result_def)
  next
    case (Cons f fs)
    have IH: "typed_result (args_ok (fmt_types fs (map_option fst st')) va') (vs_loop fs va' st' s')"
      if "printable va'" for va' st' s' using less(1) [of fs va' st' s'] that Cons by simp
    note IHN = IH [of _ None, simplified] and IHS = IH [of _ "Some (n, p)" for n p, simplified]
    show ?thesis
    proof (cases st)
      case None
      then show ?thesis using Cons IHN [OF less(2)] IHS [OF less(2)] by simp
    next
      case (Some np)
      obtain n props where np: "st = Some (n, props)" using Some by (cases np) simp
      have num: "typed_result (args_ok (fmt_types (snd (fmtnum fs)) (Some n)) va) (vs_loop (snd (fmtnum fs)) va (Some (n, p)) s)" for p
        using less(1) [of "snd (fmtnum fs)" va "Some (n, p)" s] fmtnum_length [of fs] Cons less(2) by simp
      have num': "typed_result (args_ok (fmt_types (snd (fmtnum (f # fs))) (Some n)) va) (vs_loop (snd (fmtnum (f # fs))) va (Some (n, p)) s)"
        if "is_digit f \<or> f = ch CHR ''-''" for p
        using less(1) [of "snd (fmtnum (f # fs))" va "Some (n, p)" s] fmtnum_shorter [OF that] Cons less(2) by simp
      note e = Cons np vs_loop.simps(3) fmt_types.simps(3)
      consider "f = ch CHR ''%''" | "f = ch CHR ''c''" | "f = ch CHR ''#''" | "f = ch CHR ''0''"
        | "f \<noteq> ch CHR ''0''" "is_digit f \<or> f = ch CHR ''-''" | "f = ch CHR ''l''" | "f = ch CHR ''t'' \<or> f = ch CHR ''z''"
        | "f = ch CHR ''d''" | "f = ch CHR ''u'' \<or> f = ch CHR ''x'' \<or> f = ch CHR ''p''" | "f = ch CHR ''s''"
        | "f \<notin> ch ` {CHR ''%'', CHR ''c'', CHR ''#'', CHR ''0'', CHR ''-'', CHR ''l'', CHR ''t'', CHR ''z'', CHR ''d'',
            CHR ''u'', CHR ''x'', CHR ''p'', CHR ''s''}" "\<not> is_digit f"
        by blast
      then show ?thesis
      proof cases
        case 1
        then show ?thesis using IHN [OF less(2)] by (simp add: e)
      next
        case 2
        have "typed_result (args_ok (TWord # fmt_types fs None) va)
            (case va_word va of Inl e \<Rightarrow> Inl e | Inr (w, va') \<Rightarrow> vs_loop fs va' None (addchar s (ucast w)))"
          using less(2) by (intro typed_word IHN) simp
        then show ?thesis using 2 by (simp add: e)
      next
        case 3
        then show ?thesis using IHS [OF less(2)] by (simp add: e)
      next
        case 4
        then show ?thesis using num by (simp add: e case_prod_beta)
      next
        case 5
        then show ?thesis using num' by (auto simp: e case_prod_beta is_digit_def)
      next
        case 6
        then show ?thesis using IHS [OF less(2)] by (simp add: e is_digit_def)
      next
        case 7
        then show ?thesis using IHS [OF less(2)] by (auto simp: e is_digit_def)
      next
        case 8
        have one: "typed_result (args_ok (TWord # fmt_types fs None) va)
            (case va_word va of Inl e \<Rightarrow> Inl e | Inr (w, va') \<Rightarrow>
              (case print_int s (sint w) 10 props of Inl e \<Rightarrow> Inl e | Inr s' \<Rightarrow> vs_loop fs va' None s'))"
          using less(2) by (intro typed_word typed_print_int IHN) simp_all
        have two: "typed_result (args_ok (TWord # TWord # fmt_types fs None) va)
            (case va_llong va of Inl e \<Rightarrow> Inl e | Inr (w, va') \<Rightarrow>
              (case print_int s (sint w) 10 props of Inl e \<Rightarrow> Inl e | Inr s' \<Rightarrow> vs_loop fs va' None s'))"
          using less(2) by (intro typed_llong typed_print_int IHN) simp_all
        show ?thesis using 8 one two by (simp add: e is_digit_def)
      next
        case 9
        have "typed_result (args_ok (TWord # fmt_types fs None) va)
            (case va_word va of Inl e \<Rightarrow> Inl e | Inr (w, va') \<Rightarrow>
              (case print_unsigned s w (if f = ch CHR ''u'' then 10 else 16)
                  (if f = ch CHR ''p'' then props\<lparr>sp_alternate := True\<rparr> else props) of
                 Inl e \<Rightarrow> Inl e | Inr s' \<Rightarrow> vs_loop fs va' None s'))"
          using less(2) by (intro typed_word typed_print_unsigned IHN) simp_all
        then show ?thesis using 9 by (auto simp: e is_digit_def)
      next
        case 10
        have "typed_result (args_ok (TStr # fmt_types fs None) va)
            (case va_str va of Inl e \<Rightarrow> Inl e | Inr (t, va') \<Rightarrow> vs_loop fs va' None (print_str s t props))"
          using less(2) by (intro typed_str IHN) simp
        then show ?thesis using 10 by (simp add: e is_digit_def)
      next
        case 11
        then show ?thesis using IHN [OF less(2)] by (simp add: e)
      qed
    qed
  qed
qed

lemma vsnprintf_typed:
  assumes "printable va"
  shows "typed_result (well_typed fmt va) (vsnprintf m buf sz fmt va)"
  using vs_loop_typed [OF assms, of fmt None "\<lparr>ps_mem = m, ps_buffer = buf, ps_remain = sz - 1, ps_added = 0\<rparr>"]
  by (auto simp: vsnprintf_def well_typed_def typed_result_def split: if_splits)

section \<open>Calls in the source\<close>

primrec slot_of :: "parg \<Rightarrow> vslot" where
  "slot_of (PWord w) = Slot w"
| "slot_of (PStr s) = Str (map ch s)"

primrec call_ok :: "pcall \<Rightarrow> bool" where
  "call_ok (Printf f args) = well_typed (map ch f) (map slot_of args)"

text \<open>The call is formatted, into whatever buffer, unless a number in it is the one that \<open>%d\<close> cannot print.\<close>

primrec formats :: "pcall \<Rightarrow> bool" where
  "formats (Printf f args) \<longleftrightarrow> (printable (map slot_of args) \<longrightarrow>
     (\<forall>m buf sz. \<exists>x. vsnprintf m buf sz (map ch f) (map slot_of args) = Inr x))"

lemma call_ok_formats:
  assumes "call_ok c"
  shows "formats c"
proof (cases c)
  case (Printf f args)
  then have "well_typed (map ch f) (map slot_of args)" using assms by simp
  then have "printable (map slot_of args) \<Longrightarrow> \<exists>x. vsnprintf m buf sz (map ch f) (map slot_of args) = Inr x" for m buf sz
    using vsnprintf_typed [of "map slot_of args" "map ch f" m buf sz] unfolding typed_result_def by simp
  then show ?thesis unfolding Printf formats.simps by blast
qed

text \<open>C17. The types of a format are exactly what its call needs: with arguments that fit, of which no number
  is the least \<open>int\<close>, \<open>vsnprintf\<close> formats them; without, it reads an argument that is not there or
  takes a number for the address of a string.\<close>

theorem format_types_exact:
  assumes "printable va"
  shows "if well_typed fmt va then \<exists>m' n. vsnprintf m buf sz fmt va = Inr (m', n)
    else vsnprintf m buf sz fmt va = Inl (Undefined ''va_arg'')"
  using vsnprintf_typed [OF assms, of fmt m buf sz] by (auto simp: typed_result_def split: if_splits)

text \<open>A conversion of two words with only one of them given, and with both.\<close>

theorem format_types_exact_witness:
  "vsnprintf (\<lambda>_. 0) 0x1000 16 (map ch ''%s=%lld'') [Str [], Slot 5] = Inl (Undefined ''va_arg'')
    \<and> (\<exists>m' n. vsnprintf (\<lambda>_. 0) 0x1000 16 (map ch ''%s=%lld'') [Str [], Slot 5, Slot 0] = Inr (m', n))"
proof
  have "printable [Str [], Slot 5]" "\<not> well_typed (map ch ''%s=%lld'') [Str [], Slot 5]"
    by (simp_all add: printable_def well_typed_def is_digit_def)
  then show "vsnprintf (\<lambda>_. 0) 0x1000 16 (map ch ''%s=%lld'') [Str [], Slot 5] = Inl (Undefined ''va_arg'')"
    using format_types_exact [of "[Str [], Slot 5]" "map ch ''%s=%lld''" "\<lambda>_. 0" "0x1000" 16] by simp
  have "printable [Str [], Slot 5, Slot 0]" "well_typed (map ch ''%s=%lld'') [Str [], Slot 5, Slot 0]"
    by (simp_all add: printable_def well_typed_def is_digit_def)
  then show "\<exists>m' n. vsnprintf (\<lambda>_. 0) 0x1000 16 (map ch ''%s=%lld'') [Str [], Slot 5, Slot 0] = Inr (m', n)"
    using format_types_exact [of "[Str [], Slot 5, Slot 0]" "map ch ''%s=%lld''" "\<lambda>_. 0" "0x1000" 16] by simp
qed

end
