(* ===== verification/Vmx_Defs.thy ===== *)
theory Vmx_Defs
  imports C_Prelude
begin

text \<open>
  The constants and unions of \<open>src/kernel/vm/vm.h\<close>, and the MSR numbers of \<open>include/msr.h\<close> that the
  monitor uses. C enumeration constants are integers, and the code passes them as such; they are
  abbreviations of words here, and each enumeration is the list of its constants. The sections of
  \<open>enum Encoding\<close> are kept apart, because the section of a field says what its code must look like.
\<close>

unbundle bit_operations_syntax

section \<open>Model-specific registers\<close>

abbreviation (input) MSR_IA32_FEATURE_CONTROL :: u32 where "MSR_IA32_FEATURE_CONTROL \<equiv> 0x0000003a"
abbreviation (input) MSR_IA32_VMX_BASIC :: u32 where "MSR_IA32_VMX_BASIC \<equiv> 0x00000480"
abbreviation (input) MSR_IA32_VMX_PINBASED_CTLS :: u32 where "MSR_IA32_VMX_PINBASED_CTLS \<equiv> 0x00000481"
abbreviation (input) MSR_IA32_VMX_PROCBASED_CTLS :: u32 where "MSR_IA32_VMX_PROCBASED_CTLS \<equiv> 0x00000482"
abbreviation (input) MSR_IA32_VMX_EXIT_CTLS :: u32 where "MSR_IA32_VMX_EXIT_CTLS \<equiv> 0x00000483"
abbreviation (input) MSR_IA32_VMX_ENTRY_CTLS :: u32 where "MSR_IA32_VMX_ENTRY_CTLS \<equiv> 0x00000484"
abbreviation (input) MSR_IA32_VMX_MISC :: u32 where "MSR_IA32_VMX_MISC \<equiv> 0x00000485"
abbreviation (input) MSR_IA32_VMX_CR0_FIXED0 :: u32 where "MSR_IA32_VMX_CR0_FIXED0 \<equiv> 0x00000486"
abbreviation (input) MSR_IA32_VMX_CR0_FIXED1 :: u32 where "MSR_IA32_VMX_CR0_FIXED1 \<equiv> 0x00000487"
abbreviation (input) MSR_IA32_VMX_CR4_FIXED0 :: u32 where "MSR_IA32_VMX_CR4_FIXED0 \<equiv> 0x00000488"
abbreviation (input) MSR_IA32_VMX_CR4_FIXED1 :: u32 where "MSR_IA32_VMX_CR4_FIXED1 \<equiv> 0x00000489"
abbreviation (input) MSR_IA32_VMX_VMCS_ENUM :: u32 where "MSR_IA32_VMX_VMCS_ENUM \<equiv> 0x0000048a"
abbreviation (input) MSR_IA32_VMX_PROCBASED_CTLS2 :: u32 where "MSR_IA32_VMX_PROCBASED_CTLS2 \<equiv> 0x0000048b"
abbreviation (input) MSR_IA32_VMX_EPT_VPID_CAP :: u32 where "MSR_IA32_VMX_EPT_VPID_CAP \<equiv> 0x0000048c"
abbreviation (input) MSR_IA32_VMX_TRUE_PIN :: u32 where "MSR_IA32_VMX_TRUE_PIN \<equiv> 0x0000048d"
abbreviation (input) MSR_IA32_VMX_TRUE_PROC :: u32 where "MSR_IA32_VMX_TRUE_PROC \<equiv> 0x0000048e"
abbreviation (input) MSR_IA32_VMX_TRUE_EXIT :: u32 where "MSR_IA32_VMX_TRUE_EXIT \<equiv> 0x0000048f"
abbreviation (input) MSR_IA32_VMX_TRUE_ENTRY :: u32 where "MSR_IA32_VMX_TRUE_ENTRY \<equiv> 0x00000490"

definition vmx_msrs :: "u32 list" where
  "vmx_msrs =
   [MSR_IA32_VMX_BASIC,
    MSR_IA32_VMX_PINBASED_CTLS,
    MSR_IA32_VMX_PROCBASED_CTLS,
    MSR_IA32_VMX_EXIT_CTLS,
    MSR_IA32_VMX_ENTRY_CTLS,
    MSR_IA32_VMX_MISC,
    MSR_IA32_VMX_CR0_FIXED0,
    MSR_IA32_VMX_CR0_FIXED1,
    MSR_IA32_VMX_CR4_FIXED0,
    MSR_IA32_VMX_CR4_FIXED1,
    MSR_IA32_VMX_VMCS_ENUM,
    MSR_IA32_VMX_PROCBASED_CTLS2,
    MSR_IA32_VMX_EPT_VPID_CAP,
    MSR_IA32_VMX_TRUE_PIN,
    MSR_IA32_VMX_TRUE_PROC,
    MSR_IA32_VMX_TRUE_EXIT,
    MSR_IA32_VMX_TRUE_ENTRY]"

section \<open>Unions\<close>

text \<open>\<open>union vmx_basic\<close> and \<open>union vmx_ctrl_msr\<close>: views of a 64-bit value. The members \<open>revision\<close> and
  \<open>set\<close> are its low, the bit fields and \<open>clr\<close> its high half.\<close>

definition basic_revision :: "u64 \<Rightarrow> u32" where
  "basic_revision val = ucast val"

definition basic_ctrl :: "u64 \<Rightarrow> bool" where
  "basic_ctrl val \<longleftrightarrow> bit val (32 + 23)"

definition ctrl_set :: "u64 \<Rightarrow> u32" where
  "ctrl_set val = ucast val"

definition ctrl_clr :: "u64 \<Rightarrow> u32" where
  "ctrl_clr val = ucast (drop_bit 32 val)"

section \<open>Control bits\<close>

abbreviation (input) CPU_INTR_WINDOW :: u32 where "CPU_INTR_WINDOW \<equiv> push_bit 2 1"
abbreviation (input) CPU_USE_TSC_OFFSET :: u32 where "CPU_USE_TSC_OFFSET \<equiv> push_bit 3 1"
abbreviation (input) CPU_HLT :: u32 where "CPU_HLT \<equiv> push_bit 7 1"
abbreviation (input) CPU_INVLPG :: u32 where "CPU_INVLPG \<equiv> push_bit 9 1"
abbreviation (input) CPU_MWAIT :: u32 where "CPU_MWAIT \<equiv> push_bit 10 1"
abbreviation (input) CPU_RDPMC :: u32 where "CPU_RDPMC \<equiv> push_bit 11 1"
abbreviation (input) CPU_RDTSC :: u32 where "CPU_RDTSC \<equiv> push_bit 12 1"
abbreviation (input) CPU_CR3_LOAD :: u32 where "CPU_CR3_LOAD \<equiv> push_bit 15 1"
abbreviation (input) CPU_CR3_STORE :: u32 where "CPU_CR3_STORE \<equiv> push_bit 16 1"
abbreviation (input) CPU_CR8_LOAD :: u32 where "CPU_CR8_LOAD \<equiv> push_bit 19 1"
abbreviation (input) CPU_CR8_STORE :: u32 where "CPU_CR8_STORE \<equiv> push_bit 20 1"
abbreviation (input) CPU_TPR_SHADOW :: u32 where "CPU_TPR_SHADOW \<equiv> push_bit 21 1"
abbreviation (input) CPU_NMI_WINDOW :: u32 where "CPU_NMI_WINDOW \<equiv> push_bit 22 1"
abbreviation (input) CPU_IO :: u32 where "CPU_IO \<equiv> push_bit 24 1"
abbreviation (input) CPU_IO_BITMAP :: u32 where "CPU_IO_BITMAP \<equiv> push_bit 25 1"
abbreviation (input) CPU_MSR_BITMAP :: u32 where "CPU_MSR_BITMAP \<equiv> push_bit 28 1"
abbreviation (input) CPU_MONITOR :: u32 where "CPU_MONITOR \<equiv> push_bit 29 1"
abbreviation (input) CPU_PAUSE :: u32 where "CPU_PAUSE \<equiv> push_bit 30 1"
abbreviation (input) CPU_SECONDARY :: u32 where "CPU_SECONDARY \<equiv> push_bit 31 1"

definition Ctrl0 :: "u32 list" where
  "Ctrl0 =
   [CPU_INTR_WINDOW, CPU_USE_TSC_OFFSET, CPU_HLT, CPU_INVLPG, CPU_MWAIT, CPU_RDPMC, CPU_RDTSC,
    CPU_CR3_LOAD, CPU_CR3_STORE, CPU_CR8_LOAD, CPU_CR8_STORE, CPU_TPR_SHADOW, CPU_NMI_WINDOW,
    CPU_IO, CPU_IO_BITMAP, CPU_MSR_BITMAP, CPU_MONITOR, CPU_PAUSE, CPU_SECONDARY]"

abbreviation (input) CPU_VIRT_APIC_ACCESSES :: u32 where "CPU_VIRT_APIC_ACCESSES \<equiv> push_bit 0 1"
abbreviation (input) CPU_EPT :: u32 where "CPU_EPT \<equiv> push_bit 1 1"
abbreviation (input) CPU_DESC_TABLE :: u32 where "CPU_DESC_TABLE \<equiv> push_bit 2 1"
abbreviation (input) CPU_RDTSCP :: u32 where "CPU_RDTSCP \<equiv> push_bit 3 1"
abbreviation (input) CPU_VIRT_X2APIC :: u32 where "CPU_VIRT_X2APIC \<equiv> push_bit 4 1"
abbreviation (input) CPU_VPID :: u32 where "CPU_VPID \<equiv> push_bit 5 1"
abbreviation (input) CPU_WBINVD :: u32 where "CPU_WBINVD \<equiv> push_bit 6 1"
abbreviation (input) CPU_URG :: u32 where "CPU_URG \<equiv> push_bit 7 1"
abbreviation (input) CPU_APIC_REG_VIRT :: u32 where "CPU_APIC_REG_VIRT \<equiv> push_bit 8 1"
abbreviation (input) CPU_VINTD :: u32 where "CPU_VINTD \<equiv> push_bit 9 1"
abbreviation (input) CPU_RDRAND :: u32 where "CPU_RDRAND \<equiv> push_bit 11 1"
abbreviation (input) CPU_SHADOW_VMCS :: u32 where "CPU_SHADOW_VMCS \<equiv> push_bit 14 1"
abbreviation (input) CPU_RDSEED :: u32 where "CPU_RDSEED \<equiv> push_bit 16 1"
abbreviation (input) CPU_PML :: u32 where "CPU_PML \<equiv> push_bit 17 1"

definition Ctrl1 :: "u32 list" where
  "Ctrl1 =
   [CPU_VIRT_APIC_ACCESSES, CPU_EPT, CPU_DESC_TABLE, CPU_RDTSCP, CPU_VIRT_X2APIC, CPU_VPID,
    CPU_WBINVD, CPU_URG, CPU_APIC_REG_VIRT, CPU_VINTD, CPU_RDRAND, CPU_SHADOW_VMCS, CPU_RDSEED,
    CPU_PML]"

abbreviation (input) PIN_EXTINT :: u32 where "PIN_EXTINT \<equiv> push_bit 0 1"
abbreviation (input) PIN_NMI :: u32 where "PIN_NMI \<equiv> push_bit 3 1"
abbreviation (input) PIN_VIRT_NMI :: u32 where "PIN_VIRT_NMI \<equiv> push_bit 5 1"
abbreviation (input) PIN_PREEMPT :: u32 where "PIN_PREEMPT \<equiv> push_bit 6 1"
abbreviation (input) PIN_POST_INTR :: u32 where "PIN_POST_INTR \<equiv> push_bit 7 1"

definition Ctrl_pin :: "u32 list" where
  "Ctrl_pin =
   [PIN_EXTINT, PIN_NMI, PIN_VIRT_NMI, PIN_PREEMPT, PIN_POST_INTR]"

abbreviation (input) EXI_SAVE_DBGCTLS :: u32 where "EXI_SAVE_DBGCTLS \<equiv> push_bit 2 1"
abbreviation (input) EXI_HOST_64 :: u32 where "EXI_HOST_64 \<equiv> push_bit 9 1"
abbreviation (input) EXI_LOAD_PERF :: u32 where "EXI_LOAD_PERF \<equiv> push_bit 12 1"
abbreviation (input) EXI_INTA :: u32 where "EXI_INTA \<equiv> push_bit 15 1"
abbreviation (input) EXI_SAVE_PAT :: u32 where "EXI_SAVE_PAT \<equiv> push_bit 18 1"
abbreviation (input) EXI_LOAD_PAT :: u32 where "EXI_LOAD_PAT \<equiv> push_bit 19 1"
abbreviation (input) EXI_SAVE_EFER :: u32 where "EXI_SAVE_EFER \<equiv> push_bit 20 1"
abbreviation (input) EXI_LOAD_EFER :: u32 where "EXI_LOAD_EFER \<equiv> push_bit 21 1"
abbreviation (input) EXI_SAVE_PREEMPT :: u32 where "EXI_SAVE_PREEMPT \<equiv> push_bit 22 1"

definition Ctrl_exi :: "u32 list" where
  "Ctrl_exi =
   [EXI_SAVE_DBGCTLS, EXI_HOST_64, EXI_LOAD_PERF, EXI_INTA, EXI_SAVE_PAT, EXI_LOAD_PAT,
    EXI_SAVE_EFER, EXI_LOAD_EFER, EXI_SAVE_PREEMPT]"

abbreviation (input) ENT_LOAD_DBGCTLS :: u32 where "ENT_LOAD_DBGCTLS \<equiv> push_bit 2 1"
abbreviation (input) ENT_GUEST_64 :: u32 where "ENT_GUEST_64 \<equiv> push_bit 9 1"
abbreviation (input) ENT_LOAD_PAT :: u32 where "ENT_LOAD_PAT \<equiv> push_bit 14 1"
abbreviation (input) ENT_LOAD_EFER :: u32 where "ENT_LOAD_EFER \<equiv> push_bit 15 1"

definition Ctrl_ent :: "u32 list" where
  "Ctrl_ent =
   [ENT_LOAD_DBGCTLS, ENT_GUEST_64, ENT_LOAD_PAT, ENT_LOAD_EFER]"

section \<open>Fields of the control structure\<close>

abbreviation (input) VPID :: u32 where "VPID \<equiv> 0x0000"
abbreviation (input) PINV :: u32 where "PINV \<equiv> 0x0002"
abbreviation (input) EPTP_IDX :: u32 where "EPTP_IDX \<equiv> 0x0004"
abbreviation (input) GUEST_SEL_ES :: u32 where "GUEST_SEL_ES \<equiv> 0x0800"
abbreviation (input) GUEST_SEL_CS :: u32 where "GUEST_SEL_CS \<equiv> 0x0802"
abbreviation (input) GUEST_SEL_SS :: u32 where "GUEST_SEL_SS \<equiv> 0x0804"
abbreviation (input) GUEST_SEL_DS :: u32 where "GUEST_SEL_DS \<equiv> 0x0806"
abbreviation (input) GUEST_SEL_FS :: u32 where "GUEST_SEL_FS \<equiv> 0x0808"
abbreviation (input) GUEST_SEL_GS :: u32 where "GUEST_SEL_GS \<equiv> 0x080a"
abbreviation (input) GUEST_SEL_LDTR :: u32 where "GUEST_SEL_LDTR \<equiv> 0x080c"
abbreviation (input) GUEST_SEL_TR :: u32 where "GUEST_SEL_TR \<equiv> 0x080e"
abbreviation (input) GUEST_INT_STATUS :: u32 where "GUEST_INT_STATUS \<equiv> 0x0810"
abbreviation (input) GUEST_PML_INDEX :: u32 where "GUEST_PML_INDEX \<equiv> 0x0812"
abbreviation (input) HOST_SEL_ES :: u32 where "HOST_SEL_ES \<equiv> 0x0c00"
abbreviation (input) HOST_SEL_CS :: u32 where "HOST_SEL_CS \<equiv> 0x0c02"
abbreviation (input) HOST_SEL_SS :: u32 where "HOST_SEL_SS \<equiv> 0x0c04"
abbreviation (input) HOST_SEL_DS :: u32 where "HOST_SEL_DS \<equiv> 0x0c06"
abbreviation (input) HOST_SEL_FS :: u32 where "HOST_SEL_FS \<equiv> 0x0c08"
abbreviation (input) HOST_SEL_GS :: u32 where "HOST_SEL_GS \<equiv> 0x0c0a"
abbreviation (input) HOST_SEL_TR :: u32 where "HOST_SEL_TR \<equiv> 0x0c0c"
abbreviation (input) IO_BITMAP_A :: u32 where "IO_BITMAP_A \<equiv> 0x2000"
abbreviation (input) IO_BITMAP_B :: u32 where "IO_BITMAP_B \<equiv> 0x2002"
abbreviation (input) MSR_BITMAP :: u32 where "MSR_BITMAP \<equiv> 0x2004"
abbreviation (input) EXIT_MSR_ST_ADDR :: u32 where "EXIT_MSR_ST_ADDR \<equiv> 0x2006"
abbreviation (input) EXIT_MSR_LD_ADDR :: u32 where "EXIT_MSR_LD_ADDR \<equiv> 0x2008"
abbreviation (input) ENTER_MSR_LD_ADDR :: u32 where "ENTER_MSR_LD_ADDR \<equiv> 0x200a"
abbreviation (input) VMCS_EXEC_PTR :: u32 where "VMCS_EXEC_PTR \<equiv> 0x200c"
abbreviation (input) TSC_OFFSET :: u32 where "TSC_OFFSET \<equiv> 0x2010"
abbreviation (input) TSC_OFFSET_HI :: u32 where "TSC_OFFSET_HI \<equiv> 0x2011"
abbreviation (input) APIC_VIRT_ADDR :: u32 where "APIC_VIRT_ADDR \<equiv> 0x2012"
abbreviation (input) APIC_ACCS_ADDR :: u32 where "APIC_ACCS_ADDR \<equiv> 0x2014"
abbreviation (input) POSTED_INTR_DESC_ADDR :: u32 where "POSTED_INTR_DESC_ADDR \<equiv> 0x2016"
abbreviation (input) EPTP :: u32 where "EPTP \<equiv> 0x201a"
abbreviation (input) EPTP_HI :: u32 where "EPTP_HI \<equiv> 0x201b"
abbreviation (input) VMREAD_BITMAP :: u32 where "VMREAD_BITMAP \<equiv> 0x2026"
abbreviation (input) VMREAD_BITMAP_HI :: u32 where "VMREAD_BITMAP_HI \<equiv> 0x2027"
abbreviation (input) VMWRITE_BITMAP :: u32 where "VMWRITE_BITMAP \<equiv> 0x2028"
abbreviation (input) VMWRITE_BITMAP_HI :: u32 where "VMWRITE_BITMAP_HI \<equiv> 0x2029"
abbreviation (input) EOI_EXIT_BITMAP0 :: u32 where "EOI_EXIT_BITMAP0 \<equiv> 0x201c"
abbreviation (input) EOI_EXIT_BITMAP1 :: u32 where "EOI_EXIT_BITMAP1 \<equiv> 0x201e"
abbreviation (input) EOI_EXIT_BITMAP2 :: u32 where "EOI_EXIT_BITMAP2 \<equiv> 0x2020"
abbreviation (input) EOI_EXIT_BITMAP3 :: u32 where "EOI_EXIT_BITMAP3 \<equiv> 0x2022"
abbreviation (input) PMLADDR :: u32 where "PMLADDR \<equiv> 0x200e"
abbreviation (input) PMLADDR_HI :: u32 where "PMLADDR_HI \<equiv> 0x200f"
abbreviation (input) INFO_PHYS_ADDR :: u32 where "INFO_PHYS_ADDR \<equiv> 0x2400"
abbreviation (input) VMCS_LINK_PTR :: u32 where "VMCS_LINK_PTR \<equiv> 0x2800"
abbreviation (input) VMCS_LINK_PTR_HI :: u32 where "VMCS_LINK_PTR_HI \<equiv> 0x2801"
abbreviation (input) GUEST_DEBUGCTL :: u32 where "GUEST_DEBUGCTL \<equiv> 0x2802"
abbreviation (input) GUEST_DEBUGCTL_HI :: u32 where "GUEST_DEBUGCTL_HI \<equiv> 0x2803"
abbreviation (input) GUEST_EFER :: u32 where "GUEST_EFER \<equiv> 0x2806"
abbreviation (input) GUEST_PAT :: u32 where "GUEST_PAT \<equiv> 0x2804"
abbreviation (input) GUEST_PERF_GLOBAL_CTRL :: u32 where "GUEST_PERF_GLOBAL_CTRL \<equiv> 0x2808"
abbreviation (input) GUEST_PDPTE :: u32 where "GUEST_PDPTE \<equiv> 0x280a"
abbreviation (input) HOST_PAT :: u32 where "HOST_PAT \<equiv> 0x2c00"
abbreviation (input) HOST_EFER :: u32 where "HOST_EFER \<equiv> 0x2c02"
abbreviation (input) HOST_PERF_GLOBAL_CTRL :: u32 where "HOST_PERF_GLOBAL_CTRL \<equiv> 0x2c04"
abbreviation (input) PIN_CONTROLS :: u32 where "PIN_CONTROLS \<equiv> 0x4000"
abbreviation (input) CPU_EXEC_CTRL0 :: u32 where "CPU_EXEC_CTRL0 \<equiv> 0x4002"
abbreviation (input) EXC_BITMAP :: u32 where "EXC_BITMAP \<equiv> 0x4004"
abbreviation (input) PF_ERROR_MASK :: u32 where "PF_ERROR_MASK \<equiv> 0x4006"
abbreviation (input) PF_ERROR_MATCH :: u32 where "PF_ERROR_MATCH \<equiv> 0x4008"
abbreviation (input) CR3_TARGET_COUNT :: u32 where "CR3_TARGET_COUNT \<equiv> 0x400a"
abbreviation (input) EXI_CONTROLS :: u32 where "EXI_CONTROLS \<equiv> 0x400c"
abbreviation (input) EXI_MSR_ST_CNT :: u32 where "EXI_MSR_ST_CNT \<equiv> 0x400e"
abbreviation (input) EXI_MSR_LD_CNT :: u32 where "EXI_MSR_LD_CNT \<equiv> 0x4010"
abbreviation (input) ENT_CONTROLS :: u32 where "ENT_CONTROLS \<equiv> 0x4012"
abbreviation (input) ENT_MSR_LD_CNT :: u32 where "ENT_MSR_LD_CNT \<equiv> 0x4014"
abbreviation (input) ENT_INTR_INFO :: u32 where "ENT_INTR_INFO \<equiv> 0x4016"
abbreviation (input) ENT_INTR_ERROR :: u32 where "ENT_INTR_ERROR \<equiv> 0x4018"
abbreviation (input) ENT_INST_LEN :: u32 where "ENT_INST_LEN \<equiv> 0x401a"
abbreviation (input) TPR_THRESHOLD :: u32 where "TPR_THRESHOLD \<equiv> 0x401c"
abbreviation (input) CPU_EXEC_CTRL1 :: u32 where "CPU_EXEC_CTRL1 \<equiv> 0x401e"
abbreviation (input) VMX_INST_ERROR :: u32 where "VMX_INST_ERROR \<equiv> 0x4400"
abbreviation (input) EXI_REASON :: u32 where "EXI_REASON \<equiv> 0x4402"
abbreviation (input) EXI_INTR_INFO :: u32 where "EXI_INTR_INFO \<equiv> 0x4404"
abbreviation (input) EXI_INTR_ERROR :: u32 where "EXI_INTR_ERROR \<equiv> 0x4406"
abbreviation (input) IDT_VECT_INFO :: u32 where "IDT_VECT_INFO \<equiv> 0x4408"
abbreviation (input) IDT_VECT_ERROR :: u32 where "IDT_VECT_ERROR \<equiv> 0x440a"
abbreviation (input) EXI_INST_LEN :: u32 where "EXI_INST_LEN \<equiv> 0x440c"
abbreviation (input) EXI_INST_INFO :: u32 where "EXI_INST_INFO \<equiv> 0x440e"
abbreviation (input) GUEST_LIMIT_ES :: u32 where "GUEST_LIMIT_ES \<equiv> 0x4800"
abbreviation (input) GUEST_LIMIT_CS :: u32 where "GUEST_LIMIT_CS \<equiv> 0x4802"
abbreviation (input) GUEST_LIMIT_SS :: u32 where "GUEST_LIMIT_SS \<equiv> 0x4804"
abbreviation (input) GUEST_LIMIT_DS :: u32 where "GUEST_LIMIT_DS \<equiv> 0x4806"
abbreviation (input) GUEST_LIMIT_FS :: u32 where "GUEST_LIMIT_FS \<equiv> 0x4808"
abbreviation (input) GUEST_LIMIT_GS :: u32 where "GUEST_LIMIT_GS \<equiv> 0x480a"
abbreviation (input) GUEST_LIMIT_LDTR :: u32 where "GUEST_LIMIT_LDTR \<equiv> 0x480c"
abbreviation (input) GUEST_LIMIT_TR :: u32 where "GUEST_LIMIT_TR \<equiv> 0x480e"
abbreviation (input) GUEST_LIMIT_GDTR :: u32 where "GUEST_LIMIT_GDTR \<equiv> 0x4810"
abbreviation (input) GUEST_LIMIT_IDTR :: u32 where "GUEST_LIMIT_IDTR \<equiv> 0x4812"
abbreviation (input) GUEST_AR_ES :: u32 where "GUEST_AR_ES \<equiv> 0x4814"
abbreviation (input) GUEST_AR_CS :: u32 where "GUEST_AR_CS \<equiv> 0x4816"
abbreviation (input) GUEST_AR_SS :: u32 where "GUEST_AR_SS \<equiv> 0x4818"
abbreviation (input) GUEST_AR_DS :: u32 where "GUEST_AR_DS \<equiv> 0x481a"
abbreviation (input) GUEST_AR_FS :: u32 where "GUEST_AR_FS \<equiv> 0x481c"
abbreviation (input) GUEST_AR_GS :: u32 where "GUEST_AR_GS \<equiv> 0x481e"
abbreviation (input) GUEST_AR_LDTR :: u32 where "GUEST_AR_LDTR \<equiv> 0x4820"
abbreviation (input) GUEST_AR_TR :: u32 where "GUEST_AR_TR \<equiv> 0x4822"
abbreviation (input) GUEST_INTR_STATE :: u32 where "GUEST_INTR_STATE \<equiv> 0x4824"
abbreviation (input) GUEST_ACTV_STATE :: u32 where "GUEST_ACTV_STATE \<equiv> 0x4826"
abbreviation (input) GUEST_SMBASE :: u32 where "GUEST_SMBASE \<equiv> 0x4828"
abbreviation (input) GUEST_SYSENTER_CS :: u32 where "GUEST_SYSENTER_CS \<equiv> 0x482a"
abbreviation (input) PREEMPT_TIMER_VALUE :: u32 where "PREEMPT_TIMER_VALUE \<equiv> 0x482e"
abbreviation (input) HOST_SYSENTER_CS :: u32 where "HOST_SYSENTER_CS \<equiv> 0x4c00"
abbreviation (input) CR0_MASK :: u32 where "CR0_MASK \<equiv> 0x6000"
abbreviation (input) CR4_MASK :: u32 where "CR4_MASK \<equiv> 0x6002"
abbreviation (input) CR0_READ_SHADOW :: u32 where "CR0_READ_SHADOW \<equiv> 0x6004"
abbreviation (input) CR4_READ_SHADOW :: u32 where "CR4_READ_SHADOW \<equiv> 0x6006"
abbreviation (input) CR3_TARGET_0 :: u32 where "CR3_TARGET_0 \<equiv> 0x6008"
abbreviation (input) CR3_TARGET_1 :: u32 where "CR3_TARGET_1 \<equiv> 0x600a"
abbreviation (input) CR3_TARGET_2 :: u32 where "CR3_TARGET_2 \<equiv> 0x600c"
abbreviation (input) CR3_TARGET_3 :: u32 where "CR3_TARGET_3 \<equiv> 0x600e"
abbreviation (input) EXI_QUALIFICATION :: u32 where "EXI_QUALIFICATION \<equiv> 0x6400"
abbreviation (input) IO_RCX :: u32 where "IO_RCX \<equiv> 0x6402"
abbreviation (input) IO_RSI :: u32 where "IO_RSI \<equiv> 0x6404"
abbreviation (input) IO_RDI :: u32 where "IO_RDI \<equiv> 0x6406"
abbreviation (input) IO_RIP :: u32 where "IO_RIP \<equiv> 0x6408"
abbreviation (input) GUEST_LINEAR_ADDRESS :: u32 where "GUEST_LINEAR_ADDRESS \<equiv> 0x640a"
abbreviation (input) GUEST_PHYSICAL_ADDRESS :: u32 where "GUEST_PHYSICAL_ADDRESS \<equiv> 0x6402"
abbreviation (input) GUEST_CR0 :: u32 where "GUEST_CR0 \<equiv> 0x6800"
abbreviation (input) GUEST_CR3 :: u32 where "GUEST_CR3 \<equiv> 0x6802"
abbreviation (input) GUEST_CR4 :: u32 where "GUEST_CR4 \<equiv> 0x6804"
abbreviation (input) GUEST_BASE_ES :: u32 where "GUEST_BASE_ES \<equiv> 0x6806"
abbreviation (input) GUEST_BASE_CS :: u32 where "GUEST_BASE_CS \<equiv> 0x6808"
abbreviation (input) GUEST_BASE_SS :: u32 where "GUEST_BASE_SS \<equiv> 0x680a"
abbreviation (input) GUEST_BASE_DS :: u32 where "GUEST_BASE_DS \<equiv> 0x680c"
abbreviation (input) GUEST_BASE_FS :: u32 where "GUEST_BASE_FS \<equiv> 0x680e"
abbreviation (input) GUEST_BASE_GS :: u32 where "GUEST_BASE_GS \<equiv> 0x6810"
abbreviation (input) GUEST_BASE_LDTR :: u32 where "GUEST_BASE_LDTR \<equiv> 0x6812"
abbreviation (input) GUEST_BASE_TR :: u32 where "GUEST_BASE_TR \<equiv> 0x6814"
abbreviation (input) GUEST_BASE_GDTR :: u32 where "GUEST_BASE_GDTR \<equiv> 0x6816"
abbreviation (input) GUEST_BASE_IDTR :: u32 where "GUEST_BASE_IDTR \<equiv> 0x6818"
abbreviation (input) GUEST_DR7 :: u32 where "GUEST_DR7 \<equiv> 0x681a"
abbreviation (input) GUEST_RSP :: u32 where "GUEST_RSP \<equiv> 0x681c"
abbreviation (input) GUEST_RIP :: u32 where "GUEST_RIP \<equiv> 0x681e"
abbreviation (input) GUEST_RFLAGS :: u32 where "GUEST_RFLAGS \<equiv> 0x6820"
abbreviation (input) GUEST_PENDING_DEBUG :: u32 where "GUEST_PENDING_DEBUG \<equiv> 0x6822"
abbreviation (input) GUEST_SYSENTER_ESP :: u32 where "GUEST_SYSENTER_ESP \<equiv> 0x6824"
abbreviation (input) GUEST_SYSENTER_EIP :: u32 where "GUEST_SYSENTER_EIP \<equiv> 0x6826"
abbreviation (input) HOST_CR0 :: u32 where "HOST_CR0 \<equiv> 0x6c00"
abbreviation (input) HOST_CR3 :: u32 where "HOST_CR3 \<equiv> 0x6c02"
abbreviation (input) HOST_CR4 :: u32 where "HOST_CR4 \<equiv> 0x6c04"
abbreviation (input) HOST_BASE_FS :: u32 where "HOST_BASE_FS \<equiv> 0x6c06"
abbreviation (input) HOST_BASE_GS :: u32 where "HOST_BASE_GS \<equiv> 0x6c08"
abbreviation (input) HOST_BASE_TR :: u32 where "HOST_BASE_TR \<equiv> 0x6c0a"
abbreviation (input) HOST_BASE_GDTR :: u32 where "HOST_BASE_GDTR \<equiv> 0x6c0c"
abbreviation (input) HOST_BASE_IDTR :: u32 where "HOST_BASE_IDTR \<equiv> 0x6c0e"
abbreviation (input) HOST_SYSENTER_ESP :: u32 where "HOST_SYSENTER_ESP \<equiv> 0x6c10"
abbreviation (input) HOST_SYSENTER_EIP :: u32 where "HOST_SYSENTER_EIP \<equiv> 0x6c12"
abbreviation (input) HOST_RSP :: u32 where "HOST_RSP \<equiv> 0x6c14"
abbreviation (input) HOST_RIP :: u32 where "HOST_RIP \<equiv> 0x6c16"

definition enc_w16_control_fields :: "u32 list" where
  "enc_w16_control_fields =
   [VPID, PINV, EPTP_IDX]"

definition enc_w16_guest_state_fields :: "u32 list" where
  "enc_w16_guest_state_fields =
   [GUEST_SEL_ES, GUEST_SEL_CS, GUEST_SEL_SS, GUEST_SEL_DS, GUEST_SEL_FS, GUEST_SEL_GS,
    GUEST_SEL_LDTR, GUEST_SEL_TR, GUEST_INT_STATUS, GUEST_PML_INDEX]"

definition enc_w16_host_state_fields :: "u32 list" where
  "enc_w16_host_state_fields =
   [HOST_SEL_ES, HOST_SEL_CS, HOST_SEL_SS, HOST_SEL_DS, HOST_SEL_FS, HOST_SEL_GS, HOST_SEL_TR]"

definition enc_w64_control_fields :: "u32 list" where
  "enc_w64_control_fields =
   [IO_BITMAP_A, IO_BITMAP_B, MSR_BITMAP, EXIT_MSR_ST_ADDR, EXIT_MSR_LD_ADDR,
    ENTER_MSR_LD_ADDR, VMCS_EXEC_PTR, TSC_OFFSET, TSC_OFFSET_HI, APIC_VIRT_ADDR,
    APIC_ACCS_ADDR, POSTED_INTR_DESC_ADDR, EPTP, EPTP_HI, VMREAD_BITMAP, VMREAD_BITMAP_HI,
    VMWRITE_BITMAP, VMWRITE_BITMAP_HI, EOI_EXIT_BITMAP0, EOI_EXIT_BITMAP1, EOI_EXIT_BITMAP2,
    EOI_EXIT_BITMAP3, PMLADDR, PMLADDR_HI]"

definition enc_w64_readonly_data_field :: "u32 list" where
  "enc_w64_readonly_data_field =
   [INFO_PHYS_ADDR]"

definition enc_w64_guest_state :: "u32 list" where
  "enc_w64_guest_state =
   [VMCS_LINK_PTR, VMCS_LINK_PTR_HI, GUEST_DEBUGCTL, GUEST_DEBUGCTL_HI, GUEST_EFER, GUEST_PAT,
    GUEST_PERF_GLOBAL_CTRL, GUEST_PDPTE]"

definition enc_w64_host_state :: "u32 list" where
  "enc_w64_host_state =
   [HOST_PAT, HOST_EFER, HOST_PERF_GLOBAL_CTRL]"

definition enc_w32_control_fields :: "u32 list" where
  "enc_w32_control_fields =
   [PIN_CONTROLS, CPU_EXEC_CTRL0, EXC_BITMAP, PF_ERROR_MASK, PF_ERROR_MATCH, CR3_TARGET_COUNT,
    EXI_CONTROLS, EXI_MSR_ST_CNT, EXI_MSR_LD_CNT, ENT_CONTROLS, ENT_MSR_LD_CNT, ENT_INTR_INFO,
    ENT_INTR_ERROR, ENT_INST_LEN, TPR_THRESHOLD, CPU_EXEC_CTRL1]"

definition enc_w32_readonly_data_fields :: "u32 list" where
  "enc_w32_readonly_data_fields =
   [VMX_INST_ERROR, EXI_REASON, EXI_INTR_INFO, EXI_INTR_ERROR, IDT_VECT_INFO, IDT_VECT_ERROR,
    EXI_INST_LEN, EXI_INST_INFO]"

definition enc_w32_guest_state_fields :: "u32 list" where
  "enc_w32_guest_state_fields =
   [GUEST_LIMIT_ES, GUEST_LIMIT_CS, GUEST_LIMIT_SS, GUEST_LIMIT_DS, GUEST_LIMIT_FS,
    GUEST_LIMIT_GS, GUEST_LIMIT_LDTR, GUEST_LIMIT_TR, GUEST_LIMIT_GDTR, GUEST_LIMIT_IDTR,
    GUEST_AR_ES, GUEST_AR_CS, GUEST_AR_SS, GUEST_AR_DS, GUEST_AR_FS, GUEST_AR_GS,
    GUEST_AR_LDTR, GUEST_AR_TR, GUEST_INTR_STATE, GUEST_ACTV_STATE, GUEST_SMBASE,
    GUEST_SYSENTER_CS, PREEMPT_TIMER_VALUE]"

definition enc_w32_host_state_fields :: "u32 list" where
  "enc_w32_host_state_fields =
   [HOST_SYSENTER_CS]"

definition enc_wn_control_fields :: "u32 list" where
  "enc_wn_control_fields =
   [CR0_MASK, CR4_MASK, CR0_READ_SHADOW, CR4_READ_SHADOW, CR3_TARGET_0, CR3_TARGET_1,
    CR3_TARGET_2, CR3_TARGET_3]"

definition enc_wn_readonly_data_fields :: "u32 list" where
  "enc_wn_readonly_data_fields =
   [EXI_QUALIFICATION, IO_RCX, IO_RSI, IO_RDI, IO_RIP, GUEST_LINEAR_ADDRESS,
    GUEST_PHYSICAL_ADDRESS]"

definition enc_wn_guest_state_fields :: "u32 list" where
  "enc_wn_guest_state_fields =
   [GUEST_CR0, GUEST_CR3, GUEST_CR4, GUEST_BASE_ES, GUEST_BASE_CS, GUEST_BASE_SS,
    GUEST_BASE_DS, GUEST_BASE_FS, GUEST_BASE_GS, GUEST_BASE_LDTR, GUEST_BASE_TR,
    GUEST_BASE_GDTR, GUEST_BASE_IDTR, GUEST_DR7, GUEST_RSP, GUEST_RIP, GUEST_RFLAGS,
    GUEST_PENDING_DEBUG, GUEST_SYSENTER_ESP, GUEST_SYSENTER_EIP]"

definition enc_wn_host_state_fields :: "u32 list" where
  "enc_wn_host_state_fields =
   [HOST_CR0, HOST_CR3, HOST_CR4, HOST_BASE_FS, HOST_BASE_GS, HOST_BASE_TR, HOST_BASE_GDTR,
    HOST_BASE_IDTR, HOST_SYSENTER_ESP, HOST_SYSENTER_EIP, HOST_RSP, HOST_RIP]"

definition Encoding :: "u32 list" where
  "Encoding = enc_w16_control_fields @ enc_w16_guest_state_fields @ enc_w16_host_state_fields @
     enc_w64_control_fields @ enc_w64_readonly_data_field @ enc_w64_guest_state @ enc_w64_host_state @
     enc_w32_control_fields @ enc_w32_readonly_data_fields @ enc_w32_guest_state_fields @
     enc_w32_host_state_fields @ enc_wn_control_fields @ enc_wn_readonly_data_fields @
     enc_wn_guest_state_fields @ enc_wn_host_state_fields"

section \<open>Registers\<close>

abbreviation (input) X86_CR4_VMXE :: u32 where "X86_CR4_VMXE \<equiv> 0x00002000"
abbreviation (input) X86_CR0_PE :: u32 where "X86_CR0_PE \<equiv> 0x00000001"
abbreviation (input) X86_CR0_MP :: u32 where "X86_CR0_MP \<equiv> 0x00000002"
abbreviation (input) X86_CR0_EM :: u32 where "X86_CR0_EM \<equiv> 0x00000004"
abbreviation (input) X86_CR0_TS :: u32 where "X86_CR0_TS \<equiv> 0x00000008"
abbreviation (input) X86_CR0_WP :: u32 where "X86_CR0_WP \<equiv> 0x00010000"
abbreviation (input) X86_CR0_AM :: u32 where "X86_CR0_AM \<equiv> 0x00040000"
abbreviation (input) X86_CR0_PG :: u32 where "X86_CR0_PG \<equiv> 0x80000000"
abbreviation (input) X86_CR3_PCID_MASK :: u32 where "X86_CR3_PCID_MASK \<equiv> 0x00000fff"
abbreviation (input) X86_CR4_TSD :: u32 where "X86_CR4_TSD \<equiv> 0x00000004"
abbreviation (input) X86_CR4_DE :: u32 where "X86_CR4_DE \<equiv> 0x00000008"
abbreviation (input) X86_CR4_PSE :: u32 where "X86_CR4_PSE \<equiv> 0x00000010"
abbreviation (input) X86_CR4_PAE :: u32 where "X86_CR4_PAE \<equiv> 0x00000020"
abbreviation (input) X86_CR4_MCE :: u32 where "X86_CR4_MCE \<equiv> 0x00000040"
abbreviation (input) X86_CR4_PGE :: u32 where "X86_CR4_PGE \<equiv> 0x00000080"
abbreviation (input) X86_CR4_PCE :: u32 where "X86_CR4_PCE \<equiv> 0x00000100"
abbreviation (input) X86_CR4_UMIP :: u32 where "X86_CR4_UMIP \<equiv> 0x00000800"
abbreviation (input) X86_CR4_PCIDE :: u32 where "X86_CR4_PCIDE \<equiv> 0x00020000"
abbreviation (input) X86_CR4_SMEP :: u32 where "X86_CR4_SMEP \<equiv> 0x00100000"
abbreviation (input) X86_CR4_SMAP :: u32 where "X86_CR4_SMAP \<equiv> 0x00200000"
abbreviation (input) X86_CR4_PKE :: u32 where "X86_CR4_PKE \<equiv> 0x00400000"
abbreviation (input) X86_EFLAGS_CF :: u32 where "X86_EFLAGS_CF \<equiv> 0x00000001"
abbreviation (input) X86_EFLAGS_FIXED :: u32 where "X86_EFLAGS_FIXED \<equiv> 0x00000002"
abbreviation (input) X86_EFLAGS_PF :: u32 where "X86_EFLAGS_PF \<equiv> 0x00000004"
abbreviation (input) X86_EFLAGS_AF :: u32 where "X86_EFLAGS_AF \<equiv> 0x00000010"
abbreviation (input) X86_EFLAGS_ZF :: u32 where "X86_EFLAGS_ZF \<equiv> 0x00000040"
abbreviation (input) X86_EFLAGS_SF :: u32 where "X86_EFLAGS_SF \<equiv> 0x00000080"
abbreviation (input) X86_EFLAGS_TF :: u32 where "X86_EFLAGS_TF \<equiv> 0x00000100"
abbreviation (input) X86_EFLAGS_IF :: u32 where "X86_EFLAGS_IF \<equiv> 0x00000200"
abbreviation (input) X86_EFLAGS_DF :: u32 where "X86_EFLAGS_DF \<equiv> 0x00000400"
abbreviation (input) X86_EFLAGS_OF :: u32 where "X86_EFLAGS_OF \<equiv> 0x00000800"
abbreviation (input) X86_EFLAGS_IOPL :: u32 where "X86_EFLAGS_IOPL \<equiv> 0x00003000"
abbreviation (input) X86_EFLAGS_NT :: u32 where "X86_EFLAGS_NT \<equiv> 0x00004000"
abbreviation (input) X86_EFLAGS_AC :: u32 where "X86_EFLAGS_AC \<equiv> 0x00040000"
abbreviation (input) ACTV_ACTIVE :: u32 where "ACTV_ACTIVE \<equiv> 0"
abbreviation (input) ACTV_HLT :: u32 where "ACTV_HLT \<equiv> 1"

abbreviation VMX_ENTRY_FAILURE :: u32 where "VMX_ENTRY_FAILURE \<equiv> push_bit 31 1"

text \<open>The flags of a register do not overlap, so that the code may set and clear them one by one.\<close>

definition cr0_flags :: "u32 list" where
  "cr0_flags =
   [X86_CR0_PE, X86_CR0_MP, X86_CR0_EM, X86_CR0_TS, X86_CR0_WP, X86_CR0_AM, X86_CR0_PG]"

definition cr4_flags :: "u32 list" where
  "cr4_flags =
   [X86_CR4_TSD, X86_CR4_DE, X86_CR4_PSE, X86_CR4_PAE, X86_CR4_MCE, X86_CR4_PGE, X86_CR4_PCE, X86_CR4_UMIP,
    X86_CR4_VMXE, X86_CR4_PCIDE, X86_CR4_SMEP, X86_CR4_SMAP, X86_CR4_PKE]"

definition eflags_flags :: "u32 list" where
  "eflags_flags =
   [X86_EFLAGS_CF, X86_EFLAGS_FIXED, X86_EFLAGS_PF, X86_EFLAGS_AF, X86_EFLAGS_ZF, X86_EFLAGS_SF,
    X86_EFLAGS_TF, X86_EFLAGS_IF, X86_EFLAGS_DF, X86_EFLAGS_OF, X86_EFLAGS_IOPL, X86_EFLAGS_NT,
    X86_EFLAGS_AC]"

lemma flags_apart:
  "\<forall>fs \<in> {cr0_flags, cr4_flags, eflags_flags}. \<forall>i<length fs. \<forall>j<i. fs ! i AND fs ! j = 0"
  by (simp add: cr0_flags_def cr4_flags_def eflags_flags_def All_less_Suc numeral_eq_Suc)

definition VMX_ENTRY_FLAGS :: u32 where
  "VMX_ENTRY_FLAGS = X86_EFLAGS_CF OR X86_EFLAGS_PF OR X86_EFLAGS_AF OR X86_EFLAGS_ZF OR
     X86_EFLAGS_SF OR X86_EFLAGS_OF"

section \<open>Exit reasons and handler results\<close>

abbreviation (input) VMX_EXC_NMI :: u32 where "VMX_EXC_NMI \<equiv> 0"
abbreviation (input) VMX_EXTINT :: u32 where "VMX_EXTINT \<equiv> 1"
abbreviation (input) VMX_TRIPLE_FAULT :: u32 where "VMX_TRIPLE_FAULT \<equiv> 2"
abbreviation (input) VMX_INIT :: u32 where "VMX_INIT \<equiv> 3"
abbreviation (input) VMX_SIPI :: u32 where "VMX_SIPI \<equiv> 4"
abbreviation (input) VMX_SMI_IO :: u32 where "VMX_SMI_IO \<equiv> 5"
abbreviation (input) VMX_SMI_OTHER :: u32 where "VMX_SMI_OTHER \<equiv> 6"
abbreviation (input) VMX_INTR_WINDOW :: u32 where "VMX_INTR_WINDOW \<equiv> 7"
abbreviation (input) VMX_NMI_WINDOW :: u32 where "VMX_NMI_WINDOW \<equiv> 8"
abbreviation (input) VMX_TASK_SWITCH :: u32 where "VMX_TASK_SWITCH \<equiv> 9"
abbreviation (input) VMX_CPUID :: u32 where "VMX_CPUID \<equiv> 10"
abbreviation (input) VMX_GETSEC :: u32 where "VMX_GETSEC \<equiv> 11"
abbreviation (input) VMX_HLT :: u32 where "VMX_HLT \<equiv> 12"
abbreviation (input) VMX_INVD :: u32 where "VMX_INVD \<equiv> 13"
abbreviation (input) VMX_INVLPG :: u32 where "VMX_INVLPG \<equiv> 14"
abbreviation (input) VMX_RDPMC :: u32 where "VMX_RDPMC \<equiv> 15"
abbreviation (input) VMX_RDTSC :: u32 where "VMX_RDTSC \<equiv> 16"
abbreviation (input) VMX_RSM :: u32 where "VMX_RSM \<equiv> 17"
abbreviation (input) VMX_VMCALL :: u32 where "VMX_VMCALL \<equiv> 18"
abbreviation (input) VMX_VMCLEAR :: u32 where "VMX_VMCLEAR \<equiv> 19"
abbreviation (input) VMX_VMLAUNCH :: u32 where "VMX_VMLAUNCH \<equiv> 20"
abbreviation (input) VMX_VMPTRLD :: u32 where "VMX_VMPTRLD \<equiv> 21"
abbreviation (input) VMX_VMPTRST :: u32 where "VMX_VMPTRST \<equiv> 22"
abbreviation (input) VMX_VMREAD :: u32 where "VMX_VMREAD \<equiv> 23"
abbreviation (input) VMX_VMRESUME :: u32 where "VMX_VMRESUME \<equiv> 24"
abbreviation (input) VMX_VMWRITE :: u32 where "VMX_VMWRITE \<equiv> 25"
abbreviation (input) VMX_VMXOFF :: u32 where "VMX_VMXOFF \<equiv> 26"
abbreviation (input) VMX_VMXON :: u32 where "VMX_VMXON \<equiv> 27"
abbreviation (input) VMX_CR :: u32 where "VMX_CR \<equiv> 28"
abbreviation (input) VMX_DR :: u32 where "VMX_DR \<equiv> 29"
abbreviation (input) VMX_IO :: u32 where "VMX_IO \<equiv> 30"
abbreviation (input) VMX_RDMSR :: u32 where "VMX_RDMSR \<equiv> 31"
abbreviation (input) VMX_WRMSR :: u32 where "VMX_WRMSR \<equiv> 32"
abbreviation (input) VMX_FAIL_STATE :: u32 where "VMX_FAIL_STATE \<equiv> 33"
abbreviation (input) VMX_FAIL_MSR :: u32 where "VMX_FAIL_MSR \<equiv> 34"
abbreviation (input) VMX_MWAIT :: u32 where "VMX_MWAIT \<equiv> 36"
abbreviation (input) VMX_MTF :: u32 where "VMX_MTF \<equiv> 37"
abbreviation (input) VMX_MONITOR :: u32 where "VMX_MONITOR \<equiv> 39"
abbreviation (input) VMX_PAUSE :: u32 where "VMX_PAUSE \<equiv> 40"
abbreviation (input) VMX_FAIL_MCHECK :: u32 where "VMX_FAIL_MCHECK \<equiv> 41"
abbreviation (input) VMX_TPR_THRESHOLD :: u32 where "VMX_TPR_THRESHOLD \<equiv> 43"
abbreviation (input) VMX_APIC_ACCESS :: u32 where "VMX_APIC_ACCESS \<equiv> 44"
abbreviation (input) VMX_EOI_INDUCED :: u32 where "VMX_EOI_INDUCED \<equiv> 45"
abbreviation (input) VMX_GDTR_IDTR :: u32 where "VMX_GDTR_IDTR \<equiv> 46"
abbreviation (input) VMX_LDTR_TR :: u32 where "VMX_LDTR_TR \<equiv> 47"
abbreviation (input) VMX_EPT_VIOLATION :: u32 where "VMX_EPT_VIOLATION \<equiv> 48"
abbreviation (input) VMX_EPT_MISCONFIG :: u32 where "VMX_EPT_MISCONFIG \<equiv> 49"
abbreviation (input) VMX_INVEPT :: u32 where "VMX_INVEPT \<equiv> 50"
abbreviation (input) VMX_PREEMPT :: u32 where "VMX_PREEMPT \<equiv> 52"
abbreviation (input) VMX_INVVPID :: u32 where "VMX_INVVPID \<equiv> 53"
abbreviation (input) VMX_WBINVD :: u32 where "VMX_WBINVD \<equiv> 54"
abbreviation (input) VMX_XSETBV :: u32 where "VMX_XSETBV \<equiv> 55"
abbreviation (input) VMX_APIC_WRITE :: u32 where "VMX_APIC_WRITE \<equiv> 56"
abbreviation (input) VMX_RDRAND :: u32 where "VMX_RDRAND \<equiv> 57"
abbreviation (input) VMX_INVPCID :: u32 where "VMX_INVPCID \<equiv> 58"
abbreviation (input) VMX_VMFUNC :: u32 where "VMX_VMFUNC \<equiv> 59"
abbreviation (input) VMX_RDSEED :: u32 where "VMX_RDSEED \<equiv> 61"
abbreviation (input) VMX_PML_FULL :: u32 where "VMX_PML_FULL \<equiv> 62"
abbreviation (input) VMX_XSAVES :: u32 where "VMX_XSAVES \<equiv> 63"
abbreviation (input) VMX_XRSTORS :: u32 where "VMX_XRSTORS \<equiv> 64"

definition Reason :: "u32 list" where
  "Reason =
   [VMX_EXC_NMI, VMX_EXTINT, VMX_TRIPLE_FAULT, VMX_INIT, VMX_SIPI, VMX_SMI_IO, VMX_SMI_OTHER,
    VMX_INTR_WINDOW, VMX_NMI_WINDOW, VMX_TASK_SWITCH, VMX_CPUID, VMX_GETSEC, VMX_HLT, VMX_INVD,
    VMX_INVLPG, VMX_RDPMC, VMX_RDTSC, VMX_RSM, VMX_VMCALL, VMX_VMCLEAR, VMX_VMLAUNCH,
    VMX_VMPTRLD, VMX_VMPTRST, VMX_VMREAD, VMX_VMRESUME, VMX_VMWRITE, VMX_VMXOFF, VMX_VMXON,
    VMX_CR, VMX_DR, VMX_IO, VMX_RDMSR, VMX_WRMSR, VMX_FAIL_STATE, VMX_FAIL_MSR, VMX_MWAIT,
    VMX_MTF, VMX_MONITOR, VMX_PAUSE, VMX_FAIL_MCHECK, VMX_TPR_THRESHOLD, VMX_APIC_ACCESS,
    VMX_EOI_INDUCED, VMX_GDTR_IDTR, VMX_LDTR_TR, VMX_EPT_VIOLATION, VMX_EPT_MISCONFIG,
    VMX_INVEPT, VMX_PREEMPT, VMX_INVVPID, VMX_WBINVD, VMX_XSETBV, VMX_APIC_WRITE, VMX_RDRAND,
    VMX_INVPCID, VMX_VMFUNC, VMX_RDSEED, VMX_PML_FULL, VMX_XSAVES, VMX_XRSTORS]"

abbreviation (input) VMX_START :: u32 where "VMX_START \<equiv> 0"
abbreviation (input) VMX_VMEXIT :: u32 where "VMX_VMEXIT \<equiv> 1"
abbreviation (input) VMX_EXIT :: u32 where "VMX_EXIT \<equiv> 2"
abbreviation (input) VMX_RESUME :: u32 where "VMX_RESUME \<equiv> 3"
abbreviation (input) VMX_VMABORT :: u32 where "VMX_VMABORT \<equiv> 4"
abbreviation (input) VMX_VMSKIP :: u32 where "VMX_VMSKIP \<equiv> 5"

abbreviation (input) HYPERCALL_BIT :: u32 where "HYPERCALL_BIT \<equiv> push_bit 12 1"
abbreviation (input) HYPERCALL_MASK :: u32 where "HYPERCALL_MASK \<equiv> 0xFFF"
abbreviation (input) HYPERCALL_VMEXIT :: u32 where "HYPERCALL_VMEXIT \<equiv> 0x1"
abbreviation (input) HYPERCALL_VMABORT :: u32 where "HYPERCALL_VMABORT \<equiv> 0x2"
abbreviation (input) HYPERCALL_VMSKIP :: u32 where "HYPERCALL_VMSKIP \<equiv> 0x3"

text \<open>What a handler returns, and the numbers of the hypercalls with the bits that mark them.\<close>

definition handler_results :: "u32 list" where
  "handler_results =
   [VMX_START, VMX_VMEXIT, VMX_EXIT, VMX_RESUME, VMX_VMABORT, VMX_VMSKIP]"

definition hypercall_numbers :: "u32 list" where
  "hypercall_numbers =
   [HYPERCALL_VMEXIT, HYPERCALL_VMABORT, HYPERCALL_VMSKIP]"

lemma hypercall_marked:
  "h \<in> set hypercall_numbers \<Longrightarrow> ((h AND HYPERCALL_MASK) OR HYPERCALL_BIT) AND HYPERCALL_MASK = h"
  "distinct hypercall_numbers" "distinct handler_results"
  by (auto simp: hypercall_numbers_def handler_results_def)

section \<open>The encodings\<close>

text \<open>How the architecture composes the code of a field: bits 10 and 11 are its kind (0 control, 1
  read-only, 2 guest, 3 host), bits 13 and 14 its width (0 for 16, 1 for 64, 2 for 32 bits, 3 natural).\<close>

definition enc_kind :: "u32 \<Rightarrow> nat" where
  "enc_kind e = unat (drop_bit 10 e AND 3)"

definition enc_width :: "u32 \<Rightarrow> nat" where
  "enc_width e = unat (drop_bit 13 e AND 3)"

definition enc_section_ok :: "nat \<Rightarrow> nat \<Rightarrow> u32 list \<Rightarrow> bool" where
  "enc_section_ok w k es \<longleftrightarrow> list_all (\<lambda>e. enc_width e = w \<and> enc_kind e = k) es \<and> distinct es"

lemmas enc_sections =
  enc_w16_control_fields_def enc_w16_guest_state_fields_def enc_w16_host_state_fields_def
  enc_w64_control_fields_def enc_w64_readonly_data_field_def enc_w64_guest_state_def
  enc_w64_host_state_def enc_w32_control_fields_def enc_w32_readonly_data_fields_def
  enc_w32_guest_state_fields_def enc_w32_host_state_fields_def enc_wn_control_fields_def
  enc_wn_readonly_data_fields_def enc_wn_guest_state_fields_def enc_wn_host_state_fields_def

text \<open>Every section of \<open>enum Encoding\<close> holds fields of the width and the kind that its comment
  says, without repetition, except the natural-width read-only section: there
  \<open>GUEST_PHYSICAL_ADDRESS\<close> is given the code of \<open>IO_RCX\<close>, and not its own, that of \<open>INFO_PHYS_ADDR\<close>.\<close>

theorem Encoding_sections:
  "enc_section_ok 0 0 enc_w16_control_fields \<and> enc_section_ok 0 2 enc_w16_guest_state_fields \<and>
   enc_section_ok 0 3 enc_w16_host_state_fields \<and>
   enc_section_ok 1 0 enc_w64_control_fields \<and> enc_section_ok 1 1 enc_w64_readonly_data_field \<and>
   enc_section_ok 1 2 enc_w64_guest_state \<and> enc_section_ok 1 3 enc_w64_host_state \<and>
   enc_section_ok 2 0 enc_w32_control_fields \<and> enc_section_ok 2 1 enc_w32_readonly_data_fields \<and>
   enc_section_ok 2 2 enc_w32_guest_state_fields \<and> enc_section_ok 2 3 enc_w32_host_state_fields \<and>
   enc_section_ok 3 0 enc_wn_control_fields \<and> enc_section_ok 3 2 enc_wn_guest_state_fields \<and>
   enc_section_ok 3 3 enc_wn_host_state_fields \<and>
   enc_section_ok 3 1 (butlast enc_wn_readonly_data_fields) \<and>
   last enc_wn_readonly_data_fields = GUEST_PHYSICAL_ADDRESS \<and>
   GUEST_PHYSICAL_ADDRESS = IO_RCX \<and> GUEST_PHYSICAL_ADDRESS \<noteq> INFO_PHYS_ADDR"
  by (intro conjI; simp add: enc_section_ok_def enc_kind_def enc_width_def enc_sections)

end
