(* ===== verification/Vmx_Setup.thy ===== *)
theory Vmx_Setup
  imports Vmx_Defs Guest_Paging
begin

text \<open>
  The first half of \<open>src/kernel/vm/vm.c\<close>: turning VMX on and filling the control structure. The state
  holds the file's global variables, the memory, the control registers and MSRs, and the current VMCS
  as a map from field codes to values. The answers of the processor that the code tests (the outcome
  of \<open>vmxon\<close> and its like, \<open>cpuid\<close>) are the record \<open>hw\<close>; the addresses that the linker chooses are the
  record \<open>layout\<close>.
\<close>

unbundle bit_operations_syntax

section \<open>State\<close>

record gpr =
  eax :: u32
  ebx :: u32
  ecx :: u32
  edx :: u32
  ebp :: u32
  esi :: u32
  edi :: u32

record vm_state =
  \<comment> \<open>the processor\<close>
  cr0 :: u32
  cr2 :: u32
  cr3 :: u32
  cr4 :: u32
  esp :: u32
  gprs :: gpr
  msr :: "u32 \<Rightarrow> u64"
  vmcs_data :: "u32 \<Rightarrow> u32"
  vm_mem :: memory
  \<comment> \<open>the global variables\<close>
  basic :: u64
  vmxon_region :: u32
  vmcs :: u32
  launched :: bool
  guest_finished :: u32
  in_guest :: u32
  hypercall_field :: u32
  ctrl_pin_rev :: u64
  ctrl_exit_rev :: u64
  ctrl_enter_rev :: u64
  ctrl_cpu_rev0 :: u64
  ctrl_cpu_rev1 :: u64
  ept_vpid :: u64
  ctrl_pin :: u32
  ctrl_exit :: u32
  ctrl_enter :: u32
  ctrl_cpu0 :: u32
  ctrl_cpu1 :: u32
  regs :: gpr
  regs_eflags :: u32
  vm_out :: "pcall list"

text \<open>A VMX instruction ends in one of three ways, which the flags tell apart.\<close>

datatype vmx_result = VMsucceed | VMfailInvalid | VMfailValid

record hw =
  hw_cpuid1_ecx :: u32
  hw_eflags :: u32
  hw_vmxon :: vmx_result
  hw_vmclear :: "u32 \<Rightarrow> vmx_result"  \<comment> \<open>of the address of the region\<close>
  hw_vmptrld :: "u32 \<Rightarrow> vmx_result"
  hw_vmxoff :: vmx_result
  hw_vmwrite :: "u32 \<Rightarrow> vmx_result"  \<comment> \<open>of the field\<close>
  hw_garbage :: u32  \<comment> \<open>what a caller reads when a function ends without \<open>return\<close>\<close>

record layout =
  guest_page_dir :: u32
  guest_page_table :: u32
  guest_stack :: u32
  guest_syscall_stack :: u32
  entry_sysenter :: u32
  guest_entry :: u32
  vmx_return :: u32

text \<open>\<open>gdt_table\<close> and \<open>idt_table\<close> of \<open>src/kernel/base.c\<close>, the selectors of \<open>include/cfg.h\<close>.\<close>

definition gdt_table_addr :: u32 where "gdt_table_addr = 0x9000"
definition idt_table_addr :: u32 where "idt_table_addr = 0xb000"
definition KERNEL_CODE_SEG :: u32 where "KERNEL_CODE_SEG = 1 * 8"
definition KERNEL_DATA_SEG :: u32 where "KERNEL_DATA_SEG = 2 * 8"

definition vm_print :: "pcall list \<Rightarrow> vm_state \<Rightarrow> vm_state" where
  "vm_print cs s = s\<lparr>vm_out := vm_out s @ cs\<rparr>"

section \<open>Single instructions\<close>

definition rdmsr :: "u32 \<Rightarrow> vm_state \<Rightarrow> u64" where
  "rdmsr index s = msr s index"

definition wrmsr :: "u32 \<Rightarrow> u64 \<Rightarrow> vm_state \<Rightarrow> vm_state" where
  "wrmsr index val s = s\<lparr>msr := (msr s)(index := val)\<rparr>"

definition read_cr0 :: "vm_state \<Rightarrow> u32" where "read_cr0 s = cr0 s"
definition read_cr2 :: "vm_state \<Rightarrow> u32" where "read_cr2 s = cr2 s"
definition read_cr3 :: "vm_state \<Rightarrow> u32" where "read_cr3 s = cr3 s"
definition read_cr4 :: "vm_state \<Rightarrow> u32" where "read_cr4 s = cr4 s"
definition write_cr0 :: "u32 \<Rightarrow> vm_state \<Rightarrow> vm_state" where "write_cr0 val s = s\<lparr>cr0 := val\<rparr>"
definition write_cr4 :: "u32 \<Rightarrow> vm_state \<Rightarrow> vm_state" where "write_cr4 val s = s\<lparr>cr4 := val\<rparr>"
definition read_eflags :: "hw \<Rightarrow> u32" where "read_eflags h = hw_eflags h"

lemmas cr_access_defs [simp] = read_cr0_def read_cr2_def read_cr3_def read_cr4_def write_cr0_def write_cr4_def
  read_eflags_def

text \<open>The flags behind a VMX instruction: a success clears the carry and the zero flag, a failure sets
  one of them; the routines read them with \<open>setbe\<close>, having set both before.\<close>

definition vmx_flags :: "vmx_result \<Rightarrow> u32 \<Rightarrow> u32" where
  "vmx_flags r eflags = (eflags AND NOT (X86_EFLAGS_CF OR X86_EFLAGS_ZF)) OR
     (case r of VMsucceed \<Rightarrow> 0 | VMfailInvalid \<Rightarrow> X86_EFLAGS_CF | VMfailValid \<Rightarrow> X86_EFLAGS_ZF)"

definition setbe :: "u32 \<Rightarrow> bool" where
  "setbe eflags \<longleftrightarrow> eflags AND X86_EFLAGS_CF \<noteq> 0 \<or> eflags AND X86_EFLAGS_ZF \<noteq> 0"

lemma setbe_bits: "setbe f \<longleftrightarrow> bit f 0 \<or> bit f 6"
proof -
  have "f AND 1 \<noteq> 0 \<longleftrightarrow> bit f 0" by (simp add: bit_0 odd_iff_mod_2_eq_one and_one_eq)
  moreover have "f AND 0x40 \<noteq> 0 \<longleftrightarrow> bit f 6"
    using bit_iff_and_push_bit_not_eq_0 [of f 6] by simp
  ultimately show ?thesis by (simp add: setbe_def)
qed

lemma setbe_vmx_flags [simp]: "setbe (vmx_flags r f) \<longleftrightarrow> r \<noteq> VMsucceed"
proof -
  have b: "bit (1 :: u32) 0" "bit (0x40 :: u32) 6" "\<not> bit (1 :: u32) 6" "\<not> bit (0x40 :: u32) 0" by simp_all
  show ?thesis
    unfolding setbe_bits vmx_flags_def bit_or_iff bit_and_iff bit_not_iff using b
    by (cases r) (simp_all del: bit_numeral_simps)
qed

definition vmx_on :: "hw \<Rightarrow> bool" where
  "vmx_on h = setbe (vmx_flags (hw_vmxon h) (read_eflags h OR X86_EFLAGS_CF OR X86_EFLAGS_ZF))"

definition vmcs_clear :: "hw \<Rightarrow> u32 \<Rightarrow> bool" where
  "vmcs_clear h p = setbe (vmx_flags (hw_vmclear h p) (read_eflags h OR X86_EFLAGS_CF OR X86_EFLAGS_ZF))"

definition make_vmcs_current :: "hw \<Rightarrow> u32 \<Rightarrow> bool" where
  "make_vmcs_current h p = setbe (vmx_flags (hw_vmptrld h p) (read_eflags h OR X86_EFLAGS_CF OR X86_EFLAGS_ZF))"

definition vmx_off :: "hw \<Rightarrow> bool" where
  "vmx_off h = setbe (vmx_flags (hw_vmxoff h) (read_eflags h OR X86_EFLAGS_CF OR X86_EFLAGS_ZF))"

lemma vmx_instructions [simp]:
  "vmx_on h \<longleftrightarrow> hw_vmxon h \<noteq> VMsucceed" "vmx_off h \<longleftrightarrow> hw_vmxoff h \<noteq> VMsucceed"
  "vmcs_clear h p \<longleftrightarrow> hw_vmclear h p \<noteq> VMsucceed" "make_vmcs_current h p \<longleftrightarrow> hw_vmptrld h p \<noteq> VMsucceed"
  by (simp_all add: vmx_on_def vmx_off_def vmcs_clear_def make_vmcs_current_def)

definition vmcs_read :: "u32 \<Rightarrow> vm_state \<Rightarrow> u32" where
  "vmcs_read enc s = vmcs_data s enc"

definition vmcs_write :: "hw \<Rightarrow> u32 \<Rightarrow> u32 \<Rightarrow> vm_state \<Rightarrow> vm_state" where
  "vmcs_write h enc val s =
     (if setbe (vmx_flags (hw_vmwrite h enc) (read_eflags h)) then vm_print [Printf ''vmcs write wrong\<newline>'' []] s
      else s\<lparr>vmcs_data := (vmcs_data s)(enc := val)\<rparr>)"

definition vmcs_writes :: "hw \<Rightarrow> (u32 \<times> u32) list \<Rightarrow> vm_state \<Rightarrow> vm_state" where
  "vmcs_writes h ws s = fold (\<lambda>(enc, val). vmcs_write h enc val) ws s"

section \<open>Turning VMX on\<close>

definition is_vmx_supported :: "hw \<Rightarrow> vm_state \<Rightarrow> bool \<times> vm_state" where
  "is_vmx_supported h s =
     (let ecx = hw_cpuid1_ecx h;
          s1 = vm_print [Printf ''ecx: %x\<newline>'' [PWord ecx]] s
      in if ecx AND push_bit 5 1 \<noteq> 0 then
           (let s2 = vm_print [Printf ''This cpu support vt\<newline>'' []] s1;
                md_check = ucast (rdmsr MSR_IA32_FEATURE_CONTROL s2) :: u32
            in if md_check AND 0x5 = 0x5 then
                 (True, vm_print [Printf ''VMX enabled and locked by BIOS\<newline>'' []] s2)
               else if md_check AND 0x1 \<noteq> 0 then
                 (False, vm_print [Printf ''ERROR: VMX locked out by BIOS without enabled\<newline>'' []] s2)
               else (True, wrmsr MSR_IA32_FEATURE_CONTROL 0x5 s2))
         else (False, vm_print [Printf ''This cpu don't support vt\<newline>'' []] s1))"

definition init_vmx :: "vm_state \<Rightarrow> vm_state" where
  "init_vmx s =
     (let region = 0x201000;
          s1 = s\<lparr>vmxon_region := region, vm_mem := memset (vm_mem s) region 0 4096\<rparr>;
          fix_cr0_set = rdmsr MSR_IA32_VMX_CR0_FIXED0 s1;
          fix_cr0_clr = rdmsr MSR_IA32_VMX_CR0_FIXED1 s1;
          fix_cr4_set = rdmsr MSR_IA32_VMX_CR4_FIXED0 s1;
          fix_cr4_clr = rdmsr MSR_IA32_VMX_CR4_FIXED1 s1;
          s2 = s1\<lparr>basic := rdmsr MSR_IA32_VMX_BASIC s1\<rparr>;
          cr0_2 = ucast ((ucast (read_cr0 s2) AND fix_cr0_clr) OR fix_cr0_set);
          cr4_2 = ucast ((ucast (read_cr4 s2) AND fix_cr4_clr) OR fix_cr4_set OR ucast X86_CR4_VMXE);
          s3 = write_cr4 cr4_2 (write_cr0 cr0_2 s2)
      in s3\<lparr>vm_mem := store32 (vm_mem s3) region (basic_revision (basic s3))\<rparr>)"

text \<open>\<open>clear_ptrld\<close>: 1 after an error; on success the function ends without a value. The revision is a
  field of 31 bits.\<close>

definition clear_ptrld :: "hw \<Rightarrow> vm_state \<Rightarrow> u32 \<times> vm_state" where
  "clear_ptrld h s =
     (let p = 0x202000;
          m1 = memset (vm_mem s) p 0 4096;
          m2 = store32 m1 p ((load32 m1 p AND push_bit 31 1) OR (basic_revision (basic s) AND mask 31));
          s1 = s\<lparr>vmcs := p, vm_mem := m2\<rparr>
      in if vmcs_clear h p then
           (1, vm_print [Printf ''%s : vmcs_clear error\<newline>'' [PStr ''clear_ptrld'']] s1)
         else if make_vmcs_current h p then
           (1, vm_print [Printf ''%s : make_vmcs_current error\<newline>'' [PStr ''clear_ptrld'']] s1)
         else (hw_garbage h, s1))"

section \<open>Filling the control structure\<close>

definition init_page_table_test :: "vm_state \<Rightarrow> vm_state" where
  "init_page_table_test s = vm_print
     [Printf ''Page table test: Guest will write to read-only code segment\<newline>'' [],
      Printf ''Test address (code segment): %#x\<newline>'' [PWord TEST_READONLY_ADDR],
      Printf ''CR0.WP is enabled in guest\<newline>'' []] s"

definition init_vmcs_ctrl :: "hw \<Rightarrow> vm_state \<Rightarrow> vm_state" where
  "init_vmcs_ctrl h s =
     (let s1 = vmcs_writes h [(PIN_CONTROLS, ctrl_pin s), (CPU_EXEC_CTRL0, ctrl_cpu0 s)] s;
          s2 = (if ctrl_set (ctrl_cpu_rev0 s1) AND CPU_SECONDARY \<noteq> 0 then
                  let c1 = (ctrl_cpu1 s1 OR ctrl_set (ctrl_cpu_rev1 s1)) AND ctrl_clr (ctrl_cpu_rev1 s1)
                  in vmcs_write h CPU_EXEC_CTRL1 c1 (s1\<lparr>ctrl_cpu1 := c1\<rparr>)
                else s1);
          s3 = vmcs_writes h [(CR3_TARGET_COUNT, 0), (EXC_BITMAP, 0xFFFFFFFF)] s2
      in vm_print [Printf ''EXC_BITMAP set to %#x\<newline>'' [PWord 0xFFFFFFFF]] s3)"

definition host_fields :: "layout \<Rightarrow> vm_state \<Rightarrow> (u32 \<times> u32) list" where
  "host_fields l s =
     [(ENT_CONTROLS, ctrl_enter s), (EXI_CONTROLS, ctrl_exit s),
      (HOST_CR0, read_cr0 s), (HOST_CR3, read_cr3 s), (HOST_CR4, read_cr4 s),
      (HOST_SYSENTER_EIP, entry_sysenter l), (HOST_SYSENTER_CS, KERNEL_CODE_SEG),
      (HOST_SEL_CS, KERNEL_CODE_SEG), (HOST_SEL_SS, KERNEL_DATA_SEG), (HOST_SEL_DS, KERNEL_DATA_SEG),
      (HOST_SEL_ES, KERNEL_DATA_SEG), (HOST_SEL_FS, KERNEL_DATA_SEG), (HOST_SEL_GS, KERNEL_DATA_SEG),
      (HOST_SEL_TR, 0x80), (HOST_BASE_TR, 0x9000 + 0x80),
      (HOST_BASE_GDTR, gdt_table_addr), (HOST_BASE_IDTR, idt_table_addr),
      (HOST_BASE_FS, 0), (HOST_BASE_GS, 0),
      (PF_ERROR_MASK, 0), (PF_ERROR_MATCH, 0),
      (VMCS_LINK_PTR, NOT 0), (VMCS_LINK_PTR_HI, NOT 0),
      (HOST_RIP, vmx_return l)]"

definition init_vmcs_host :: "hw \<Rightarrow> layout \<Rightarrow> vm_state \<Rightarrow> vm_state" where
  "init_vmcs_host h l s = vmcs_writes h (host_fields l s) s"

definition guest_fields :: "layout \<Rightarrow> u32 \<Rightarrow> u32 \<Rightarrow> u32 \<Rightarrow> (u32 \<times> u32) list" where
  "guest_fields l guest_cr0 guest_cr3 guest_cr4 =
     [(GUEST_CR0, guest_cr0), (GUEST_CR3, guest_cr3), (GUEST_CR4, guest_cr4),
      (GUEST_SEL_CS, KERNEL_CODE_SEG), (GUEST_BASE_CS, 0), (GUEST_LIMIT_CS, 0xFFFFFFFF), (GUEST_AR_CS, 0xc09b),
      (GUEST_SEL_SS, KERNEL_DATA_SEG), (GUEST_BASE_SS, 0), (GUEST_LIMIT_SS, 0xFFFFFFFF), (GUEST_AR_SS, 0xc093),
      (GUEST_SEL_DS, KERNEL_DATA_SEG), (GUEST_BASE_DS, 0), (GUEST_LIMIT_DS, 0xFFFFFFFF), (GUEST_AR_DS, 0xc093),
      (GUEST_SEL_ES, KERNEL_DATA_SEG), (GUEST_BASE_ES, 0), (GUEST_LIMIT_ES, 0xFFFFFFFF), (GUEST_AR_ES, 0xc093),
      (GUEST_SEL_FS, KERNEL_DATA_SEG), (GUEST_BASE_FS, 0), (GUEST_LIMIT_FS, 0xFFFFFFFF), (GUEST_AR_FS, 0xc093),
      (GUEST_SEL_GS, KERNEL_DATA_SEG), (GUEST_BASE_GS, 0), (GUEST_LIMIT_GS, 0xFFFFFFFF), (GUEST_AR_GS, 0xc093),
      (GUEST_SEL_LDTR, 0), (GUEST_BASE_LDTR, 0), (GUEST_LIMIT_LDTR, 0xffff), (GUEST_AR_LDTR, 0x82),
      (GUEST_SEL_TR, 0x80), (GUEST_BASE_TR, 0x9000 + 0x80), (GUEST_LIMIT_TR, 0xffff), (GUEST_AR_TR, 0x8b),
      (GUEST_SYSENTER_CS, KERNEL_CODE_SEG), (GUEST_SYSENTER_ESP, guest_syscall_stack l + 4096),
      (GUEST_SYSENTER_EIP, entry_sysenter l), (GUEST_DR7, 0),
      (GUEST_BASE_GDTR, gdt_table_addr), (GUEST_BASE_IDTR, idt_table_addr),
      (GUEST_LIMIT_GDTR, 0x7ff), (GUEST_LIMIT_IDTR, 0x7ff),
      (GUEST_RIP, guest_entry l), (GUEST_RSP, guest_stack l + 4096), (GUEST_RFLAGS, 0x2),
      (GUEST_ACTV_STATE, ACTV_ACTIVE), (GUEST_INTR_STATE, 0)]"

definition init_vmcs_guest :: "hw \<Rightarrow> layout \<Rightarrow> vm_state \<Rightarrow> vm_state" where
  "init_vmcs_guest h l s =
     (let guest_cr0 = read_cr0 s;
          (m', out, guest_cr3) = setup_guest_page_tables (guest_page_dir l) (guest_page_table l) (vm_mem s);
          s1 = vm_print out (s\<lparr>vm_mem := m'\<rparr>);
          guest_cr4 = read_cr4 s1 AND NOT X86_CR4_PCIDE;
          guest_cr0' = (if guest_cr0 AND X86_CR0_PG \<noteq> 0 then guest_cr0 OR X86_CR0_PE else guest_cr0);
          guest_cr0'' = guest_cr0' OR X86_CR0_WP
      in vmcs_writes h (guest_fields l guest_cr0'' guest_cr3 guest_cr4) s1)"

text \<open>\<open>vmcs_init\<close>: read the capability MSRs, choose the controls, force the bits that the processor
  requires, then write all fields.\<close>

definition read_capabilities :: "vm_state \<Rightarrow> vm_state" where
  "read_capabilities s =
     (let tr = basic_ctrl (basic s);
          cpu0 = rdmsr (if tr then MSR_IA32_VMX_TRUE_PROC else MSR_IA32_VMX_PROCBASED_CTLS) s;
          cpu1 = (if ctrl_clr cpu0 AND CPU_SECONDARY \<noteq> 0 then rdmsr MSR_IA32_VMX_PROCBASED_CTLS2 s else 0);
          ev = (if ctrl_clr cpu1 AND (CPU_EPT OR CPU_VPID) \<noteq> 0 then rdmsr MSR_IA32_VMX_EPT_VPID_CAP s else 0)
      in s\<lparr>ctrl_pin_rev := rdmsr (if tr then MSR_IA32_VMX_TRUE_PIN else MSR_IA32_VMX_PINBASED_CTLS) s,
           ctrl_exit_rev := rdmsr (if tr then MSR_IA32_VMX_TRUE_EXIT else MSR_IA32_VMX_EXIT_CTLS) s,
           ctrl_enter_rev := rdmsr (if tr then MSR_IA32_VMX_TRUE_ENTRY else MSR_IA32_VMX_ENTRY_CTLS) s,
           ctrl_cpu_rev0 := cpu0, ctrl_cpu_rev1 := cpu1, ept_vpid := ev\<rparr>)"

definition force_ctrl :: "u64 \<Rightarrow> u32 \<Rightarrow> u32" where
  "force_ctrl cap c = (c OR ctrl_set cap) AND ctrl_clr cap"

definition choose_controls :: "vm_state \<Rightarrow> vm_state" where
  "choose_controls s =
     (let pin = ctrl_pin s OR PIN_NMI OR PIN_VIRT_NMI;
          cpu0 = ((ctrl_cpu0 s AND NOT (CPU_IO OR CPU_IO_BITMAP)) OR CPU_CR3_LOAD OR CPU_CR3_STORE) OR CPU_HLT
      in s\<lparr>ctrl_pin := force_ctrl (ctrl_pin_rev s) pin,
           ctrl_enter := force_ctrl (ctrl_enter_rev s) 0,
           ctrl_exit := force_ctrl (ctrl_exit_rev s) 0,
           ctrl_cpu0 := force_ctrl (ctrl_cpu_rev0 s) cpu0,
           ctrl_cpu1 := 0\<rparr>)"

definition vmcs_init :: "hw \<Rightarrow> layout \<Rightarrow> vm_state \<Rightarrow> vm_state" where
  "vmcs_init h l s =
     init_vmcs_guest h l (init_vmcs_host h l (init_vmcs_ctrl h
       (init_page_table_test (choose_controls (read_capabilities s)))))"

section \<open>Control bits\<close>

text \<open>A control word is acceptable to the processor when it has every bit that must be set and no bit
  that must be clear.\<close>

definition ctrl_ok :: "u64 \<Rightarrow> u32 \<Rightarrow> bool" where
  "ctrl_ok cap c \<longleftrightarrow> ctrl_set cap AND NOT c = 0 \<and> c AND NOT (ctrl_clr cap) = 0"

lemma force_ctrl_bit:
  "bit (force_ctrl cap c) n \<longleftrightarrow> (bit c n \<or> bit (ctrl_set cap) n) \<and> bit (ctrl_clr cap) n"
  by (simp add: force_ctrl_def bit_simps)

lemma force_ctrl_ok:
  assumes "ctrl_set cap AND NOT (ctrl_clr cap) = 0"
  shows "ctrl_ok cap (force_ctrl cap c)"
proof -
  have "bit (ctrl_set cap) n \<Longrightarrow> n < 32 \<Longrightarrow> bit (ctrl_clr cap) n" for n
  proof (rule ccontr)
    assume "bit (ctrl_set cap) n" "n < 32" "\<not> bit (ctrl_clr cap) n"
    then have "bit (ctrl_set cap AND NOT (ctrl_clr cap)) n" by (simp add: bit_simps)
    with assms show False by simp
  qed
  then show ?thesis
    unfolding ctrl_ok_def by (auto intro!: bit_eqI simp: bit_simps force_ctrl_bit)
qed

section \<open>Sequences of field writes\<close>

definition no_write_fails :: "hw \<Rightarrow> bool" where
  "no_write_fails h \<longleftrightarrow> (\<forall>e. hw_vmwrite h e = VMsucceed)"

lemma vmcs_write_ok:
  "no_write_fails h \<Longrightarrow> vmcs_write h e val s = s\<lparr>vmcs_data := (vmcs_data s)(e := val)\<rparr>"
  by (simp add: vmcs_write_def no_write_fails_def)

primrec set_fields :: "(u32 \<times> u32) list \<Rightarrow> (u32 \<Rightarrow> u32) \<Rightarrow> u32 \<Rightarrow> u32" where
  "set_fields [] d = d"
| "set_fields (w # ws) d = set_fields ws (d(fst w := snd w))"

lemma set_fields_append: "set_fields (vs @ ws) d = set_fields ws (set_fields vs d)"
  by (induction vs arbitrary: d) simp_all

lemma vmcs_writes_ok:
  "no_write_fails h \<Longrightarrow> vmcs_writes h ws s =
     s\<lparr>vmcs_data := set_fields ws (vmcs_data s)\<rparr>"
proof (induction ws arbitrary: s)
  case (Cons w ws)
  then show ?case by (cases w) (simp add: vmcs_writes_def vmcs_write_ok)
qed (simp add: vmcs_writes_def)

lemma fold_upd_other:
  "x \<notin> fst ` set ws \<Longrightarrow> set_fields ws d x = d x"
  by (induction ws arbitrary: d) auto

lemma fold_upd_mem:
  "distinct (map fst ws) \<Longrightarrow> (x, val) \<in> set ws \<Longrightarrow> set_fields ws d x = val"
proof (induction ws arbitrary: d)
  case (Cons w ws)
  show ?case
  proof (cases "w = (x, val)")
    case True
    with Cons.prems(1) show ?thesis by (simp add: fold_upd_other)
  next
    case False
    with Cons show ?thesis by (cases w) auto
  qed
qed simp

lemma host_fields_distinct: "distinct (map fst (host_fields l s))"
  by (simp add: host_fields_def)

lemma guest_fields_distinct: "distinct (map fst (guest_fields l a b c))"
  by (simp add: guest_fields_def)

lemma host_guest_disjoint: "fst ` set (host_fields l s) \<inter> fst ` set (guest_fields l' a b c) = {}"
  by (simp add: host_fields_def guest_fields_def)

section \<open>The control structure after vmcs_init\<close>

text \<open>The state in which the three writers of fields run.\<close>

definition before_fields :: "vm_state \<Rightarrow> vm_state" where
  "before_fields s = init_page_table_test (choose_controls (read_capabilities s))"

lemma before_fields_frame [simp]:
  "cr0 (before_fields s) = cr0 s" "cr3 (before_fields s) = cr3 s" "cr4 (before_fields s) = cr4 s"
  "vm_mem (before_fields s) = vm_mem s" "vmcs_data (before_fields s) = vmcs_data s"
  by (simp_all add: before_fields_def init_page_table_test_def vm_print_def choose_controls_def
      read_capabilities_def Let_def)

text \<open>The fields that \<open>init_vmcs_ctrl\<close> writes.\<close>

definition ctrl_fields :: "vm_state \<Rightarrow> (u32 \<times> u32) list" where
  "ctrl_fields s =
     [(PIN_CONTROLS, ctrl_pin s), (CPU_EXEC_CTRL0, ctrl_cpu0 s), (CR3_TARGET_COUNT, 0),
      (EXC_BITMAP, 0xFFFFFFFF)] @
     (if ctrl_set (ctrl_cpu_rev0 s) AND CPU_SECONDARY \<noteq> 0
      then [(CPU_EXEC_CTRL1, force_ctrl (ctrl_cpu_rev1 s) (ctrl_cpu1 s))] else [])"

lemma init_vmcs_ctrl_ok:
  assumes "no_write_fails h"
  shows "vmcs_data (init_vmcs_ctrl h s) = set_fields (ctrl_fields s) (vmcs_data s)"
    and "cr0 (init_vmcs_ctrl h s) = cr0 s" "cr3 (init_vmcs_ctrl h s) = cr3 s"
      "cr4 (init_vmcs_ctrl h s) = cr4 s" "vm_mem (init_vmcs_ctrl h s) = vm_mem s"
      "ctrl_enter (init_vmcs_ctrl h s) = ctrl_enter s" "ctrl_exit (init_vmcs_ctrl h s) = ctrl_exit s"
  by (auto simp: init_vmcs_ctrl_def vmcs_writes_ok [OF assms] vmcs_write_ok [OF assms] vm_print_def
      ctrl_fields_def Let_def force_ctrl_def fun_upd_twist)

lemma ctrl_fields_disjoint:
  "distinct (map fst (ctrl_fields s))"
  "fst ` set (ctrl_fields s) \<inter> fst ` set (host_fields l s') = {}"
  "fst ` set (ctrl_fields s) \<inter> fst ` set (guest_fields l' a b c) = {}"
  by (cases "ctrl_set (ctrl_cpu_rev0 s) AND CPU_SECONDARY = 0";
      simp add: ctrl_fields_def host_fields_def guest_fields_def)+

text \<open>All fields, as one list with every field once.\<close>

definition all_fields :: "layout \<Rightarrow> vm_state \<Rightarrow> (u32 \<times> u32) list" where
  "all_fields l s =
     ctrl_fields (before_fields s) @ host_fields l (before_fields s) @
     guest_fields l
       ((if cr0 s AND X86_CR0_PG \<noteq> 0 then cr0 s OR X86_CR0_PE else cr0 s) OR X86_CR0_WP)
       (guest_page_dir l) (cr4 s AND NOT X86_CR4_PCIDE)"

lemma all_fields_distinct: "distinct (map fst (all_fields l s))"
  using ctrl_fields_disjoint host_fields_distinct guest_fields_distinct host_guest_disjoint
  unfolding all_fields_def map_append distinct_append set_append set_map by (metis Int_Un_distrib Un_empty)

lemma host_fields_cong:
  "ctrl_enter s = ctrl_enter t \<Longrightarrow> ctrl_exit s = ctrl_exit t \<Longrightarrow> cr0 s = cr0 t \<Longrightarrow> cr3 s = cr3 t \<Longrightarrow>
   cr4 s = cr4 t \<Longrightarrow> host_fields l s = host_fields l t"
  by (simp add: host_fields_def)

lemma setup_guest_cr3: "snd (snd (setup_guest_page_tables pd pt m)) = pd"
  by (simp add: setup_guest_page_tables_def Let_def)

lemma vmcs_init_data:
  assumes "no_write_fails h"
  shows "vmcs_data (vmcs_init h l s) = set_fields (all_fields l s) (vmcs_data s)"
proof -
  let ?s = "before_fields s"
  let ?c = "init_vmcs_ctrl h ?s"
  note c = init_vmcs_ctrl_ok [OF assms, of ?s]
  obtain m' out where t: "setup_guest_page_tables (guest_page_dir l) (guest_page_table l) (vm_mem s) =
      (m', out, guest_page_dir l)"
    using setup_guest_cr3 by (metis prod.collapse)
  have "host_fields l ?c = host_fields l ?s" by (rule host_fields_cong) (simp_all add: c)
  then have h: "init_vmcs_host h l ?c =
      ?c\<lparr>vmcs_data := set_fields (ctrl_fields ?s @ host_fields l ?s) (vmcs_data s)\<rparr>"
    by (simp add: init_vmcs_host_def vmcs_writes_ok [OF assms] c set_fields_append)
  show ?thesis
    unfolding vmcs_init_def before_fields_def [symmetric] h
    by (simp add: init_vmcs_guest_def vmcs_writes_ok [OF assms] c t vm_print_def all_fields_def Let_def
        set_fields_append)
qed

section \<open>Properties\<close>

lemma vmcs_init_mem:
  "vm_mem (vmcs_init h l s) =
     fst (setup_guest_page_tables (guest_page_dir l) (guest_page_table l) (vm_mem s))"
proof -
  have w: "vm_mem (vmcs_write h e val t) = vm_mem t" for e val t
    by (simp add: vmcs_write_def vm_print_def)
  have ws: "vm_mem (vmcs_writes h vs t) = vm_mem t" for vs t
  proof (induction vs arbitrary: t)
    case (Cons x vs)
    then show ?case by (cases x) (simp add: vmcs_writes_def w)
  qed (simp add: vmcs_writes_def)
  have c: "vm_mem (init_vmcs_ctrl h t) = vm_mem t" for t
    by (simp add: init_vmcs_ctrl_def w ws Let_def vm_print_def)
  show ?thesis
    by (simp add: vmcs_init_def init_vmcs_guest_def init_vmcs_host_def ws c vm_print_def Let_def
        before_fields_frame(4) [unfolded before_fields_def] split: prod.split)
qed

lemma vmcs_init_reads:
  "no_write_fails h \<Longrightarrow> (e, val) \<in> set (all_fields l s) \<Longrightarrow> vmcs_read e (vmcs_init h l s) = val"
  using fold_upd_mem [OF all_fields_distinct] by (auto simp: vmcs_read_def vmcs_init_data)

text \<open>The controls that are written: what the code asks for, forced to what the processor allows.\<close>

definition asked_pin :: "vm_state \<Rightarrow> u32" where
  "asked_pin s = ctrl_pin s OR PIN_NMI OR PIN_VIRT_NMI"

definition asked_cpu0 :: "vm_state \<Rightarrow> u32" where
  "asked_cpu0 s = ((ctrl_cpu0 s AND NOT (CPU_IO OR CPU_IO_BITMAP)) OR CPU_CR3_LOAD OR CPU_CR3_STORE) OR CPU_HLT"

lemma asked_bits:
  "bit (asked_cpu0 s) 7" "bit (asked_cpu0 s) 15" "bit (asked_cpu0 s) 16" "bit (asked_pin s) 3" "bit (asked_pin s) 5"
  unfolding asked_cpu0_def asked_pin_def by (simp_all only: bit_or_iff) simp_all

lemma asked_io: "\<not> bit (asked_cpu0 s) 24" "\<not> bit (asked_cpu0 s) 25"
  unfolding asked_cpu0_def by (simp_all only: bit_or_iff bit_and_iff) simp_all

lemma before_fields_controls:
  "ctrl_pin (before_fields s) = force_ctrl (ctrl_pin_rev (read_capabilities s)) (asked_pin s)"
  "ctrl_cpu0 (before_fields s) = force_ctrl (ctrl_cpu_rev0 (read_capabilities s)) (asked_cpu0 s)"
  "ctrl_enter (before_fields s) = force_ctrl (ctrl_enter_rev (read_capabilities s)) 0"
  "ctrl_exit (before_fields s) = force_ctrl (ctrl_exit_rev (read_capabilities s)) 0"
  unfolding asked_pin_def asked_cpu0_def
  by (simp_all add: before_fields_def init_page_table_test_def vm_print_def choose_controls_def
      Let_def read_capabilities_def del: push_bit_numeral push_bit_of_1)

lemma vmcs_init_control_reads:
  assumes "no_write_fails h"
  shows "vmcs_read PIN_CONTROLS (vmcs_init h l s) = ctrl_pin (before_fields s)"
    "vmcs_read CPU_EXEC_CTRL0 (vmcs_init h l s) = ctrl_cpu0 (before_fields s)"
    "vmcs_read ENT_CONTROLS (vmcs_init h l s) = ctrl_enter (before_fields s)"
    "vmcs_read EXI_CONTROLS (vmcs_init h l s) = ctrl_exit (before_fields s)"
    "vmcs_read CR3_TARGET_COUNT (vmcs_init h l s) = 0"
  by (rule vmcs_init_reads [OF assms]; simp add: all_fields_def ctrl_fields_def host_fields_def)+

text \<open>What the areas of the control structure have to hold, for a valuation \<open>f\<close> of the fields: written
  from the meaning of the fields and the numbers in the manual of the processor, not from the order in
  which the code fills them.

  The state that an exit loads: the registers and tables of the kernel at the time of the call, its
  flat segments 1 and 2, the descriptor 16 as task segment, and the place behind the entry.\<close>

definition host_area :: "layout \<Rightarrow> vm_state \<Rightarrow> (u32 \<Rightarrow> u32) \<Rightarrow> bool" where
  "host_area l s f \<longleftrightarrow>
     f HOST_CR0 = cr0 s \<and> f HOST_CR3 = cr3 s \<and> f HOST_CR4 = cr4 s \<and>
     f HOST_SEL_CS = 8 \<and> (\<forall>e\<in>{HOST_SEL_ES, HOST_SEL_SS, HOST_SEL_DS, HOST_SEL_FS, HOST_SEL_GS}. f e = 16) \<and>
     f HOST_BASE_FS = 0 \<and> f HOST_BASE_GS = 0 \<and>
     f HOST_SEL_TR = 8 * 16 \<and> f HOST_BASE_TR = 0x9080 \<and>
     f HOST_BASE_GDTR = 0x9000 \<and> f HOST_BASE_IDTR = 0xB000 \<and>
     f HOST_SYSENTER_CS = 8 \<and> f HOST_SYSENTER_EIP = entry_sysenter l \<and> f HOST_RIP = vmx_return l"

text \<open>The state an entry loads: the control registers of the kernel with write protection on, protected mode
  where there is paging, and without PCIDs, over the guest's own page directory; the six segment
  registers ES, CS, SS, DS, FS, GS (their fields have encodings two apart) flat over 4 GB, present, at
  ring 0, CS executable and the others writable data; an LDT without entries; the task segment of
  the descriptor 16, busy; the kernel's descriptor tables; and the guest's first instruction, with an
  empty stack, no flags and no blocking.\<close>

definition guest_area :: "layout \<Rightarrow> vm_state \<Rightarrow> (u32 \<Rightarrow> u32) \<Rightarrow> bool" where
  "guest_area l s f \<longleftrightarrow>
     (\<forall>n<32. bit (f GUEST_CR0) n \<longleftrightarrow> bit (cr0 s) n \<or> n = 16 \<or> n = 0 \<and> bit (cr0 s) 31) \<and>
     f GUEST_CR3 = guest_page_dir l \<and>
     (\<forall>n<32. bit (f GUEST_CR4) n \<longleftrightarrow> bit (cr4 s) n \<and> n \<noteq> 17) \<and>
     (\<forall>i\<in>{0, 1, 2, 3, 4, 5}. f (0x0800 + 2 * i) = (if i = 1 then 8 else 16) \<and>
        f (0x6806 + 2 * i) = 0 \<and> f (0x4800 + 2 * i) = 0xFFFFFFFF \<and>
        f (0x4814 + 2 * i) = (if i = 1 then 0xC09B else 0xC093)) \<and>
     f GUEST_SEL_LDTR = 0 \<and> f GUEST_BASE_LDTR = 0 \<and> f GUEST_LIMIT_LDTR = 0xFFFF \<and> f GUEST_AR_LDTR = 0x82 \<and>
     f GUEST_SEL_TR = 8 * 16 \<and> f GUEST_BASE_TR = 0x9080 \<and> f GUEST_LIMIT_TR = 0xFFFF \<and> f GUEST_AR_TR = 0x8B \<and>
     f GUEST_BASE_GDTR = 0x9000 \<and> f GUEST_LIMIT_GDTR = 8 * 256 - 1 \<and>
     f GUEST_BASE_IDTR = 0xB000 \<and> f GUEST_LIMIT_IDTR = 8 * 256 - 1 \<and>
     f GUEST_SYSENTER_CS = 8 \<and> f GUEST_SYSENTER_ESP = guest_syscall_stack l + 0x1000 \<and>
     f GUEST_SYSENTER_EIP = entry_sysenter l \<and>
     f GUEST_RIP = guest_entry l \<and> f GUEST_RSP = guest_stack l + 0x1000 \<and> f GUEST_RFLAGS = 2 \<and>
     f GUEST_DR7 = 0 \<and> f GUEST_ACTV_STATE = 0 \<and> f GUEST_INTR_STATE = 0 \<and>
     f VMCS_LINK_PTR = 0xFFFFFFFF \<and> f VMCS_LINK_PTR_HI = 0xFFFFFFFF"

text \<open>The controls. The capability \<open>m\<close> holds the bits that must be set in its low half and those that may be
  set in its high half; it comes from the MSRs 0x481 to 0x484 or, when bit 55 of the basic information
  is set, 0x48D to 0x490. Asked for are NMI exits and virtual NMIs (bits 3 and 5), and exits at HLT, loads
  and stores of CR3 (7, 15, 16), but not at I/O (24, 25); every exception exits. The second word of
  controls is written when bit 31 of the first must be set.\<close>

definition capped :: "u64 \<Rightarrow> u32 \<Rightarrow> u32" where
  "capped m x = (x OR ucast m) AND ucast (drop_bit 32 m)"

definition cap_msr :: "vm_state \<Rightarrow> u32 \<Rightarrow> u64" where
  "cap_msr s i = msr s (if bit (basic s) 55 then i + 12 else i)"

definition control_area :: "vm_state \<Rightarrow> (u32 \<Rightarrow> u32) \<Rightarrow> bool" where
  "control_area s f \<longleftrightarrow>
     f PIN_CONTROLS = capped (cap_msr s 0x481) (ctrl_pin s OR 0x28) \<and>
     f CPU_EXEC_CTRL0 = capped (cap_msr s 0x482) ((ctrl_cpu0 s AND 0xFCFFFFFF) OR 0x18080) \<and>
     (bit (cap_msr s 0x482) 31 \<longrightarrow>
       f CPU_EXEC_CTRL1 = (if bit (cap_msr s 0x482) 63 then capped (msr s 0x48B) 0 else 0)) \<and>
     f EXI_CONTROLS = capped (cap_msr s 0x483) 0 \<and> f ENT_CONTROLS = capped (cap_msr s 0x484) 0 \<and>
     f CR3_TARGET_COUNT = 0 \<and> f EXC_BITMAP = 0xFFFFFFFF \<and> f PF_ERROR_MASK = 0 \<and> f PF_ERROR_MATCH = 0"

definition setup_touches :: "vm_state \<Rightarrow> u32 list" where
  "setup_touches s =
     [PIN_CONTROLS, CPU_EXEC_CTRL0, EXI_CONTROLS, ENT_CONTROLS, CR3_TARGET_COUNT, EXC_BITMAP, PF_ERROR_MASK,
      PF_ERROR_MATCH, VMCS_LINK_PTR, VMCS_LINK_PTR_HI] @
     (if bit (cap_msr s 0x482) 31 then [CPU_EXEC_CTRL1] else []) @
     [HOST_CR0, HOST_CR3, HOST_CR4, HOST_SEL_ES, HOST_SEL_CS, HOST_SEL_SS, HOST_SEL_DS, HOST_SEL_FS, HOST_SEL_GS,
      HOST_SEL_TR, HOST_BASE_FS, HOST_BASE_GS, HOST_BASE_TR, HOST_BASE_GDTR, HOST_BASE_IDTR,
      HOST_SYSENTER_CS, HOST_SYSENTER_EIP, HOST_RIP,
      GUEST_CR0, GUEST_CR3, GUEST_CR4, GUEST_BASE_GDTR, GUEST_LIMIT_GDTR, GUEST_BASE_IDTR, GUEST_LIMIT_IDTR,
      GUEST_SYSENTER_CS, GUEST_SYSENTER_ESP, GUEST_SYSENTER_EIP, GUEST_RIP, GUEST_RSP, GUEST_RFLAGS, GUEST_DR7,
      GUEST_ACTV_STATE, GUEST_INTR_STATE] @
     concat (map (\<lambda>i. [0x0800 + 2 * i, 0x6806 + 2 * i, 0x4800 + 2 * i, 0x4814 + 2 * i]) [0, 1, 2, 3, 4, 5, 6, 7])"

lemma bit_and_31: "w AND 0x80000000 = 0 \<longleftrightarrow> \<not> bit w 31" for w :: u32
  using bit_iff_and_push_bit_not_eq_0 [of w 31] by simp

lemma capability_reads:
  "ctrl_pin_rev (read_capabilities s) = cap_msr s 0x481" "ctrl_cpu_rev0 (read_capabilities s) = cap_msr s 0x482"
  "ctrl_exit_rev (read_capabilities s) = cap_msr s 0x483" "ctrl_enter_rev (read_capabilities s) = cap_msr s 0x484"
  "ctrl_cpu_rev1 (read_capabilities s) = (if bit (cap_msr s 0x482) 63 then msr s 0x48B else 0)"
  by (simp_all add: read_capabilities_def rdmsr_def cap_msr_def basic_ctrl_def ctrl_clr_def bit_and_31 Let_def
      bit_simps)

lemma force_capped: "force_ctrl m x = capped m x"
  by (simp add: force_ctrl_def capped_def ctrl_set_def ctrl_clr_def)

lemma before_fields_rev [simp]:
  "ctrl_cpu_rev0 (before_fields s) = ctrl_cpu_rev0 (read_capabilities s)"
  "ctrl_cpu_rev1 (before_fields s) = ctrl_cpu_rev1 (read_capabilities s)" "ctrl_cpu1 (before_fields s) = 0"
  by (simp_all add: before_fields_def init_page_table_test_def vm_print_def choose_controls_def Let_def)

lemma setup_touches_all: "set (setup_touches s) = fst ` set (all_fields l s)"
proof -
  have "ctrl_set (ctrl_cpu_rev0 (read_capabilities s)) AND CPU_SECONDARY = 0 \<longleftrightarrow> \<not> bit (cap_msr s 0x482) 31"
    by (simp add: capability_reads ctrl_set_def bit_and_31 bit_simps)
  then have "fst ` set (ctrl_fields (before_fields s)) =
      {PIN_CONTROLS, CPU_EXEC_CTRL0, CR3_TARGET_COUNT, EXC_BITMAP} \<union>
      (if bit (cap_msr s 0x482) 31 then {CPU_EXEC_CTRL1} else {})"
    by (simp add: ctrl_fields_def)
  then show ?thesis
    unfolding all_fields_def set_append image_Un setup_touches_def host_fields_def guest_fields_def
    by (simp add: insert_commute Un_insert_left)
qed

lemma setup_host_guest_reads:
  assumes "no_write_fails h"
  shows "\<forall>(e, x)\<in>set (host_fields l (before_fields s)). vmcs_read e (vmcs_init h l s) = x"
    and "\<forall>(e, x)\<in>set (guest_fields l
       ((if cr0 s AND X86_CR0_PG \<noteq> 0 then cr0 s OR X86_CR0_PE else cr0 s) OR X86_CR0_WP)
       (guest_page_dir l) (cr4 s AND NOT X86_CR4_PCIDE)). vmcs_read e (vmcs_init h l s) = x"
  using vmcs_init_reads [OF assms, of _ _ l s] by (auto simp: all_fields_def)

lemma setup_host:
  assumes "no_write_fails h"
  shows "host_area l s (\<lambda>e. vmcs_read e (vmcs_init h l s))"
  using setup_host_guest_reads(1) [OF assms, of l s]
  by (simp add: host_area_def host_fields_def KERNEL_CODE_SEG_def KERNEL_DATA_SEG_def gdt_table_addr_def
      idt_table_addr_def)

lemma mode_bits:
  "bit ((if w AND 0x80000000 \<noteq> 0 then w OR 1 else w) OR 0x10000) n \<longleftrightarrow>
     bit w n \<or> n = 16 \<or> n = 0 \<and> bit w 31"
  "bit (w AND NOT 0x20000) n \<longleftrightarrow> bit w n \<and> n \<noteq> 17" for w :: u32
proof -
  have p: "(0x10000 :: u32) = push_bit 16 1" "(0x20000 :: u32) = push_bit 17 1" by simp_all
  have b: "bit (0x10000 :: u32) n \<longleftrightarrow> n = 16" "bit (0x20000 :: u32) n \<longleftrightarrow> n = 17" for n
    unfolding p bit_push_bit_iff bit_1_iff by auto
  have one: "bit (1 :: u32) n \<longleftrightarrow> n = 0" for n by (simp add: bit_1_iff)
  show "bit ((if w AND 0x80000000 \<noteq> 0 then w OR 1 else w) OR 0x10000) n \<longleftrightarrow>
      bit w n \<or> n = 16 \<or> n = 0 \<and> bit w 31"
    by (cases "bit w 31") (simp_all only: bit_and_31 bit_or_iff b one not_True_eq_False not_False_eq_True
        if_True if_False, blast+)
  show "bit (w AND NOT 0x20000) n \<longleftrightarrow> bit w n \<and> n \<noteq> 17"
    using bit_imp_possible_bit [of w n] unfolding bit_and_iff bit_not_iff b by blast
qed

lemma setup_guest:
  assumes "no_write_fails h"
  shows "guest_area l s (\<lambda>e. vmcs_read e (vmcs_init h l s))"
  using setup_host_guest_reads [OF assms, of l s]
  by (simp add: guest_area_def host_fields_def guest_fields_def KERNEL_CODE_SEG_def KERNEL_DATA_SEG_def
      gdt_table_addr_def idt_table_addr_def mode_bits [simplified])

lemma setup_controls:
  assumes "no_write_fails h"
  shows "control_area s (\<lambda>e. vmcs_read e (vmcs_init h l s))"
proof -
  have rd: "(e, x) \<in> set (all_fields l s) \<Longrightarrow> vmcs_read e (vmcs_init h l s) = x" for e x
    by (rule vmcs_init_reads [OF assms])
  have "vmcs_read PIN_CONTROLS (vmcs_init h l s) = ctrl_pin (before_fields s)"
    "vmcs_read CPU_EXEC_CTRL0 (vmcs_init h l s) = ctrl_cpu0 (before_fields s)"
    "vmcs_read EXC_BITMAP (vmcs_init h l s) = 0xFFFFFFFF" "vmcs_read CR3_TARGET_COUNT (vmcs_init h l s) = 0"
    "vmcs_read ENT_CONTROLS (vmcs_init h l s) = ctrl_enter (before_fields s)"
    "vmcs_read EXI_CONTROLS (vmcs_init h l s) = ctrl_exit (before_fields s)"
    "vmcs_read PF_ERROR_MASK (vmcs_init h l s) = 0" "vmcs_read PF_ERROR_MATCH (vmcs_init h l s) = 0"
    by (rule rd, simp add: all_fields_def ctrl_fields_def host_fields_def)+
  moreover have "vmcs_read CPU_EXEC_CTRL1 (vmcs_init h l s) =
      force_ctrl (ctrl_cpu_rev1 (before_fields s)) (ctrl_cpu1 (before_fields s))" if "bit (cap_msr s 0x482) 31"
  proof (rule rd)
    have "ctrl_set (cap_msr s 0x482) AND CPU_SECONDARY \<noteq> 0" using that by (simp add: ctrl_set_def bit_and_31 bit_simps)
    then show "(CPU_EXEC_CTRL1, force_ctrl (ctrl_cpu_rev1 (before_fields s)) (ctrl_cpu1 (before_fields s))) \<in> set (all_fields l s)"
      by (simp add: all_fields_def ctrl_fields_def capability_reads)
  qed
  moreover have "capped 0 0 = 0" by (simp add: capped_def)
  moreover have "asked_cpu0 s = (ctrl_cpu0 s AND 0xFCFFFFFF) OR 0x18080"
  proof -
    have "NOT (CPU_IO OR CPU_IO_BITMAP) = 0xFCFFFFFF" by simp
    then show ?thesis unfolding asked_cpu0_def by (simp only: or.assoc) simp
  qed
  ultimately show ?thesis
    by (simp add: control_area_def before_fields_controls capability_reads force_capped asked_pin_def)
qed

text \<open>C28. After \<open>vmcs_init\<close>, when the processor accepts the writes, the areas of the control structure for
  the host, for the guest and for the controls hold what they have to (the tables above), and no field
  but those named is touched.\<close>

theorem vmcs_init_fields:
  assumes "no_write_fails h"
  shows "host_area l s (\<lambda>e. vmcs_read e (vmcs_init h l s)) \<and>
    guest_area l s (\<lambda>e. vmcs_read e (vmcs_init h l s)) \<and>
    control_area s (\<lambda>e. vmcs_read e (vmcs_init h l s)) \<and>
    (e \<notin> set (setup_touches s) \<longrightarrow> vmcs_read e (vmcs_init h l s) = vmcs_read e s)"
proof (intro conjI impI)
  show "host_area l s (\<lambda>e. vmcs_read e (vmcs_init h l s))" using assms by (rule setup_host)
  show "guest_area l s (\<lambda>e. vmcs_read e (vmcs_init h l s))" using assms by (rule setup_guest)
  show "control_area s (\<lambda>e. vmcs_read e (vmcs_init h l s))" using assms by (rule setup_controls)
  show "e \<notin> set (setup_touches s) \<Longrightarrow> vmcs_read e (vmcs_init h l s) = vmcs_read e s"
    unfolding setup_touches_all [of s l] by (simp add: vmcs_read_def vmcs_init_data [OF assms] fold_upd_other)
qed

text \<open>Values for the witnesses.\<close>

definition hw_ok :: hw where
  "hw_ok = \<lparr>hw_cpuid1_ecx = 0x20, hw_eflags = 2, hw_vmxon = VMsucceed, hw_vmclear = (\<lambda>_. VMsucceed),
     hw_vmptrld = (\<lambda>_. VMsucceed), hw_vmxoff = VMsucceed, hw_vmwrite = (\<lambda>_. VMsucceed), hw_garbage = 0\<rparr>"

definition layout0 :: layout where
  "layout0 = \<lparr>guest_page_dir = 0x110000, guest_page_table = 0x111000, guest_stack = 0x112000,
     guest_syscall_stack = 0x113000, entry_sysenter = 0x103b00, guest_entry = 0x103b46,
     vmx_return = 0x102000\<rparr>"

definition vm_state0 :: vm_state where
  "vm_state0 = \<lparr>cr0 = 0x80000011, cr2 = 0, cr3 = 0xa000, cr4 = 0x10, esp = 0x9f000,
     gprs = \<lparr>eax = 0, ebx = 0, ecx = 0, edx = 0, ebp = 0, esi = 0, edi = 0\<rparr>,
     msr = (\<lambda>i. if i = MSR_IA32_VMX_PROCBASED_CTLS then 0x7FF9FFFE0401E172 else 0xFFFFFFFF00000000),
     vmcs_data = (\<lambda>_. 0), vm_mem = (\<lambda>_. 0), basic = 0, vmxon_region = 0, vmcs = 0, launched = False,
     guest_finished = 0, in_guest = 0, hypercall_field = 0, ctrl_pin_rev = 0, ctrl_exit_rev = 0,
     ctrl_enter_rev = 0, ctrl_cpu_rev0 = 0, ctrl_cpu_rev1 = 0, ept_vpid = 0, ctrl_pin = 0,
     ctrl_exit = 0, ctrl_enter = 0, ctrl_cpu0 = 0, ctrl_cpu1 = 0,
     regs = \<lparr>eax = 0, ebx = 0, ecx = 0, edx = 0, ebp = 0, esi = 0, edi = 0\<rparr>, regs_eflags = 0,
     vm_out = []\<rparr>"

lemma hw_ok_writes: "no_write_fails hw_ok"
  by (simp add: no_write_fails_def hw_ok_def)

theorem vmcs_init_fields_witness:
  "vmcs_read GUEST_RIP (vmcs_init hw_ok layout0 vm_state0) = 0x103b46 \<and>
   vmcs_read HOST_RIP (vmcs_init hw_ok layout0 vm_state0) = 0x102000 \<and>
   vmcs_read HOST_CR3 (vmcs_init hw_ok layout0 vm_state0) = 0xa000 \<and>
   vmcs_read GUEST_AR_TR (vmcs_init hw_ok layout0 vm_state0) = 0x8B \<and>
   vmcs_read EXI_REASON (vmcs_init hw_ok layout0 vm_state0) = 0"
proof -
  have "EXI_REASON \<notin> set (setup_touches vm_state0)" by (simp add: setup_touches_def)
  moreover have "vmcs_read EXI_REASON vm_state0 = 0" by (simp add: vmcs_read_def vm_state0_def)
  ultimately show ?thesis
    using vmcs_init_fields [OF hw_ok_writes, of layout0 vm_state0 EXI_REASON]
    by (simp add: host_area_def guest_area_def layout0_def) (simp add: vm_state0_def)
qed

text \<open>C29. The execution controls that \<open>vmcs_init\<close> writes satisfy the processor's capability MSRs, both
  words of the processor-based ones among them, whenever the MSRs it reads are consistent (a bit that
  must be set may be set); the exits the monitor asks for (HLT, MOV to and from CR3, NMI) are enabled
  exactly when the processor allows them, and those at I/O only when it requires them.\<close>

theorem vmcs_init_controls:
  fixes l :: layout
  assumes "no_write_fails h"
    "\<forall>i\<in>{MSR_IA32_VMX_PINBASED_CTLS, MSR_IA32_VMX_PROCBASED_CTLS, MSR_IA32_VMX_EXIT_CTLS, MSR_IA32_VMX_ENTRY_CTLS,
        MSR_IA32_VMX_PROCBASED_CTLS2, MSR_IA32_VMX_TRUE_PIN, MSR_IA32_VMX_TRUE_PROC, MSR_IA32_VMX_TRUE_EXIT,
        MSR_IA32_VMX_TRUE_ENTRY}.
      ctrl_set (msr s i) AND NOT (ctrl_clr (msr s i)) = 0"
  defines "t \<equiv> vmcs_init h l s" and "r \<equiv> read_capabilities s"
  shows "ctrl_ok (ctrl_pin_rev r) (vmcs_read PIN_CONTROLS t) \<and>
    ctrl_ok (ctrl_cpu_rev0 r) (vmcs_read CPU_EXEC_CTRL0 t) \<and>
    (ctrl_set (ctrl_cpu_rev0 r) AND CPU_SECONDARY \<noteq> 0 \<longrightarrow>
       ctrl_ok (ctrl_cpu_rev1 r) (vmcs_read CPU_EXEC_CTRL1 t)) \<and>
    ctrl_ok (ctrl_enter_rev r) (vmcs_read ENT_CONTROLS t) \<and>
    ctrl_ok (ctrl_exit_rev r) (vmcs_read EXI_CONTROLS t) \<and>
    (\<forall>n\<in>{7, 15, 16}. bit (vmcs_read CPU_EXEC_CTRL0 t) n \<longleftrightarrow> bit (ctrl_clr (ctrl_cpu_rev0 r)) n) \<and>
    (\<forall>n\<in>{24, 25}. bit (vmcs_read CPU_EXEC_CTRL0 t) n \<longleftrightarrow>
       bit (ctrl_set (ctrl_cpu_rev0 r)) n \<and> bit (ctrl_clr (ctrl_cpu_rev0 r)) n) \<and>
    (\<forall>n\<in>{3, 5}. bit (vmcs_read PIN_CONTROLS t) n \<longleftrightarrow> bit (ctrl_clr (ctrl_pin_rev r)) n)"
proof -
  note ctrls = before_fields_controls [of s, folded r_def]
  have zero: "ctrl_set 0 AND NOT (ctrl_clr 0) = 0" by (simp add: ctrl_set_def)
  have cons: "ctrl_set c AND NOT (ctrl_clr c) = 0"
    if "c \<in> {ctrl_pin_rev r, ctrl_cpu_rev0 r, ctrl_cpu_rev1 r, ctrl_enter_rev r, ctrl_exit_rev r}" for c
    using that assms(2) zero by (auto simp: r_def read_capabilities_def rdmsr_def Let_def split: if_splits)
  let ?b = "before_fields s"
  have ok: "ctrl_ok (ctrl_pin_rev r) (ctrl_pin ?b)" "ctrl_ok (ctrl_cpu_rev0 r) (ctrl_cpu0 ?b)"
    "ctrl_ok (ctrl_enter_rev r) (ctrl_enter ?b)" "ctrl_ok (ctrl_exit_rev r) (ctrl_exit ?b)"
    unfolding ctrls using cons by (blast intro: force_ctrl_ok)+
  have second: "ctrl_ok (ctrl_cpu_rev1 r) (vmcs_read CPU_EXEC_CTRL1 t)"
    if "ctrl_set (ctrl_cpu_rev0 r) AND CPU_SECONDARY \<noteq> 0"
  proof -
    have "vmcs_read CPU_EXEC_CTRL1 t = force_ctrl (ctrl_cpu_rev1 r) 0"
      using that unfolding t_def
      by (intro vmcs_init_reads [OF assms(1)]) (simp add: all_fields_def ctrl_fields_def r_def)
    then show ?thesis using cons by (simp add: force_ctrl_ok)
  qed
  have "\<forall>n\<in>{7, 15, 16}. bit (ctrl_cpu0 ?b) n \<longleftrightarrow> bit (ctrl_clr (ctrl_cpu_rev0 r)) n"
    "\<forall>n\<in>{24, 25}. bit (ctrl_cpu0 ?b) n \<longleftrightarrow>
       bit (ctrl_set (ctrl_cpu_rev0 r)) n \<and> bit (ctrl_clr (ctrl_cpu_rev0 r)) n"
    "\<forall>n\<in>{3, 5}. bit (ctrl_pin ?b) n \<longleftrightarrow> bit (ctrl_clr (ctrl_pin_rev r)) n"
    unfolding ctrls using asked_bits asked_io by (simp_all only: force_ctrl_bit ball_simps) simp_all
  with ok second show ?thesis unfolding t_def vmcs_init_control_reads [OF assms(1)] by blast
qed

theorem vmcs_init_controls_witness:
  "bit (vmcs_read CPU_EXEC_CTRL0 (vmcs_init hw_ok layout0
     (vm_state0\<lparr>msr := (msr vm_state0)(MSR_IA32_FEATURE_CONTROL := 5)\<rparr>))) 7"
proof -
  let ?s = "vm_state0\<lparr>msr := (msr vm_state0)(MSR_IA32_FEATURE_CONTROL := 5)\<rparr>"
  have c: "\<forall>i\<in>{MSR_IA32_VMX_PINBASED_CTLS, MSR_IA32_VMX_PROCBASED_CTLS, MSR_IA32_VMX_EXIT_CTLS, MSR_IA32_VMX_ENTRY_CTLS,
        MSR_IA32_VMX_PROCBASED_CTLS2, MSR_IA32_VMX_TRUE_PIN, MSR_IA32_VMX_TRUE_PROC, MSR_IA32_VMX_TRUE_EXIT,
        MSR_IA32_VMX_TRUE_ENTRY}. ctrl_set (msr ?s i) AND NOT (ctrl_clr (msr ?s i)) = 0"
    by (simp add: vm_state0_def ctrl_set_def ctrl_clr_def)
  have "bit (ctrl_clr (ctrl_cpu_rev0 (read_capabilities ?s))) 7"
    by (simp add: read_capabilities_def vm_state0_def rdmsr_def ctrl_clr_def basic_ctrl_def Let_def)
  then show ?thesis
    using vmcs_init_controls [OF hw_ok_writes c, of layout0] by blast
qed

text \<open>\<open>init_vmx\<close> gives CR0 and CR4 the bits that VMX operation requires and no bit that it forbids,
  sets CR4.VMXE, and leaves a zeroed VMXON region at 0x201000 that starts with the revision.\<close>

theorem init_vmx_registers:
  assumes "\<forall>n<32. bit (msr s MSR_IA32_VMX_CR0_FIXED0) n \<longrightarrow> bit (msr s MSR_IA32_VMX_CR0_FIXED1) n"
    "\<forall>n<32. bit (msr s MSR_IA32_VMX_CR4_FIXED0) n \<longrightarrow> bit (msr s MSR_IA32_VMX_CR4_FIXED1) n"
    "bit (msr s MSR_IA32_VMX_CR4_FIXED1) 13"
  defines "t \<equiv> init_vmx s"
  shows "(\<forall>n<32. (bit (msr s MSR_IA32_VMX_CR0_FIXED0) n \<longrightarrow> bit (cr0 t) n) \<and>
           (bit (cr0 t) n \<longrightarrow> bit (msr s MSR_IA32_VMX_CR0_FIXED1) n)) \<and>
    (\<forall>n<32. (bit (msr s MSR_IA32_VMX_CR4_FIXED0) n \<longrightarrow> bit (cr4 t) n) \<and>
           (bit (cr4 t) n \<longrightarrow> bit (msr s MSR_IA32_VMX_CR4_FIXED1) n)) \<and>
    bit (cr4 t) 13 \<and> vmxon_region t = 0x201000 \<and>
    load32 (vm_mem t) 0x201000 = basic_revision (msr s MSR_IA32_VMX_BASIC) \<and>
    (\<forall>a. a \<notin> span 0x201000 4096 \<longrightarrow> vm_mem t a = vm_mem s a)"
proof -
  have vmxe: "bit X86_CR4_VMXE n \<longleftrightarrow> n = 13" for n
  proof -
    have eq: "X86_CR4_VMXE = push_bit 13 1" by simp
    show ?thesis unfolding eq bit_push_bit_iff bit_1_iff by auto
  qed
  have c0: "cr0 t = ucast ((ucast (cr0 s) AND msr s MSR_IA32_VMX_CR0_FIXED1) OR
      msr s MSR_IA32_VMX_CR0_FIXED0)"
    and c4: "cr4 t = ucast ((ucast (cr4 s) AND msr s MSR_IA32_VMX_CR4_FIXED1) OR
      msr s MSR_IA32_VMX_CR4_FIXED0 OR ucast X86_CR4_VMXE)"
    by (simp_all add: t_def init_vmx_def rdmsr_def Let_def)
  have b0: "bit (cr0 t) n \<longleftrightarrow> (bit (cr0 s) n \<and> bit (msr s MSR_IA32_VMX_CR0_FIXED1) n \<or>
      bit (msr s MSR_IA32_VMX_CR0_FIXED0) n)" if "n < 32" for n
    unfolding c0 using that by (simp add: bit_simps)
  have b4: "bit (cr4 t) n \<longleftrightarrow> (bit (cr4 s) n \<and> bit (msr s MSR_IA32_VMX_CR4_FIXED1) n \<or>
      bit (msr s MSR_IA32_VMX_CR4_FIXED0) n \<or> n = 13)" if "n < 32" for n
    unfolding c4 bit_ucast_iff bit_or_iff bit_and_iff vmxe using that by simp
  have m: "vm_mem t = store32 (memset (vm_mem s) 0x201000 0 4096) 0x201000
      (basic_revision (msr s MSR_IA32_VMX_BASIC))" "vmxon_region t = 0x201000"
    by (simp_all add: t_def init_vmx_def rdmsr_def Let_def)
  have "vm_mem t a = vm_mem s a" if a: "a \<notin> span 0x201000 4096" for a
  proof -
    have "a \<notin> span 0x201000 4" using a span_mono [of 4 4096] by auto
    then show ?thesis using a by (simp add: m store32_outside memset_outside)
  qed
  moreover have "load32 (vm_mem t) 0x201000 = basic_revision (msr s MSR_IA32_VMX_BASIC)"
    by (simp add: m load32_store32)
  ultimately show ?thesis
    using b0 b4 b4 [of 13] assms m(2) by auto
qed

theorem init_vmx_registers_witness:
  "bit (cr4 (init_vmx (vm_state0\<lparr>msr := (\<lambda>i. if i = MSR_IA32_VMX_CR0_FIXED0 then 0x21 else 0xFFFFFFFF)\<rparr>))) 13"
proof -
  let ?s = "vm_state0\<lparr>msr := (\<lambda>i. if i = MSR_IA32_VMX_CR0_FIXED0 then 0x21 else 0xFFFFFFFF)\<rparr>"
  have all: "bit (0xFFFFFFFF :: u64) n" if "n < 32" for n
  proof -
    have eq: "(0xFFFFFFFF :: u64) = mask 32" by (simp add: mask_eq_exp_minus_1)
    show ?thesis unfolding eq bit_mask_iff using that by simp
  qed
  have m: "msr ?s MSR_IA32_VMX_CR0_FIXED1 = 0xFFFFFFFF" "msr ?s MSR_IA32_VMX_CR4_FIXED1 = 0xFFFFFFFF"
    by simp_all
  have "\<forall>n<32. bit (msr ?s MSR_IA32_VMX_CR0_FIXED0) n \<longrightarrow> bit (msr ?s MSR_IA32_VMX_CR0_FIXED1) n"
    "\<forall>n<32. bit (msr ?s MSR_IA32_VMX_CR4_FIXED0) n \<longrightarrow> bit (msr ?s MSR_IA32_VMX_CR4_FIXED1) n"
    "bit (msr ?s MSR_IA32_VMX_CR4_FIXED1) 13"
    unfolding m using all all [of 13] by simp_all
  from init_vmx_registers [OF this] show ?thesis by blast
qed

end
