(* ===== verification/Vmx_Run.thy ===== *)
theory Vmx_Run
  imports Vmx_Setup
begin

text \<open>
  The second half of \<open>src/kernel/vm/vm.c\<close>: entering the guest, handling its exits, and the whole run
  (\<open>virt_enable\<close>). What the processor does at an entry is an input, an \<open>entry_outcome\<close>: the guest ran
  and exited, or the entry failed, at once (control stays behind the instruction) or while loading the
  guest's state (control reaches the host entry point, with bit 31 of the exit reason set). A run
  consumes one outcome per entry.
\<close>

unbundle bit_operations_syntax

section \<open>Outcomes of an entry\<close>

text \<open>What the guest has done up to its exit: the exit fields of the VMCS, the guest's registers, the other
  fields of its state as the processor saves them, its stores to memory, which it shares with the
  kernel, what it prints, and \<open>hypercall_field\<close> if the guest's \<open>hypercall\<close> has run. The processor keeps the guest-physical
  address of a violation in the field 0x2400. The other global variables of the file stand apart from
  the memory: that a guest overwrites one of them is not in the model.\<close>

record exit_event =
  ev_reason :: u32
  ev_qual :: u32
  ev_intr_info :: u32
  ev_inst_len :: u32
  ev_rip :: u32
  ev_rsp :: u32
  ev_rflags :: u32
  ev_gpa :: u32
  ev_io_rcx :: u32
  ev_cr2 :: u32
  ev_gprs :: gpr
  ev_saved :: "(u32 \<times> u32) list"
  ev_writes :: "(u32 \<times> u8) list"
  ev_out :: "pcall list"
  ev_hypercall :: "u32 option"

datatype entry_outcome =
    Exited exit_event
  | Failed_early u32 u32  \<comment> \<open>the flags after the instruction and the error number\<close>
  | Failed_load u32 u32  \<comment> \<open>exit reason and qualification\<close>

text \<open>The bits 10 and 11 of an encoding are the kind of the field: 0 a control, 1 information about the
  exit, 2 the guest's state, 3 the host's. An exit saves fields of the middle two kinds only. The guest
  reaches its CR3 by an instruction that exits, when the controls ask for it.\<close>

definition field_type :: "u32 \<Rightarrow> u32" where
  "field_type e = drop_bit 10 e AND 3"

definition cr3_exits :: "(u32 \<Rightarrow> u32) \<Rightarrow> bool" where
  "cr3_exits d \<longleftrightarrow> d CPU_EXEC_CTRL0 AND CPU_CR3_LOAD \<noteq> 0 \<and> d CR3_TARGET_COUNT = 0"

definition saved_by_exit :: "(u32 \<Rightarrow> u32) \<Rightarrow> u32 \<Rightarrow> bool" where
  "saved_by_exit d e \<longleftrightarrow> field_type e \<in> {1, 2} \<and> (e = GUEST_CR3 \<longrightarrow> \<not> cr3_exits d)"

definition save_guest :: "exit_event \<Rightarrow> (u32 \<Rightarrow> u32) \<Rightarrow> u32 \<Rightarrow> u32" where
  "save_guest ev d = set_fields (filter (\<lambda>w. saved_by_exit d (fst w)) (ev_saved ev)) d"

definition guest_stores :: "(u32 \<times> u8) list \<Rightarrow> memory \<Rightarrow> memory" where
  "guest_stores ws m = fold (\<lambda>(a, b) m. m(a := b)) ws m"

definition record_exit :: "exit_event \<Rightarrow> vm_state \<Rightarrow> vm_state" where
  "record_exit ev s =
     s\<lparr>vmcs_data := (save_guest ev (vmcs_data s))
         (EXI_REASON := ev_reason ev, EXI_QUALIFICATION := ev_qual ev,
          EXI_INTR_INFO := ev_intr_info ev, EXI_INST_LEN := ev_inst_len ev,
          GUEST_RIP := ev_rip ev, GUEST_RSP := ev_rsp ev, GUEST_RFLAGS := ev_rflags ev,
          INFO_PHYS_ADDR := ev_gpa ev, IO_RCX := ev_io_rcx ev),
       cr2 := ev_cr2 ev, gprs := ev_gprs ev, vm_mem := guest_stores (ev_writes ev) (vm_mem s),
       vm_out := vm_out s @ ev_out ev,
       hypercall_field := (case ev_hypercall ev of None \<Rightarrow> hypercall_field s | Some w \<Rightarrow> w)\<rparr>"

text \<open>An instruction that fails with ZF set has stored its error number in the current VMCS.\<close>

definition inst_error :: "u32 \<Rightarrow> u32 \<Rightarrow> (u32 \<Rightarrow> u32) \<Rightarrow> u32 \<Rightarrow> u32" where
  "inst_error fl err d = (if fl AND X86_EFLAGS_ZF \<noteq> 0 then d(VMX_INST_ERROR := err) else d)"

lemma inst_error_other [simp]: "e \<noteq> VMX_INST_ERROR \<Longrightarrow> inst_error fl err d e = d e"
  by (simp add: inst_error_def)

section \<open>Hypercalls\<close>

text \<open>\<open>hypercall\<close> runs in the guest; its number is in \<open>edi\<close>, its effect on memory the value stored in
  \<open>hypercall_field\<close>, and it prints the number.\<close>

definition hypercall :: "u32 \<Rightarrow> u32" where
  "hypercall actual_no = (actual_no AND HYPERCALL_MASK) OR HYPERCALL_BIT"

definition hypercall_msg :: "u32 \<Rightarrow> pcall list" where
  "hypercall_msg actual_no = [Printf ''hypercall: %d\<newline>'' [PWord actual_no]]"

definition is_hypercall :: "vm_state \<Rightarrow> bool" where
  "is_hypercall s \<longleftrightarrow> vmcs_read EXI_REASON s AND 0xff = VMX_VMCALL"

definition handle_hypercall :: "vm_state \<Rightarrow> u32 \<times> vm_state" where
  "handle_hypercall s =
     (let hypercall_no = hypercall_field s AND HYPERCALL_MASK;
          s1 = s\<lparr>hypercall_field := 0\<rparr>
      in if hypercall_no = HYPERCALL_VMEXIT then
           (VMX_VMEXIT, vm_print [Printf ''hypercall: VMEXIT\<newline>'' []] s1)
         else if hypercall_no = HYPERCALL_VMABORT then
           (VMX_VMABORT, vm_print [Printf ''hypercall: VMABORT\<newline>'' []] s1)
         else if hypercall_no = HYPERCALL_VMSKIP then
           (VMX_VMSKIP, vm_print [Printf ''hypercall: VMSKIP\<newline>'' []] s1)
         else
           (VMX_EXIT, vm_print [Printf ''ERROR : Invalid hypercall number : %d\<newline>''
              [PWord hypercall_no]] s1))"

section \<open>The exit handler\<close>

definition print_vmexit_info :: "vm_state \<Rightarrow> vm_state" where
  "print_vmexit_info s =
     vm_print
       [Printf ''VMEXIT info:\<newline>'' [],
        Printf ''    vmexit reason = %d\<newline>'' [PWord (vmcs_read EXI_REASON s AND 0xff)],
        Printf ''    exit qualification = %#x\<newline>'' [PWord (vmcs_read EXI_QUALIFICATION s)],
        Printf ''    Bit 31 of reason = %x'' [PWord (drop_bit 31 (vmcs_read EXI_REASON s) AND 1)],
        Printf ''    guest_eip = %#x\<newline>'' [PWord (vmcs_read GUEST_RIP s)],
        Printf ''    EAX=%#x    EBX=%#x    ECX=%#x    EDX=%#x''
          [PWord (eax (regs s)), PWord (ebx (regs s)), PWord (ecx (regs s)), PWord (edx (regs s))],
        Printf ''    ESP=%#x    EBP=%#x    ESI=%#x    EDI=%#x''
          [PWord (vmcs_read GUEST_RSP s), PWord (ebp (regs s)), PWord (esi (regs s)), PWord (edi (regs s))]]
       s"

text \<open>The \<open>switch\<close> of \<open>exit_handler\<close>: \<open>True\<close> when the case returns from the function itself, after
  writing RFLAGS (the EPT case).\<close>

definition exit_switch :: "hw \<Rightarrow> u32 \<Rightarrow> u32 \<Rightarrow> vm_state \<Rightarrow> bool \<times> vm_state" where
  "exit_switch h reason guest_eip s =
     (if reason = 0 then
        (let vector = ucast (vmcs_read EXI_INTR_INFO s AND 0xFF) :: u8;
             s1 = vm_print [Printf ''EXCEPTION: vector=%d CR2=%#x RIP=%#x inst_len=%d\<newline>''
                    [PWord (ucast vector), PWord (read_cr2 s), PWord guest_eip, PWord (vmcs_read EXI_INST_LEN s)]] s
         in if vector = 14 then
              (False, vmcs_write h GUEST_CR3 (read_cr3 s)
                 (vm_print [Printf ''PAGE FAULT: Attempted write to read-only page at %#x\<newline>''
                    [PWord (read_cr2 s)]] s1))
            else (False, s1))
      else if reason = 1 then (False, s)
      else if reason = 10 then (False, vmcs_write h GUEST_RIP (guest_eip + 2) s)
      else if reason = 12 then
        (False, vmcs_write h GUEST_RIP (guest_eip + 1)
           (vm_print [Printf ''HLT VMEXIT: RIP=%#x\<newline>'' [PWord guest_eip]] s))
      else if reason = 14 then
        (False, vmcs_write h GUEST_RIP (guest_eip + vmcs_read EXI_INST_LEN s) s)
      else if reason = 28 \<or> reason = 29 then
        (let inst_len = vmcs_read EXI_INST_LEN s;
             qual = vmcs_read EXI_QUALIFICATION s;
             access_type = drop_bit 4 qual AND 1;
             s1 = vm_print [Printf ''CR3 ACCESS: type=%s qual=%#x inst_len=%d RIP=%#x\<newline>''
                    [PStr (if access_type \<noteq> 0 then ''write'' else ''read''), PWord qual, PWord inst_len,
                     PWord guest_eip]] s;
             s2 = vmcs_write h GUEST_RIP (guest_eip + inst_len) s1
         in (False, if access_type = 1
               then vm_print [Printf '' - CR3 write detected, restoring CR3\<newline>'' []] s2 else s2))
      else if reason = 48 then
        (let gpa = vmcs_read GUEST_PHYSICAL_ADDRESS s;
             inst_len = vmcs_read ENT_INST_LEN s;
             s1 = vm_print [Printf ''EPT VIOLATION: GPA=%#x RIP=%#x'' [PWord gpa, PWord guest_eip]] s;
             s2 = vmcs_write h GUEST_RIP (guest_eip + inst_len) s1
         in (True, vmcs_write h GUEST_RFLAGS (regs_eflags s2) s2))
      else (False, s))"

definition exit_handler :: "hw \<Rightarrow> vm_state \<Rightarrow> u32 \<times> vm_state" where
  "exit_handler h s =
     (let reason = vmcs_read EXI_REASON s AND 0xff;
          guest_eip = vmcs_read GUEST_RIP s;
          s1 = s\<lparr>regs_eflags := vmcs_read GUEST_RFLAGS s\<rparr>
      in if is_hypercall s1 then
           (let (ret, s2) = handle_hypercall (vmcs_write h GUEST_RIP (guest_eip + 3) s1)
            in (ret, vmcs_write h GUEST_RFLAGS (regs_eflags s2) s2))
         else
           (let (returned, s2) = exit_switch h reason guest_eip s1
            in if returned then (VMX_VMEXIT, s2)
               else (VMX_RESUME, vmcs_write h GUEST_RFLAGS (regs_eflags s2) s2)))"

section \<open>Entering the guest\<close>

record vmentry_failure =
  f_vmlaunch :: bool
  f_instr :: string
  f_early :: bool
  f_flags :: u32

text \<open>The seven \<open>xchg\<close> instructions of \<open>SAVE_GPR_C\<close> and \<open>LOAD_GPR_C\<close>.\<close>

definition xchg_gprs :: "vm_state \<Rightarrow> vm_state" where
  "xchg_gprs s = s\<lparr>gprs := regs s, regs := gprs s\<rparr>"

text \<open>\<open>vmx_enter_guest\<close>. The variable \<open>fail_early\<close> of the code is the constant false. \<open>flags0\<close> is what
  the uninitialised \<open>failure.flags\<close> holds.\<close>

definition vmx_enter_guest ::
    "u32 \<Rightarrow> entry_outcome \<Rightarrow> vm_state \<Rightarrow> bool \<times> vmentry_failure \<times> vm_state" where
  "vmx_enter_guest flags0 oc s =
     (let s1 = s\<lparr>in_guest := 1, gprs := (gprs s)\<lparr>edi := HOST_RSP\<rparr>,
                  vmcs_data := (vmcs_data s)(HOST_RSP := esp s)\<rparr>;
          s2 = xchg_gprs s1;
          (early, flags, s3) =
            (case oc of
               Exited ev \<Rightarrow> (False, flags0, xchg_gprs (record_exit ev s2))
             | Failed_early fl err \<Rightarrow>
                 (True, fl, let t = xchg_gprs s2
                    in t\<lparr>gprs := (gprs t)\<lparr>edi := fl\<rparr>, vmcs_data := inst_error fl err (vmcs_data t)\<rparr>)
             | Failed_load reason qual \<Rightarrow>
                 (False, flags0, xchg_gprs (s2\<lparr>vmcs_data := (vmcs_data s2)
                    (EXI_REASON := reason OR VMX_ENTRY_FAILURE, EXI_QUALIFICATION := qual)\<rparr>)));
          s4 = s3\<lparr>in_guest := 0\<rparr>;
          failure = \<lparr>f_vmlaunch = \<not> launched s4,
                     f_instr = (if launched s4 then ''vmresume'' else ''vmlaunch''),
                     f_early = early, f_flags = flags\<rparr>;
          fail_early = False;
          reason = vmcs_read EXI_REASON s4
      in (\<not> fail_early \<and> reason AND VMX_ENTRY_FAILURE = 0, failure, s4))"

definition print_vmentry_failure_info :: "vmentry_failure \<Rightarrow> vm_state \<Rightarrow> vm_state" where
  "print_vmentry_failure_info f s =
     (if f_early f then
        vm_print ([Printf ''Early %s failure: \<newline>'' [PStr (f_instr f)]] @
          (if f_flags f AND VMX_ENTRY_FLAGS = X86_EFLAGS_CF then
             [Printf ''current-VMCS pointer is not valid.\<newline>'' []]
           else if f_flags f AND VMX_ENTRY_FLAGS = X86_EFLAGS_ZF then
             [Printf ''error number is %x. See Intel 30.4.\<newline>'' [PWord (vmcs_read VMX_INST_ERROR s)]]
           else [Printf ''unexpected flags %x!\<newline>'' [PWord (f_flags f)]])) s
      else
        (let reason = vmcs_read EXI_REASON s;
             qual = vmcs_read EXI_QUALIFICATION s
         in vm_print ([Printf ''Non-early %s failure (reason=%#x, qual=%#x):\<newline>''
                 [PStr (f_instr f), PWord reason, PWord qual]] @
              (if reason AND 0xff = VMX_FAIL_STATE then [Printf ''invalid guest state\<newline>'' []]
               else if reason AND 0xff = VMX_FAIL_MSR then [Printf ''MSR loading\<newline>'' []]
               else if reason AND 0xff = VMX_FAIL_MCHECK then [Printf ''machine-check event\<newline>'' []]
               else [Printf ''unexpected basic exit reason %x\<newline>'' [PWord (reason AND 0xff)]]) @
              (if reason AND VMX_ENTRY_FAILURE = 0 then
                 [Printf ''    VMX_ENTRY_FAILURE BIT NOT SET!\<newline>'' []] else []) @
              (if reason AND 0x7fff0000 \<noteq> 0 then [Printf ''    RESERVED BITS SET!\<newline>'' []] else [])) s))"

definition entry_failure_handler :: "vm_state \<Rightarrow> u32 \<times> vm_state" where
  "entry_failure_handler s = (VMX_EXIT, print_vmexit_info s)"

section \<open>The run\<close>

text \<open>One iteration of the loop of \<open>vmx_run\<close>: \<open>None\<close> continues, \<open>Some\<close> leaves the function, with the
  value 0 or, after \<open>break\<close>, without a value.\<close>

datatype run_end = Returns_0 | Falls_through

definition vmx_iteration :: "hw \<Rightarrow> entry_outcome \<Rightarrow> vm_state \<Rightarrow> run_end option \<times> vm_state" where
  "vmx_iteration h oc s =
     (let s1 = vm_print [Printf ''Guest in <<<\<newline>'' []] s;
          (entered, failure, s2) = vmx_enter_guest (hw_garbage h) oc s1;
          (ret, s3) = (if entered then exit_handler h (s2\<lparr>launched := True\<rparr>)
                       else entry_failure_handler s2);
          leave = (\<lambda>t. (Some Falls_through,
                     if entered then print_vmexit_info t else print_vmentry_failure_info failure t))
      in if ret = VMX_RESUME then (None, s3)
         else if ret = VMX_VMEXIT then
           (Some Returns_0, vm_print [Printf ''Guest exited normally\<newline>'' []] (s3\<lparr>guest_finished := 1\<rparr>))
         else if ret = VMX_VMABORT then
           (Some Returns_0, vm_print [Printf ''Guest aborted!\<newline>'' []] (s3\<lparr>guest_finished := 1\<rparr>))
         else if ret = VMX_VMSKIP then
           (None, vm_print [Printf ''Guest skipped - continue running\<newline>'' []] s3)
         else if ret = VMX_EXIT then leave s3
         else leave (vm_print [Printf ''ERROR : Invalid %s_handler return val %d\<newline>''
                [PStr (if entered then ''exit'' else ''entry_failure''), PWord ret]] s3))"

text \<open>\<open>vmx_run\<close> on a list of outcomes: \<open>None\<close> when the loop is still going at the end of the list.\<close>

primrec vmx_run :: "hw \<Rightarrow> entry_outcome list \<Rightarrow> vm_state \<Rightarrow> run_end option \<times> vm_state" where
  "vmx_run h [] s = (None, s)"
| "vmx_run h (oc # ocs) s =
     (case vmx_iteration h oc s of
        (None, s') \<Rightarrow> vmx_run h ocs s'
      | (Some r, s') \<Rightarrow> (Some r, s'))"

text \<open>\<open>virt_enable\<close>; \<open>None\<close> as in \<open>vmx_run\<close>. A failure of \<open>clear_ptrld\<close> is printed and then ignored.\<close>

definition virt_enable :: "hw \<Rightarrow> layout \<Rightarrow> entry_outcome list \<Rightarrow> vm_state \<Rightarrow> vm_state option" where
  "virt_enable h l ocs s =
     (let (ok, s1) = is_vmx_supported h s
      in if \<not> ok then Some (vm_print [Printf ''vmx is not support\<newline>'' []] s1)
         else let s2 = init_vmx s1
         in if vmx_on h then
              Some (vm_print [Printf ''Error: %s : vmxon failed\<newline>'' [PStr ''virt_enable'']] s2)
         else let (r, s3) = clear_ptrld h s2;
                  s4 = (if r \<noteq> 0 then
                          vm_print [Printf ''Error: %s : vmclear vmptrld failed\<newline>'' [PStr ''virt_enable'']] s3
                        else s3);
                  s5 = vmcs_init h l s4
         in case vmx_run h ocs s5 of
              (None, s6) \<Rightarrow> None
            | (Some e, s6) \<Rightarrow>
                if vmx_off h then
                  Some (vm_print [Printf ''Error: %s : vmxoff failed\<newline>'' [PStr ''virt_enable'']] s6)
                else Some (vm_print [Printf ''vmx test finished\<newline>'' []] s6))"

section \<open>What the exit handler does\<close>

text \<open>The specification, as tables over the basic exit reason: by how much the guest's instruction
  pointer moves, whether the handler asks for a resume, and when the guest's CR3 is replaced.\<close>

definition basic_reason :: "vm_state \<Rightarrow> u32" where
  "basic_reason s = vmcs_read EXI_REASON s AND 0xff"

definition exit_advance :: "vm_state \<Rightarrow> u32" where
  "exit_advance s =
     (let r = basic_reason s
      in if r = VMX_VMCALL then 3
         else if r = VMX_CPUID then 2
         else if r = VMX_HLT then 1
         else if r \<in> {VMX_INVLPG, VMX_CR, VMX_DR} then vmcs_read EXI_INST_LEN s
         else if r = VMX_EPT_VIOLATION then vmcs_read ENT_INST_LEN s
         else 0)"

definition hypercall_result :: "u32 \<Rightarrow> u32" where
  "hypercall_result f =
     (let n = f AND HYPERCALL_MASK
      in if n = 1 then VMX_VMEXIT else if n = 2 then VMX_VMABORT else if n = 3 then VMX_VMSKIP
         else VMX_EXIT)"

definition exit_result :: "vm_state \<Rightarrow> u32" where
  "exit_result s =
     (if basic_reason s = VMX_VMCALL then hypercall_result (hypercall_field s)
      else if basic_reason s = VMX_EPT_VIOLATION then VMX_VMEXIT
      else VMX_RESUME)"

definition is_page_fault :: "vm_state \<Rightarrow> bool" where
  "is_page_fault s \<longleftrightarrow> basic_reason s = VMX_EXC_NMI \<and> (ucast (vmcs_read EXI_INTR_INFO s) :: u8) = 14"

definition exit_vmcs :: "vm_state \<Rightarrow> u32 \<Rightarrow> u32" where
  "exit_vmcs s = (vmcs_data s)
     (GUEST_CR3 := (if is_page_fault s then cr3 s else vmcs_data s GUEST_CR3),
      GUEST_RIP := vmcs_data s GUEST_RIP + exit_advance s)"

lemma handle_hypercall_fst: "fst (handle_hypercall s) = hypercall_result (hypercall_field s)"
  by (simp add: handle_hypercall_def hypercall_result_def Let_def)

text \<open>A state without the messages printed so far: two states with the same \<open>quiet\<close> agree in all
  they hold, and differ in the log alone.\<close>

definition quiet :: "vm_state \<Rightarrow> vm_state" where
  "quiet s = s\<lparr>vm_out := []\<rparr>"

lemma handle_hypercall_quiet: "quiet (snd (handle_hypercall s)) = quiet (s\<lparr>hypercall_field := 0\<rparr>)"
  by (simp add: handle_hypercall_def quiet_def Let_def vm_print_def)

lemma quiet_print [simp]: "quiet (vm_print cs s) = quiet s"
  by (simp add: quiet_def vm_print_def)

lemma quiet_upd:
  "quiet (s\<lparr>vmcs_data := d\<rparr>) = (quiet s)\<lparr>vmcs_data := d\<rparr>"
  "quiet (s\<lparr>regs_eflags := x\<rparr>) = (quiet s)\<lparr>regs_eflags := x\<rparr>"
  "quiet (s\<lparr>hypercall_field := x\<rparr>) = (quiet s)\<lparr>hypercall_field := x\<rparr>"
  "quiet (s\<lparr>launched := b\<rparr>) = (quiet s)\<lparr>launched := b\<rparr>"
  "quiet (s\<lparr>guest_finished := x\<rparr>) = (quiet s)\<lparr>guest_finished := x\<rparr>"
  by (simp_all add: quiet_def)

lemma quiet_fields:
  assumes "quiet s = quiet t"
  shows "vmcs_data s = vmcs_data t" "regs s = regs t" "gprs s = gprs t" "launched s = launched t"
    "guest_finished s = guest_finished t" "hypercall_field s = hypercall_field t" "in_guest s = in_guest t"
    "regs_eflags s = regs_eflags t" "cr3 s = cr3 t" "cr2 s = cr2 t"
  using arg_cong [OF assms, of vmcs_data]
    arg_cong [OF assms, of regs]
    arg_cong [OF assms, of gprs]
    arg_cong [OF assms, of launched]
    arg_cong [OF assms, of guest_finished]
    arg_cong [OF assms, of hypercall_field]
    arg_cong [OF assms, of in_guest]
    arg_cong [OF assms, of regs_eflags]
    arg_cong [OF assms, of cr3]
    arg_cong [OF assms, of cr2]
  by (simp_all add: quiet_def)

lemma vm_print_vmcs [simp]:
  "vmcs_data (vm_print cs s) = vmcs_data s" "vmcs_read e (vm_print cs s) = vmcs_read e s"
  by (simp_all add: vm_print_def vmcs_read_def)

lemma vm_print_fields [simp]:
  "launched (vm_print cs s) = launched s" "guest_finished (vm_print cs s) = guest_finished s"
  "vm_mem (vm_print cs s) = vm_mem s" "cr3 (vm_print cs s) = cr3 s" "in_guest (vm_print cs s) = in_guest s"
  by (simp_all add: vm_print_def)

lemma vm_print_upd_vmcs: "(vm_print cs s)\<lparr>vmcs_data := d\<rparr> = vm_print cs (s\<lparr>vmcs_data := d\<rparr>)"
  by (simp add: vm_print_def)

lemma vm_print_print: "vm_print b (vm_print a s) = vm_print (a @ b) s"
  by (simp add: vm_print_def)

lemma vm_print_Nil [simp]: "vm_print [] s = s"
  by (simp add: vm_print_def)

lemma vector_ucast: "(ucast (x AND 0xFF :: u32) :: u8) = ucast x"
proof -
  have "(0xFF :: u32) = mask 8" by (simp add: mask_eq_exp_minus_1)
  then have "(x AND 0xFF :: u32) = take_bit 8 x" by (simp only: take_bit_eq_mask)
  then show ?thesis by (intro bit_word_eqI) (simp add: bit_ucast_iff bit_take_bit_iff)
qed

lemma quiet_vmcs_write:
  assumes "no_write_fails h" "quiet s = quiet t"
  shows "quiet (vmcs_write h e val s) = quiet (t\<lparr>vmcs_data := (vmcs_data t)(e := val)\<rparr>)"
  using assms quiet_fields(1) [OF assms(2)] by (simp add: vmcs_write_ok quiet_upd)

lemma exit_switch_eq:
  assumes "no_write_fails h" "reason = basic_reason s" "reason \<noteq> VMX_VMCALL" "guest_eip = vmcs_data s GUEST_RIP"
    "regs_eflags s = vmcs_data s GUEST_RFLAGS"
  shows "fst (exit_switch h reason guest_eip s) = (reason = VMX_EPT_VIOLATION)"
    and "quiet (snd (exit_switch h reason guest_eip s)) = quiet (s\<lparr>vmcs_data := exit_vmcs s\<rparr>)"
proof -
  note defs = exit_switch_def exit_vmcs_def exit_advance_def is_page_fault_def vmcs_write_ok [OF assms(1)]
    vm_print_def vmcs_read_def Let_def assms(4) vector_ucast quiet_def
  have r: "basic_reason s = reason" using assms(2) by simp
  consider "reason = 0" | "reason = 1" | "reason = 10" | "reason = 12" | "reason = 14"
    | "reason = 28" | "reason = 29" | "reason = 48"
    | "reason \<notin> {0, 1, 10, 12, 14, 28, 29, 48}" by blast
  then have "fst (exit_switch h reason guest_eip s) = (reason = VMX_EPT_VIOLATION) \<and>
    quiet (snd (exit_switch h reason guest_eip s)) = quiet (s\<lparr>vmcs_data := exit_vmcs s\<rparr>)"
  proof cases
    case 8
    with r show ?thesis
      by (simp add: defs fun_upd_idem assms(5))
  qed (use r assms(3) in \<open>simp add: defs fun_upd_idem\<close>)+
  then show "fst (exit_switch h reason guest_eip s) = (reason = VMX_EPT_VIOLATION)"
    "quiet (snd (exit_switch h reason guest_eip s)) = quiet (s\<lparr>vmcs_data := exit_vmcs s\<rparr>)"
    by blast+
qed

lemma exit_vmcs_rflags: "(exit_vmcs s)(GUEST_RFLAGS := vmcs_data s GUEST_RFLAGS) = exit_vmcs s"
  by (rule fun_upd_idem) (simp add: exit_vmcs_def)

text \<open>The whole handler, apart from its messages.\<close>

definition handled :: "vm_state \<Rightarrow> vm_state" where
  "handled s = s\<lparr>vmcs_data := exit_vmcs s, regs_eflags := vmcs_read GUEST_RFLAGS s,
     hypercall_field := (if basic_reason s = VMX_VMCALL then 0 else hypercall_field s)\<rparr>"

lemma exit_handler_eq:
  assumes "no_write_fails h"
  shows "fst (exit_handler h s) = exit_result s \<and> quiet (snd (exit_handler h s)) = quiet (handled s)"
proof -
  let ?s1 = "s\<lparr>regs_eflags := vmcs_read GUEST_RFLAGS s\<rparr>"
  let ?s2 = "?s1\<lparr>vmcs_data := exit_vmcs s\<rparr>"
  have same: "basic_reason ?s1 = basic_reason s" "exit_vmcs ?s1 = exit_vmcs s"
    by (simp_all add: basic_reason_def exit_vmcs_def exit_advance_def is_page_fault_def vmcs_read_def Let_def)
  have wrback: "quiet (vmcs_write h GUEST_RFLAGS (regs_eflags t) t) = quiet (u\<lparr>vmcs_data := exit_vmcs s\<rparr>)"
    if "quiet t = quiet u" "vmcs_data u = exit_vmcs s" "regs_eflags u = vmcs_read GUEST_RFLAGS s" for t u
    using quiet_vmcs_write [OF assms that(1), of GUEST_RFLAGS "regs_eflags t"] that quiet_fields(8) [OF that(1)]
    by (simp add: exit_vmcs_rflags vmcs_read_def)
  show ?thesis
  proof (cases "basic_reason s = VMX_VMCALL")
    case True
    have v: "exit_vmcs s = (vmcs_data s)(GUEST_RIP := vmcs_data s GUEST_RIP + 3)"
      using True by (simp add: exit_vmcs_def exit_advance_def is_page_fault_def fun_upd_idem Let_def)
    have hyp: "is_hypercall ?s1" using True by (simp add: is_hypercall_def basic_reason_def vmcs_read_def)
    have w: "vmcs_write h GUEST_RIP (vmcs_read GUEST_RIP s + 3) ?s1 = ?s2"
      by (simp add: vmcs_write_ok [OF assms] v vmcs_read_def)
    have run: "exit_handler h s = (fst (handle_hypercall ?s2),
        vmcs_write h GUEST_RFLAGS (regs_eflags (snd (handle_hypercall ?s2))) (snd (handle_hypercall ?s2)))"
      unfolding exit_handler_def Let_def if_P [OF hyp] w by (simp add: case_prod_beta)
    have "fst (exit_handler h s) = exit_result s"
      using True by (simp add: run handle_hypercall_fst exit_result_def)
    moreover have "quiet (snd (exit_handler h s)) = quiet (handled s)"
      unfolding run using wrback [OF handle_hypercall_quiet, of ?s2] True by (simp add: handled_def quiet_def)
    ultimately show ?thesis by blast
  next
    case False
    have hyp: "\<not> is_hypercall ?s1" using False by (simp add: is_hypercall_def basic_reason_def vmcs_read_def)
    let ?sw = "exit_switch h (basic_reason s) (vmcs_read GUEST_RIP s) ?s1"
    note sw = exit_switch_eq [OF assms, of "basic_reason s" ?s1 "vmcs_read GUEST_RIP s", unfolded same]
    have sw1: "fst ?sw = (basic_reason s = VMX_EPT_VIOLATION)" and sw2: "quiet (snd ?sw) = quiet ?s2"
      using sw False by (simp_all add: vmcs_read_def)
    have run: "exit_handler h s = (if fst ?sw then (VMX_VMEXIT, snd ?sw)
        else (VMX_RESUME, vmcs_write h GUEST_RFLAGS (regs_eflags (snd ?sw)) (snd ?sw)))"
      unfolding exit_handler_def Let_def if_not_P [OF hyp] basic_reason_def by (simp add: case_prod_beta)
    have "quiet ?s2 = quiet (handled s)" using False by (simp add: handled_def quiet_def)
    moreover obtain b u where "?sw = (b, u)" by fastforce
    ultimately show ?thesis
      using wrback [OF sw2] sw1 sw2 False by (auto simp: run exit_result_def)
  qed
qed

text \<open>The messages of the handler.\<close>

definition exit_messages :: "vm_state \<Rightarrow> pcall list" where
  "exit_messages s =
     (let r = basic_reason s; eip = vmcs_read GUEST_RIP s
      in if r = VMX_VMCALL then
           (let n = hypercall_field s AND HYPERCALL_MASK
            in [if n = 1 then Printf ''hypercall: VMEXIT\<newline>'' []
                else if n = 2 then Printf ''hypercall: VMABORT\<newline>'' []
                else if n = 3 then Printf ''hypercall: VMSKIP\<newline>'' []
                else Printf ''ERROR : Invalid hypercall number : %d\<newline>'' [PWord n]])
         else if r = VMX_EXC_NMI then
           Printf ''EXCEPTION: vector=%d CR2=%#x RIP=%#x inst_len=%d\<newline>''
             [PWord (ucast (ucast (vmcs_read EXI_INTR_INFO s) :: u8)), PWord (cr2 s), PWord eip, PWord (vmcs_read EXI_INST_LEN s)] #
           (if is_page_fault s
            then [Printf ''PAGE FAULT: Attempted write to read-only page at %#x\<newline>'' [PWord (cr2 s)]] else [])
         else if r = VMX_HLT then [Printf ''HLT VMEXIT: RIP=%#x\<newline>'' [PWord eip]]
         else if r \<in> {VMX_CR, VMX_DR} then
           (let qual = vmcs_read EXI_QUALIFICATION s
            in Printf ''CR3 ACCESS: type=%s qual=%#x inst_len=%d RIP=%#x\<newline>''
                 [PStr (if bit qual 4 then ''write'' else ''read''), PWord qual, PWord (vmcs_read EXI_INST_LEN s), PWord eip] #
               (if bit qual 4 then [Printf '' - CR3 write detected, restoring CR3\<newline>'' []] else []))
         else if r = VMX_EPT_VIOLATION then
           [Printf ''EPT VIOLATION: GPA=%#x RIP=%#x'' [PWord (vmcs_read GUEST_PHYSICAL_ADDRESS s), PWord eip]]
         else [])"

lemma vm_out_write: "no_write_fails h \<Longrightarrow> vm_out (vmcs_write h e val s) = vm_out s"
  by (simp add: vmcs_write_ok)

lemma drop_bit_and_1: "drop_bit n w AND 1 = (if bit w n then 1 else 0)" for w :: u32
  by (simp add: bit_iff_odd_drop_bit and_one_eq mod2_eq_if)

lemma exit_switch_messages:
  assumes "no_write_fails h" "reason = basic_reason s" "reason \<noteq> VMX_VMCALL" "guest_eip = vmcs_read GUEST_RIP s"
  shows "vm_out (snd (exit_switch h reason guest_eip s)) = vm_out s @ exit_messages s"
proof -
  note defs = exit_switch_def exit_messages_def is_page_fault_def vm_out_write [OF assms(1)]
    vm_print_def Let_def assms(4) vector_ucast drop_bit_and_1
  have r: "basic_reason s = reason" using assms(2) by simp
  consider "reason = 0" | "reason = 1" | "reason = 10" | "reason = 12" | "reason = 14"
    | "reason = 28 \<or> reason = 29" | "reason = 48"
    | "reason \<notin> {0, 1, 10, 12, 14, 28, 29, 48}" by blast
  then show ?thesis
    by cases (use r assms(3) in \<open>auto simp: defs vmcs_read_def\<close>)
qed

lemma exit_handler_messages:
  assumes "no_write_fails h"
  shows "vm_out (snd (exit_handler h s)) = vm_out s @ exit_messages s"
proof (cases "basic_reason s = VMX_VMCALL")
  case True
  then show ?thesis
    by (simp add: exit_handler_def is_hypercall_def handle_hypercall_def exit_messages_def vm_out_write [OF assms]
        basic_reason_def vmcs_read_def vmcs_write_ok [OF assms] vm_print_def Let_def)
next
  case False
  let ?t = "s\<lparr>regs_eflags := vmcs_read GUEST_RFLAGS s\<rparr>"
  have same: "basic_reason ?t = basic_reason s" "exit_messages ?t = exit_messages s"
    by (simp_all add: basic_reason_def exit_messages_def is_page_fault_def vmcs_read_def Let_def)
  have "vmcs_read GUEST_RIP s = vmcs_read GUEST_RIP ?t" by (simp add: vmcs_read_def)
  from exit_switch_messages [OF assms same(1) [symmetric] False this, unfolded same]
  have "vm_out (snd (exit_switch h (basic_reason s) (vmcs_read GUEST_RIP s) ?t)) = vm_out s @ exit_messages s"
    by simp
  then show ?thesis
    using False
    by (simp add: exit_handler_def is_hypercall_def basic_reason_def vm_out_write [OF assms] vmcs_read_def
        case_prod_beta Let_def)
qed

lemma quiet_out: "quiet s = quiet t \<Longrightarrow> vm_out s = vm_out t \<Longrightarrow> s = t"
  by (cases s; cases t) (simp add: quiet_def)

lemma exit_handler_exact:
  assumes "no_write_fails h"
  shows "exit_handler h s = (exit_result s, vm_print (exit_messages s) (handled s))"
proof -
  have "snd (exit_handler h s) = vm_print (exit_messages s) (handled s)"
  proof (rule quiet_out)
    show "quiet (snd (exit_handler h s)) = quiet (vm_print (exit_messages s) (handled s))"
      using exit_handler_eq [OF assms] by (simp only: quiet_print)
    show "vm_out (snd (exit_handler h s)) = vm_out (vm_print (exit_messages s) (handled s))"
      by (simp add: exit_handler_messages [OF assms] vm_print_def handled_def)
  qed
  then show ?thesis using exit_handler_eq [OF assms, of s] by (metis prod.collapse)
qed

text \<open>C2. The exit handler, when no VMWRITE fails, is what its tables say: its result, its messages and the
  state it leaves. The guest continues behind the instruction that exited (by the length the processor
  reports for INVLPG and the CR accesses, by the length of the instruction for CPUID, HLT and VMCALL), a
  page fault puts the host's CR3 into the guest, the hypercall number is consumed, RFLAGS and every
  other field of the VMCS stay, and so does everything else.\<close>

theorem exit_handler_correct:
  assumes "no_write_fails h"
  shows "exit_handler h s = (exit_result s, vm_print (exit_messages s) (handled s))"
  using assms by (rule exit_handler_exact)

definition exited0 :: "u32 \<Rightarrow> vm_state" where
  "exited0 reason = vm_state0\<lparr>vmcs_data := (\<lambda>_. 0)(EXI_REASON := reason, GUEST_RIP := 0x8000, EXI_INST_LEN := 3),
     hypercall_field := 0x1002\<rparr>"

theorem exit_handler_correct_witness:
  "fst (exit_handler hw_ok (exited0 VMX_CPUID)) = VMX_RESUME
   \<and> vmcs_read GUEST_RIP (snd (exit_handler hw_ok (exited0 VMX_CPUID))) = 0x8002
   \<and> fst (exit_handler hw_ok (exited0 VMX_VMCALL)) = VMX_VMABORT
   \<and> vmcs_read GUEST_RIP (snd (exit_handler hw_ok (exited0 VMX_VMCALL))) = 0x8003"
  by (simp add: exit_handler_correct [OF hw_ok_writes] exit_result_def handled_def exit_vmcs_def exit_advance_def
      basic_reason_def vmcs_read_def hypercall_result_def exited0_def vm_print_def Let_def)

lemma hypercall_mask: "hypercall n AND HYPERCALL_MASK = n AND 0xFFF"
  by (simp add: hypercall_def bit.conj_disj_distrib bit.conj_disj_distrib2 ac_simps)

text \<open>The number a guest passes to \<open>hypercall\<close> comes back out of \<open>handle_hypercall\<close>, whatever its
  upper twenty bits: 1 ends the run, 2 aborts it, 3 skips, and any other number is an error.\<close>

theorem hypercall_roundtrip:
  "fst (handle_hypercall (s\<lparr>hypercall_field := hypercall n\<rparr>)) =
     (if n AND 0xFFF = 1 then VMX_VMEXIT else if n AND 0xFFF = 2 then VMX_VMABORT
      else if n AND 0xFFF = 3 then VMX_VMSKIP else VMX_EXIT)
   \<and> hypercall_field (snd (handle_hypercall (s\<lparr>hypercall_field := hypercall n\<rparr>))) = 0"
proof -
  show ?thesis
    using handle_hypercall_quiet [of "s\<lparr>hypercall_field := hypercall n\<rparr>", THEN quiet_fields(6)]
    by (simp add: handle_hypercall_fst hypercall_result_def hypercall_mask Let_def)
qed

section \<open>One iteration\<close>

text \<open>The exits the handler answers by resuming the guest, and the state in which it sees an exit.\<close>

definition resumable :: "exit_event \<Rightarrow> bool" where
  "resumable ev \<longleftrightarrow> ev_reason ev AND VMX_ENTRY_FAILURE = 0
     \<and> ev_reason ev AND 0xff \<notin> {VMX_VMCALL, VMX_EPT_VIOLATION}"

definition after_exit :: "exit_event \<Rightarrow> vm_state \<Rightarrow> vm_state" where
  "after_exit ev s =
     (record_exit ev (s\<lparr>vmcs_data := (vmcs_data s)(HOST_RSP := esp s)\<rparr>))
       \<lparr>gprs := (gprs s)\<lparr>edi := HOST_RSP\<rparr>, regs := ev_gprs ev, in_guest := 0, launched := True\<rparr>"

definition after_failure :: "vm_state \<Rightarrow> u32 \<Rightarrow> u32 \<Rightarrow> vm_state" where
  "after_failure s fl err =
     s\<lparr>vmcs_data := inst_error fl err ((vmcs_data s)(HOST_RSP := esp s)), gprs := (gprs s)\<lparr>edi := fl\<rparr>, in_guest := 0, launched := True\<rparr>"

lemma enter_guest_exited:
  "fst (vmx_enter_guest f (Exited ev) s) = (ev_reason ev AND VMX_ENTRY_FAILURE = 0)
   \<and> (snd (snd (vmx_enter_guest f (Exited ev) s)))\<lparr>launched := True\<rparr> = after_exit ev s"
  by (intro conjI vm_state.equality)
    (simp_all add: vmx_enter_guest_def xchg_gprs_def record_exit_def after_exit_def vmcs_read_def Let_def split: option.split)

lemma enter_guest_failed_early:
  "fst (vmx_enter_guest f (Failed_early fl err) s) = (vmcs_read EXI_REASON s AND VMX_ENTRY_FAILURE = 0)
   \<and> (snd (snd (vmx_enter_guest f (Failed_early fl err) s)))\<lparr>launched := True\<rparr> = after_failure s fl err"
  by (intro conjI vm_state.equality)
    (simp_all add: vmx_enter_guest_def xchg_gprs_def after_failure_def vmcs_read_def Let_def)

lemma enter_guest_failed_load:
  "\<not> fst (vmx_enter_guest f (Failed_load r q) s)"
  by (simp add: vmx_enter_guest_def xchg_gprs_def vmcs_read_def Let_def bit.conj_disj_distrib2)

lemma quiet_launched: "quiet s = quiet t \<Longrightarrow> quiet (s\<lparr>launched := b\<rparr>) = quiet (t\<lparr>launched := b\<rparr>)"
  by (simp add: quiet_upd)

lemma exit_tables_quiet:
  assumes "quiet s = quiet t"
  shows "exit_result s = exit_result t" "quiet (handled s) = quiet (handled t)"
  using assms quiet_fields [OF assms]
  by (simp_all add: exit_result_def handled_def exit_vmcs_def exit_advance_def basic_reason_def
      is_page_fault_def vmcs_read_def Let_def quiet_upd)

lemma enter_quiet:
  assumes "quiet s = quiet t"
  shows "quiet (after_exit ev s) = quiet (after_exit ev t)" "quiet (after_failure s fl err) = quiet (after_failure t fl err)"
proof -
  have "quiet (after_exit ev u) = quiet (after_exit ev (quiet u))" for u
    by (simp add: after_exit_def record_exit_def quiet_def split: option.split)
  moreover have "quiet (after_failure u fl err) = quiet (after_failure (quiet u) fl err)" for u
    by (simp add: after_failure_def quiet_def)
  ultimately show "quiet (after_exit ev s) = quiet (after_exit ev t)"
    "quiet (after_failure s fl err) = quiet (after_failure t fl err)"
    using assms by metis+
qed

text \<open>What an iteration does with the handler's result.\<close>

lemma iteration_entered:
  assumes "fst (vmx_enter_guest (hw_garbage h) oc (vm_print [Printf ''Guest in <<<\<newline>'' []] s))"
    and "quiet ((snd (snd (vmx_enter_guest (hw_garbage h) oc (vm_print [Printf ''Guest in <<<\<newline>'' []] s))))
           \<lparr>launched := True\<rparr>) = quiet t"
    and "no_write_fails h"
  shows "fst (vmx_iteration h oc s) =
      (if exit_result t = VMX_RESUME \<or> exit_result t = VMX_VMSKIP then None
       else if exit_result t = VMX_VMEXIT \<or> exit_result t = VMX_VMABORT then Some Returns_0
       else Some Falls_through) \<and>
    quiet (snd (vmx_iteration h oc s)) =
      quiet (if exit_result t = VMX_VMEXIT \<or> exit_result t = VMX_VMABORT
             then (handled t)\<lparr>guest_finished := 1\<rparr> else handled t)"
proof -
  let ?e = "vmx_enter_guest (hw_garbage h) oc (vm_print [Printf ''Guest in <<<\<newline>'' []] s)"
  obtain f u where e: "?e = (True, f, u)" using assms(1) by (metis prod.collapse)
  obtain r w where x: "exit_handler h (u\<lparr>launched := True\<rparr>) = (r, w)" by fastforce
  have q: "quiet (u\<lparr>launched := True\<rparr>) = quiet t" using assms(2) by (simp add: e)
  have r: "r = exit_result t" "quiet w = quiet (handled t)"
    using exit_handler_eq [OF assms(3), of "u\<lparr>launched := True\<rparr>"] exit_tables_quiet [OF q] by (simp_all add: x)
  have res: "exit_result t \<in> {VMX_RESUME, VMX_VMEXIT, VMX_VMABORT, VMX_VMSKIP, VMX_EXIT}"
    by (simp add: exit_result_def hypercall_result_def Let_def)
  show ?thesis
    using res r by (auto simp: vmx_iteration_def e x Let_def print_vmexit_info_def quiet_upd)
qed

lemma exit_result_after_exit:
  "resumable ev \<Longrightarrow> exit_result (after_exit ev s) = VMX_RESUME"
  by (simp add: resumable_def exit_result_def basic_reason_def after_exit_def record_exit_def vmcs_read_def)

lemma iteration_resumable:
  assumes "no_write_fails h" "resumable ev"
  shows "fst (vmx_iteration h (Exited ev) s) = None"
    and "quiet (snd (vmx_iteration h (Exited ev) s)) = quiet (handled (after_exit ev s))"
proof -
  let ?p = "vm_print [Printf ''Guest in <<<\<newline>'' []] s"
  have q: "quiet (after_exit ev ?p) = quiet (after_exit ev s)" by (rule enter_quiet) simp
  note it = iteration_entered [of h "Exited ev" s "after_exit ev s"]
  show "fst (vmx_iteration h (Exited ev) s) = None"
    and "quiet (snd (vmx_iteration h (Exited ev) s)) = quiet (handled (after_exit ev s))"
    using it enter_guest_exited [of "hw_garbage h" ev ?p] q assms exit_result_after_exit [OF assms(2), of s]
    by (simp_all add: resumable_def)
qed

lemma iteration_failed_early:
  assumes "no_write_fails h" "vmcs_data s EXI_REASON AND VMX_ENTRY_FAILURE = 0"
    "vmcs_data s EXI_REASON AND 0xff \<notin> {VMX_VMCALL, VMX_EPT_VIOLATION}"
  shows "fst (vmx_iteration h (Failed_early fl err) s) = None"
    and "quiet (snd (vmx_iteration h (Failed_early fl err) s)) = quiet (handled (after_failure s fl err))"
proof -
  let ?p = "vm_print [Printf ''Guest in <<<\<newline>'' []] s"
  have q: "quiet (after_failure ?p fl err) = quiet (after_failure s fl err)" by (rule enter_quiet) simp
  have r: "exit_result (after_failure s fl err) = VMX_RESUME"
    using assms(3) by (simp add: exit_result_def basic_reason_def after_failure_def vmcs_read_def)
  note it = iteration_entered [of h "Failed_early fl err" s "after_failure s fl err"]
  show "fst (vmx_iteration h (Failed_early fl err) s) = None"
    and "quiet (snd (vmx_iteration h (Failed_early fl err) s)) = quiet (handled (after_failure s fl err))"
    using it enter_guest_failed_early [of "hw_garbage h" fl err ?p] q assms r
    by (simp_all add: vmcs_read_def)
qed

lemma iteration_cases:
  fixes s :: vm_state
  assumes "no_write_fails h" "ev_reason ev AND VMX_ENTRY_FAILURE = 0"
  defines "t \<equiv> after_exit ev (vm_print [Printf ''Guest in <<<\<newline>'' []] s)"
  defines "u \<equiv> vm_print (exit_messages t) (handled t)"
  shows "vmx_iteration h (Exited ev) s =
    (if exit_result t = VMX_RESUME then (None, u)
     else if exit_result t = VMX_VMEXIT then
       (Some Returns_0, vm_print [Printf ''Guest exited normally\<newline>'' []] (u\<lparr>guest_finished := 1\<rparr>))
     else if exit_result t = VMX_VMABORT then
       (Some Returns_0, vm_print [Printf ''Guest aborted!\<newline>'' []] (u\<lparr>guest_finished := 1\<rparr>))
     else if exit_result t = VMX_VMSKIP then
       (None, vm_print [Printf ''Guest skipped - continue running\<newline>'' []] u)
     else (Some Falls_through, print_vmexit_info u))"
proof -
  let ?p = "vm_print [Printf ''Guest in <<<\<newline>'' []] s"
  have n: "fst (vmx_enter_guest (hw_garbage h) (Exited ev) ?p)"
    "(snd (snd (vmx_enter_guest (hw_garbage h) (Exited ev) ?p)))\<lparr>launched := True\<rparr> = t"
    using enter_guest_exited [of "hw_garbage h" ev ?p] assms(2) by (simp_all add: t_def)
  obtain b f v where bfu: "vmx_enter_guest (hw_garbage h) (Exited ev) ?p = (b, f, v)" by (metis prod.exhaust)
  have e: "vmx_enter_guest (hw_garbage h) (Exited ev) ?p = (True, f, v)" "v\<lparr>launched := True\<rparr> = t"
    using n by (simp_all add: bfu)
  have "exit_result t \<in> {VMX_RESUME, VMX_VMEXIT, VMX_VMABORT, VMX_VMSKIP, VMX_EXIT}"
    by (simp add: exit_result_def hypercall_result_def Let_def)
  then show ?thesis
    unfolding vmx_iteration_def Let_def e prod.case if_True exit_handler_exact [OF assms(1)] u_def by auto
qed

lemma iteration_exact:
  fixes s :: vm_state
  assumes "no_write_fails h" "ev_reason ev AND VMX_ENTRY_FAILURE = 0"
  defines "t \<equiv> after_exit ev (vm_print [Printf ''Guest in <<<\<newline>'' []] s)"
  shows "exit_result t = VMX_RESUME \<Longrightarrow> vmx_iteration h (Exited ev) s = (None, vm_print (exit_messages t) (handled t))"
    and "exit_result t = VMX_VMEXIT \<Longrightarrow> vmx_iteration h (Exited ev) s =
      (Some Returns_0, vm_print [Printf ''Guest exited normally\<newline>'' []]
        ((vm_print (exit_messages t) (handled t))\<lparr>guest_finished := 1\<rparr>))"
  using iteration_cases [OF assms(1,2), of s] by (simp_all add: t_def)

section \<open>The whole run\<close>

primrec resumed :: "exit_event list \<Rightarrow> vm_state \<Rightarrow> vm_state" where
  "resumed [] s = s"
| "resumed (ev # evs) s = resumed evs (handled (after_exit ev s))"

lemma resumed_quiet: "quiet s = quiet t \<Longrightarrow> quiet (resumed evs s) = quiet (resumed evs t)"
proof (induction evs arbitrary: s t)
  case (Cons ev evs)
  show ?case
    unfolding resumed.simps by (rule Cons.IH [OF exit_tables_quiet(2) [OF enter_quiet(1) [OF Cons.prems]]])
qed simp

lemma resumed_append: "resumed (vs @ ws) s = resumed ws (resumed vs s)"
  by (induction vs arbitrary: s) simp_all

lemma resumed_fields [simp]:
  "guest_finished (resumed evs s) = guest_finished s"
  by (induction evs arbitrary: s) (simp_all add: handled_def after_exit_def record_exit_def)

lemma handled_rip:
  "vmcs_data (handled (after_exit ev s)) GUEST_RIP = ev_rip ev + exit_advance (after_exit ev s)"
  by (simp add: handled_def exit_vmcs_def after_exit_def record_exit_def)

lemma run_resumable:
  assumes "no_write_fails h" "\<And>ev. ev \<in> set evs \<Longrightarrow> resumable ev"
  shows "\<exists>s'. vmx_run h (map Exited evs @ ocs) s = vmx_run h ocs s' \<and> quiet s' = quiet (resumed evs s)"
  using assms(2)
proof (induction evs arbitrary: s)
  case (Cons ev evs)
  obtain s1 where s1: "vmx_iteration h (Exited ev) s = (None, s1)" "quiet s1 = quiet (handled (after_exit ev s))"
    using iteration_resumable [OF assms(1), of ev s] Cons.prems by (metis list.set_intros(1) prod.collapse)
  obtain s' where "vmx_run h (map Exited evs @ ocs) s1 = vmx_run h ocs s'" "quiet s' = quiet (resumed evs s1)"
    using Cons by (metis list.set_intros(2))
  then show ?case using resumed_quiet [OF s1(2)] by (auto simp: s1(1))
qed auto

lemma run_resumable_all:
  assumes "no_write_fails h" "\<And>ev. ev \<in> set evs \<Longrightarrow> resumable ev"
  shows "fst (vmx_run h (map Exited evs) s) = None"
    and "quiet (snd (vmx_run h (map Exited evs) s)) = quiet (resumed evs s)"
  using run_resumable [OF assms(1), of evs "[]" s] assms(2) by auto

text \<open>C40. A guest whose exit the handler does not know (a triple fault, an external interrupt, an I/O
  access, an exception) is resumed each time at the very instruction that exited: as long as the
  instruction keeps exiting, the run makes no progress and never ends.\<close>

theorem unhandled_exit_repeats:
  assumes "no_write_fails h" "ev_reason ev AND VMX_ENTRY_FAILURE = 0"
    "ev_reason ev AND 0xff \<notin> {VMX_CPUID, VMX_HLT, VMX_INVLPG, VMX_VMCALL, VMX_CR, VMX_DR, VMX_EPT_VIOLATION}"
  shows "fst (vmx_run h (replicate (Suc n) (Exited ev)) s) = None
    \<and> vmcs_data (snd (vmx_run h (replicate (Suc n) (Exited ev)) s)) GUEST_RIP = ev_rip ev"
proof -
  let ?evs = "replicate (Suc n) ev"
  have r: "\<And>e. e \<in> set ?evs \<Longrightarrow> resumable e" using assms by (auto simp: resumable_def)
  have snoc: "resumed ?evs s = handled (after_exit ev (resumed (replicate n ev) s))"
    
    by (subst replicate_append_same [of n ev, folded replicate_Suc, symmetric], simp only: resumed_append resumed.simps)
  have "exit_advance (after_exit ev t) = 0" for t
    using assms(3) by (simp add: exit_advance_def basic_reason_def after_exit_def record_exit_def vmcs_read_def)
  then have "vmcs_data (resumed ?evs s) GUEST_RIP = ev_rip ev"
    by (simp only: snoc handled_rip) simp
  moreover have "map Exited ?evs = replicate (Suc n) (Exited ev)" by simp
  ultimately show ?thesis
    using run_resumable_all [OF assms(1), of ?evs s] r quiet_fields(1) by metis
qed

definition triple_fault :: exit_event where
  "triple_fault = \<lparr>ev_reason = VMX_TRIPLE_FAULT, ev_qual = 0, ev_intr_info = 0, ev_inst_len = 0, ev_rip = 0x8000,
     ev_rsp = 0, ev_rflags = 2, ev_gpa = 0, ev_io_rcx = 0, ev_cr2 = 0, ev_gprs = gprs vm_state0,
     ev_saved = [], ev_writes = [], ev_out = [], ev_hypercall = None\<rparr>"

theorem unhandled_exit_repeats_witness:
  "fst (vmx_run hw_ok (replicate 1000 (Exited triple_fault)) vm_state0) = None"
  using unhandled_exit_repeats [OF hw_ok_writes, of triple_fault 999 vm_state0]
  by (simp add: triple_fault_def)

text \<open>What the monitor prints for the hypercall \<open>n\<close>; \<open>t\<close> is the state that \<open>print_vmexit_info\<close> sees.\<close>

definition hypercall_lines :: "u32 \<Rightarrow> vm_state \<Rightarrow> pcall list" where
  "hypercall_lines n t =
     (if n = 1 then [Printf ''hypercall: VMEXIT\<newline>'' [], Printf ''Guest exited normally\<newline>'' []]
      else if n = 2 then [Printf ''hypercall: VMABORT\<newline>'' [], Printf ''Guest aborted!\<newline>'' []]
      else if n = 3 then [Printf ''hypercall: VMSKIP\<newline>'' [], Printf ''Guest skipped - continue running\<newline>'' []]
      else Printf ''ERROR : Invalid hypercall number : %d\<newline>'' [PWord n] #
        vm_out (print_vmexit_info (t\<lparr>vm_out := []\<rparr>)))"

lemma iteration_hypercall:
  assumes "no_write_fails h" "ev_reason ev AND VMX_ENTRY_FAILURE = 0" "ev_reason ev AND 0xff = VMX_VMCALL"
    "ev_hypercall ev = Some (hypercall n)"
  shows "\<exists>t. vmx_iteration h (Exited ev) s =
      (if n AND 0xFFF = 3 then None
       else Some (if n AND 0xFFF \<in> {1, 2} then Returns_0 else Falls_through), t)
    \<and> guest_finished t = (if n AND 0xFFF \<in> {1, 2} then 1 else guest_finished s)
    \<and> hypercall_field t = 0 \<and> vmcs_data t GUEST_RIP = ev_rip ev + 3
    \<and> vm_out t = vm_out s @ [Printf ''Guest in <<<\<newline>'' []] @ ev_out ev @ hypercall_lines (n AND 0xFFF) t"
proof -
  define t where "t = after_exit ev (vm_print [Printf ''Guest in <<<\<newline>'' []] s)"
  have f: "hypercall_field t = hypercall n" "vmcs_data t GUEST_RIP = ev_rip ev"
    "guest_finished t = guest_finished s" "basic_reason t = VMX_VMCALL"
    "vm_out t = vm_out s @ [Printf ''Guest in <<<\<newline>'' []] @ ev_out ev"
    using assms(3,4)
    by (simp_all add: t_def after_exit_def record_exit_def basic_reason_def vmcs_read_def vm_print_def)
  have res: "exit_result t = (if n AND 0xFFF = 1 then VMX_VMEXIT else if n AND 0xFFF = 2 then VMX_VMABORT
      else if n AND 0xFFF = 3 then VMX_VMSKIP else VMX_EXIT)"
    by (simp add: exit_result_def hypercall_result_def hypercall_mask f Let_def)
  have adv: "exit_advance t = 3" by (simp add: exit_advance_def f Let_def)
  note it = iteration_cases [OF assms(1,2), of s, folded t_def, unfolded res]
  consider "n AND 0xFFF = 1" | "n AND 0xFFF = 2" | "n AND 0xFFF = 3" | "n AND 0xFFF \<notin> {1, 2, 3}" by blast
  then show ?thesis
    by cases (simp_all add: it hypercall_lines_def exit_messages_def hypercall_mask f handled_def
        exit_vmcs_def adv vm_print_def print_vmexit_info_def vmcs_read_def Let_def)
qed

text \<open>C18. The guest's hypercalls, when no VMWRITE fails. After any exits that resume, the hypercall \<open>n\<close> (its low 12 bits) does
  what its number says: 1 ends the run with the value 0, \<open>guest_finished\<close> set and the message that the
  guest exited normally, 2 the same with the message that it aborted; 3 prints that the guest is skipped
  and the run goes on with it; any other number prints that it is invalid and the state at the exit, and
  ends the run without a value, \<open>guest_finished\<close> as it was. What the processor would do later does not
  matter unless the run goes on. In every case the number is consumed and the guest's instruction
  pointer is behind the VMCALL.\<close>

theorem run_until_hypercall:
  assumes "no_write_fails h" "\<And>e. e \<in> set evs \<Longrightarrow> resumable e"
    and "ev_reason ev AND VMX_ENTRY_FAILURE = 0" "ev_reason ev AND 0xff = VMX_VMCALL"
    and "ev_hypercall ev = Some (hypercall n)"
  shows "\<exists>t pre. vmx_run h (map Exited evs @ Exited ev # rest) s =
      (if n AND 0xFFF = 3 then vmx_run h rest t
       else (Some (if n AND 0xFFF \<in> {1, 2} then Returns_0 else Falls_through), t))
    \<and> guest_finished t = (if n AND 0xFFF \<in> {1, 2} then 1 else guest_finished s)
    \<and> hypercall_field t = 0 \<and> vmcs_data t GUEST_RIP = ev_rip ev + 3
    \<and> vm_out t = pre @ ev_out ev @
        (if n AND 0xFFF = 1 then [Printf ''hypercall: VMEXIT\<newline>'' [], Printf ''Guest exited normally\<newline>'' []]
         else if n AND 0xFFF = 2 then [Printf ''hypercall: VMABORT\<newline>'' [], Printf ''Guest aborted!\<newline>'' []]
         else if n AND 0xFFF = 3 then
           [Printf ''hypercall: VMSKIP\<newline>'' [], Printf ''Guest skipped - continue running\<newline>'' []]
         else Printf ''ERROR : Invalid hypercall number : %d\<newline>'' [PWord (n AND 0xFFF)] #
           vm_out (print_vmexit_info (t\<lparr>vm_out := []\<rparr>)))"
proof -
  obtain s' where s': "vmx_run h (map Exited evs @ Exited ev # rest) s = vmx_run h (Exited ev # rest) s'"
    "quiet s' = quiet (resumed evs s)" using run_resumable [OF assms(1,2)] by blast
  have g: "guest_finished s' = guest_finished s" using quiet_fields(5) [OF s'(2)] by simp
  obtain t where t: "vmx_iteration h (Exited ev) s' =
      (if n AND 0xFFF = 3 then None
       else Some (if n AND 0xFFF \<in> {1, 2} then Returns_0 else Falls_through), t)"
    "guest_finished t = (if n AND 0xFFF \<in> {1, 2} then 1 else guest_finished s)"
    "hypercall_field t = 0" "vmcs_data t GUEST_RIP = ev_rip ev + 3"
    "vm_out t = (vm_out s' @ [Printf ''Guest in <<<\<newline>'' []]) @ ev_out ev @ hypercall_lines (n AND 0xFFF) t"
    using iteration_hypercall [OF assms(1,3-5), of s'] unfolding g by auto
  have "vmx_run h (Exited ev # rest) s' =
      (if n AND 0xFFF = 3 then vmx_run h rest t
       else (Some (if n AND 0xFFF \<in> {1, 2} then Returns_0 else Falls_through), t))"
    by (simp add: t(1))
  with t(2-) show ?thesis unfolding s'(1) hypercall_lines_def by blast
qed

text \<open>The exits of the guest program in \<open>src/kernel/vm/vm_as.S\<close>: it reads CR3 and writes it, writes
  a read-only page, halts, and ends with the hypercall 1.\<close>

definition guest_exit :: "u32 \<Rightarrow> u32 \<Rightarrow> u32 \<Rightarrow> u32 \<Rightarrow> exit_event" where
  "guest_exit reason qual inst_len rip =
     triple_fault\<lparr>ev_reason := reason, ev_qual := qual, ev_inst_len := inst_len, ev_rip := rip\<rparr>"

definition guest_script :: "exit_event list" where
  "guest_script =
     [guest_exit VMX_CR 0x313 3 0x8005, guest_exit VMX_CR 0x003 3 0x8008,
      (guest_exit VMX_EXC_NMI 0x5000 0 0x8010)\<lparr>ev_intr_info := 0x80000B0E, ev_cr2 := 0x5000\<rparr>,
      guest_exit VMX_HLT 0 1 0x8016]"

definition guest_end :: exit_event where
  "guest_end = (guest_exit VMX_VMCALL 0 3 0x9000)\<lparr>ev_hypercall := Some (hypercall 1)\<rparr>"

lemma guest_script_resumable: "e \<in> set guest_script \<Longrightarrow> resumable e"
  by (auto simp: guest_script_def guest_exit_def triple_fault_def resumable_def)

theorem run_until_hypercall_witness:
  "\<exists>t pre. vmx_run hw_ok (map Exited guest_script @ Exited guest_end # []) vm_state0 = (Some Returns_0, t)
   \<and> guest_finished t = 1 \<and> vmcs_data t GUEST_RIP = 0x9003
   \<and> vm_out t = pre @ [Printf ''hypercall: VMEXIT\<newline>'' [], Printf ''Guest exited normally\<newline>'' []]"
proof -
  have e: "ev_reason guest_end AND VMX_ENTRY_FAILURE = 0" "ev_reason guest_end AND 0xff = VMX_VMCALL"
    "ev_hypercall guest_end = Some (hypercall 1)" "ev_rip guest_end = 0x9000" "ev_out guest_end = []"
    by (simp_all add: guest_end_def guest_exit_def triple_fault_def)
  show ?thesis
    using run_until_hypercall [OF hw_ok_writes guest_script_resumable e(1-3), of guest_script "[]" vm_state0]
    by (auto simp: e(4,5))
qed

section \<open>Failed entries\<close>

lemma iteration_failed_load:
  "fst (vmx_iteration h (Failed_load reason qual) s) = Some Falls_through
   \<and> launched (snd (vmx_iteration h (Failed_load reason qual) s)) = launched s
   \<and> guest_finished (snd (vmx_iteration h (Failed_load reason qual) s)) = guest_finished s"
proof -
  let ?e = "vmx_enter_guest (hw_garbage h) (Failed_load reason qual) (vm_print [Printf ''Guest in <<<\<newline>'' []] s)"
  obtain f u where e: "?e = (False, f, u)" using enter_guest_failed_load by (metis prod.collapse)
  have "launched u = launched s \<and> guest_finished u = guest_finished s"
    using arg_cong [OF e, of "\<lambda>e. snd (snd e)"]
    by (auto simp: vmx_enter_guest_def xchg_gprs_def Let_def)
  then show ?thesis
    by (simp add: vmx_iteration_def e entry_failure_handler_def print_vmexit_info_def
        print_vmentry_failure_info_def Let_def)
qed

text \<open>An entry that fails while the guest's state is loaded is recognised: after any exits that
  resume, it ends the run without a value, and \<open>guest_finished\<close> stays.\<close>

theorem failed_load_ends_run:
  assumes "no_write_fails h" "\<And>e. e \<in> set evs \<Longrightarrow> resumable e"
  shows "fst (vmx_run h (map Exited evs @ Failed_load reason qual # rest) s) = Some Falls_through
    \<and> guest_finished (snd (vmx_run h (map Exited evs @ Failed_load reason qual # rest) s)) = guest_finished s"
proof -
  obtain s' where s': "vmx_run h (map Exited evs @ Failed_load reason qual # rest) s =
      vmx_run h (Failed_load reason qual # rest) s'" "quiet s' = quiet (resumed evs s)"
    using run_resumable [OF assms] by blast
  have "guest_finished s' = guest_finished s" using quiet_fields(5) [OF s'(2)] by simp
  then show ?thesis
    using iteration_failed_load [of h reason qual s'] by (auto simp: s'(1) split: prod.split option.split)
qed

theorem failed_load_ends_run_witness:
  "fst (vmx_run hw_ok (map Exited guest_script @ Failed_load VMX_FAIL_STATE 0 # []) vm_state0) = Some Falls_through"
  using failed_load_ends_run [OF hw_ok_writes, of guest_script VMX_FAIL_STATE 0 "[]" vm_state0]
  by (simp add: guest_script_resumable)

lemma run_failed_early:
  assumes "no_write_fails h"
  shows "vmcs_data s EXI_REASON AND VMX_ENTRY_FAILURE = 0 \<Longrightarrow>
    vmcs_data s EXI_REASON AND 0xff \<notin> {VMX_VMCALL, VMX_EPT_VIOLATION} \<Longrightarrow>
    fst (vmx_run h (replicate n (Failed_early fl err)) s) = None
    \<and> (0 < n \<or> launched s \<longrightarrow> launched (snd (vmx_run h (replicate n (Failed_early fl err)) s)))"
proof (induction n arbitrary: s)
  case (Suc n)
  note it = iteration_failed_early [OF assms Suc.prems, of fl err]
  obtain u where u: "vmx_iteration h (Failed_early fl err) s = (None, u)" using it(1) by (metis prod.collapse)
  have q: "quiet u = quiet (handled (after_failure s fl err))" using it(2) by (simp add: u)
  have "vmcs_data u EXI_REASON = vmcs_data s EXI_REASON" "launched u"
    using quiet_fields(1,4) [OF q] by (simp_all add: handled_def exit_vmcs_def after_failure_def)
  with Suc.IH [of u] Suc.prems show ?case by (simp add: u)
qed simp

text \<open>An entry that fails at once, at the VMLAUNCH or VMRESUME itself, is not recognised: the exit
  fields of the VMCS still hold the last exit, or nothing, and the code handles that one again. When it
  is one that resumes, the run tries the failing entry for ever, and \<open>launched\<close> is set although the
  guest has never run.\<close>

theorem early_failure_unnoticed:
  assumes "no_write_fails h" "vmcs_data s EXI_REASON AND VMX_ENTRY_FAILURE = 0"
    "vmcs_data s EXI_REASON AND 0xff \<notin> {VMX_VMCALL, VMX_EPT_VIOLATION}"
  shows "fst (vmx_run h (replicate (Suc n) (Failed_early fl err)) s) = None
    \<and> launched (snd (vmx_run h (replicate (Suc n) (Failed_early fl err)) s))"
  using run_failed_early [OF assms, of "Suc n" fl err] by (simp del: replicate_Suc)

theorem early_failure_unnoticed_witness:
  "fst (vmx_run hw_ok (replicate 1000 (Failed_early X86_EFLAGS_ZF 7)) vm_state0) = None
   \<and> \<not> launched vm_state0
   \<and> launched (snd (vmx_run hw_ok (replicate 1000 (Failed_early X86_EFLAGS_ZF 7)) vm_state0))"
  using early_failure_unnoticed [OF hw_ok_writes, of vm_state0 999 X86_EFLAGS_ZF] by (simp add: vm_state0_def)

section \<open>The states of a run\<close>

text \<open>The states at the head of the loop: a step relation over whatever the processor does.\<close>

inductive running :: "hw \<Rightarrow> vm_state \<Rightarrow> vm_state \<Rightarrow> bool" for h s where
  start: "running h s s"
| again: "running h s t \<Longrightarrow> vmx_iteration h oc t = (None, u) \<Longrightarrow> running h s u"

lemma run_append:
  "vmx_run h (vs @ ws) s =
     (case vmx_run h vs s of (None, t) \<Rightarrow> vmx_run h ws t | (Some r, t) \<Rightarrow> (Some r, t))"
  by (induction vs arbitrary: s) (simp_all split: prod.split option.split)

lemma running_run: "running h s t \<longleftrightarrow> (\<exists>ocs. vmx_run h ocs s = (None, t))"
proof
  assume "running h s t"
  then show "\<exists>ocs. vmx_run h ocs s = (None, t)"
  proof induction
    case start
    have "vmx_run h [] s = (None, s)" by simp
    then show ?case by blast
  next
    case (again t oc u)
    then obtain ocs where "vmx_run h ocs s = (None, t)" by blast
    with again have "vmx_run h (ocs @ [oc]) s = (None, u)" by (simp add: run_append)
    then show ?case by blast
  qed
next
  assume "\<exists>ocs. vmx_run h ocs s = (None, t)"
  then obtain ocs where "vmx_run h ocs s = (None, t)" by blast
  then show "running h s t"
  proof (induction ocs arbitrary: t rule: rev_induct)
    case (snoc oc ocs)
    then obtain v where v: "vmx_run h ocs s = (None, v)" "vmx_run h [oc] v = (None, t)"
      by (auto simp: run_append split: prod.splits option.splits)
    then have "vmx_iteration h oc v = (None, t)" by (auto split: prod.splits option.splits)
    with snoc.IH [OF v(1)] show ?case by (rule running.again)
  qed (auto intro: running.start)
qed

text \<open>The frame of the run: what an iteration leaves alone, whatever the processor does and whatever
  writes to the VMCS fail, outside a set of addresses.\<close>

definition changes_in_run :: "u32 \<Rightarrow> bool" where
  "changes_in_run e \<longleftrightarrow> field_type e \<in> {1, 2} \<or> e = HOST_RSP"

definition written_by :: "entry_outcome \<Rightarrow> u32 set" where
  "written_by oc = (case oc of Exited ev \<Rightarrow> fst ` set (ev_writes ev) | _ \<Rightarrow> {})"

definition same_frame :: "u32 set \<Rightarrow> vm_state \<Rightarrow> vm_state \<Rightarrow> bool" where
  "same_frame W s t \<longleftrightarrow>
     (\<forall>e. \<not> changes_in_run e \<longrightarrow> vmcs_data t e = vmcs_data s e)
     \<and> (cr3_exits (vmcs_data s) \<longrightarrow> vmcs_data t GUEST_CR3 \<in> {vmcs_data s GUEST_CR3, cr3 s})
     \<and> cr3 t = cr3 s \<and> (\<forall>a. a \<notin> W \<longrightarrow> vm_mem t a = vm_mem s a)"

lemma changes_in_run_fields [simp]:
  "changes_in_run GUEST_RIP" "changes_in_run GUEST_RFLAGS" "changes_in_run GUEST_CR3" "changes_in_run HOST_RSP"
  "\<not> changes_in_run CPU_EXEC_CTRL0" "\<not> changes_in_run CR3_TARGET_COUNT"
  by (simp_all add: changes_in_run_def field_type_def)

lemma same_frame_refl [simp, intro]: "same_frame W s s"
  by (simp add: same_frame_def)

lemma same_frame_mono: "same_frame W s t \<Longrightarrow> W \<subseteq> V \<Longrightarrow> same_frame V s t"
  by (auto simp: same_frame_def)

lemma cr3_exits_kept: "same_frame W s t \<Longrightarrow> cr3_exits (vmcs_data t) = cr3_exits (vmcs_data s)"
  by (simp add: same_frame_def cr3_exits_def)

lemma same_frame_trans: "same_frame W s t \<Longrightarrow> same_frame V t u \<Longrightarrow> same_frame (W \<union> V) s u"
  using cr3_exits_kept [of W s t] by (auto simp: same_frame_def)

lemma same_frame_print [simp]: "same_frame W s (vm_print cs t) = same_frame W s t"
  by (simp add: same_frame_def)

lemma same_frame_write:
  "same_frame W s t \<Longrightarrow> changes_in_run e \<Longrightarrow> e = GUEST_CR3 \<longrightarrow> val = cr3 s \<Longrightarrow> same_frame W s (vmcs_write h e val t)"
  by (auto simp: same_frame_def vmcs_write_def)

lemma same_frame_upd [simp]:
  "same_frame W s (t\<lparr>regs_eflags := x\<rparr>) = same_frame W s t" "same_frame W s (t\<lparr>hypercall_field := x\<rparr>) = same_frame W s t"
  "same_frame W s (t\<lparr>launched := b\<rparr>) = same_frame W s t" "same_frame W s (t\<lparr>guest_finished := x\<rparr>) = same_frame W s t"
  by (simp_all add: same_frame_def)

lemma same_frame_cr3: "same_frame W s t \<Longrightarrow> cr3 t = cr3 s"
  by (simp add: same_frame_def)

lemma handle_hypercall_frame: "same_frame W s t \<Longrightarrow> same_frame W s (snd (handle_hypercall t))"
  by (simp add: handle_hypercall_def Let_def)

lemma exit_switch_frame: "same_frame W s t \<Longrightarrow> same_frame W s (snd (exit_switch h reason eip t))"
  unfolding exit_switch_def
  by (auto simp: same_frame_cr3 Let_def intro!: same_frame_write)

lemma exit_handler_frame: "same_frame W s t \<Longrightarrow> same_frame W s (snd (exit_handler h t))"
  unfolding exit_handler_def
  by (auto simp: Let_def case_prod_beta
      intro!: same_frame_write handle_hypercall_frame exit_switch_frame)

lemma set_fields_other: "e \<notin> fst ` set ws \<Longrightarrow> set_fields ws d e = d e"
  by (rule fold_upd_other)

lemma save_guest_frame:
  "\<not> changes_in_run e \<Longrightarrow> save_guest ev d e = d e" "cr3_exits d \<Longrightarrow> save_guest ev d GUEST_CR3 = d GUEST_CR3"
  unfolding save_guest_def by (rule set_fields_other; auto simp: saved_by_exit_def changes_in_run_def)+

lemma guest_stores_frame: "a \<notin> fst ` set ws \<Longrightarrow> guest_stores ws m a = m a"
  by (induction ws arbitrary: m) (auto simp: guest_stores_def)

lemma record_exit_frame: "same_frame (fst ` set (ev_writes ev)) s (record_exit ev s)"
proof -
  have "vmcs_data (record_exit ev s) e = vmcs_data s e" if "\<not> changes_in_run e" for e
    using that save_guest_frame(1) [OF that]
    by (auto simp: record_exit_def changes_in_run_def field_type_def)
  then show ?thesis
    by (simp add: same_frame_def save_guest_frame guest_stores_frame) (simp add: record_exit_def save_guest_frame guest_stores_frame)
qed

lemma same_frame_gprs [simp]:
  "same_frame W s (t\<lparr>gprs := x\<rparr>) = same_frame W s t" "same_frame W s (t\<lparr>regs := x\<rparr>) = same_frame W s t"
  "same_frame W s (t\<lparr>in_guest := y\<rparr>) = same_frame W s t" "same_frame W s (xchg_gprs t) = same_frame W s t"
  by (simp_all add: same_frame_def xchg_gprs_def)

lemma enter_guest_frame: "same_frame (written_by oc) s (snd (snd (vmx_enter_guest f oc s)))"
proof -
  let ?t = "xchg_gprs (s\<lparr>in_guest := 1, gprs := (gprs s)\<lparr>edi := HOST_RSP\<rparr>,
    vmcs_data := (vmcs_data s)(HOST_RSP := esp s)\<rparr>)"
  have t: "same_frame {} s ?t" by (auto simp: same_frame_def xchg_gprs_def)
  show ?thesis
  proof (cases oc)
    case (Exited ev)
    have "same_frame ({} \<union> written_by oc) s (record_exit ev ?t)"
      using same_frame_trans [OF t record_exit_frame] by (simp add: written_by_def Exited)
    then show ?thesis by (simp add: vmx_enter_guest_def Exited Let_def)
  next
    case (Failed_load r q)
    have "same_frame {} s (?t\<lparr>vmcs_data := (vmcs_data ?t)(EXI_REASON := r OR VMX_ENTRY_FAILURE, EXI_QUALIFICATION := q)\<rparr>)"
      using t by (auto simp: same_frame_def changes_in_run_def field_type_def)
    then show ?thesis by (simp add: vmx_enter_guest_def Failed_load written_by_def Let_def)
  next
    case (Failed_early fl err)
    let ?u = "xchg_gprs ?t"
    have u: "same_frame {} s ?u" using t by simp
    have "same_frame {} s (?u\<lparr>gprs := g, vmcs_data := inst_error fl err (vmcs_data ?u)\<rparr>)" for g
      using u by (auto simp: same_frame_def changes_in_run_def field_type_def inst_error_def)
    then show ?thesis by (simp add: vmx_enter_guest_def Failed_early written_by_def Let_def)
  qed
qed

lemma iteration_frame: "same_frame (written_by oc) s (snd (vmx_iteration h oc s))"
proof -
  let ?p = "vm_print [Printf ''Guest in <<<\<newline>'' []] s" and ?W = "written_by oc"
  obtain b f u where e: "vmx_enter_guest (hw_garbage h) oc ?p = (b, f, u)" by (metis prod.exhaust)
  have "same_frame ?W ?p u" using enter_guest_frame [of oc ?p "hw_garbage h"] by (simp add: e)
  then have u: "same_frame ?W s u" by (simp add: same_frame_def)
  obtain r w where x: "(if b then exit_handler h (u\<lparr>launched := True\<rparr>) else entry_failure_handler u) = (r, w)"
    by fastforce
  have "same_frame ?W s w"
    using u exit_handler_frame [of ?W s "u\<lparr>launched := True\<rparr>" h] x
    by (auto simp: entry_failure_handler_def print_vmexit_info_def split: if_splits)
  then show ?thesis
    by (simp add: vmx_iteration_def e x print_vmexit_info_def print_vmentry_failure_info_def Let_def)
qed

lemma run_frame: "same_frame (\<Union> (written_by ` set ocs)) s (snd (vmx_run h ocs s))"
proof (induction ocs arbitrary: s)
  case (Cons oc ocs)
  obtain r t where rt: "vmx_iteration h oc s = (r, t)" by fastforce
  have it: "same_frame (written_by oc) s t" using iteration_frame [of oc s h] by (simp add: rt)
  show ?case
  proof (cases r)
    case None
    then show ?thesis using same_frame_trans [OF it Cons.IH] by (simp add: rt)
  next
    case (Some e)
    then show ?thesis using same_frame_mono [OF it] by (simp add: rt)
  qed
qed simp

text \<open>The control registers 0 and 4 of the guest are what setup wrote or what an exit has saved: the code
  never writes them again.\<close>

definition saves :: "entry_outcome \<Rightarrow> u32 \<Rightarrow> u32 set" where
  "saves oc e = (case oc of Exited ev \<Rightarrow> {v. (e, v) \<in> set (ev_saved ev)} | _ \<Rightarrow> {})"

lemma set_fields_value: "set_fields ws d e \<in> insert (d e) {v. (e, v) \<in> set ws}"
proof (induction ws arbitrary: d)
  case (Cons w ws)
  define d' where "d' = d(fst w := snd w)"
  have "set_fields (w # ws) d = set_fields ws d'" by (simp add: d'_def)
  moreover have "d' e = d e \<or> (e, d' e) \<in> set (w # ws)" by (cases w) (simp add: d'_def)
  ultimately show ?case using Cons.IH [of d'] by auto
qed simp

lemma enter_guest_saves:
  assumes "e \<in> {GUEST_CR0, GUEST_CR4}"
  shows "vmcs_data (snd (snd (vmx_enter_guest f oc s))) e \<in> insert (vmcs_data s e) (saves oc e)"
proof (cases oc)
  case (Exited ev)
  let ?d = "(vmcs_data s)(HOST_RSP := esp s)"
  have "save_guest ev ?d e \<in> insert (?d e) {v. (e, v) \<in> set (ev_saved ev)}"
    using set_fields_value [of "filter (\<lambda>w. saved_by_exit ?d (fst w)) (ev_saved ev)" ?d e]
    by (auto simp: save_guest_def)
  then show ?thesis
    using assms by (auto simp: Exited vmx_enter_guest_def xchg_gprs_def record_exit_def saves_def Let_def)
qed (use assms in \<open>auto simp: vmx_enter_guest_def xchg_gprs_def saves_def Let_def\<close>)

lemma exit_handler_control:
  assumes "e \<in> {GUEST_CR0, GUEST_CR4}"
  shows "vmcs_data (snd (exit_handler h s)) e = vmcs_data s e"
proof -
  have w: "vmcs_data (vmcs_write h f x t) e = vmcs_data t e" if "f \<in> {GUEST_CR3, GUEST_RIP, GUEST_RFLAGS}" for f x t
    using that assms by (auto simp: vmcs_write_def)
  have sw: "vmcs_data (snd (exit_switch h reason eip t)) e = vmcs_data t e" for reason eip t
    by (simp add: exit_switch_def w Let_def)
  show ?thesis
    by (simp add: exit_handler_def handle_hypercall_def case_prod_beta w sw Let_def)
qed

lemma run_saves:
  assumes "e \<in> {GUEST_CR0, GUEST_CR4}"
  shows "vmcs_data (snd (vmx_run h ocs s)) e \<in> insert (vmcs_data s e) (\<Union>oc\<in>set ocs. saves oc e)"
proof (induction ocs arbitrary: s)
  case (Cons oc ocs)
  let ?p = "vm_print [Printf ''Guest in <<<\<newline>'' []] s"
  obtain b f u where e: "vmx_enter_guest (hw_garbage h) oc ?p = (b, f, u)" by (metis prod.exhaust)
  have u: "vmcs_data u e \<in> insert (vmcs_data s e) (saves oc e)"
    using enter_guest_saves [OF assms, of "hw_garbage h" oc ?p] by (simp add: e)
  obtain r w where x: "(if b then exit_handler h (u\<lparr>launched := True\<rparr>) else entry_failure_handler u) = (r, w)"
    by fastforce
  have w: "vmcs_data w e = vmcs_data u e"
    using exit_handler_control [OF assms, of h "u\<lparr>launched := True\<rparr>"] x
    by (auto simp: entry_failure_handler_def print_vmexit_info_def split: if_splits)
  obtain q t where it: "vmx_iteration h oc s = (q, t)" by fastforce
  have "vmcs_data (snd (vmx_iteration h oc s)) e = vmcs_data u e"
    by (simp add: vmx_iteration_def e x w print_vmexit_info_def print_vmentry_failure_info_def Let_def)
  then have "vmcs_data t e \<in> insert (vmcs_data s e) (saves oc e)" using u by (simp add: it)
  with Cons.IH [of t] show ?case by (auto simp: it split: option.split)
qed simp

lemma vmcs_init_cr3_exits:
  assumes "no_write_fails h" "bit (ctrl_clr (ctrl_cpu_rev0 (read_capabilities s))) 15"
  shows "cr3_exits (vmcs_data (vmcs_init h l s))"
proof -
  have "bit (vmcs_data (vmcs_init h l s) CPU_EXEC_CTRL0) 15"
    using vmcs_init_control_reads(2) [OF assms(1), of l s] assms(2) asked_bits(2)
    by (simp add: vmcs_read_def before_fields_controls force_ctrl_bit)
  then have "vmcs_data (vmcs_init h l s) CPU_EXEC_CTRL0 AND CPU_CR3_LOAD \<noteq> 0"
    unfolding bit_iff_and_push_bit_not_eq_0 by blast
  then show ?thesis
    using vmcs_init_control_reads(5) [OF assms(1), of l s] unfolding cr3_exits_def vmcs_read_def by blast
qed

text \<open>C7. A run never touches what was set up for it: whatever the guest does, and at every point of the
  run, the controls and the host state in the VMCS are the ones \<open>vmcs_init\<close> wrote, but for the host's
  stack pointer. Memory is changed by the guest alone, at the addresses it stores to. The guest's CR3,
  when the controls make its accesses exit, is always the one the guest was given or the host's.\<close>

theorem run_keeps_setup:
  assumes "field_type e \<in> {0, 3}" "e \<noteq> HOST_RSP" "a \<notin> \<Union> (written_by ` set ocs)"
  shows "vmcs_data (snd (vmx_run h ocs s)) e = vmcs_data s e
    \<and> vm_mem (snd (vmx_run h ocs s)) a = vm_mem s a
    \<and> (cr3_exits (vmcs_data s) \<longrightarrow>
        vmcs_data (snd (vmx_run h ocs s)) GUEST_CR3 \<in> {vmcs_data s GUEST_CR3, cr3 s})"
  using run_frame [of ocs s h] assms by (auto simp: same_frame_def changes_in_run_def)

text \<open>A guest that has loaded its segments and stored to two addresses before it halts.\<close>

definition busy_exit :: exit_event where
  "busy_exit = triple_fault\<lparr>ev_reason := VMX_HLT, ev_saved := [(GUEST_SEL_DS, 0x23), (GUEST_CR3, 5)],
     ev_writes := [(0x5000, 1), (0x5001, 2)]\<rparr>"

theorem run_keeps_setup_witness:
  "vmcs_data (snd (vmx_run hw_ok [Exited busy_exit] (vm_state0\<lparr>vmcs_data := (\<lambda>_. 0)(HOST_RIP := 7, CPU_EXEC_CTRL0 := 0x8000)\<rparr>)))
     HOST_RIP = 7
   \<and> vmcs_data (snd (vmx_run hw_ok [Exited busy_exit] (vm_state0\<lparr>vmcs_data := (\<lambda>_. 0)(HOST_RIP := 7, CPU_EXEC_CTRL0 := 0x8000)\<rparr>)))
     GUEST_CR3 \<in> {0, 0xa000}"
proof -
  let ?s = "vm_state0\<lparr>vmcs_data := (\<lambda>_. 0)(HOST_RIP := 7, CPU_EXEC_CTRL0 := 0x8000)\<rparr>"
  have "cr3_exits (vmcs_data ?s)" by (simp add: cr3_exits_def)
  moreover have "vmcs_data ?s GUEST_CR3 = 0" "cr3 ?s = 0xa000" "vmcs_data ?s HOST_RIP = 7"
    by (simp_all add: vm_state0_def)
  ultimately show ?thesis
    using run_keeps_setup [of HOST_RIP "0x8000" "[Exited busy_exit]" hw_ok ?s]
    by (simp add: field_type_def written_by_def busy_exit_def)
qed

text \<open>The flag \<open>guest_finished\<close> and the end of the run.\<close>

lemma vmcs_write_finished [simp]: "guest_finished (vmcs_write h e val s) = guest_finished s"
  by (simp add: vmcs_write_def)

lemma exit_handler_finished: "guest_finished (snd (exit_handler h s)) = guest_finished s"
  by (auto simp: exit_handler_def exit_switch_def handle_hypercall_def Let_def case_prod_beta)

lemma iteration_finished:
  "guest_finished (snd (vmx_iteration h oc s)) =
     (if fst (vmx_iteration h oc s) = Some Returns_0 then 1 else guest_finished s)"
proof -
  let ?p = "vm_print [Printf ''Guest in <<<\<newline>'' []] s"
  obtain b f u where e: "vmx_enter_guest (hw_garbage h) oc ?p = (b, f, u)" by (metis prod.exhaust)
  have u: "guest_finished u = guest_finished s"
    using arg_cong [OF e, of "\<lambda>e. snd (snd e)"]
    by (cases oc) (auto simp: vmx_enter_guest_def xchg_gprs_def record_exit_def Let_def)
  obtain r w where x: "(if b then exit_handler h (u\<lparr>launched := True\<rparr>) else entry_failure_handler u) = (r, w)"
    by fastforce
  have "guest_finished w = guest_finished s"
    using u exit_handler_finished [of h "u\<lparr>launched := True\<rparr>"] x
    by (auto simp: entry_failure_handler_def print_vmexit_info_def split: if_splits)
  then show ?thesis
    by (simp add: vmx_iteration_def e x print_vmexit_info_def print_vmentry_failure_info_def Let_def)
qed

text \<open>\<open>guest_finished\<close> says how the run ended: it is set exactly when the function returned 0. A run
  that fell through, or is still going, has left it as it was.\<close>

theorem guest_finished_iff:
  "guest_finished (snd (vmx_run h ocs s)) =
     (if fst (vmx_run h ocs s) = Some Returns_0 then 1 else guest_finished s)"
proof (induction ocs arbitrary: s)
  case (Cons oc ocs)
  obtain r t where rt: "vmx_iteration h oc s = (r, t)" by fastforce
  show ?case using iteration_finished [of h oc s] Cons.IH [of t] by (auto simp: rt split: option.split)
qed simp

end
