(* ===== verification/Vmx_Enable.thy ===== *)
theory Vmx_Enable
  imports Vmx_Run "HOL-Library.Sublist"
begin

text \<open>
  The whole of \<open>virt_enable\<close> of \<open>src/kernel/vm/vm.c\<close>: on which condition it gives up, what it reports, and
  what it leaves alone, whatever the instructions and the guest do.
\<close>

unbundle bit_operations_syntax

section \<open>What the parts keep\<close>

text \<open>Messages are only added, and the MSRs and the memory outside a set of addresses stay.\<close>

definition keeps :: "u32 set \<Rightarrow> vm_state \<Rightarrow> vm_state \<Rightarrow> bool" where
  "keeps W s t \<longleftrightarrow> prefix (vm_out s) (vm_out t) \<and> msr t = msr s \<and> (\<forall>a. a \<notin> W \<longrightarrow> vm_mem t a = vm_mem s a)"

named_theorems keeps_intros

lemma keeps_refl [keeps_intros]: "keeps W s s"
  by (simp add: keeps_def)

lemma keeps_trans: "keeps W s t \<Longrightarrow> keeps V t u \<Longrightarrow> keeps (W \<union> V) s u"
  by (auto simp: keeps_def)

lemma keeps_mono: "keeps W s t \<Longrightarrow> W \<subseteq> V \<Longrightarrow> keeps V s t"
  by (auto simp: keeps_def)

lemma keeps_print [keeps_intros]: "keeps W s t \<Longrightarrow> keeps W s (vm_print cs t)"
  by (auto simp: keeps_def vm_print_def)

lemma keeps_write [keeps_intros]: "keeps W s t \<Longrightarrow> keeps W s (vmcs_write h e x t)"
  by (auto simp: keeps_def vm_print_def vmcs_write_def)

lemma keeps_writes [keeps_intros]: "keeps W s t \<Longrightarrow> keeps W s (vmcs_writes h ws t)"
  by (induction ws arbitrary: t) (auto simp: vmcs_writes_def intro: keeps_write)

lemma keeps_upd [keeps_intros]:
  "keeps W s t \<Longrightarrow> keeps W s (t\<lparr>vmcs_data := d\<rparr>)" "keeps W s t \<Longrightarrow> keeps W s (t\<lparr>regs_eflags := x\<rparr>)"
  "keeps W s t \<Longrightarrow> keeps W s (t\<lparr>hypercall_field := x\<rparr>)" "keeps W s t \<Longrightarrow> keeps W s (t\<lparr>launched := b\<rparr>)"
  "keeps W s t \<Longrightarrow> keeps W s (t\<lparr>guest_finished := x\<rparr>)" "keeps W s t \<Longrightarrow> keeps W s (t\<lparr>gprs := r\<rparr>)"
  "keeps W s t \<Longrightarrow> keeps W s (t\<lparr>regs := r\<rparr>)" "keeps W s t \<Longrightarrow> keeps W s (t\<lparr>in_guest := x\<rparr>)"
  "keeps W s t \<Longrightarrow> keeps W s (t\<lparr>ctrl_cpu1 := x\<rparr>)" "keeps W s t \<Longrightarrow> keeps W s (xchg_gprs t)"
  by (simp_all add: keeps_def xchg_gprs_def)

lemma keeps_record_exit: "keeps W s t \<Longrightarrow> fst ` set (ev_writes ev) \<subseteq> W \<Longrightarrow> keeps W s (record_exit ev t)"
proof -
  assume a: "keeps W s t" "fst ` set (ev_writes ev) \<subseteq> W"
  have "guest_stores (ev_writes ev) (vm_mem t) b = vm_mem t b" if "b \<notin> W" for b
    using a(2) that by (intro guest_stores_frame) blast
  then show "keeps W s (record_exit ev t)" using a(1) by (auto simp: keeps_def record_exit_def)
qed

subsection \<open>The run\<close>

lemma keeps_enter_guest: "keeps (written_by oc) s (snd (snd (vmx_enter_guest f oc s)))"
  by (cases oc) (simp_all add: vmx_enter_guest_def Let_def written_by_def keeps_intros keeps_record_exit)

lemma keeps_switch: "keeps W s t \<Longrightarrow> keeps W s (snd (exit_switch h r eip t))"
  by (simp add: exit_switch_def Let_def keeps_intros)

lemma keeps_hypercall: "keeps W s t \<Longrightarrow> keeps W s (snd (handle_hypercall t))"
  by (simp add: handle_hypercall_def Let_def keeps_intros)

lemma keeps_handler: "keeps W s t \<Longrightarrow> keeps W s (snd (exit_handler h t))"
  by (simp add: exit_handler_def Let_def case_prod_beta keeps_intros keeps_switch keeps_hypercall)

lemma keeps_iteration: "keeps (written_by oc) s (snd (vmx_iteration h oc s))"
proof -
  let ?p = "vm_print [Printf ''Guest in <<<\<newline>'' []] s" and ?W = "written_by oc"
  obtain b f u where e: "vmx_enter_guest (hw_garbage h) oc ?p = (b, f, u)" by (metis prod.exhaust)
  have "keeps ?W ?p u" using keeps_enter_guest [of oc ?p "hw_garbage h"] by (simp add: e)
  moreover have "keeps {} s ?p" by (intro keeps_intros)
  ultimately have u: "keeps ?W s u" using keeps_trans [of "{}"] by fastforce
  obtain r w where x: "(if b then exit_handler h (u\<lparr>launched := True\<rparr>) else entry_failure_handler u) = (r, w)"
    by fastforce
  have "keeps ?W s w"
    using keeps_handler [OF keeps_upd(4) [OF u], of h True] keeps_print [OF u] x
    by (auto simp: entry_failure_handler_def print_vmexit_info_def split: if_splits)
  then show ?thesis
    by (simp add: vmx_iteration_def e x print_vmexit_info_def print_vmentry_failure_info_def keeps_intros Let_def)
qed

lemma keeps_run: "keeps (\<Union> (written_by ` set ocs)) s (snd (vmx_run h ocs s))"
proof (induction ocs arbitrary: s)
  case (Cons oc ocs)
  obtain r t where rt: "vmx_iteration h oc s = (r, t)" by fastforce
  have it: "keeps (written_by oc) s t" using keeps_iteration [of oc s h] by (simp add: rt)
  show ?case
    using keeps_trans [OF it Cons.IH] keeps_mono [OF it] by (cases r) (simp_all add: rt)
qed (simp add: keeps_refl)

subsection \<open>The setup\<close>

definition vmx_regions :: "u32 set" where
  "vmx_regions = span 0x201000 4096 \<union> span 0x202000 4096"

lemma keeps_init_vmx: "keeps vmx_regions s (init_vmx s)"
proof -
  have "a \<notin> span 0x201000 4096 \<Longrightarrow> a \<notin> span 0x201000 4" for a :: u32
    using span_mono [of 4 4096 "0x201000"] by auto
  then show ?thesis
    by (auto simp: keeps_def init_vmx_def vmx_regions_def rdmsr_def store32_outside memset_outside Let_def)
qed

lemma keeps_clear_ptrld: "keeps vmx_regions s (snd (clear_ptrld h s))"
proof -
  let ?m1 = "memset (vm_mem s) 0x202000 0 4096"
  let ?m = "store32 ?m1 0x202000 ((load32 ?m1 0x202000 AND push_bit 31 1) OR (basic_revision (basic s) AND mask 31))"
  have "?m a = vm_mem s a" if "a \<notin> vmx_regions" for a
  proof -
    have "a \<notin> span 0x202000 4096" "a \<notin> span 0x202000 4"
      using that span_mono [of 4 4096 "0x202000"] by (auto simp: vmx_regions_def)
    then show ?thesis by (simp add: store32_outside memset_outside)
  qed
  then have "keeps vmx_regions s (s\<lparr>vmcs := 0x202000, vm_mem := ?m\<rparr>)" by (simp add: keeps_def)
  then show ?thesis unfolding clear_ptrld_def Let_def by (auto intro!: keeps_print)
qed

lemma keeps_setup: "keeps W s t \<Longrightarrow> keeps W s (init_page_table_test (choose_controls (read_capabilities t)))"
  by (auto simp: keeps_def init_page_table_test_def choose_controls_def read_capabilities_def vm_print_def Let_def)

lemma keeps_vmcs_init:
  assumes "aligned (guest_page_dir l) 4096" "aligned (guest_page_table l) 4096" "guest_page_dir l \<noteq> guest_page_table l"
  shows "keeps (span (guest_page_dir l) 4096 \<union> span (guest_page_table l) 4096) s (vmcs_init h l s)"
proof -
  let ?W = "span (guest_page_dir l) 4096 \<union> span (guest_page_table l) 4096"
  let ?t = "init_vmcs_host h l (init_vmcs_ctrl h (init_page_table_test (choose_controls (read_capabilities s))))"
  have t: "keeps ?W s ?t"
    unfolding init_vmcs_host_def init_vmcs_ctrl_def Let_def
    by (auto intro!: keeps_intros keeps_setup)
  obtain m out c3 where g: "setup_guest_page_tables (guest_page_dir l) (guest_page_table l) (vm_mem ?t) = (m, out, c3)"
    by (metis prod.exhaust)
  have "m a = vm_mem ?t a" if "a \<notin> ?W" for a
    using guest_tables(3) [OF assms, of 0 m "vm_mem ?t" a] g that by simp
  then have "keeps ?W s (vm_print out (?t\<lparr>vm_mem := m\<rparr>))"
    using t by (intro keeps_print) (simp add: keeps_def)
  then show ?thesis
    unfolding vmcs_init_def init_vmcs_guest_def [of h l ?t] g Let_def prod.case by (intro keeps_writes)
qed

section \<open>The whole function\<close>

text \<open>The processor has VMX and the BIOS has not locked it away.\<close>

definition vmx_supported :: "hw \<Rightarrow> vm_state \<Rightarrow> bool" where
  "vmx_supported h s \<longleftrightarrow> bit (hw_cpuid1_ecx h) 5
     \<and> (bit (msr s MSR_IA32_FEATURE_CONTROL) 0 \<longrightarrow> bit (msr s MSR_IA32_FEATURE_CONTROL) 2)"

text \<open>The control MSR afterwards: enabled and locked, if it was not locked yet.\<close>

definition enabled_msr :: "hw \<Rightarrow> vm_state \<Rightarrow> u32 \<Rightarrow> u64" where
  "enabled_msr h s =
     (if bit (hw_cpuid1_ecx h) 5 \<and> \<not> bit (msr s MSR_IA32_FEATURE_CONTROL) 0
      then (msr s)(MSR_IA32_FEATURE_CONTROL := 5) else msr s)"

definition enabled :: "hw \<Rightarrow> vm_state \<Rightarrow> vm_state" where
  "enabled h s = s\<lparr>msr := enabled_msr h s\<rparr>"

lemma and_5_bits: "x AND 5 = 5 \<longleftrightarrow> bit x 0 \<and> bit x 2" "x AND 1 \<noteq> 0 \<longleftrightarrow> bit x 0" for x :: u32
proof -
  have b: "bit (5 :: u32) n \<longleftrightarrow> n = 0 \<or> n = 2" for n
  proof -
    have e: "(5 :: u32) = 1 OR push_bit 2 1" by simp
    show ?thesis unfolding e bit_or_iff bit_push_bit_iff bit_1_iff by auto
  qed
  show "x AND 5 = 5 \<longleftrightarrow> bit x 0 \<and> bit x 2"
  proof
    assume e: "x AND 5 = 5"
    have "bit (x AND 5) 0" "bit (x AND 5) 2" unfolding e by (simp_all add: b)
    then show "bit x 0 \<and> bit x 2" by (simp add: bit_and_iff)
  next
    assume "bit x 0 \<and> bit x 2"
    then show "x AND 5 = 5" by (intro bit_word_eqI) (unfold bit_and_iff b, auto)
  qed
  show "x AND 1 \<noteq> 0 \<longleftrightarrow> bit x 0"
    by (simp add: and_one_eq bit_0 odd_iff_mod_2_eq_one)
qed

lemma is_vmx_supported_eq:
  "fst (is_vmx_supported h s) = vmx_supported h s"
  "\<exists>cs. snd (is_vmx_supported h s) = vm_print cs (enabled h s)"
proof -
  let ?m = "msr s MSR_IA32_FEATURE_CONTROL"
  have md: "(ucast ?m :: u32) AND 5 = 5 \<longleftrightarrow> bit ?m 0 \<and> bit ?m 2" "(ucast ?m :: u32) AND 1 \<noteq> 0 \<longleftrightarrow> bit ?m 0"
    unfolding and_5_bits by (simp_all add: bit_ucast_iff)
  have ecx: "hw_cpuid1_ecx h AND push_bit 5 1 \<noteq> 0 \<longleftrightarrow> bit (hw_cpuid1_ecx h) 5"
    using bit_iff_and_push_bit_not_eq_0 [of "hw_cpuid1_ecx h" 5] by blast
  have m: "rdmsr i (vm_print cs t) = msr t i" for i cs t by (simp add: rdmsr_def vm_print_def)
  have w: "wrmsr i x (vm_print cs t) = vm_print cs (t\<lparr>msr := (msr t)(i := x)\<rparr>)" for i x cs t
    by (simp add: wrmsr_def vm_print_def)
  have p: "msr (vm_print cs t) = msr t" for cs t by (simp add: vm_print_def)
  have same: "s\<lparr>msr := msr s\<rparr> = s" by simp
  show "fst (is_vmx_supported h s) = vmx_supported h s"
    unfolding is_vmx_supported_def Let_def vm_print_print m p ecx md
    by (auto simp: vmx_supported_def)
  show "\<exists>cs. snd (is_vmx_supported h s) = vm_print cs (enabled h s)"
    unfolding is_vmx_supported_def Let_def vm_print_print m w p ecx md enabled_msr_def enabled_def
    by (cases "bit (hw_cpuid1_ecx h) 5"; cases "bit ?m 0"; cases "bit ?m 2") (auto simp: same vm_print_def)
qed


text \<open>The message with which \<open>virt_enable\<close> ends.\<close>

definition last_message :: "hw \<Rightarrow> vm_state \<Rightarrow> pcall" where
  "last_message h s =
     (if \<not> vmx_supported h s then Printf ''vmx is not support\<newline>'' []
      else if hw_vmxon h \<noteq> VMsucceed then Printf ''Error: %s : vmxon failed\<newline>'' [PStr ''virt_enable'']
      else if hw_vmxoff h \<noteq> VMsucceed then Printf ''Error: %s : vmxoff failed\<newline>'' [PStr ''virt_enable'']
      else Printf ''vmx test finished\<newline>'' [])"

lemma init_vmx_print: "init_vmx (vm_print cs s) = vm_print cs (init_vmx s)"
  by (simp add: init_vmx_def vm_print_def rdmsr_def Let_def)

lemma last_print: "last (vm_out (vm_print [c] s)) = c"
  by (simp add: vm_print_def)

text \<open>The state in which the guest is first entered, up to the messages so far.\<close>

definition ready :: "hw \<Rightarrow> layout \<Rightarrow> vm_state \<Rightarrow> vm_state" where
  "ready h l s = vmcs_init h l (snd (clear_ptrld h (init_vmx (enabled h s))))"

text \<open>Where memory may change.\<close>

definition touched :: "layout \<Rightarrow> entry_outcome list \<Rightarrow> u32 set" where
  "touched l ocs = vmx_regions \<union> span (guest_page_dir l) 4096 \<union> span (guest_page_table l) 4096
     \<union> \<Union> (written_by ` set ocs)"

text \<open>Messages have no influence on the setup.\<close>

lemma quiet_eq: "quiet s = quiet t \<Longrightarrow> \<exists>x. t = s\<lparr>vm_out := x\<rparr>"
  by (cases s; cases t) (simp add: quiet_def)

lemma quiet_write: "quiet s = quiet t \<Longrightarrow> quiet (vmcs_write h e x s) = quiet (vmcs_write h e x t)"
  using quiet_eq [of s t] by (auto simp: vmcs_write_def vm_print_def quiet_def)

lemma quiet_writes: "quiet s = quiet t \<Longrightarrow> quiet (vmcs_writes h ws s) = quiet (vmcs_writes h ws t)"
proof (induction ws arbitrary: s t)
  case (Cons w ws)
  from Cons.IH [OF quiet_write [OF Cons.prems]] show ?case by (cases w) (simp add: vmcs_writes_def)
qed (simp add: vmcs_writes_def)

lemma writes_ctrl_fields:
  "ctrl_cpu_rev0 (vmcs_writes h ws s) = ctrl_cpu_rev0 s" "ctrl_cpu_rev1 (vmcs_writes h ws s) = ctrl_cpu_rev1 s"
  "ctrl_cpu1 (vmcs_writes h ws s) = ctrl_cpu1 s"
  by (induction ws arbitrary: s) (auto simp: vmcs_writes_def vmcs_write_def vm_print_def)

lemma quiet_ctrl:
  assumes "quiet s = quiet t"
  shows "quiet (init_vmcs_ctrl h s) = quiet (init_vmcs_ctrl h t)"
proof -
  obtain x where t: "t = s\<lparr>vm_out := x\<rparr>" using quiet_eq [OF assms] by blast
  have same: "ctrl_pin t = ctrl_pin s" "ctrl_cpu0 t = ctrl_cpu0 s" "ctrl_cpu_rev0 t = ctrl_cpu_rev0 s"
    "ctrl_cpu_rev1 t = ctrl_cpu_rev1 s" "ctrl_cpu1 t = ctrl_cpu1 s"
    by (simp_all add: t)
  have c: "quiet u = quiet v \<Longrightarrow> quiet (u\<lparr>ctrl_cpu1 := z\<rparr>) = quiet (v\<lparr>ctrl_cpu1 := z\<rparr>)" for u v z
    using quiet_eq [of u v] by (auto simp: quiet_def)
  let ?ws = "[(PIN_CONTROLS, ctrl_pin s), (CPU_EXEC_CTRL0, ctrl_cpu0 s)]"
  have w: "quiet (vmcs_writes h ?ws s) = quiet (vmcs_writes h ?ws t)" by (rule quiet_writes [OF assms])
  show ?thesis
    unfolding init_vmcs_ctrl_def Let_def quiet_print writes_ctrl_fields same
    by (rule quiet_writes) (simp only: if_distrib [of quiet], intro if_cong refl quiet_write c w)
qed

lemma quiet_host: "quiet s = quiet t \<Longrightarrow> quiet (init_vmcs_host h l s) = quiet (init_vmcs_host h l t)"
proof -
  assume q: "quiet s = quiet t"
  then obtain x where "t = s\<lparr>vm_out := x\<rparr>" using quiet_eq by blast
  then have "host_fields l t = host_fields l s" by (simp add: host_fields_def)
  then show ?thesis unfolding init_vmcs_host_def using quiet_writes [OF q] by simp
qed

lemma quiet_guest: "quiet s = quiet t \<Longrightarrow> quiet (init_vmcs_guest h l s) = quiet (init_vmcs_guest h l t)"
proof -
  assume q: "quiet s = quiet t"
  then obtain x where t: "t = s\<lparr>vm_out := x\<rparr>" using quiet_eq by blast
  obtain m out c3 where g: "setup_guest_page_tables (guest_page_dir l) (guest_page_table l) (vm_mem s) = (m, out, c3)"
    by (metis prod.exhaust)
  have "quiet (s\<lparr>vm_mem := m\<rparr>) = quiet (t\<lparr>vm_mem := m\<rparr>)" by (simp add: t quiet_def)
  then have "quiet (vm_print out (s\<lparr>vm_mem := m\<rparr>)) = quiet (vm_print out (t\<lparr>vm_mem := m\<rparr>))" by (simp only: quiet_print)
  note w = quiet_writes [OF this]
  have "cr0 t = cr0 s" "cr4 (vm_print out (t\<lparr>vm_mem := m\<rparr>)) = cr4 (vm_print out (s\<lparr>vm_mem := m\<rparr>))" "vm_mem t = vm_mem s"
    by (simp_all add: t vm_print_def)
  then show ?thesis unfolding init_vmcs_guest_def Let_def by (simp add: g w)
qed

lemma quiet_vmcs_init:
  assumes "quiet s = quiet t"
  shows "quiet (vmcs_init h l s) = quiet (vmcs_init h l t)"
proof -
  obtain x where t: "t = s\<lparr>vm_out := x\<rparr>" using quiet_eq [OF assms] by blast
  have "quiet (init_page_table_test (choose_controls (read_capabilities s))) =
      quiet (init_page_table_test (choose_controls (read_capabilities t)))"
    unfolding init_page_table_test_def quiet_print
    by (simp add: t choose_controls_def read_capabilities_def rdmsr_def quiet_def Let_def)
  then show ?thesis unfolding vmcs_init_def by (intro quiet_guest quiet_host quiet_ctrl)
qed

lemma quiet_clear_ptrld: "quiet (snd (clear_ptrld h (vm_print cs s))) = quiet (snd (clear_ptrld h s))"
  by (simp add: clear_ptrld_def vm_print_def quiet_def Let_def)

lemma virt_enable_paths:
  assumes "aligned (guest_page_dir l) 4096" "aligned (guest_page_table l) 4096" "guest_page_dir l \<noteq> guest_page_table l"
  shows "\<exists>s5. quiet s5 = quiet (ready h l s)
    \<and> (case virt_enable h l ocs s of
         None \<Rightarrow> vmx_supported h s \<and> hw_vmxon h = VMsucceed \<and> fst (vmx_run h ocs s5) = None
       | Some t \<Rightarrow> last (vm_out t) = last_message h s \<and> keeps (touched l ocs) (enabled h s) t
           \<and> quiet t = (if \<not> vmx_supported h s then quiet (enabled h s)
                        else if hw_vmxon h \<noteq> VMsucceed then quiet (init_vmx (enabled h s))
                        else quiet (snd (vmx_run h ocs s5))))"
proof -
  let ?s1 = "enabled h s"
  obtain cs where sup: "is_vmx_supported h s = (vmx_supported h s, vm_print cs ?s1)"
  proof -
    obtain cs where "snd (is_vmx_supported h s) = vm_print cs ?s1" using is_vmx_supported_eq(2) by blast
    then show thesis using that is_vmx_supported_eq(1) [of h s] by (cases "is_vmx_supported h s") simp
  qed
  let ?s2 = "vm_print cs (init_vmx ?s1)"
  obtain r s3 where c: "clear_ptrld h ?s2 = (r, s3)" by fastforce
  obtain ds where s4: "(if r \<noteq> 0 then vm_print [Printf ''Error: %s : vmclear vmptrld failed\<newline>'' [PStr ''virt_enable'']] s3 else s3)
      = vm_print ds s3"
    using vm_print_Nil by metis
  let ?s5 = "vmcs_init h l (vm_print ds s3)"
  obtain e s6 where run: "vmx_run h ocs ?s5 = (e, s6)" by fastforce
  have "quiet s3 = quiet (snd (clear_ptrld h (init_vmx ?s1)))"
    using quiet_clear_ptrld [of h cs "init_vmx ?s1"] by (simp add: c)
  then have q5: "quiet ?s5 = quiet (ready h l s)"
    unfolding ready_def by (intro quiet_vmcs_init) (simp only: quiet_print)
  have k1: "keeps {} ?s1 (vm_print cs ?s1)" by (intro keeps_intros)
  have k2: "keeps vmx_regions ?s1 ?s2" by (intro keeps_print keeps_init_vmx)
  have k3: "keeps vmx_regions ?s1 (vm_print ds s3)"
    using keeps_trans [OF k2, of vmx_regions s3] keeps_clear_ptrld [of ?s2 h] by (auto simp: c intro: keeps_print)
  have k6: "keeps (touched l ocs) ?s1 s6"
    using keeps_trans [OF keeps_trans [OF k3 keeps_vmcs_init [OF assms(1-3)]] keeps_run [of ocs ?s5 h]]
    by (simp add: run touched_def Un_assoc)
  have v: "virt_enable h l ocs s =
      (if \<not> vmx_supported h s then Some (vm_print [last_message h s] (vm_print cs ?s1))
       else if hw_vmxon h \<noteq> VMsucceed then Some (vm_print [last_message h s] ?s2)
       else case e of None \<Rightarrow> None | Some _ \<Rightarrow> Some (vm_print [last_message h s] s6))"
    unfolding virt_enable_def Let_def sup prod.case init_vmx_print c s4 run vmx_instructions
    by (simp add: last_message_def split: option.split)
  have "keeps (touched l ocs) ?s1 (vm_print [m] (vm_print cs ?s1))" "keeps (touched l ocs) ?s1 (vm_print [m] ?s2)" "keeps (touched l ocs) ?s1 (vm_print [m] s6)" for m
    using keeps_mono [OF k1] keeps_mono [OF k2] k6 by (simp_all add: keeps_print touched_def Un_assoc)
  then show ?thesis
    using q5 by (intro exI [of _ ?s5]) (auto simp: v run last_print split: option.split)
qed

text \<open>C8. \<open>virt_enable\<close> on every path, whatever the instructions and the guest do. It gives up, with all but
  the message and the control MSR as before, when the processor has no VMX or the BIOS has locked it
  away, and after \<open>init_vmx\<close> when VMXON fails. Otherwise it runs the guest from the state that the setup
  leaves, whatever \<open>clear_ptrld\<close> has returned, and goes on as long as the run does. The last message is
  the one of the first of these failures or of VMXOFF, and says that the test is finished if there
  was none, whatever the end of the run was. Memory changes only in the two regions of VMX, in the
  tables of the guest and where the guest stores.\<close>

theorem virt_enable_correct:
  assumes "aligned (guest_page_dir l) 4096" "aligned (guest_page_table l) 4096" "guest_page_dir l \<noteq> guest_page_table l"
  shows "\<exists>s5. quiet s5 = quiet (ready h l s)
    \<and> (case virt_enable h l ocs s of
         None \<Rightarrow> vmx_supported h s \<and> hw_vmxon h = VMsucceed \<and> fst (vmx_run h ocs s5) = None
       | Some t \<Rightarrow> last (vm_out t) = last_message h s \<and> keeps (touched l ocs) (enabled h s) t
           \<and> quiet t = (if \<not> vmx_supported h s then quiet (enabled h s)
                        else if hw_vmxon h \<noteq> VMsucceed then quiet (init_vmx (enabled h s))
                        else quiet (snd (vmx_run h ocs s5))))"
  using assms by (rule virt_enable_paths)

text \<open>A processor that rejects the guest's state and whose VMXOFF fails.\<close>

definition hw_off :: hw where
  "hw_off = hw_ok\<lparr>hw_vmxoff := VMfailInvalid\<rparr>"

theorem virt_enable_correct_witness:
  "case virt_enable hw_off layout0 [Failed_load 33 0] vm_state0 of
     None \<Rightarrow> False
   | Some t \<Rightarrow> last (vm_out t) = Printf ''Error: %s : vmxoff failed\<newline>'' [PStr ''virt_enable'']
       \<and> msr t MSR_IA32_FEATURE_CONTROL = 5 \<and> vm_mem t 0x5000 = 0"
proof -
  have al: "aligned (guest_page_dir layout0) 4096" "aligned (guest_page_table layout0) 4096"
    "guest_page_dir layout0 \<noteq> guest_page_table layout0" by (simp_all add: layout0_def aligned_def)
  have sup: "vmx_supported hw_off vm_state0" and m: "enabled_msr hw_off vm_state0 MSR_IA32_FEATURE_CONTROL = 5"
    by (simp_all add: vmx_supported_def enabled_msr_def hw_off_def hw_ok_def vm_state0_def)
  have on: "hw_vmxon hw_off = VMsucceed" and off: "hw_vmxoff hw_off \<noteq> VMsucceed" by (simp_all add: hw_off_def hw_ok_def)
  have w: "0x5000 \<notin> touched layout0 [Failed_load 33 0]"
    by (simp add: touched_def vmx_regions_def layout0_def span_iff written_by_def)
  have load: "fst (vmx_run h [Failed_load 33 0] s) = Some Falls_through" for h s
    using iteration_failed_load [of h 33 0 s] by (cases "vmx_iteration h (Failed_load 33 0) s") simp
  show ?thesis
    using virt_enable_correct [OF al, of hw_off vm_state0 "[Failed_load 33 0]"] sup on off m w load
    by (auto simp: last_message_def keeps_def enabled_def vm_state0_def split: option.splits)
qed

end
