(* ===== verification/Guest_Program.thy ===== *)
theory Guest_Program
  imports Vmx_Run
begin

text \<open>
  The program that runs in the guest, \<open>guest_entry\<close> of \<open>src/kernel/vm/vm_as.S\<close> with \<open>hypercall\<close> of \<open>vm.c\<close>,
  and the guest and the monitor together: the instructions are decoded from the bytes in memory, every
  access goes through the page tables that the VMCS names, and the controls in the VMCS decide which
  instructions exit. What the compiler makes of \<open>hypercall\<close> is a parameter.
\<close>

unbundle bit_operations_syntax

section \<open>Address translation while the guest runs\<close>

lemma vmcs_writes_cr3 [simp]: "cr3 (vmcs_writes h vs t) = cr3 t"
  by (induction vs arbitrary: t) (auto simp: vmcs_writes_def vmcs_write_def vm_print_def)

lemma setup_cr3 [simp]:
  "cr3 (read_capabilities s) = cr3 s" "cr3 (choose_controls s) = cr3 s"
  "cr3 (init_page_table_test s) = cr3 s" "cr3 (init_vmcs_host h l s) = cr3 s"
  "cr3 (init_vmcs_ctrl h s) = cr3 s" "cr3 (init_vmcs_guest h l s) = cr3 s"
  by (simp_all add: read_capabilities_def choose_controls_def init_page_table_test_def init_vmcs_host_def
      init_vmcs_ctrl_def init_vmcs_guest_def vmcs_write_def vm_print_def Let_def split: prod.split)

lemma vmcs_init_cr3: "cr3 (vmcs_init h l s) = cr3 s"
  by (simp only: vmcs_init_def setup_cr3)

text \<open>Everything about memory that the guest's translation rests on: the arrays of the guest's tables are
  pages of their own, and the host's CR3 names a page that holds the loader's page directory.\<close>

definition paging_ok :: "layout \<Rightarrow> vm_state \<Rightarrow> bool" where
  "paging_ok l s \<longleftrightarrow> aligned (guest_page_dir l) 4096 \<and> aligned (guest_page_table l) 4096 \<and> aligned (cr3 s) 4096
     \<and> guest_page_dir l \<noteq> guest_page_table l \<and> cr3 s \<noteq> guest_page_dir l \<and> cr3 s \<noteq> guest_page_table l
     \<and> list_all (\<lambda>i. load_elem (vm_mem s) (cr3 s) i = page_dir ! i) [0..<1024]"

lemma host_dir_kept:
  assumes "paging_ok l s"
  shows "\<forall>i<1024. load_elem (vm_mem (vmcs_init h l s)) (cr3 s) i = page_dir ! i"
proof (intro allI impI)
  fix i :: nat assume i: "i < 1024"
  have al: "aligned (guest_page_dir l) 4096" "aligned (guest_page_table l) 4096" "aligned (cr3 s) 4096"
    and ne: "guest_page_dir l \<noteq> guest_page_table l" "cr3 s \<noteq> guest_page_dir l" "cr3 s \<noteq> guest_page_table l"
    and dir: "load_elem (vm_mem s) (cr3 s) i = page_dir ! i"
    using assms i by (auto simp: paging_ok_def list_all_iff)
  have "vm_mem (vmcs_init h l s) b = vm_mem s b" if "b \<in> span (cr3 s + 4 * of_nat i) 4" for b
  proof -
    have "b \<in> span (cr3 s) 4096"
      using that i span_sub [of "4 * i" 4 4096 "cr3 s"] by auto
    then have "b \<notin> span (guest_page_dir l) 4096" "b \<notin> span (guest_page_table l) 4096"
      using pages_disjoint [OF al(3,1) ne(2)] pages_disjoint [OF al(3,2) ne(3)] by auto
    then show ?thesis
      using guest_tables(3) [OF al(1,2) ne(1), of 0] by (simp add: vmcs_init_mem)
  qed
  then show "load_elem (vm_mem (vmcs_init h l s)) (cr3 s) i = page_dir ! i"
    unfolding dir [symmetric] load_elem_def by (rule load32_cong)
qed

text \<open>The pages of the tables that either CR3 names.\<close>

definition table_pages :: "layout \<Rightarrow> vm_state \<Rightarrow> u32 set" where
  "table_pages l s = span (guest_page_dir l) 4096 \<union> span (guest_page_table l) 4096 \<union> span (cr3 s) 4096"

lemma page_dir_kept:
  assumes "aligned p 4096" "\<And>b. b \<in> span p 4096 \<Longrightarrow> m b = m' b" "\<forall>i<1024. load_elem m' p i = f i"
  shows "\<forall>i<1024. load_elem m p i = f i"
  using load_elem_cong [OF assms(1) _ assms(2)] assms(3) by simp

text \<open>What the two sets of tables translate to, in any memory that still has them.\<close>

lemma tables_translate:
  assumes "paging_ok l s" "\<And>b. b \<in> table_pages l s \<Longrightarrow> m b = vm_mem (vmcs_init h l s) b"
  shows "page_walk m (guest_page_dir l) wr a = (if wr \<and> drop_bit 12 a = 0x103 then None else Some a)"
    and "page_walk m (cr3 s) wr a = (if a < 0x400000 then Some a else None)"
proof -
  have tables: "aligned (guest_page_dir l) 4096" "aligned (guest_page_table l) 4096"
    "guest_page_dir l \<noteq> guest_page_table l" "aligned (cr3 s) 4096"
    using assms(1) by (auto simp: paging_ok_def)
  show "page_walk m (guest_page_dir l) wr a = (if wr \<and> drop_bit 12 a = 0x103 then None else Some a)"
    by (rule guest_walk [OF tables(1-3), of _ "vm_mem s"]) (simp add: assms(2) table_pages_def vmcs_init_mem)
  show "page_walk m (cr3 s) wr a = (if a < 0x400000 then Some a else None)"
    by (rule host_walk [OF tables(4) page_dir_kept [OF tables(4) _ host_dir_kept [OF assms(1)]]])
      (simp add: assms(2) table_pages_def)
qed

text \<open>The loader's directory at \<open>0xa000\<close>, as its one entry that is not zero.\<close>

definition loaded0 :: vm_state where
  "loaded0 = vm_state0\<lparr>vm_mem := store_elem 0xa000 0 (page_dir ! 0) (\<lambda>_. 0)\<rparr>"

lemma loaded0_ok: "paging_ok layout0 loaded0" "cr3 loaded0 = 0xa000"
proof -
  have al: "aligned 0xa000 4096" by (simp add: aligned_def)
  have z: "load_elem (\<lambda>_. 0) 0xa000 i = 0" for i by (simp add: load_elem_def load32_def)
  have d: "\<forall>i<1024. load_elem (store_elem 0xa000 0 (page_dir ! 0) (\<lambda>_. 0)) 0xa000 i = page_dir ! i"
    by (auto simp: load_store_elem [OF al] z page_dir_def nth_Cons')
  show c: "cr3 loaded0 = 0xa000" by (simp add: loaded0_def vm_state0_def)
  have m: "vm_mem loaded0 = store_elem 0xa000 0 (page_dir ! 0) (\<lambda>_. 0)" by (simp add: loaded0_def)
  show "paging_ok layout0 loaded0"
    unfolding paging_ok_def c m using d by (simp add: layout0_def aligned_def list_all_iff)
qed

section \<open>Instructions\<close>

datatype instr =
    Mov_eax u32
  | Mov_ebx_cr3
  | Mov_cr3_eax
  | Mov_eax_mem u32
  | Mov_at_eax u32
  | Hlt
  | Mov_edi u32
  | Call u32
  | Jmp_self

text \<open>The instructions of the program and the number of their bytes.\<close>

definition decode :: "memory \<Rightarrow> u32 \<Rightarrow> (instr \<times> nat) option" where
  "decode m ip =
     (let op = m ip
      in if op = 0xB8 then Some (Mov_eax (load32 m (ip + 1)), 5)
         else if op = 0x0F \<and> m (ip + 1) = 0x20 \<and> m (ip + 2) = 0xDB then Some (Mov_ebx_cr3, 3)
         else if op = 0x0F \<and> m (ip + 1) = 0x22 \<and> m (ip + 2) = 0xD8 then Some (Mov_cr3_eax, 3)
         else if op = 0xA1 then Some (Mov_eax_mem (load32 m (ip + 1)), 5)
         else if op = 0xC7 \<and> m (ip + 1) = 0x00 then Some (Mov_at_eax (load32 m (ip + 2)), 6)
         else if op = 0xF4 then Some (Hlt, 1)
         else if op = 0xBF then Some (Mov_edi (load32 m (ip + 1)), 5)
         else if op = 0xE8 then Some (Call (load32 m (ip + 1)), 5)
         else if op = 0xEB \<and> m (ip + 1) = 0xFE then Some (Jmp_self, 2)
         else None)"

text \<open>\<open>guest_entry\<close>, for a variable \<open>test_no_access_page_addr\<close> at \<open>var\<close> and a distance \<open>rel\<close> to \<open>hypercall\<close>.\<close>

definition guest_code :: "u32 \<Rightarrow> u32 \<Rightarrow> u8 list" where
  "guest_code var rel =
     [0xB8, 0x00, 0x10, 0x11, 0x00] @          \<comment> \<open>\<open>mov $0x111000, %eax\<close>\<close>
     [0x0F, 0x20, 0xDB] @                      \<comment> \<open>\<open>mov %cr3, %ebx\<close>\<close>
     [0x0F, 0x22, 0xD8] @                      \<comment> \<open>\<open>mov %eax, %cr3\<close>\<close>
     [0xA1] @ le32 var @                       \<comment> \<open>\<open>mov test_no_access_page_addr, %eax\<close>\<close>
     [0xC7, 0x00, 0x42, 0x00, 0x00, 0x00] @    \<comment> \<open>\<open>movl $0x42, (%eax)\<close>\<close>
     [0xF4] @                                  \<comment> \<open>\<open>hlt\<close>\<close>
     [0xBF, 0x01, 0x00, 0x00, 0x00] @          \<comment> \<open>\<open>mov $1, %edi\<close>\<close>
     [0xE8] @ le32 rel @                       \<comment> \<open>\<open>call hypercall\<close>\<close>
     [0xEB, 0xFE]                              \<comment> \<open>\<open>jmp .\<close>\<close>"

section \<open>The guest\<close>

record guest =
  g_ip :: u32
  g_esp :: u32
  g_flags :: u32
  g_cr2 :: u32
  g_cr3 :: u32
  g_regs :: gpr
  g_mem :: memory
  g_stores :: "(u32 \<times> u8) list"  \<comment> \<open>since the entry, by physical address\<close>

text \<open>What the compiler makes of \<open>hypercall\<close>: where it starts, where its \<open>vmcall\<close> stands, and what it has
  done to the stack pointer, to the registers and to memory by then; and the length field that the
  processor leaves at a fault.\<close>

record compiled =
  c_hypercall :: u32
  c_vmcall :: u32
  c_esp :: "u32 \<Rightarrow> u32"
  c_regs :: "gpr \<Rightarrow> gpr"
  c_stores :: "(u32 \<times> u8) list"
  c_fault_len :: u32

datatype outcome =
    Goes guest
  | Leaves exit_event
  | Unmodelled

definition walk :: "guest \<Rightarrow> bool \<Rightarrow> u32 \<Rightarrow> u32 option" where
  "walk g wr a = page_walk (g_mem g) (g_cr3 g) wr a"

text \<open>Memory as the guest reads it, and the first of the \<open>n\<close> addresses from \<open>a\<close> on that faults.\<close>

definition seen :: "guest \<Rightarrow> memory" where
  "seen g a = (case walk g False a of None \<Rightarrow> 0 | Some p \<Rightarrow> g_mem g p)"

definition faulting :: "guest \<Rightarrow> bool \<Rightarrow> u32 \<Rightarrow> nat \<Rightarrow> u32 option" where
  "faulting g wr a n = find (\<lambda>b. walk g wr b = None) (map (\<lambda>i. a + of_nat i) [0..<n])"

text \<open>The walk of the model is the one with paging, write protection and 4 MB pages on.\<close>

definition paging_on :: "(u32 \<Rightarrow> u32) \<Rightarrow> bool" where
  "paging_on d \<longleftrightarrow> bit (d GUEST_CR0) 31 \<and> bit (d GUEST_CR0) 16 \<and> bit (d GUEST_CR4) 4 \<and> \<not> bit (d GUEST_CR4) 5"

definition exit_at :: "guest \<Rightarrow> u32 \<Rightarrow> u32 \<Rightarrow> u32 \<Rightarrow> exit_event" where
  "exit_at g reason qual len =
     \<lparr>ev_reason = reason, ev_qual = qual, ev_intr_info = 0, ev_inst_len = len, ev_rip = g_ip g, ev_rsp = g_esp g,
      ev_rflags = g_flags g, ev_gpa = 0, ev_io_rcx = 0, ev_cr2 = g_cr2 g, ev_gprs = g_regs g,
      ev_saved = [(GUEST_CR3, g_cr3 g)], ev_writes = g_stores g, ev_out = [], ev_hypercall = None\<rparr>"

text \<open>A page fault exits when its bit in the exception bitmap is set, with the address as the qualification
  and CR2 as it was; otherwise the guest would handle it, which it has no code for.\<close>

definition page_fault :: "compiled \<Rightarrow> (u32 \<Rightarrow> u32) \<Rightarrow> guest \<Rightarrow> u32 \<Rightarrow> outcome" where
  "page_fault c d g a =
     (if bit (d EXC_BITMAP) 14 \<and> d PF_ERROR_MASK = 0 \<and> d PF_ERROR_MATCH = 0
      then Leaves ((exit_at g VMX_EXC_NMI a (c_fault_len c))\<lparr>ev_intr_info := 0x80000B0E\<rparr>)
      else Unmodelled)"

definition store_guest :: "guest \<Rightarrow> u32 \<Rightarrow> u32 \<Rightarrow> guest" where
  "store_guest g a w =
     (let ws = map (\<lambda>i. (the (walk g True (a + of_nat i)), le32 w ! i)) [0..<4]
      in g\<lparr>g_mem := guest_stores ws (g_mem g), g_stores := g_stores g @ ws\<rparr>)"

definition skip_instr :: "nat \<Rightarrow> guest \<Rightarrow> guest" where
  "skip_instr len g = g\<lparr>g_ip := g_ip g + of_nat len\<rparr>"

primrec exec :: "compiled \<Rightarrow> (u32 \<Rightarrow> u32) \<Rightarrow> guest \<Rightarrow> nat \<Rightarrow> instr \<Rightarrow> outcome" where
  "exec c d g len (Mov_eax x) = Goes (skip_instr len (g\<lparr>g_regs := (g_regs g)\<lparr>eax := x\<rparr>\<rparr>))"
| "exec c d g len (Mov_edi x) = Goes (skip_instr len (g\<lparr>g_regs := (g_regs g)\<lparr>edi := x\<rparr>\<rparr>))"
| "exec c d g len Mov_ebx_cr3 =
     (if d CPU_EXEC_CTRL0 AND CPU_CR3_STORE \<noteq> 0 then Leaves (exit_at g VMX_CR 0x313 (of_nat len))
      else Goes (skip_instr len (g\<lparr>g_regs := (g_regs g)\<lparr>ebx := g_cr3 g\<rparr>\<rparr>)))"
| "exec c d g len Mov_cr3_eax =
     (if cr3_exits d then Leaves (exit_at g VMX_CR 0x003 (of_nat len))
      else Goes (skip_instr len (g\<lparr>g_cr3 := eax (g_regs g)\<rparr>)))"
| "exec c d g len (Mov_eax_mem a) =
     (case faulting g False a 4 of
        Some b \<Rightarrow> page_fault c d g b
      | None \<Rightarrow> Goes (skip_instr len (g\<lparr>g_regs := (g_regs g)\<lparr>eax := load32 (seen g) a\<rparr>\<rparr>)))"
| "exec c d g len (Mov_at_eax x) =
     (case faulting g True (eax (g_regs g)) 4 of
        Some b \<Rightarrow> page_fault c d g b
      | None \<Rightarrow> Goes (skip_instr len (store_guest g (eax (g_regs g)) x)))"
| "exec c d g len Hlt =
     (if d CPU_EXEC_CTRL0 AND CPU_HLT \<noteq> 0 then Leaves (exit_at g VMX_HLT 0 (of_nat len)) else Unmodelled)"
| "exec c d g len (Call rel) =
     (if g_ip g + of_nat len + rel \<noteq> c_hypercall c then Unmodelled
      else case faulting g True (g_esp g - 4) 4 of
        Some b \<Rightarrow> page_fault c d g b
      | None \<Rightarrow>
          (let g1 = store_guest g (g_esp g - 4) (g_ip g + of_nat len);
               g2 = g1\<lparr>g_esp := c_esp c (g_esp g), g_regs := c_regs c (g_regs g), g_ip := c_vmcall c,
                      g_mem := guest_stores (c_stores c) (g_mem g1), g_stores := g_stores g1 @ c_stores c\<rparr>
           in Leaves ((exit_at g2 VMX_VMCALL 0 3)
                \<lparr>ev_hypercall := Some (hypercall (edi (g_regs g))), ev_out := hypercall_msg (edi (g_regs g))\<rparr>)))"
| "exec c d g len Jmp_self = Goes g"

definition guest_step :: "compiled \<Rightarrow> (u32 \<Rightarrow> u32) \<Rightarrow> guest \<Rightarrow> outcome" where
  "guest_step c d g =
     (if \<not> paging_on d then Unmodelled
      else case decode (seen g) (g_ip g) of
        None \<Rightarrow> Unmodelled
      | Some (i, len) \<Rightarrow>
          (case faulting g False (g_ip g) len of
             Some b \<Rightarrow> page_fault c d g b
           | None \<Rightarrow> exec c d g len i))"

text \<open>From an entry to the next exit.\<close>

partial_function (option) guest_until_exit :: "compiled \<Rightarrow> (u32 \<Rightarrow> u32) \<Rightarrow> guest \<Rightarrow> exit_event option" where
  "guest_until_exit c d g =
     (case guest_step c d g of
        Goes g' \<Rightarrow> guest_until_exit c d g'
      | Leaves ev \<Rightarrow> Some ev
      | Unmodelled \<Rightarrow> None)"

section \<open>Guest and monitor together\<close>

text \<open>What the processor loads at an entry.\<close>

definition loaded :: "vm_state \<Rightarrow> guest" where
  "loaded s = \<lparr>g_ip = vmcs_read GUEST_RIP s, g_esp = vmcs_read GUEST_RSP s, g_flags = vmcs_read GUEST_RFLAGS s,
     g_cr2 = cr2 s, g_cr3 = vmcs_read GUEST_CR3 s, g_regs = regs s, g_mem = vm_mem s, g_stores = []\<rparr>"

partial_function (option) together :: "hw \<Rightarrow> compiled \<Rightarrow> vm_state \<Rightarrow> (run_end \<times> vm_state) option" where
  "together h c s =
     (case guest_until_exit c (vmcs_data s) (loaded s) of
        None \<Rightarrow> None
      | Some ev \<Rightarrow>
          (case vmx_iteration h (Exited ev) s of
             (None, s') \<Rightarrow> together h c s'
           | (Some r, s') \<Rightarrow> Some (r, s')))"

text \<open>A run of the two together is a run of the monitor on the exits of the guest.\<close>

lemma together_run:
  assumes "together h c s = Some y"
  shows "\<exists>evs. vmx_run h (map Exited evs) s = (Some (fst y), snd y)"
proof (rule together.raw_induct [where P = "\<lambda>h c s y. \<exists>evs. vmx_run h (map Exited evs) s = (Some (fst y), snd y)", OF _ assms])
  fix f h c s and y :: "run_end \<times> vm_state"
  assume IH: "\<And>h c s y. f h c s = Some y \<Longrightarrow> \<exists>evs. vmx_run h (map Exited evs) s = (Some (fst y), snd y)"
    and f: "(case guest_until_exit c (vmcs_data s) (loaded s) of None \<Rightarrow> None
      | Some ev \<Rightarrow> (case vmx_iteration h (Exited ev) s of (None, s') \<Rightarrow> f h c s' | (Some r, s') \<Rightarrow> Some (r, s')))
      = Some y"
  then obtain ev where ev: "guest_until_exit c (vmcs_data s) (loaded s) = Some ev" by (auto split: option.splits)
  obtain o1 u where it: "vmx_iteration h (Exited ev) s = (o1, u)" by fastforce
  show "\<exists>evs. vmx_run h (map Exited evs) s = (Some (fst y), snd y)"
  proof (cases o1)
    case None
    then obtain evs where "vmx_run h (map Exited evs) u = (Some (fst y), snd y)" using IH [of h c u y] f ev it by auto
    then have "vmx_run h (map Exited (ev # evs)) s = (Some (fst y), snd y)" by (simp add: it None)
    then show ?thesis by blast
  next
    case (Some r1)
    then have "vmx_run h (map Exited [ev]) s = (Some (fst y), snd y)" using f ev it by auto
    then show ?thesis by blast
  qed
qed

section \<open>Steps of the guest\<close>

lemma seen_identity: "walk g False a = Some a \<Longrightarrow> seen g a = g_mem g a"
  by (simp add: seen_def)

lemma faulting_None: "(\<And>i. i < n \<Longrightarrow> walk g wr (a + of_nat i) \<noteq> None) \<Longrightarrow> faulting g wr a n = None"
  by (auto simp: faulting_def find_None_iff)

lemma faulting_first: "0 < n \<Longrightarrow> walk g wr a = None \<Longrightarrow> faulting g wr a n = Some a"
  by (simp add: faulting_def upt_conv_Cons)

text \<open>The bytes of the program from the offset \<open>lo\<close> on, as the guest reads them.\<close>

definition code_seen :: "guest \<Rightarrow> u32 \<Rightarrow> u32 \<Rightarrow> u32 \<Rightarrow> nat \<Rightarrow> bool" where
  "code_seen g e var rel lo \<longleftrightarrow>
     (\<forall>i. lo \<le> i \<longrightarrow> i < 35 \<longrightarrow>
        walk g False (e + of_nat i) \<noteq> None \<and> seen g (e + of_nat i) = guest_code var rel ! i)"

lemma length_guest_code [simp]: "length (guest_code var rel) = 35"
  by (simp add: guest_code_def le32_def)

lemma guest_step_code:
  assumes "paging_on d" "g_ip g = e + of_nat k" "decode (seen g) (e + of_nat k) = Some (i, len)"
    "code_seen g e var rel lo" "lo \<le> k" "k + len \<le> 35"
  shows "guest_step c d g = exec c d g len i"
proof -
  have "faulting g False (e + of_nat k) len = None"
  proof (rule faulting_None)
    fix j assume "j < len"
    then have "walk g False (e + of_nat (k + j)) \<noteq> None"
      using assms(4-6) unfolding code_seen_def by (meson add_less_cancel_left le_add1 order_trans order_less_le_trans)
    then show "walk g False (e + of_nat k + of_nat j) \<noteq> None" by (simp add: add.assoc)
  qed
  then show ?thesis using assms(1-3) by (simp add: guest_step_def)
qed

lemma program_bytes:
  assumes "code_seen g e var rel lo"
  shows "lo \<le> i \<Longrightarrow> i < 35 \<Longrightarrow> seen g (e + of_nat i) = guest_code var rel ! i"
  using assms by (simp add: code_seen_def)

lemma program_decode:
  assumes "code_seen g e var rel lo"
  shows "lo = 0 \<Longrightarrow> decode (seen g) e = Some (Mov_eax 0x111000, 5)"
    and "lo \<le> 5 \<Longrightarrow> decode (seen g) (e + 5) = Some (Mov_ebx_cr3, 3)"
    and "lo \<le> 8 \<Longrightarrow> decode (seen g) (e + 8) = Some (Mov_cr3_eax, 3)"
    and "lo \<le> 11 \<Longrightarrow> decode (seen g) (e + 11) = Some (Mov_eax_mem var, 5)"
    and "lo \<le> 16 \<Longrightarrow> decode (seen g) (e + 16) = Some (Mov_at_eax 0x42, 6)"
    and "lo \<le> 22 \<Longrightarrow> decode (seen g) (e + 22) = Some (Hlt, 1)"
    and "lo \<le> 23 \<Longrightarrow> decode (seen g) (e + 23) = Some (Mov_edi 1, 5)"
    and "lo \<le> 28 \<Longrightarrow> decode (seen g) (e + 28) = Some (Call rel, 5)"
proof -
  note b = program_bytes [OF assms]
  note c = decode_def guest_code_def le32_def add.assoc
  show "decode (seen g) e = Some (Mov_eax 0x111000, 5)" if "lo = 0"
    using that b [of 0] b [of 1] b [of 2] b [of 3] b [of 4] by (simp add: c load32_def)
  show "decode (seen g) (e + 5) = Some (Mov_ebx_cr3, 3)" if "lo \<le> 5"
    using that b [of 5] b [of 6] b [of 7] by (simp add: c)
  show "decode (seen g) (e + 8) = Some (Mov_cr3_eax, 3)" if "lo \<le> 8"
    using that b [of 8] b [of 9] b [of 10] by (simp add: c)
  show "decode (seen g) (e + 11) = Some (Mov_eax_mem var, 5)" if "lo \<le> 11"
    using that b [of 11] b [of 12] b [of 13] b [of 14] b [of 15] load32_le32 [of "seen g" "e + 12" var]
    by (simp add: c)
  show "decode (seen g) (e + 16) = Some (Mov_at_eax 0x42, 6)" if "lo \<le> 16"
    using that b [of 16] b [of 17] b [of 18] b [of 19] b [of 20] b [of 21] by (simp add: c load32_def)
  show "decode (seen g) (e + 22) = Some (Hlt, 1)" if "lo \<le> 22"
    using that b [of 22] by (simp add: c)
  show "decode (seen g) (e + 23) = Some (Mov_edi 1, 5)" if "lo \<le> 23"
    using that b [of 23] b [of 24] b [of 25] b [of 26] b [of 27] by (simp add: c load32_def)
  show "decode (seen g) (e + 28) = Some (Call rel, 5)" if "lo \<le> 28"
    using that b [of 28] b [of 29] b [of 30] b [of 31] b [of 32] load32_le32 [of "seen g" "e + 29" rel]
    by (simp add: c)
qed

lemma program_step:
  assumes "paging_on d" "code_seen g e var rel lo"
  shows "g_ip g = e \<Longrightarrow> lo = 0 \<Longrightarrow> guest_step c d g = exec c d g 5 (Mov_eax 0x111000)"
    and "g_ip g = e + 5 \<Longrightarrow> lo \<le> 5 \<Longrightarrow> guest_step c d g = exec c d g 3 Mov_ebx_cr3"
    and "g_ip g = e + 8 \<Longrightarrow> lo \<le> 8 \<Longrightarrow> guest_step c d g = exec c d g 3 Mov_cr3_eax"
    and "g_ip g = e + 11 \<Longrightarrow> lo \<le> 11 \<Longrightarrow> guest_step c d g = exec c d g 5 (Mov_eax_mem var)"
    and "g_ip g = e + 16 \<Longrightarrow> lo \<le> 16 \<Longrightarrow> guest_step c d g = exec c d g 6 (Mov_at_eax 0x42)"
    and "g_ip g = e + 22 \<Longrightarrow> lo \<le> 22 \<Longrightarrow> guest_step c d g = exec c d g 1 Hlt"
    and "g_ip g = e + 23 \<Longrightarrow> lo \<le> 23 \<Longrightarrow> guest_step c d g = exec c d g 5 (Mov_edi 1)"
    and "g_ip g = e + 28 \<Longrightarrow> lo \<le> 28 \<Longrightarrow> guest_step c d g = exec c d g 5 (Call rel)"
  using guest_step_code [OF assms(1) _ _ assms(2), of 0] guest_step_code [OF assms(1) _ _ assms(2), of 5]
    guest_step_code [OF assms(1) _ _ assms(2), of 8] guest_step_code [OF assms(1) _ _ assms(2), of 11]
    guest_step_code [OF assms(1) _ _ assms(2), of 16] guest_step_code [OF assms(1) _ _ assms(2), of 22]
    guest_step_code [OF assms(1) _ _ assms(2), of 23] guest_step_code [OF assms(1) _ _ assms(2), of 28]
  by (simp_all add: program_decode [OF assms(2)])

section \<open>From entry to exit\<close>

lemma until_exit_goes: "guest_step c d g = Goes g' \<Longrightarrow> guest_until_exit c d g = guest_until_exit c d g'"
  by (subst guest_until_exit.simps) simp

lemma until_exit_leaves: "guest_step c d g = Leaves ev \<Longrightarrow> guest_until_exit c d g = Some ev"
  by (subst guest_until_exit.simps) simp

lemma code_seen_cong:
  "code_seen g e var rel lo \<Longrightarrow> g_mem g' = g_mem g \<Longrightarrow> g_cr3 g' = g_cr3 g \<Longrightarrow> code_seen g' e var rel lo"
proof -
  assume a: "code_seen g e var rel lo" "g_mem g' = g_mem g" "g_cr3 g' = g_cr3 g"
  have w: "walk g' = walk g" by (intro ext) (simp only: walk_def a)
  moreover have "seen g' = seen g" by (intro ext) (simp only: seen_def w a(2))
  ultimately show "code_seen g' e var rel lo" using a(1) by (simp add: code_seen_def)
qed

lemma code_seenI:
  assumes "\<And>i. lo \<le> i \<Longrightarrow> i < 35 \<Longrightarrow> walk g False (e + of_nat i) = Some (e + of_nat i)"
    "\<And>i. lo \<le> i \<Longrightarrow> i < 35 \<Longrightarrow> g_mem g (e + of_nat i) = guest_code var rel ! i"
  shows "code_seen g e var rel lo"
  using assms by (simp add: code_seen_def seen_identity)

lemma skip_instr_simps [simp]:
  "g_ip (skip_instr n g) = g_ip g + of_nat n" "g_mem (skip_instr n g) = g_mem g" "g_cr3 (skip_instr n g) = g_cr3 g"
  "g_regs (skip_instr n g) = g_regs g" "g_stores (skip_instr n g) = g_stores g" "g_esp (skip_instr n g) = g_esp g"
  "g_cr2 (skip_instr n g) = g_cr2 g" "g_flags (skip_instr n g) = g_flags g"
  by (simp_all add: skip_instr_def)

lemma leg_read_cr3:
  assumes "paging_on d" "code_seen g e var rel 0" "g_ip g = e" "d CPU_EXEC_CTRL0 AND CPU_CR3_STORE \<noteq> 0"
  shows "guest_until_exit c d g = Some (exit_at (skip_instr 5 (g\<lparr>g_regs := (g_regs g)\<lparr>eax := 0x111000\<rparr>\<rparr>)) VMX_CR 0x313 3)"
proof -
  let ?g = "skip_instr 5 (g\<lparr>g_regs := (g_regs g)\<lparr>eax := 0x111000\<rparr>\<rparr>)"
  have 1: "guest_step c d g = Goes ?g" using program_step(1) [OF assms(1,2)] assms(3) by simp
  have "code_seen ?g e var rel 0" using assms(2) by (rule code_seen_cong) simp_all
  then have "guest_step c d ?g = Leaves (exit_at ?g VMX_CR 0x313 3)"
    using program_step(2) [OF assms(1), of ?g e var rel 0 c] assms(3,4) by simp
  with 1 show ?thesis by (simp only: until_exit_goes until_exit_leaves)
qed

lemma leg_write_cr3:
  assumes "paging_on d" "code_seen g e var rel 0" "g_ip g = e + 8" "cr3_exits d"
  shows "guest_until_exit c d g = Some (exit_at g VMX_CR 0x003 3)"
  using program_step(3) [OF assms(1,2), of c] assms(3,4) by (simp add: until_exit_leaves)

lemma leg_fault:
  assumes "paging_on d" "code_seen g e var rel 0" "g_ip g = e + 11"
    and "\<And>i. i < 4 \<Longrightarrow> walk g False (var + of_nat i) \<noteq> None" "load32 (seen g) var = a" "walk g True a = None"
    and "bit (d EXC_BITMAP) 14" "d PF_ERROR_MASK = 0" "d PF_ERROR_MATCH = 0"
  shows "guest_until_exit c d g =
    Some ((exit_at (skip_instr 5 (g\<lparr>g_regs := (g_regs g)\<lparr>eax := a\<rparr>\<rparr>)) VMX_EXC_NMI a (c_fault_len c))
      \<lparr>ev_intr_info := 0x80000B0E\<rparr>)"
proof -
  let ?g = "skip_instr 5 (g\<lparr>g_regs := (g_regs g)\<lparr>eax := a\<rparr>\<rparr>)"
  have "faulting g False var 4 = None" using assms(4) by (rule faulting_None)
  then have 1: "guest_step c d g = Goes ?g" using program_step(4) [OF assms(1,2), of c] assms(3,5) by simp
  have "code_seen ?g e var rel 0" using assms(2) by (rule code_seen_cong) simp_all
  moreover have "faulting ?g True a 4 = Some a" using assms(6) by (intro faulting_first) (simp_all add: walk_def)
  ultimately have "guest_step c d ?g = Leaves ((exit_at ?g VMX_EXC_NMI a (c_fault_len c))\<lparr>ev_intr_info := 0x80000B0E\<rparr>)"
    using program_step(5) [OF assms(1), of ?g e var rel 0 c] assms(3,7-9) by (simp add: page_fault_def)
  with 1 show ?thesis by (simp only: until_exit_goes until_exit_leaves)
qed

lemma stores_identity:
  assumes "\<And>i. i < 4 \<Longrightarrow> walk g True (a + of_nat i) = Some (a + of_nat i)"
  shows "store_guest g a w = g\<lparr>g_mem := store32 (g_mem g) a w,
    g_stores := g_stores g @ [(a, ucast w), (a + 1, ucast (drop_bit 8 w)), (a + 2, ucast (drop_bit 16 w)),
      (a + 3, ucast (drop_bit 24 w))]\<rparr>"
proof -
  have "map (\<lambda>i. (the (walk g True (a + of_nat i)), le32 w ! i)) [0..<4] =
      [(a, ucast w), (a + 1, ucast (drop_bit 8 w)), (a + 2, ucast (drop_bit 16 w)), (a + 3, ucast (drop_bit 24 w))]"
    using assms [of 0] assms [of 1] assms [of 2] assms [of 3] by (simp add: upt_rec le32_def)
  then show ?thesis unfolding store_guest_def Let_def by (simp add: guest_stores_def store32_def)
qed

lemma leg_store:
  assumes "paging_on d" "code_seen g e var rel 16" "g_ip g = e + 16" "eax (g_regs g) = a"
    and walk: "\<And>i. i < 4 \<Longrightarrow> walk g True (a + of_nat i) = Some (a + of_nat i)"
    and after: "code_seen (g\<lparr>g_mem := store32 (g_mem g) a 0x42\<rparr>) e var rel 22"
    and "d CPU_EXEC_CTRL0 AND CPU_HLT \<noteq> 0"
  shows "guest_until_exit c d g =
    Some (exit_at (skip_instr 6 (store_guest g a 0x42)) VMX_HLT 0 1)"
proof -
  let ?g = "skip_instr 6 (store_guest g a 0x42)"
  have "faulting g True a 4 = None" using walk by (intro faulting_None) simp
  then have 1: "guest_step c d g = Goes ?g" using program_step(5) [OF assms(1,2), of c] assms(3,4) by simp
  have "code_seen ?g e var rel 22"
    using after by (rule code_seen_cong) (simp_all add: stores_identity [OF walk])
  moreover have "g_ip ?g = e + 22" using assms(3) by (simp add: stores_identity [OF walk])
  ultimately have "guest_step c d ?g = Leaves (exit_at ?g VMX_HLT 0 1)"
    using program_step(6) [OF assms(1), of ?g e var rel 22 c] assms(7) by simp
  with 1 show ?thesis by (simp only: until_exit_goes until_exit_leaves)
qed

lemma leg_hypercall:
  assumes "paging_on d" "code_seen g e var rel 22" "g_ip g = e + 23" "c_hypercall c = e + 33 + rel"
    and "\<And>i. i < 4 \<Longrightarrow> walk g True (g_esp g - 4 + of_nat i) \<noteq> None"
  shows "\<exists>ev. guest_until_exit c d g = Some ev \<and> ev_reason ev = VMX_VMCALL \<and> ev_hypercall ev = Some (hypercall 1)
    \<and> ev_out ev = hypercall_msg 1 \<and> ev_saved ev = [(GUEST_CR3, g_cr3 g)]
    \<and> fst ` set (ev_writes ev) \<subseteq> fst ` set (g_stores g) \<union> {p. \<exists>i<4. walk g True (g_esp g - 4 + of_nat i) = Some p}
        \<union> fst ` set (c_stores c)"
proof -
  let ?g = "skip_instr 5 (g\<lparr>g_regs := (g_regs g)\<lparr>edi := 1\<rparr>\<rparr>)"
  have 1: "guest_step c d g = Goes ?g" using program_step(7) [OF assms(1,2), of c] assms(3) by simp
  have "code_seen ?g e var rel 22" using assms(2) by (rule code_seen_cong) simp_all
  then have 2: "guest_step c d ?g = exec c d ?g 5 (Call rel)"
    using program_step(8) [OF assms(1), of ?g e var rel 22 c] assms(3) by simp
  have w: "walk ?g wr b = walk g wr b" for wr b by (simp add: walk_def)
  have "faulting ?g True (g_esp g - 4) 4 = None" using assms(5) by (intro faulting_None) (simp add: w)
  moreover have "the (walk g True (g_esp g - 4 + of_nat i)) \<in> {p. \<exists>i<4. walk g True (g_esp g - 4 + of_nat i) = Some p}"
    if "i < 4" for i using assms(5) [OF that] that by auto
  moreover define g1 where "g1 = store_guest ?g (g_esp g - 4) (e + 33)"
  moreover define ev where "ev = (exit_at (g1\<lparr>g_esp := c_esp c (g_esp ?g), g_regs := c_regs c (g_regs ?g),
      g_ip := c_vmcall c, g_mem := guest_stores (c_stores c) (g_mem g1), g_stores := g_stores g1 @ c_stores c\<rparr>) VMX_VMCALL 0 3)
        \<lparr>ev_hypercall := Some (hypercall 1), ev_out := hypercall_msg 1\<rparr>"
  ultimately have "guest_step c d ?g = Leaves ev" "fst ` set (ev_writes ev) \<subseteq> fst ` set (g_stores g) \<union>
      {p. \<exists>i<4. walk g True (g_esp g - 4 + of_nat i) = Some p} \<union> fst ` set (c_stores c)"
    unfolding 2 using assms(3,4) by (auto simp: exit_at_def store_guest_def w add.assoc Let_def)
  moreover have "ev_reason ev = VMX_VMCALL" "ev_hypercall ev = Some (hypercall 1)" "ev_out ev = hypercall_msg 1"
    "ev_saved ev = [(GUEST_CR3, g_cr3 g)]"
    by (simp_all add: ev_def exit_at_def g1_def store_guest_def Let_def)
  ultimately show ?thesis using until_exit_goes [OF 1] until_exit_leaves [of c d ?g ev] by auto
qed

section \<open>From exit to entry\<close>

text \<open>Where a run stands between an exit and the next entry: the place of the guest and its CR3; the rest is
  as set up in \<open>s0\<close>.\<close>

definition stage :: "vm_state \<Rightarrow> u32 \<Rightarrow> u32 \<Rightarrow> vm_state \<Rightarrow> bool" where
  "stage s0 ip c3 s \<longleftrightarrow> vmcs_data s GUEST_RIP = ip \<and> vmcs_data s GUEST_CR3 = c3 \<and> cr3 s = cr3 s0 \<and> cr2 s = cr2 s0
     \<and> (\<forall>e\<in>{CPU_EXEC_CTRL0, CR3_TARGET_COUNT, EXC_BITMAP, PF_ERROR_MASK, PF_ERROR_MATCH, GUEST_CR0, GUEST_CR4, GUEST_RSP}.
          vmcs_data s e = vmcs_data s0 e)"

lemma save_guest_cr3: "ev_saved ev = [(GUEST_CR3, x)] \<Longrightarrow> cr3_exits d \<Longrightarrow> save_guest ev d = d"
  by (simp add: save_guest_def saved_by_exit_def)

lemma stage_controls: "stage s0 ip c3 s \<Longrightarrow> cr3_exits (vmcs_data s) = cr3_exits (vmcs_data s0)"
  by (simp add: stage_def cr3_exits_def)

text \<open>The event of a guest that changes no other field.\<close>

definition plain_exit :: "guest \<Rightarrow> exit_event \<Rightarrow> bool" where
  "plain_exit g ev \<longleftrightarrow> ev_rip ev = g_ip g \<and> ev_rsp ev = g_esp g \<and> ev_cr2 ev = g_cr2 g \<and> ev_gprs ev = g_regs g
     \<and> ev_saved ev = [(GUEST_CR3, g_cr3 g)] \<and> ev_writes ev = g_stores g \<and> ev_out ev = [] \<and> ev_hypercall ev = None"

lemma plain_exit_at [simp]: "plain_exit g (exit_at g r q n)" "plain_exit g ((exit_at g r q n)\<lparr>ev_intr_info := i\<rparr>)"
  by (simp_all add: plain_exit_def exit_at_def)

lemma monitor_resumes:
  assumes "no_write_fails h" "guest_until_exit c (vmcs_data s) (loaded s) = Some ev" "resumable ev" "plain_exit g ev"
    "g_esp g = vmcs_data s GUEST_RSP" "g_cr2 g = cr2 s" "stage s0 ip c3 s" "cr3_exits (vmcs_data s0)"
  defines "t \<equiv> after_exit ev (vm_print [Printf ''Guest in <<<\<newline>'' []] s)"
  defines "u \<equiv> vm_print (exit_messages t) (handled t)"
  shows "together h c s = together h c u"
    and "stage s0 (g_ip g + exit_advance t) (if is_page_fault t then cr3 s0 else c3) u"
    and "vm_mem u = guest_stores (g_stores g) (vm_mem s)" "regs u = g_regs g"
    and "vm_out u = vm_out s @ Printf ''Guest in <<<\<newline>'' [] # exit_messages t"
proof -
  have "vmx_iteration h (Exited ev) s = (None, u)"
    unfolding u_def t_def using assms(1,3) exit_result_after_exit [OF assms(3)]
    by (intro iteration_exact(1)) (simp_all add: resumable_def)
  then show "together h c s = together h c u" by (subst together.simps) (simp add: assms(2))
  let ?d = "(vmcs_data s)(HOST_RSP := esp s)"
  have "cr3_exits ?d" using assms(8) stage_controls [OF assms(7)] by (simp add: cr3_exits_def)
  then have sv: "save_guest ev ?d = ?d" using assms(4) by (intro save_guest_cr3) (simp_all add: plain_exit_def)
  have esp: "esp (vm_print cs s) = esp s" for cs by (simp add: vm_print_def)
  have pl: "ev_rip ev = g_ip g" "ev_rsp ev = g_esp g" "ev_cr2 ev = g_cr2 g" "ev_gprs ev = g_regs g"
    "ev_writes ev = g_stores g" "ev_out ev = []"
    using assms(4) by (simp_all add: plain_exit_def)
  note defs = u_def t_def handled_def exit_vmcs_def after_exit_def record_exit_def sv pl esp
  have c3: "cr3 t = cr3 s" by (simp add: t_def after_exit_def record_exit_def)
  show "stage s0 (g_ip g + exit_advance t) (if is_page_fault t then cr3 s0 else c3) u"
    using assms(5-7) c3 unfolding stage_def u_def handled_def exit_vmcs_def
    by (simp add: t_def after_exit_def record_exit_def sv pl esp vm_print_def)
  show "vm_mem u = guest_stores (g_stores g) (vm_mem s)" "regs u = g_regs g"
    "vm_out u = vm_out s @ Printf ''Guest in <<<\<newline>'' [] # exit_messages t"
    unfolding u_def handled_def by (simp_all add: t_def after_exit_def record_exit_def pl vm_print_def)
qed

text \<open>What the tables of the handler say about the three exits of the program that resume.\<close>

lemma exit_tables:
  fixes s :: vm_state
  defines "at ev \<equiv> after_exit ev (vm_print [Printf ''Guest in <<<\<newline>'' []] s)"
  shows "exit_advance (at (exit_at g VMX_CR q 3)) = 3" "\<not> is_page_fault (at (exit_at g VMX_CR q 3))"
    "exit_messages (at (exit_at g VMX_CR q 3)) =
       Printf ''CR3 ACCESS: type=%s qual=%#x inst_len=%d RIP=%#x\<newline>''
         [PStr (if bit q 4 then ''write'' else ''read''), PWord q, PWord 3, PWord (g_ip g)] #
       (if bit q 4 then [Printf '' - CR3 write detected, restoring CR3\<newline>'' []] else [])"
    "exit_advance (at (exit_at g VMX_HLT q n)) = 1" "\<not> is_page_fault (at (exit_at g VMX_HLT q n))"
    "exit_messages (at (exit_at g VMX_HLT q n)) = [Printf ''HLT VMEXIT: RIP=%#x\<newline>'' [PWord (g_ip g)]]"
    "exit_advance (at ((exit_at g VMX_EXC_NMI q n)\<lparr>ev_intr_info := 0x80000B0E\<rparr>)) = 0"
    "is_page_fault (at ((exit_at g VMX_EXC_NMI q n)\<lparr>ev_intr_info := 0x80000B0E\<rparr>))"
    "exit_messages (at ((exit_at g VMX_EXC_NMI q n)\<lparr>ev_intr_info := 0x80000B0E\<rparr>)) =
       [Printf ''EXCEPTION: vector=%d CR2=%#x RIP=%#x inst_len=%d\<newline>'' [PWord 14, PWord (g_cr2 g), PWord (g_ip g), PWord n],
        Printf ''PAGE FAULT: Attempted write to read-only page at %#x\<newline>'' [PWord (g_cr2 g)]]"
    "resumable (exit_at g VMX_CR q 3)" "resumable (exit_at g VMX_HLT q n)"
    "resumable ((exit_at g VMX_EXC_NMI q n)\<lparr>ev_intr_info := 0x80000B0E\<rparr>)"
  by (simp_all add: at_def exit_advance_def is_page_fault_def exit_messages_def basic_reason_def after_exit_def
      record_exit_def vmcs_read_def exit_at_def resumable_def Let_def)

lemma monitor_ends:
  assumes "no_write_fails h" "guest_until_exit c (vmcs_data s) (loaded s) = Some ev" "ev_reason ev = VMX_VMCALL"
    "ev_hypercall ev = Some (hypercall 1)" "ev_out ev = hypercall_msg 1" "ev_saved ev = [(GUEST_CR3, x)]"
    "cr3_exits (vmcs_data s)"
  shows "\<exists>u. together h c s = Some (Returns_0, u) \<and> guest_finished u = 1 \<and> vmcs_read GUEST_CR3 u = vmcs_read GUEST_CR3 s
    \<and> vm_mem u = guest_stores (ev_writes ev) (vm_mem s)
    \<and> vm_out u = vm_out s @ [Printf ''Guest in <<<\<newline>'' [], Printf ''hypercall: %d\<newline>'' [PWord 1],
        Printf ''hypercall: VMEXIT\<newline>'' [], Printf ''Guest exited normally\<newline>'' []]"
proof -
  let ?t = "after_exit ev (vm_print [Printf ''Guest in <<<\<newline>'' []] s)"
  have b: "basic_reason ?t = VMX_VMCALL" by (simp add: basic_reason_def after_exit_def record_exit_def vmcs_read_def assms(3))
  have f: "hypercall_field ?t = hypercall 1" by (simp add: after_exit_def record_exit_def assms(4))
  have r: "exit_result ?t = VMX_VMEXIT" by (simp add: exit_result_def b f hypercall_result_def hypercall_mask Let_def)
  let ?u = "vm_print [Printf ''Guest exited normally\<newline>'' []]
    ((vm_print (exit_messages ?t) (handled ?t))\<lparr>guest_finished := 1\<rparr>)"
  have "vmx_iteration h (Exited ev) s = (Some Returns_0, ?u)"
    using assms(3) by (intro iteration_exact(2) [OF assms(1) _ r]) simp
  then have "together h c s = Some (Returns_0, ?u)" by (subst together.simps) (simp add: assms(2))
  moreover have "guest_finished ?u = 1" by simp
  moreover have "vmcs_read GUEST_CR3 ?u = vmcs_read GUEST_CR3 s"
  proof -
    let ?d = "(vmcs_data s)(HOST_RSP := esp s)"
    have "cr3_exits ?d" using assms(7) by (simp add: cr3_exits_def)
    note sv = save_guest_cr3 [OF assms(6) this]
    have "\<not> is_page_fault ?t" using b by (simp add: is_page_fault_def)
    then have "vmcs_data (handled ?t) GUEST_CR3 = vmcs_data ?t GUEST_CR3" by (simp add: handled_def exit_vmcs_def)
    also have "\<dots> = vmcs_data s GUEST_CR3"
      using sv by (simp add: after_exit_def record_exit_def) (simp add: vm_print_def)
    finally show ?thesis by (simp add: vmcs_read_def)
  qed
  moreover have "vm_mem ?u = guest_stores (ev_writes ev) (vm_mem s)"
    by (simp add: handled_def after_exit_def record_exit_def)
  moreover have "exit_messages ?t = [Printf ''hypercall: VMEXIT\<newline>'' []]"
    by (simp add: exit_messages_def b f hypercall_mask Let_def)
  then have "vm_out ?u = vm_out s @ [Printf ''Guest in <<<\<newline>'' [], Printf ''hypercall: %d\<newline>'' [PWord 1],
        Printf ''hypercall: VMEXIT\<newline>'' [], Printf ''Guest exited normally\<newline>'' []]"
    by (simp add: vm_print_def handled_def) (simp add: after_exit_def record_exit_def assms(5) hypercall_msg_def)
  ultimately show ?thesis by blast
qed

text \<open>A whole turn: the guest leaves without a store, and the monitor resumes it.\<close>

lemma resume_turn:
  assumes "no_write_fails h" "guest_until_exit c (vmcs_data s) (loaded s) = Some ev" "resumable ev" "plain_exit g ev"
    "g_esp g = vmcs_data s GUEST_RSP" "g_cr2 g = cr2 s" "stage s0 ip c3 s" "cr3_exits (vmcs_data s0)"
    and "exit_advance (after_exit ev (vm_print [Printf ''Guest in <<<\<newline>'' []] s)) = n"
    "is_page_fault (after_exit ev (vm_print [Printf ''Guest in <<<\<newline>'' []] s)) = pf"
    "exit_messages (after_exit ev (vm_print [Printf ''Guest in <<<\<newline>'' []] s)) = ms"
  shows "\<exists>u. together h c s = together h c u \<and> stage s0 (g_ip g + n) (if pf then cr3 s0 else c3) u
    \<and> vm_mem u = guest_stores (g_stores g) (vm_mem s) \<and> regs u = g_regs g
    \<and> vm_out u = vm_out s @ Printf ''Guest in <<<\<newline>'' [] # ms"
  using monitor_resumes [OF assms(1-8)] unfolding assms(9-11) by blast

lemma resume_cr3:
  assumes "no_write_fails h" "guest_until_exit c (vmcs_data s) (loaded s) = Some (exit_at g VMX_CR q 3)"
    "stage s0 ip c3 s" "cr3_exits (vmcs_data s0)" "g_esp g = g_esp (loaded s)" "g_cr2 g = g_cr2 (loaded s)" "g_stores g = []"
  shows "\<exists>u. together h c s = together h c u \<and> stage s0 (g_ip g + 3) c3 u \<and> vm_mem u = vm_mem s \<and> regs u = g_regs g
    \<and> vm_out u = vm_out s @ Printf ''Guest in <<<\<newline>'' [] #
       Printf ''CR3 ACCESS: type=%s qual=%#x inst_len=%d RIP=%#x\<newline>''
         [PStr (if bit q 4 then ''write'' else ''read''), PWord q, PWord 3, PWord (g_ip g)] #
       (if bit q 4 then [Printf '' - CR3 write detected, restoring CR3\<newline>'' []] else [])"
proof -
  have e: "g_esp g = vmcs_data s GUEST_RSP" "g_cr2 g = cr2 s"
    using assms(5,6) by (simp_all add: loaded_def vmcs_read_def)
  have "\<exists>u. together h c s = together h c u \<and> stage s0 (g_ip g + 3) (if False then cr3 s0 else c3) u
    \<and> vm_mem u = guest_stores (g_stores g) (vm_mem s) \<and> regs u = g_regs g
    \<and> vm_out u = vm_out s @ Printf ''Guest in <<<\<newline>'' [] #
       Printf ''CR3 ACCESS: type=%s qual=%#x inst_len=%d RIP=%#x\<newline>''
         [PStr (if bit q 4 then ''write'' else ''read''), PWord q, PWord 3, PWord (g_ip g)] #
       (if bit q 4 then [Printf '' - CR3 write detected, restoring CR3\<newline>'' []] else [])"
    by (rule resume_turn [OF assms(1,2) exit_tables(10) plain_exit_at(1) e assms(3,4)]) (simp_all only: exit_tables simp_thms)
  then show ?thesis by (simp only: assms(7) if_False guest_stores_def fold_simps id_apply)
qed

lemma resume_fault:
  assumes "no_write_fails h" "guest_until_exit c (vmcs_data s) (loaded s) =
      Some ((exit_at g VMX_EXC_NMI a n)\<lparr>ev_intr_info := 0x80000B0E\<rparr>)"
    "stage s0 ip c3 s" "cr3_exits (vmcs_data s0)" "g_esp g = g_esp (loaded s)" "g_cr2 g = g_cr2 (loaded s)" "g_stores g = []"
  shows "\<exists>u. together h c s = together h c u \<and> stage s0 (g_ip g) (cr3 s0) u \<and> vm_mem u = vm_mem s \<and> regs u = g_regs g
    \<and> vm_out u = vm_out s @ Printf ''Guest in <<<\<newline>'' [] #
       [Printf ''EXCEPTION: vector=%d CR2=%#x RIP=%#x inst_len=%d\<newline>'' [PWord 14, PWord (g_cr2 g), PWord (g_ip g), PWord n],
        Printf ''PAGE FAULT: Attempted write to read-only page at %#x\<newline>'' [PWord (g_cr2 g)]]"
proof -
  have e: "g_esp g = vmcs_data s GUEST_RSP" "g_cr2 g = cr2 s"
    using assms(5,6) by (simp_all add: loaded_def vmcs_read_def)
  have "\<exists>u. together h c s = together h c u \<and> stage s0 (g_ip g + 0) (if True then cr3 s0 else c3) u
    \<and> vm_mem u = guest_stores (g_stores g) (vm_mem s) \<and> regs u = g_regs g
    \<and> vm_out u = vm_out s @ Printf ''Guest in <<<\<newline>'' [] #
       [Printf ''EXCEPTION: vector=%d CR2=%#x RIP=%#x inst_len=%d\<newline>'' [PWord 14, PWord (g_cr2 g), PWord (g_ip g), PWord n],
        Printf ''PAGE FAULT: Attempted write to read-only page at %#x\<newline>'' [PWord (g_cr2 g)]]"
    by (rule resume_turn [OF assms(1,2) exit_tables(12) plain_exit_at(2) e assms(3,4)]) (simp_all only: exit_tables simp_thms)
  then show ?thesis by (simp only: assms(7) if_True add_0_right guest_stores_def fold_simps id_apply)
qed

lemma resume_hlt:
  assumes "no_write_fails h" "guest_until_exit c (vmcs_data s) (loaded s) = Some (exit_at g VMX_HLT q n)"
    "stage s0 ip c3 s" "cr3_exits (vmcs_data s0)" "g_esp g = g_esp (loaded s)" "g_cr2 g = g_cr2 (loaded s)"
  shows "\<exists>u. together h c s = together h c u \<and> stage s0 (g_ip g + 1) c3 u \<and> vm_mem u = guest_stores (g_stores g) (vm_mem s)
    \<and> vm_out u = vm_out s @ Printf ''Guest in <<<\<newline>'' [] # [Printf ''HLT VMEXIT: RIP=%#x\<newline>'' [PWord (g_ip g)]]"
proof -
  have e: "g_esp g = vmcs_data s GUEST_RSP" "g_cr2 g = cr2 s"
    using assms(5,6) by (simp_all add: loaded_def vmcs_read_def)
  have "\<exists>u. together h c s = together h c u \<and> stage s0 (g_ip g + 1) (if False then cr3 s0 else c3) u
    \<and> vm_mem u = guest_stores (g_stores g) (vm_mem s) \<and> regs u = g_regs g
    \<and> vm_out u = vm_out s @ Printf ''Guest in <<<\<newline>'' [] # [Printf ''HLT VMEXIT: RIP=%#x\<newline>'' [PWord (g_ip g)]]"
    by (rule resume_turn [OF assms(1,2) exit_tables(11) plain_exit_at(1) e assms(3,4)]) (simp_all only: exit_tables simp_thms)
  then show ?thesis by (auto simp only: if_False)
qed

section \<open>The whole program\<close>

text \<open>The program in memory: its code with the variable it reads, away from the tables; the store to the
  test address does not hit the instructions that follow it; code and stack lie in the first 4 MB,
  which is all that the host's tables map.\<close>

definition program_ok :: "layout \<Rightarrow> compiled \<Rightarrow> u32 \<Rightarrow> vm_state \<Rightarrow> bool" where
  "program_ok l c var s \<longleftrightarrow>
     read_bytes (vm_mem s) (guest_entry l) 35 = guest_code var (c_hypercall c - (guest_entry l + 33))
     \<and> load32 (vm_mem s) var = TEST_READONLY_ADDR
     \<and> unat (guest_entry l) + 35 \<le> 0x400000 \<and> unat (guest_stack l) + 4096 \<le> 0x400000
     \<and> (span (guest_entry l) 35 \<union> span var 4 \<union> span TEST_READONLY_ADDR 4) \<inter> table_pages l s = {}
     \<and> span TEST_READONLY_ADDR 4 \<inter> span (guest_entry l + 22) 13 = {}"

text \<open>The processor has paging on, with 4 MB pages, and lets the instructions exit that the code asks for.\<close>

definition processor_ok :: "vm_state \<Rightarrow> bool" where
  "processor_ok s \<longleftrightarrow> list_all (bit (ctrl_clr (ctrl_cpu_rev0 (read_capabilities s)))) [7, 15, 16]
     \<and> bit (cr0 s) 31 \<and> bit (cr4 s) 4 \<and> \<not> bit (cr4 s) 5"

definition transcript :: "u32 \<Rightarrow> u32 \<Rightarrow> u32 \<Rightarrow> pcall list" where
  "transcript e stale n =
     [Printf ''Guest in <<<\<newline>'' [],
      Printf ''CR3 ACCESS: type=%s qual=%#x inst_len=%d RIP=%#x\<newline>'' [PStr ''write'', PWord 0x313, PWord 3, PWord (e + 5)],
      Printf '' - CR3 write detected, restoring CR3\<newline>'' [],
      Printf ''Guest in <<<\<newline>'' [],
      Printf ''CR3 ACCESS: type=%s qual=%#x inst_len=%d RIP=%#x\<newline>'' [PStr ''read'', PWord 0x003, PWord 3, PWord (e + 8)],
      Printf ''Guest in <<<\<newline>'' [],
      Printf ''EXCEPTION: vector=%d CR2=%#x RIP=%#x inst_len=%d\<newline>'' [PWord 14, PWord stale, PWord (e + 16), PWord n],
      Printf ''PAGE FAULT: Attempted write to read-only page at %#x\<newline>'' [PWord stale],
      Printf ''Guest in <<<\<newline>'' [],
      Printf ''HLT VMEXIT: RIP=%#x\<newline>'' [PWord (e + 22)],
      Printf ''Guest in <<<\<newline>'' [], Printf ''hypercall: %d\<newline>'' [PWord 1],
      Printf ''hypercall: VMEXIT\<newline>'' [], Printf ''Guest exited normally\<newline>'' []]"

lemma setup_cr2 [simp]:
  "cr2 (vmcs_writes h vs t) = cr2 t" "cr2 (init_vmcs_guest h l t) = cr2 t" "cr2 (init_vmcs_host h l t) = cr2 t"
  "cr2 (init_vmcs_ctrl h t) = cr2 t"
proof -
  have w: "cr2 (vmcs_write h e x t) = cr2 t" for e x t by (simp add: vmcs_write_def vm_print_def)
  show ws: "cr2 (vmcs_writes h vs t) = cr2 t" for vs t
    by (induction vs arbitrary: t) (auto simp: vmcs_writes_def w)
  show "cr2 (init_vmcs_guest h l t) = cr2 t" "cr2 (init_vmcs_host h l t) = cr2 t" "cr2 (init_vmcs_ctrl h t) = cr2 t"
    by (simp_all add: init_vmcs_guest_def init_vmcs_host_def init_vmcs_ctrl_def ws w vm_print_def Let_def split: prod.split)
qed

lemma vmcs_init_cr2: "cr2 (vmcs_init h l s) = cr2 s"
  by (simp add: vmcs_init_def init_page_table_test_def vm_print_def choose_controls_def read_capabilities_def Let_def)

text \<open>The guest starts in the paging mode of the host, with write protection.\<close>

lemma vmcs_init_paging:
  assumes "no_write_fails h" "bit (cr0 s) 31" "bit (cr4 s) 4" "\<not> bit (cr4 s) 5"
  shows "paging_on (vmcs_data (vmcs_init h l s))"
proof -
  have rd: "(e, x) \<in> set (all_fields l s) \<Longrightarrow> vmcs_data (vmcs_init h l s) e = x" for e x
    using vmcs_init_reads [OF assms(1), of e x l s] by (simp add: vmcs_read_def)
  have "vmcs_data (vmcs_init h l s) GUEST_CR0 =
      (if cr0 s AND X86_CR0_PG \<noteq> 0 then cr0 s OR X86_CR0_PE else cr0 s) OR X86_CR0_WP"
    "vmcs_data (vmcs_init h l s) GUEST_CR4 = cr4 s AND NOT X86_CR4_PCIDE"
    by (rule rd, simp add: all_fields_def guest_fields_def)+
  moreover have "bit (X86_CR0_WP) 16" "\<not> bit (X86_CR4_PCIDE) 4" by simp_all
  ultimately show ?thesis
    using assms(2-4) by (auto simp: paging_on_def bit_or_iff bit_and_iff bit_not_iff)
qed

text \<open>What setup has left for the program.\<close>

lemma program_start:
  fixes l :: layout
  assumes "no_write_fails h" "processor_ok s"
  defines "s0 \<equiv> vmcs_init h l s"
  shows "stage s0 (guest_entry l) (guest_page_dir l) s0" "cr3_exits (vmcs_data s0)" "paging_on (vmcs_data s0)"
    "vmcs_data s0 CPU_EXEC_CTRL0 AND CPU_CR3_STORE \<noteq> 0" "vmcs_data s0 CPU_EXEC_CTRL0 AND CPU_HLT \<noteq> 0"
    "bit (vmcs_data s0 EXC_BITMAP) 14" "vmcs_data s0 PF_ERROR_MASK = 0" "vmcs_data s0 PF_ERROR_MATCH = 0"
    "vmcs_data s0 GUEST_RSP = guest_stack l + 4096" "cr3 s0 = cr3 s" "cr2 s0 = cr2 s"
proof -
  have caps: "bit (ctrl_clr (ctrl_cpu_rev0 (read_capabilities s))) 7" "bit (ctrl_clr (ctrl_cpu_rev0 (read_capabilities s))) 15"
    "bit (ctrl_clr (ctrl_cpu_rev0 (read_capabilities s))) 16"
    using assms(2) by (simp_all add: processor_ok_def)
  have rd: "(e, x) \<in> set (all_fields l s) \<Longrightarrow> vmcs_data s0 e = x" for e x
    using vmcs_init_reads [OF assms(1), of e x l s] by (simp add: s0_def vmcs_read_def)
  have rip: "vmcs_data s0 GUEST_RIP = guest_entry l" and c3: "vmcs_data s0 GUEST_CR3 = guest_page_dir l"
    and e: "vmcs_data s0 EXC_BITMAP = 0xFFFFFFFF"
    by (rule rd, simp add: all_fields_def guest_fields_def ctrl_fields_def)+
  show "vmcs_data s0 PF_ERROR_MASK = 0" "vmcs_data s0 PF_ERROR_MATCH = 0" "vmcs_data s0 GUEST_RSP = guest_stack l + 4096"
    by (rule rd, simp add: all_fields_def guest_fields_def host_fields_def)+
  show "stage s0 (guest_entry l) (guest_page_dir l) s0" by (simp add: stage_def rip c3)
  show "cr3_exits (vmcs_data s0)" unfolding s0_def by (rule vmcs_init_cr3_exits [OF assms(1) caps(2)])
  have c: "bit (vmcs_data s0 CPU_EXEC_CTRL0) 7" "bit (vmcs_data s0 CPU_EXEC_CTRL0) 16"
    using vmcs_init_control_reads(2) [OF assms(1), of l s] caps asked_bits(1,3) [of s]
    by (simp_all add: s0_def vmcs_read_def before_fields_controls force_ctrl_bit)
  then show "vmcs_data s0 CPU_EXEC_CTRL0 AND CPU_CR3_STORE \<noteq> 0" "vmcs_data s0 CPU_EXEC_CTRL0 AND CPU_HLT \<noteq> 0"
    unfolding bit_iff_and_push_bit_not_eq_0 by blast+
  show "bit (vmcs_data s0 EXC_BITMAP) 14" unfolding e by simp
  show "paging_on (vmcs_data s0)"
    using vmcs_init_paging [OF assms(1)] assms(2) by (simp add: s0_def processor_ok_def)
  show "cr3 s0 = cr3 s" "cr2 s0 = cr2 s" by (simp_all add: s0_def vmcs_init_cr3 vmcs_init_cr2)
qed

lemma stage_fields:
  assumes "stage s0 ip c3 s"
  shows "paging_on (vmcs_data s) = paging_on (vmcs_data s0)" "vmcs_data s CPU_EXEC_CTRL0 = vmcs_data s0 CPU_EXEC_CTRL0"
    "vmcs_data s EXC_BITMAP = vmcs_data s0 EXC_BITMAP" "vmcs_data s PF_ERROR_MASK = vmcs_data s0 PF_ERROR_MASK"
    "vmcs_data s PF_ERROR_MATCH = vmcs_data s0 PF_ERROR_MATCH" "vmcs_data s GUEST_RSP = vmcs_data s0 GUEST_RSP"
    "cr2 s = cr2 s0" "cr3 s = cr3 s0" "vmcs_data s GUEST_CR3 = c3"
    "g_ip (loaded s) = ip" "g_cr3 (loaded s) = c3" "g_esp (loaded s) = vmcs_data s0 GUEST_RSP"
    "g_cr2 (loaded s) = cr2 s0" "g_regs (loaded s) = regs s" "g_mem (loaded s) = vm_mem s" "g_stores (loaded s) = []"
  using assms by (simp_all add: stage_def paging_on_def loaded_def vmcs_read_def)

lemma setup_mem_outside:
  assumes "paging_ok l s" "a \<notin> table_pages l s"
  shows "vm_mem (vmcs_init h l s) a = vm_mem s a"
  using assms guest_tables(3) [of "guest_page_dir l" "guest_page_table l" 0 _ "vm_mem s" a]
  by (simp add: vmcs_init_mem paging_ok_def table_pages_def)

lemma read_bytes_nth_code: "read_bytes m p n = bs \<Longrightarrow> i < n \<Longrightarrow> m (p + of_nat i) = bs ! i"
  by (auto simp: read_bytes_def)

text \<open>Before the store the guest reads its program and the variable; after it, what follows the store.\<close>

lemma program_before:
  assumes "paging_ok l s" "program_ok l c var s" "g_cr3 g = guest_page_dir l" "g_mem g = vm_mem (vmcs_init h l s)"
  shows "code_seen g (guest_entry l) var (c_hypercall c - (guest_entry l + 33)) 0"
    "walk g False (var + of_nat i) \<noteq> None" "load32 (seen g) var = TEST_READONLY_ADDR"
    "walk g True TEST_READONLY_ADDR = None"
proof -
  have w: "walk g wr a = (if wr \<and> drop_bit 12 a = 0x103 then None else Some a)" for wr a
    unfolding walk_def assms(3,4) by (rule tables_translate(1) [OF assms(1) refl])
  have m: "vm_mem (vmcs_init h l s) a = vm_mem s a" if "a \<in> span (guest_entry l) 35 \<union> span var 4" for a
    using assms(1,2) that by (intro setup_mem_outside) (auto simp: program_ok_def)
  have code: "read_bytes (vm_mem s) (guest_entry l) 35 = guest_code var (c_hypercall c - (guest_entry l + 33))"
    using assms(2) by (simp add: program_ok_def)
  show "code_seen g (guest_entry l) var (c_hypercall c - (guest_entry l + 33)) 0"
    using read_bytes_nth_code [OF code]
    by (intro code_seenI) (simp_all add: w assms(4) m in_span_add)
  have "seen g a = vm_mem s a" if "a \<in> span var 4" for a
    using that by (simp add: seen_def w assms(4) m)
  then have "load32 (seen g) var = load32 (vm_mem s) var" by (rule load32_cong)
  then show "load32 (seen g) var = TEST_READONLY_ADDR" using assms(2) by (simp add: program_ok_def)
  show "walk g False (var + of_nat i) \<noteq> None" "walk g True TEST_READONLY_ADDR = None"
    by (simp_all add: w TEST_READONLY_ADDR_def)
qed

lemma low_add: "unat p + n \<le> 0x400000 \<Longrightarrow> i < n \<Longrightarrow> p + of_nat i < (0x400000 :: u32)"
proof -
  assume a: "unat p + n \<le> 0x400000" "i < n"
  then have "unat (p + of_nat i) = unat p + i" by (intro offset_add) simp
  with a show ?thesis by (simp add: word_less_nat_alt)
qed

lemma program_after:
  assumes "paging_ok l s" "program_ok l c var s" "g_cr3 g = cr3 s"
    "\<And>a. a \<notin> span TEST_READONLY_ADDR 4 \<Longrightarrow> g_mem g a = vm_mem (vmcs_init h l s) a"
  shows "code_seen g (guest_entry l) var (c_hypercall c - (guest_entry l + 33)) 22"
    "g_mem g = vm_mem (vmcs_init h l s) \<Longrightarrow> code_seen g (guest_entry l) var (c_hypercall c - (guest_entry l + 33)) 16"
    "a < 0x400000 \<Longrightarrow> walk g wr a = Some a"
proof -
  have "b \<notin> span TEST_READONLY_ADDR 4" if "b \<in> table_pages l s" for b
    using assms(2) that by (auto simp: program_ok_def)
  then have w: "walk g wr a = (if a < 0x400000 then Some a else None)" for wr a
    unfolding walk_def assms(3) using assms(4) by (intro tables_translate(2) [OF assms(1)]) simp
  then show "a < 0x400000 \<Longrightarrow> walk g wr a = Some a" by simp
  have low: "guest_entry l + of_nat i < 0x400000" if "i < 35" for i
    using assms(2) that by (intro low_add [of _ 35]) (auto simp: program_ok_def)
  have code: "read_bytes (vm_mem s) (guest_entry l) 35 = guest_code var (c_hypercall c - (guest_entry l + 33))"
    using assms(2) by (simp add: program_ok_def)
  have m: "g_mem g (guest_entry l + of_nat i) = vm_mem s (guest_entry l + of_nat i)" if "22 \<le> i" "i < 35" for i
  proof -
    have "guest_entry l + of_nat i = guest_entry l + 22 + of_nat (i - 22)" using that by (simp add: of_nat_diff)
    also have "\<dots> \<in> span (guest_entry l + 22) 13" using that by (intro in_span_add) simp_all
    finally have "guest_entry l + of_nat i \<notin> span TEST_READONLY_ADDR 4" using assms(2) by (auto simp: program_ok_def)
    moreover have "guest_entry l + of_nat i \<in> span (guest_entry l) 35" using that by (intro in_span_add) simp_all
    then have "guest_entry l + of_nat i \<notin> table_pages l s" using assms(2) by (auto simp: program_ok_def)
    ultimately show ?thesis using assms(4) setup_mem_outside [OF assms(1)] by simp
  qed
  show "code_seen g (guest_entry l) var (c_hypercall c - (guest_entry l + 33)) 22"
    using read_bytes_nth_code [OF code] by (intro code_seenI) (simp_all add: w low m)
  assume same: "g_mem g = vm_mem (vmcs_init h l s)"
  have "guest_entry l + of_nat i \<notin> table_pages l s" if "i < 35" for i
  proof -
    have "guest_entry l + of_nat i \<in> span (guest_entry l) 35" using that by (intro in_span_add) simp_all
    then show ?thesis using assms(2) by (auto simp: program_ok_def)
  qed
  then show "code_seen g (guest_entry l) var (c_hypercall c - (guest_entry l + 33)) 16"
    using read_bytes_nth_code [OF code] setup_mem_outside [OF assms(1)]
    by (intro code_seenI) (simp_all add: w low same)
qed

text \<open>The exits up to the page fault: three entries, and the guest is back at its store, with the CR3 of the
  host and all of memory as it was.\<close>

lemma program_faults:
  assumes "no_write_fails h" "paging_ok l s" "program_ok l c var s" "processor_ok s"
  defines "s0 \<equiv> vmcs_init h l s"
  shows "\<exists>t. together h c s0 = together h c t \<and> stage s0 (guest_entry l + 16) (cr3 s) t \<and> vm_mem t = vm_mem s0
    \<and> eax (regs t) = TEST_READONLY_ADDR
    \<and> vm_out t = vm_out s0 @ take 8 (transcript (guest_entry l) (cr2 s) (c_fault_len c))"
proof -
  note st = program_start [OF assms(1,4), of l, folded s0_def]
  note before = program_before [OF assms(2,3), where h = h, folded s0_def]
  let ?e = "guest_entry l"
  let ?g0 = "skip_instr 5 ((loaded s0)\<lparr>g_regs := (g_regs (loaded s0))\<lparr>eax := 0x111000\<rparr>\<rparr>)"
  note f0 = stage_fields(10-16) [OF st(1)]
  have 0: "guest_until_exit c (vmcs_data s0) (loaded s0) = Some (exit_at ?g0 VMX_CR 0x313 3)"
    by (rule leg_read_cr3 [OF st(3) before(1) _ st(4)]) (simp_all add: f0)
  have b: "bit (0x313 :: u32) 4 = True" "bit (0x003 :: u32) 4 = False" by simp_all
  have g0: "g_ip ?g0 = ?e + 5" "?e + 5 + 3 = ?e + 8" by (simp_all add: f0)
  obtain s1 where s1: "together h c s0 = together h c s1" "stage s0 (?e + 8) (guest_page_dir l) s1" "vm_mem s1 = vm_mem s0"
    "vm_out s1 = vm_out s0 @ [Printf ''Guest in <<<\<newline>'' [],
       Printf ''CR3 ACCESS: type=%s qual=%#x inst_len=%d RIP=%#x\<newline>'' [PStr ''write'', PWord 0x313, PWord 3, PWord (?e + 5)],
       Printf '' - CR3 write detected, restoring CR3\<newline>'' []]"
  proof -
    have "g_esp ?g0 = g_esp (loaded s0)" "g_cr2 ?g0 = g_cr2 (loaded s0)" "g_stores ?g0 = []" by (simp_all add: f0)
    from resume_cr3 [OF assms(1) 0 st(1,2) this, unfolded g0 b if_True] show ?thesis
      by (elim exE conjE) (rule that)
  qed
  note f1 = stage_fields [OF s1(2)]
  have 1: "guest_until_exit c (vmcs_data s1) (loaded s1) = Some (exit_at (loaded s1) VMX_CR 0x003 3)"
    by (rule leg_write_cr3 [OF _ before(1)]) (simp_all add: f1 s1(3) st(3) stage_controls [OF s1(2)] st(2))
  have g1: "g_ip (loaded s1) = ?e + 8" "?e + 8 + 3 = ?e + 11" by (simp_all add: f1)
  obtain s2 where s2: "together h c s1 = together h c s2" "stage s0 (?e + 11) (guest_page_dir l) s2" "vm_mem s2 = vm_mem s1"
    "vm_out s2 = vm_out s1 @ [Printf ''Guest in <<<\<newline>'' [],
       Printf ''CR3 ACCESS: type=%s qual=%#x inst_len=%d RIP=%#x\<newline>'' [PStr ''read'', PWord 0x003, PWord 3, PWord (?e + 8)]]"
    using resume_cr3 [OF assms(1) 1 s1(2) st(2) refl refl f1(16), unfolded g1 b if_False] by (elim exE conjE)
  note f2 = stage_fields [OF s2(2)]
  let ?g2 = "skip_instr 5 ((loaded s2)\<lparr>g_regs := (g_regs (loaded s2))\<lparr>eax := TEST_READONLY_ADDR\<rparr>\<rparr>)"
  have 2: "guest_until_exit c (vmcs_data s2) (loaded s2) =
      Some ((exit_at ?g2 VMX_EXC_NMI TEST_READONLY_ADDR (c_fault_len c))\<lparr>ev_intr_info := 0x80000B0E\<rparr>)"
    by (rule leg_fault [OF _ before(1) _ before(2-4)]) (simp_all add: f2 s1(3) s2(3) st(3,6-8))
  have g2: "g_esp ?g2 = g_esp (loaded s2)" "g_cr2 ?g2 = g_cr2 (loaded s2)" "g_stores ?g2 = []" by (simp_all add: f2)
  have ip2: "g_ip ?g2 = ?e + 16" "g_cr2 ?g2 = cr2 s" "eax (g_regs ?g2) = TEST_READONLY_ADDR" by (simp_all add: f2 st(11))
  obtain t where t: "together h c s2 = together h c t" "stage s0 (?e + 16) (cr3 s) t" "vm_mem t = vm_mem s2"
    "regs t = g_regs ?g2"
    "vm_out t = vm_out s2 @ [Printf ''Guest in <<<\<newline>'' [],
       Printf ''EXCEPTION: vector=%d CR2=%#x RIP=%#x inst_len=%d\<newline>''
         [PWord 14, PWord (cr2 s), PWord (?e + 16), PWord (c_fault_len c)],
       Printf ''PAGE FAULT: Attempted write to read-only page at %#x\<newline>'' [PWord (cr2 s)]]"
    using resume_fault [OF assms(1) 2 s2(2) st(2) g2, unfolded ip2 st(10)] by (elim exE conjE)
  have "vm_out t = vm_out s0 @ take 8 (transcript ?e (cr2 s) (c_fault_len c))"
    by (simp add: t(5) s2(4) s1(4) transcript_def)
  moreover have "eax (regs t) = TEST_READONLY_ADDR" by (simp only: t(4) ip2)
  ultimately show ?thesis using s1(1,3) s2(1,3) t(1-3) by auto
qed

text \<open>From the store on: it succeeds when it is tried again, the guest halts, and its hypercall ends the run.\<close>

lemma program_ends:
  assumes "no_write_fails h" "paging_ok l s" "program_ok l c var s" "processor_ok s"
  defines "s0 \<equiv> vmcs_init h l s"
  assumes t: "stage s0 (guest_entry l + 16) (cr3 s) t" "vm_mem t = vm_mem s0" "eax (regs t) = TEST_READONLY_ADDR"
  shows "\<exists>u. together h c t = Some (Returns_0, u) \<and> guest_finished u = 1 \<and> vmcs_read GUEST_CR3 u = cr3 s
    \<and> vm_out u = vm_out t @ drop 8 (transcript (guest_entry l) (cr2 s) (c_fault_len c))
    \<and> (\<forall>a. a \<notin> span (guest_stack l + 4092) 4 \<union> fst ` set (c_stores c) \<longrightarrow>
         vm_mem u a = store32 (vm_mem s0) TEST_READONLY_ADDR 0x42 a)"
proof -
  note st = program_start [OF assms(1,4), of l, folded s0_def]
  note after = program_after [OF assms(2,3), where h = h, folded s0_def]
  let ?e = "guest_entry l" and ?T = TEST_READONLY_ADDR
  note f = stage_fields [OF t(1)]
  have low: "?T + of_nat i < 0x400000" if "i < 4" for i
    using that by (intro low_add [of _ 4]) (simp_all add: TEST_READONLY_ADDR_def)
  have w: "walk (loaded t) True (?T + of_nat i) = Some (?T + of_nat i)" if "i < 4" for i
    using low [OF that] by (intro after(3)) (simp_all add: f t(2))
  note sg = stores_identity [of "loaded t" ?T, OF w]
  let ?g = "skip_instr 6 (store_guest (loaded t) ?T 0x42)"
  have 1: "guest_until_exit c (vmcs_data t) (loaded t) = Some (exit_at ?g VMX_HLT 0 1)"
  proof (rule leg_store [OF _ after(2)])
    show "code_seen (loaded t\<lparr>g_mem := store32 (g_mem (loaded t)) ?T 0x42\<rparr>) ?e var (c_hypercall c - (?e + 33)) 22"
      by (rule after(1)) (simp_all add: f t(2) store32_outside)
    show "vmcs_data t CPU_EXEC_CTRL0 AND CPU_HLT \<noteq> 0" unfolding f(2) by (rule st(5))
  qed (use w in \<open>simp_all add: f t(2,3) st(3)\<close>)
  have g: "g_esp ?g = g_esp (loaded t)" "g_cr2 ?g = g_cr2 (loaded t)" "g_ip ?g = ?e + 22" by (simp_all add: sg f)
  have stores: "guest_stores (g_stores ?g) (vm_mem t) = store32 (vm_mem s0) ?T 0x42"
    by (simp add: sg f t(2) guest_stores_def store32_def)
  obtain s1 where s1: "together h c t = together h c s1" "stage s0 (?e + 23) (cr3 s) s1"
    "vm_mem s1 = store32 (vm_mem s0) ?T 0x42"
    "vm_out s1 = vm_out t @ [Printf ''Guest in <<<\<newline>'' [], Printf ''HLT VMEXIT: RIP=%#x\<newline>'' [PWord (?e + 22)]]"
  proof -
    have ip: "?e + 22 + 1 = ?e + 23" by simp
    from resume_hlt [OF assms(1) 1 t(1) st(2) g(1,2), unfolded g stores ip] show ?thesis by (elim exE conjE) (rule that)
  qed
  note f1 = stage_fields [OF s1(2)]
  have m1: "g_mem (loaded s1) a = vm_mem s0 a" if "a \<notin> span ?T 4" for a using that by (simp add: f1 s1(3) store32_outside)
  have stack: "g_esp (loaded s1) - 4 = guest_stack l + 4092" by (simp add: f1 st(9))
  have w1: "walk (loaded s1) True (guest_stack l + 4092 + of_nat i) = Some (guest_stack l + 4092 + of_nat i)" if "i < 4" for i
  proof -
    have "guest_stack l + of_nat (4092 + i) < 0x400000"
      using assms(3) that by (intro low_add [of _ 4096]) (auto simp: program_ok_def)
    then have "guest_stack l + 4092 + of_nat i < 0x400000" by (simp add: add.assoc)
    from after(3) [OF f1(11) m1 this] show ?thesis by blast
  qed
  have "code_seen (loaded s1) ?e var (c_hypercall c - (?e + 33)) 22" using after(1) [OF f1(11) m1] by blast
  then have l: "\<exists>ev. guest_until_exit c (vmcs_data s1) (loaded s1) = Some ev \<and> ev_reason ev = VMX_VMCALL
    \<and> ev_hypercall ev = Some (hypercall 1) \<and> ev_out ev = hypercall_msg 1 \<and> ev_saved ev = [(GUEST_CR3, g_cr3 (loaded s1))]
    \<and> fst ` set (ev_writes ev) \<subseteq> fst ` set (g_stores (loaded s1))
      \<union> {p. \<exists>i<4. walk (loaded s1) True (g_esp (loaded s1) - 4 + of_nat i) = Some p} \<union> fst ` set (c_stores c)"
    using w1 st(3) by (intro leg_hypercall [of _ _ ?e var "c_hypercall c - (?e + 33)"]) (simp_all add: f1(1,10) stack)
  obtain ev where ev:
    "guest_until_exit c (vmcs_data s1) (loaded s1) = Some ev" "ev_reason ev = VMX_VMCALL" "ev_hypercall ev = Some (hypercall 1)"
    "ev_out ev = hypercall_msg 1" "ev_saved ev = [(GUEST_CR3, g_cr3 (loaded s1))]"
    "fst ` set (ev_writes ev) \<subseteq> {p. \<exists>i<4. guest_stack l + 4092 + of_nat i = p} \<union> fst ` set (c_stores c)"
  proof -
    have "{p. \<exists>i<4. walk (loaded s1) True (guest_stack l + 4092 + of_nat i) = Some p} =
        {p. \<exists>i<4. guest_stack l + 4092 + of_nat i = p}"
      using w1 by (intro Collect_cong ex_cong) auto
    with l that show thesis by (auto simp: stack f1(16))
  qed
  from monitor_ends [OF assms(1) ev(1-5)] obtain u where u: "together h c s1 = Some (Returns_0, u)" "guest_finished u = 1"
    "vmcs_read GUEST_CR3 u = vmcs_read GUEST_CR3 s1" "vm_mem u = guest_stores (ev_writes ev) (vm_mem s1)"
    "vm_out u = vm_out s1 @ [Printf ''Guest in <<<\<newline>'' [], Printf ''hypercall: %d\<newline>'' [PWord 1],
        Printf ''hypercall: VMEXIT\<newline>'' [], Printf ''Guest exited normally\<newline>'' []]"
    using stage_controls [OF s1(2)] st(2) by blast
  have "vm_mem u a = store32 (vm_mem s0) ?T 0x42 a" if "a \<notin> span (guest_stack l + 4092) 4 \<union> fst ` set (c_stores c)" for a
  proof -
    have "{p. \<exists>i<4. guest_stack l + 4092 + of_nat i = p} \<subseteq> span (guest_stack l + 4092) 4"
      using in_span_add [of _ 4 "guest_stack l + 4092"] by auto
    then have "a \<notin> fst ` set (ev_writes ev)" using that ev(6) by blast
    then show ?thesis by (simp add: u(4) s1(3) guest_stores_frame)
  qed
  moreover have "vm_out u = vm_out t @ drop 8 (transcript ?e (cr2 s) (c_fault_len c))"
    by (simp add: u(5) s1(4) transcript_def)
  moreover have "vmcs_read GUEST_CR3 u = cr3 s" using u(3) f1(9) by (simp add: vmcs_read_def)
  ultimately show ?thesis using s1(1) u(1,2) by auto
qed

text \<open>C3. The monitor and its guest program together, from the set-up VMCS on: they end, with the value 0 and
  \<open>guest_finished\<close> set, after exactly five entries and the messages of \<open>transcript\<close>. Among these, the
  access that reads CR3 is announced as a write, and the address given for the page fault is whatever CR2
  held before, as a fault that exits does not set it. The store that faulted succeeds when it is tried
  again: the guest then runs with the tables of the host, and the word is at the address that was
  to be read-only.\<close>

theorem guest_program_runs:
  assumes "no_write_fails h" "paging_ok l s" "program_ok l c var s" "processor_ok s"
  shows "\<exists>t. together h c (vmcs_init h l s) = Some (Returns_0, t)
    \<and> guest_finished t = 1 \<and> vmcs_read GUEST_CR3 t = cr3 s
    \<and> vm_out t = vm_out (vmcs_init h l s) @ transcript (guest_entry l) (cr2 s) (c_fault_len c)
    \<and> (\<forall>a. a \<notin> span (guest_stack l + 4092) 4 \<union> fst ` set (c_stores c) \<longrightarrow>
         vm_mem t a = store32 (vm_mem (vmcs_init h l s)) TEST_READONLY_ADDR 0x42 a)"
proof -
  let ?tr = "transcript (guest_entry l) (cr2 s) (c_fault_len c)"
  obtain t where t: "together h c (vmcs_init h l s) = together h c t" "stage (vmcs_init h l s) (guest_entry l + 16) (cr3 s) t"
    "vm_mem t = vm_mem (vmcs_init h l s)" "eax (regs t) = TEST_READONLY_ADDR" "vm_out t = vm_out (vmcs_init h l s) @ take 8 ?tr"
    using program_faults [OF assms] by blast
  from program_ends [OF assms t(2-4)] obtain u where u: "together h c t = Some (Returns_0, u)" "guest_finished u = 1"
    "vmcs_read GUEST_CR3 u = cr3 s" "vm_out u = vm_out t @ drop 8 ?tr"
    "\<forall>a. a \<notin> span (guest_stack l + 4092) 4 \<union> fst ` set (c_stores c) \<longrightarrow>
         vm_mem u a = store32 (vm_mem (vmcs_init h l s)) TEST_READONLY_ADDR 0x42 a" by blast
  have "vm_out u = vm_out (vmcs_init h l s) @ ?tr" by (simp only: u(4) t(5) append_assoc append_take_drop_id)
  then show ?thesis using t(1) u(1-3,5) by auto
qed

text \<open>The kernel as it is linked for the witness: the code at the address the setup takes for read-only.\<close>

definition compiled0 :: compiled where
  "compiled0 = \<lparr>c_hypercall = 0x104000, c_vmcall = 0x104030, c_esp = (\<lambda>x. x - 32), c_regs = (\<lambda>r. r),
     c_stores = [(0x5000, 1)], c_fault_len = 0\<rparr>"

definition program0 :: vm_state where
  "program0 = loaded0\<lparr>vm_mem := write_bytes
     (write_bytes (vm_mem loaded0) 0x103b46 (guest_code 0x108000 (0x104000 - (0x103b46 + 33)))) 0x108000 (le32 TEST_READONLY_ADDR)\<rparr>"

lemma program0_mem:
  "a \<notin> span 0x103b46 35 \<Longrightarrow> a \<notin> span 0x108000 4 \<Longrightarrow> vm_mem program0 a = vm_mem loaded0 a"
  "read_bytes (vm_mem program0) 0x103b46 35 = guest_code 0x108000 (0x104000 - (0x103b46 + 33))"
  "load32 (vm_mem program0) 0x108000 = TEST_READONLY_ADDR"
proof -
  let ?code = "guest_code 0x108000 (0x104000 - (0x103b46 + 33))"
  have dis: "span (0x103b46 :: u32) 35 \<inter> span 0x108000 4 = {}" by (rule span_disjoint) simp_all
  show "vm_mem program0 a = vm_mem loaded0 a" if "a \<notin> span 0x103b46 35" "a \<notin> span 0x108000 4"
    using that by (simp add: program0_def write_bytes_outside)
  have "read_bytes (vm_mem program0) 0x103b46 35 = read_bytes (write_bytes (vm_mem loaded0) 0x103b46 ?code) 0x103b46 35"
  proof -
    have "0x103b46 + of_nat i \<notin> span (0x108000 :: u32) 4" if "i < 35" for i
      using dis in_span_add [OF that, of "0x103b46 :: u32"] by auto
    then show ?thesis by (simp add: program0_def read_bytes_def write_bytes_outside)
  qed
  then show "read_bytes (vm_mem program0) 0x103b46 35 = ?code"
    using read_write_bytes [of ?code "vm_mem loaded0" "0x103b46"] by simp
  have m: "vm_mem program0 (0x108000 + of_nat i) = le32 TEST_READONLY_ADDR ! i" if "i < 4" for i
    using that by (simp add: program0_def write_bytes_apply unat_of_nat)
  show "load32 (vm_mem program0) 0x108000 = TEST_READONLY_ADDR"
    using m [of 0] m [of 1] m [of 2] m [of 3] by (intro load32_le32) (simp_all add: le32_def)
qed

lemma program0_ok: "paging_ok layout0 program0" "program_ok layout0 compiled0 0x108000 program0" "processor_ok program0"
proof -
  have cr3: "cr3 program0 = 0xa000" by (simp add: program0_def loaded0_ok(2))
  have low: "span (0xa000 :: u32) 4096 \<inter> span 0x103b46 35 = {}" "span (0xa000 :: u32) 4096 \<inter> span 0x108000 4 = {}"
    by (rule span_disjoint; simp)+
  have al: "aligned (0xa000 :: u32) 4096" by (simp add: aligned_def)
  have "\<forall>i<1024. load_elem (vm_mem program0) 0xa000 i = page_dir ! i"
  proof (rule page_dir_kept [OF al])
    show "\<forall>i<1024. load_elem (vm_mem loaded0) 0xa000 i = page_dir ! i"
      using loaded0_ok by (simp add: paging_ok_def list_all_iff)
    show "vm_mem program0 b = vm_mem loaded0 b" if "b \<in> span 0xa000 4096" for b
      using that low by (intro program0_mem(1)) auto
  qed
  then show "paging_ok layout0 program0"
    using loaded0_ok by (simp add: paging_ok_def cr3 list_all_iff)
  have d: "span (0x103b46 :: u32) 35 \<inter> (span 0x110000 4096 \<union> span 0x111000 4096 \<union> span 0xa000 4096) = {}"
    "span (0x108000 :: u32) 4 \<inter> (span 0x110000 4096 \<union> span 0x111000 4096 \<union> span 0xa000 4096) = {}"
    "span (0x103b46 :: u32) 4 \<inter> (span 0x110000 4096 \<union> span 0x111000 4096 \<union> span 0xa000 4096) = {}"
    unfolding Int_Un_distrib
    using span_disjoint [of "0x103b46" 35 "0x110000" 4096] span_disjoint [of "0x103b46" 35 "0x111000" 4096]
      span_disjoint [of "0xa000" 4096 "0x103b46" 35] span_disjoint [of "0x108000" 4 "0x110000" 4096]
      span_disjoint [of "0x108000" 4 "0x111000" 4096] span_disjoint [of "0xa000" 4096 "0x108000" 4]
      span_disjoint [of "0x103b46" 4 "0x110000" 4096] span_disjoint [of "0x103b46" 4 "0x111000" 4096]
      span_disjoint [of "0xa000" 4096 "0x103b46" 4]
    by (simp_all add: Int_commute)
  have later: "span (0x103b46 :: u32) 4 \<inter> span 0x103b5c 13 = {}" by (rule span_disjoint) simp_all
  show "program_ok layout0 compiled0 0x108000 program0"
    using d later program0_mem(2,3)
    by (simp add: program_ok_def table_pages_def cr3 layout0_def compiled0_def TEST_READONLY_ADDR_def Int_Un_distrib2)
  show "processor_ok program0"
    by (simp add: processor_ok_def program0_def loaded0_def vm_state0_def read_capabilities_def rdmsr_def ctrl_clr_def
        basic_ctrl_def Let_def)
qed

theorem guest_program_runs_witness:
  "\<exists>t. together hw_ok compiled0 (vmcs_init hw_ok layout0 program0) = Some (Returns_0, t)
    \<and> guest_finished t = 1 \<and> vmcs_read GUEST_CR3 t = 0xa000 \<and> vm_mem t 0x103b46 = 0x42"
proof -
  have "0x103b46 \<notin> span (0x112ffc :: u32) 4" by (simp add: span_iff)
  then have "0x103b46 \<notin> span (guest_stack layout0 + 4092) 4 \<union> fst ` set (c_stores compiled0)"
    by (simp add: layout0_def compiled0_def)
  moreover have "store32 m TEST_READONLY_ADDR 0x42 0x103b46 = 0x42" for m
    by (simp add: store32_def TEST_READONLY_ADDR_def)
  ultimately show ?thesis
    using guest_program_runs [OF hw_ok_writes program0_ok] by (auto simp: program0_def loaded0_ok(2))
qed

end
