(* ===== verification/Messages.thy ===== *)
theory Messages
  imports Format_Types Vmx_Enable Guest_Program
begin

text \<open>
  The messages of \<open>src/kernel/vm/vm.c\<close> are well-typed calls of \<open>printf\<close>: each passes the arguments that its
  format asks for, on every path of the program.
\<close>

section \<open>Each message\<close>

definition says :: "vm_state \<Rightarrow> vm_state \<Rightarrow> bool" where
  "says s t \<longleftrightarrow> (list_all call_ok (vm_out s) \<longrightarrow> list_all call_ok (vm_out t))"

named_theorems says_intros



lemma says_print [says_intros]: "says s t \<Longrightarrow> list_all call_ok cs \<Longrightarrow> says s (vm_print cs t)"
  by (simp add: says_def vm_print_def)

text \<open>The formats of the file.\<close>

lemma setup_formats [simp]:
  "call_ok (Printf ''vmcs write wrong\<newline>'' [])"
  "call_ok (Printf ''ecx: %x\<newline>'' [PWord a])"
  "call_ok (Printf ''This cpu support vt\<newline>'' [])"
  "call_ok (Printf ''This cpu don't support vt\<newline>'' [])"
  "call_ok (Printf ''VMX enabled and locked by BIOS\<newline>'' [])"
  "call_ok (Printf ''ERROR: VMX locked out by BIOS without enabled\<newline>'' [])"
  "call_ok (Printf ''%s : vmcs_clear error\<newline>'' [PStr x])"
  "call_ok (Printf ''%s : make_vmcs_current error\<newline>'' [PStr x])"
  "call_ok (Printf ''Page table test: Guest will write to read-only code segment\<newline>'' [])"
  "call_ok (Printf ''Test address (code segment): %#x\<newline>'' [PWord a])"
  "call_ok (Printf ''CR0.WP is enabled in guest\<newline>'' [])"
  "call_ok (Printf ''EXC_BITMAP set to %#x\<newline>'' [PWord a])"
  "call_ok (Printf ''Setting up guest page tables...\<newline>'' [])"
  "call_ok (Printf ''Guest page directory at %#x\<newline>'' [PWord a])"
  "call_ok (Printf ''Guest page table at %#x\<newline>'' [PWord a])"
  "call_ok (Printf ''Test page %#x (index %d) set to READ-ONLY\<newline>'' [PWord a, PWord b])"
  by (simp_all add: well_typed_def is_digit_def del: push_bit_numeral)

lemma run_formats [simp]:
  "call_ok (Printf ''Guest in <<<\<newline>'' [])"
  "call_ok (Printf ''hypercall: %d\<newline>'' [PWord a])"
  "call_ok (Printf ''hypercall: VMEXIT\<newline>'' [])"
  "call_ok (Printf ''hypercall: VMABORT\<newline>'' [])"
  "call_ok (Printf ''hypercall: VMSKIP\<newline>'' [])"
  "call_ok (Printf ''ERROR : Invalid hypercall number : %d\<newline>'' [PWord a])"
  "call_ok (Printf ''EXCEPTION: vector=%d CR2=%#x RIP=%#x inst_len=%d\<newline>'' [PWord a, PWord b, PWord c, PWord d])"
  "call_ok (Printf ''PAGE FAULT: Attempted write to read-only page at %#x\<newline>'' [PWord a])"
  "call_ok (Printf ''HLT VMEXIT: RIP=%#x\<newline>'' [PWord a])"
  "call_ok (Printf ''CR3 ACCESS: type=%s qual=%#x inst_len=%d RIP=%#x\<newline>'' [PStr x, PWord a, PWord b, PWord c])"
  "call_ok (Printf '' - CR3 write detected, restoring CR3\<newline>'' [])"
  "call_ok (Printf ''EPT VIOLATION: GPA=%#x RIP=%#x'' [PWord a, PWord b])"
  "call_ok (Printf ''Guest exited normally\<newline>'' [])"
  "call_ok (Printf ''Guest aborted!\<newline>'' [])"
  "call_ok (Printf ''Guest skipped - continue running\<newline>'' [])"
  "call_ok (Printf ''ERROR : Invalid %s_handler return val %d\<newline>'' [PStr x, PWord a])"
  by (simp_all add: well_typed_def is_digit_def)

lemma info_formats [simp]:
  "call_ok (Printf ''VMEXIT info:\<newline>'' [])"
  "call_ok (Printf ''    vmexit reason = %d\<newline>'' [PWord a])"
  "call_ok (Printf ''    exit qualification = %#x\<newline>'' [PWord a])"
  "call_ok (Printf ''    Bit 31 of reason = %x'' [PWord a])"
  "call_ok (Printf ''    guest_eip = %#x\<newline>'' [PWord a])"
  "call_ok (Printf ''    EAX=%#x    EBX=%#x    ECX=%#x    EDX=%#x'' [PWord a, PWord b, PWord c, PWord d])"
  "call_ok (Printf ''    ESP=%#x    EBP=%#x    ESI=%#x    EDI=%#x'' [PWord a, PWord b, PWord c, PWord d])"
  "call_ok (Printf ''Early %s failure: \<newline>'' [PStr x])"
  "call_ok (Printf ''current-VMCS pointer is not valid.\<newline>'' [])"
  "call_ok (Printf ''error number is %x. See Intel 30.4.\<newline>'' [PWord a])"
  "call_ok (Printf ''unexpected flags %x!\<newline>'' [PWord a])"
  "call_ok (Printf ''Non-early %s failure (reason=%#x, qual=%#x):\<newline>'' [PStr x, PWord a, PWord b])"
  "call_ok (Printf ''invalid guest state\<newline>'' [])"
  "call_ok (Printf ''MSR loading\<newline>'' [])"
  "call_ok (Printf ''machine-check event\<newline>'' [])"
  "call_ok (Printf ''unexpected basic exit reason %x\<newline>'' [PWord a])"
  "call_ok (Printf ''    VMX_ENTRY_FAILURE BIT NOT SET!\<newline>'' [])"
  "call_ok (Printf ''    RESERVED BITS SET!\<newline>'' [])"
  "call_ok (Printf ''vmx is not support\<newline>'' [])"
  "call_ok (Printf ''Error: %s : vmxon failed\<newline>'' [PStr x])"
  "call_ok (Printf ''Error: %s : vmclear vmptrld failed\<newline>'' [PStr x])"
  "call_ok (Printf ''Error: %s : vmxoff failed\<newline>'' [PStr x])"
  "call_ok (Printf ''vmx test finished\<newline>'' [])"
  by (simp_all add: well_typed_def is_digit_def)

declare call_ok.simps [simp del]

section \<open>On every path\<close>

lemma says_write [says_intros]: "says s t \<Longrightarrow> says s (vmcs_write h e x t)"
  by (simp add: vmcs_write_def says_print) (simp add: says_def)

lemma says_writes [says_intros]: "says s t \<Longrightarrow> says s (vmcs_writes h ws t)"
  by (induction ws arbitrary: t) (auto simp: vmcs_writes_def intro: says_write)













text \<open>The messages of the two routines that only a changed \<open>vm_as.S\<close> would reach.\<close>

definition guest_main :: "pcall list" where
  "guest_main = [Printf ''this is guest main\<newline>'' []]"

definition vm_syscall_handler :: "u32 \<Rightarrow> pcall list" where
  "vm_syscall_handler no = [Printf ''no: %x\<newline>'' [PWord no]]"

lemma other_messages: "list_all call_ok (guest_main @ vm_syscall_handler no @ hypercall_msg no)"
  by (simp add: guest_main_def vm_syscall_handler_def hypercall_msg_def call_ok.simps well_typed_def is_digit_def)






end
