(* ===== verification/Entry_Stubs.thy ===== *)
theory Entry_Stubs
  imports Console Descriptors
begin

text \<open>
  The two ways into the kernel: the call gate that \<open>sys_show\<close> of \<open>src/kernel/io.c\<close> goes through to
  \<open>syscall_handler\<close> (\<open>src/kernel/syscall_as.S\<close>), and the interrupt gate of the timer to \<open>timer_int\<close>
  (\<open>src/kernel/irq_as.S\<close>), instruction by instruction, with what the processor does at a gate and at
  \<open>retf\<close> and \<open>iret\<close>. All segments are flat, so an address is its offset.
\<close>

unbundle bit_operations_syntax

section \<open>The processor\<close>

record cpu =
  r_eax :: u32
  r_ecx :: u32
  r_edx :: u32
  r_ebx :: u32
  r_esp :: u32
  r_ebp :: u32
  r_esi :: u32
  r_edi :: u32
  r_flags :: u32
  r_eip :: u32
  sr_cs :: u16
  sr_ss :: u16
  sr_ds :: u16
  sr_es :: u16
  sr_fs :: u16
  sr_gs :: u16
  r_mem :: memory

datatype sreg = DS | ES | FS | GS

primrec get_sr :: "sreg \<Rightarrow> cpu \<Rightarrow> u16" where
  "get_sr DS x = sr_ds x"
| "get_sr ES x = sr_es x"
| "get_sr FS x = sr_fs x"
| "get_sr GS x = sr_gs x"

primrec put_sr :: "sreg \<Rightarrow> u16 \<Rightarrow> cpu \<Rightarrow> cpu" where
  "put_sr DS w x = x\<lparr>sr_ds := w\<rparr>"
| "put_sr ES w x = x\<lparr>sr_es := w\<rparr>"
| "put_sr FS w x = x\<lparr>sr_fs := w\<rparr>"
| "put_sr GS w x = x\<lparr>sr_gs := w\<rparr>"

text \<open>What the stubs run in: the tables, the segment of the running task, the code at an address, and a
  C function \<open>e_fun\<close> on the words it is given, memory and a world \<open>'w\<close>. \<open>e_scratch\<close> is what the call and
  the function leave below the stack pointer and in their arguments, \<open>e_clobber\<close> what in the four
  registers they need not keep (the last is the flags).\<close>

record 'w env =
  e_gdt :: "gdt_entry list"
  e_idt :: "idt_entry list"
  e_tss :: "u32 list"
  e_fun :: "u32 list \<Rightarrow> memory \<Rightarrow> 'w \<Rightarrow> ('w \<times> memory) option"
  e_outb :: "u16 \<Rightarrow> u8 \<Rightarrow> 'w \<Rightarrow> 'w"
  e_scratch :: "u32 \<Rightarrow> memory \<Rightarrow> memory"
  e_clobber :: "cpu \<Rightarrow> u32 \<times> u32 \<times> u32 \<times> u32"

section \<open>Instructions\<close>

definition push :: "u32 \<Rightarrow> cpu \<Rightarrow> cpu" where
  "push w x = x\<lparr>r_esp := r_esp x - 4, r_mem := store32 (r_mem x) (r_esp x - 4) w\<rparr>"

definition pop :: "cpu \<Rightarrow> u32 \<times> cpu" where
  "pop x = (load32 (r_mem x) (r_esp x), x\<lparr>r_esp := r_esp x + 4\<rparr>)"

definition cpl :: "cpu \<Rightarrow> ring" where
  "cpl x = selector_rpl (sr_cs x)"

definition code_seg :: "gdt_entry \<Rightarrow> bool" where
  "code_seg d \<longleftrightarrow> seg_present d \<and> \<not> seg_is_system d \<and> bit (seg_type d) 3 \<and> \<not> bit (seg_type d) 2"

text \<open>A data segment register takes a null selector or one of a data segment that the privilege level
  may use; of the code segments the kernel loads none.\<close>

definition loadable :: "gdt_entry list \<Rightarrow> ring \<Rightarrow> u16 \<Rightarrow> bool" where
  "loadable g r sel \<longleftrightarrow> selector_index sel = 0 \<or>
     (selector_index sel < length g
      \<and> (let d = g ! selector_index sel
         in seg_present d \<and> \<not> seg_is_system d \<and> \<not> bit (seg_type d) 3 \<and> r \<le> seg_dpl d \<and> selector_rpl sel \<le> seg_dpl d))"

text \<open>\<open>push\<close> of a segment register writes 16 bits and moves the stack pointer by 4.\<close>

definition push_sr :: "sreg \<Rightarrow> cpu \<Rightarrow> cpu" where
  "push_sr r x = push (ucast (get_sr r x) OR (load32 (r_mem x) (r_esp x - 4) AND 0xFFFF0000)) x"

datatype insn =
    Push_sr sreg
  | Pop_sr sreg
  | Pusha
  | Popa
  | Mov_ax u16
  | Mov_sr_ax sreg
  | Mov_al u8
  | Outb_al u16
  | Mov_ebp_esp
  | Push_ebp u32  \<comment> \<open>the word at this distance from \<open>ebp\<close>\<close>
  | Call_c nat    \<comment> \<open>the function, with this number of words as arguments\<close>
  | Add_esp u32
  | Retf nat
  | Iret

text \<open>Back from a gate: \<open>retf n\<close>, or \<open>iret\<close> with the flags between. A return to a lower privilege takes
  the outer stack too and clears the data segments that it must not leave there.\<close>

definition cleared :: "gdt_entry list \<Rightarrow> ring \<Rightarrow> u16 \<Rightarrow> u16" where
  "cleared g r sel = (if seg_dpl (g ! selector_index sel) < r then 0 else sel)"

definition far_return :: "gdt_entry list \<Rightarrow> bool \<Rightarrow> nat \<Rightarrow> cpu \<Rightarrow> cpu option" where
  "far_return g flags n x =
     (let eip = load32 (r_mem x) (r_esp x);
          cs = ucast (load32 (r_mem x) (r_esp x + 4));
          top = r_esp x + (if flags then 12 else 8) + of_nat n;
          fl = (if flags then load32 (r_mem x) (r_esp x + 8) else r_flags x);
          r = selector_rpl cs;
          x1 = x\<lparr>r_eip := eip, sr_cs := cs, r_flags := fl, r_esp := top\<rparr>
      in if \<not> (selector_index cs < length g \<and> code_seg (g ! selector_index cs) \<and> seg_dpl (g ! selector_index cs) = r
              \<and> cpl x \<le> r) then None
         else if r = cpl x then Some x1
         else Some (x1\<lparr>r_esp := load32 (r_mem x) top + of_nat n, sr_ss := ucast (load32 (r_mem x) (top + 4)),
                      sr_ds := cleared g r (sr_ds x), sr_es := cleared g r (sr_es x),
                      sr_fs := cleared g r (sr_fs x), sr_gs := cleared g r (sr_gs x)\<rparr>))"

text \<open>\<open>None\<close> is an exception, for which the tables have no gate, or a function that does not return.\<close>

fun exec :: "'w env \<Rightarrow> insn \<Rightarrow> cpu \<Rightarrow> 'w \<Rightarrow> (cpu \<times> 'w) option" where
  "exec e (Push_sr r) x w = Some (push_sr r x, w)"
| "exec e (Pop_sr r) x w =
     (let (v, x1) = pop x
      in if loadable (e_gdt e) (cpl x) (ucast v) then Some (put_sr r (ucast v) x1, w) else None)"
| "exec e Pusha x w =
     Some (fold push [r_eax x, r_ecx x, r_edx x, r_ebx x, r_esp x, r_ebp x, r_esi x, r_edi x] x, w)"
| "exec e Popa x w =
     (let m = r_mem x; p = r_esp x
      in Some (x\<lparr>r_edi := load32 m p, r_esi := load32 m (p + 4), r_ebp := load32 m (p + 8), r_ebx := load32 m (p + 16),
                 r_edx := load32 m (p + 20), r_ecx := load32 m (p + 24), r_eax := load32 m (p + 28),
                 r_esp := p + 32\<rparr>, w))"
| "exec e (Mov_ax i) x w = Some (x\<lparr>r_eax := (r_eax x AND 0xFFFF0000) OR ucast i\<rparr>, w)"
| "exec e (Mov_sr_ax r) x w =
     (if loadable (e_gdt e) (cpl x) (ucast (r_eax x)) then Some (put_sr r (ucast (r_eax x)) x, w) else None)"
| "exec e (Mov_al i) x w = Some (x\<lparr>r_eax := (r_eax x AND 0xFFFFFF00) OR ucast i\<rparr>, w)"
| "exec e (Outb_al p) x w = Some (x, e_outb e p (ucast (r_eax x)) w)"
| "exec e Mov_ebp_esp x w = Some (x\<lparr>r_ebp := r_esp x\<rparr>, w)"
| "exec e (Push_ebp d) x w = Some (push (load32 (r_mem x) (r_ebp x + d)) x, w)"
| "exec e (Call_c n) x w =
     (let args = map (\<lambda>i. load32 (r_mem x) (r_esp x + 4 * of_nat i)) [0..<n];
          (a, c, d, f) = e_clobber e x
      in case e_fun e args (e_scratch e (r_esp x) (r_mem x)) w of
           None \<Rightarrow> None
         | Some (w', m) \<Rightarrow> Some (x\<lparr>r_eax := a, r_ecx := c, r_edx := d, r_flags := f, r_mem := m\<rparr>, w'))"
| "exec e (Add_esp n) x w =
     (let (a, c, d, f) = e_clobber e x in Some (x\<lparr>r_esp := r_esp x + n, r_flags := f\<rparr>, w))"
| "exec e (Retf n) x w = map_option (\<lambda>x1. (x1, w)) (far_return (e_gdt e) False n x)"
| "exec e Iret x w = map_option (\<lambda>x1. (x1, w)) (far_return (e_gdt e) True 0 x)"

primrec run :: "'w env \<Rightarrow> insn list \<Rightarrow> cpu \<Rightarrow> 'w \<Rightarrow> (cpu \<times> 'w) option" where
  "run e [] x w = Some (x, w)"
| "run e (i # is) x w = (case exec e i x w of None \<Rightarrow> None | Some (x', w') \<Rightarrow> run e is x' w')"

section \<open>Gates\<close>

text \<open>Through a gate to the offset \<open>off\<close> in the segment \<open>sel\<close>. A change of privilege takes the stack of the
  task's segment and copies the parameters.\<close>

definition enter :: "'w env \<Rightarrow> u16 \<Rightarrow> u32 \<Rightarrow> nat \<Rightarrow> bool \<Rightarrow> cpu \<Rightarrow> cpu option" where
  "enter e sel off n flags x =
     (let c = e_gdt e ! selector_index sel;
          fl = (if flags then [r_flags x] else []);
          params = map (\<lambda>i. load32 (r_mem x) (r_esp x + 4 * of_nat i)) [0..<n];
          x1 = (if seg_dpl c < cpl x
                then fold push ([ucast (sr_ss x), r_esp x] @ rev params @ fl @ [ucast (sr_cs x), r_eip x])
                       (x\<lparr>r_esp := e_tss e ! 1, sr_ss := ucast (e_tss e ! 2)\<rparr>)
                else fold push (fl @ [ucast (sr_cs x), r_eip x]) x)
      in if selector_index sel < length (e_gdt e) \<and> code_seg c \<and> seg_dpl c \<le> cpl x
         then Some (x1\<lparr>sr_cs := (sel AND NOT 3) OR of_nat (ring_num (seg_dpl c)), r_eip := off\<rparr>) else None)"

definition far_call :: "'w env \<Rightarrow> u16 \<Rightarrow> cpu \<Rightarrow> cpu option" where
  "far_call e sel x =
     (let bs = gdt_bytes (e_gdt e ! selector_index sel)
      in if selector_index sel < length (e_gdt e) \<and> gate_type bs = 0xC \<and> gate_usable (cpl x) bs
            \<and> selector_rpl sel \<le> gate_dpl bs
         then enter e (gate_selector bs) (gate_offset bs) (unat (gate_params bs)) False x else None)"

text \<open>An interrupt of the hardware, which no privilege level of the gate stops. It clears TF, IF, NT, RF
  and VM.\<close>

definition interrupt :: "'w env \<Rightarrow> nat \<Rightarrow> cpu \<Rightarrow> cpu option" where
  "interrupt e vec x =
     (let bs = idt_bytes (e_idt e ! vec)
      in if vec < length (e_idt e) \<and> gate_type bs = 0xE \<and> gate_present bs
         then map_option (\<lambda>x1. x1\<lparr>r_flags := r_flags x AND NOT 0x34300\<rparr>)
                (enter e (gate_selector bs) (gate_offset bs) 0 True x)
         else None)"

section \<open>The stubs\<close>

definition syscall_handler :: "insn list" where
  "syscall_handler =
     [Push_sr DS, Pusha, Mov_ax KERNEL_DATA_SEG, Mov_sr_ax DS,
      Mov_ebp_esp, Push_ebp (13 * 4), Push_ebp (12 * 4), Push_ebp (11 * 4),
      Call_c 3, Add_esp (3 * 4), Popa, Pop_sr DS, Retf (3 * 4)]"

definition timer_int :: "insn list" where
  "timer_int =
     [Push_sr DS, Push_sr ES, Push_sr FS, Push_sr GS, Pusha, Mov_al 0x20, Outb_al 0x20,
      Mov_ax KERNEL_DATA_SEG, Mov_sr_ax DS, Call_c 0,
      Popa, Pop_sr GS, Pop_sr FS, Pop_sr ES, Pop_sr DS, Iret]"

text \<open>The assembly of \<open>sys_show\<close>, for the code that starts at the addresses of \<open>code\<close>. The word pushed for
  the colour has it in its lowest byte, and above that what lies behind the variable.\<close>

definition sys_show_asm ::
    "'w env \<Rightarrow> (u32 \<Rightarrow> insn list option) \<Rightarrow> u32 \<Rightarrow> u32 \<Rightarrow> cpu \<Rightarrow> 'w \<Rightarrow> (cpu \<times> 'w) option" where
  "sys_show_asm e code str color x w =
     (case far_call e (7 * 8) (push 2 (push str (push color x))) of
        None \<Rightarrow> None
      | Some x1 \<Rightarrow> (case code (r_eip x1) of None \<Rightarrow> None | Some is \<Rightarrow> run e is x1 w))"

definition timer_tick :: "'w env \<Rightarrow> (u32 \<Rightarrow> insn list option) \<Rightarrow> cpu \<Rightarrow> 'w \<Rightarrow> (cpu \<times> 'w) option" where
  "timer_tick e code x w =
     (case interrupt e 0x20 x of
        None \<Rightarrow> None
      | Some x1 \<Rightarrow> (case code (r_eip x1) of None \<Rightarrow> None | Some is \<Rightarrow> run e is x1 w))"

section \<open>Words on a stack\<close>

primrec stack_at :: "memory \<Rightarrow> u32 \<Rightarrow> u32 list \<Rightarrow> bool" where
  "stack_at m p [] = True"
| "stack_at m p (w # ws) = (load32 m p = w \<and> stack_at m (p + 4) ws)"

primrec pushm :: "u32 \<Rightarrow> u32 list \<Rightarrow> memory \<Rightarrow> memory" where
  "pushm p [] m = m"
| "pushm p (w # ws) m = pushm (p - 4) ws (store32 m (p - 4) w)"

lemma span_tail: "4 \<le> n \<Longrightarrow> n \<le> 2 ^ 32 \<Longrightarrow> span (p + 4) (n - 4) \<subseteq> span p n"
  using span_sub [of 4 "n - 4" n p] by simp

lemma stack_at_cong:
  assumes "4 * length ws \<le> 2 ^ 32" "\<And>b. b \<in> span p (4 * length ws) \<Longrightarrow> m' b = m b"
  shows "stack_at m' p ws = stack_at m p ws"
  using assms
proof (induction ws arbitrary: p)
  case (Cons w ws)
  have "span p 4 \<subseteq> span p (4 * length (w # ws))" by (rule span_mono) simp
  then have "load32 m' p = load32 m p" using Cons.prems(2) by (intro load32_cong) blast
  moreover have "span (p + 4) (4 * length ws) \<subseteq> span p (4 * length (w # ws))"
    using span_tail [of "4 * length (w # ws)" p] Cons.prems(1) by simp
  then have "stack_at m' (p + 4) ws = stack_at m (p + 4) ws" using Cons.prems by (intro Cons.IH) auto
  ultimately show ?case by simp
qed simp

lemma stack_at_append: "stack_at m p (us @ ws) \<longleftrightarrow> stack_at m p us \<and> stack_at m (p + 4 * of_nat (length us)) ws"
  by (induction us arbitrary: p) (simp_all add: algebra_simps)

lemma pushm_append: "pushm p (us @ ws) m = pushm (p - 4 * of_nat (length us)) ws (pushm p us m)"
  by (induction us arbitrary: p m) (simp_all add: algebra_simps)

lemma pushm_outside:
  "4 * length ws \<le> 2 ^ 32 \<Longrightarrow> b \<notin> span (p - 4 * of_nat (length ws)) (4 * length ws) \<Longrightarrow> pushm p ws m b = m b"
proof (induction ws arbitrary: p m)
  case (Cons w ws)
  let ?q = "p - 4 * of_nat (length (w # ws))"
  have e: "p - 4 - 4 * of_nat (length ws) = ?q" by (simp add: algebra_simps)
  have "span ?q (4 * length ws) \<subseteq> span ?q (4 * length (w # ws))" by (rule span_mono) simp
  moreover have "span (?q + of_nat (4 * length ws)) 4 \<subseteq> span ?q (4 * length (w # ws))"
    using Cons.prems(1) by (intro span_sub) simp_all
  moreover have "?q + of_nat (4 * length ws) = p - 4" by (simp add: algebra_simps)
  ultimately have out: "b \<notin> span ?q (4 * length ws)" "b \<notin> span (p - 4) 4" using Cons.prems(2) by auto
  have "pushm (p - 4) ws (store32 m (p - 4) w) b = store32 m (p - 4) w b"
    using Cons.IH [of "p - 4" "store32 m (p - 4) w"] Cons.prems(1) out(1) unfolding e by simp
  then show ?case using out(2) by (simp add: store32_outside)
qed simp

lemma span_below:
  assumes "b \<in> span p k" "k + n \<le> 2 ^ 32"
  shows "b \<notin> span (p - of_nat n) n"
proof
  assume "b \<in> span (p - of_nat n) n"
  then have "unat (b - (p - of_nat n)) < n" by (simp add: span_iff)
  moreover have "unat (b - p) < k" using assms(1) by (simp add: span_iff)
  moreover have "b - (p - of_nat n) = (b - p) + of_nat n" by simp
  ultimately have "unat (b - p) + n < n" using assms(2) offset_add [of "b - p" n] by simp
  then show False by simp
qed

lemma pushm_onto:
  assumes "stack_at m p vs" "4 * (length ws + length vs) \<le> 2 ^ 32"
  shows "stack_at (pushm p ws m) (p - 4 * of_nat (length ws)) (rev ws @ vs)"
  using assms
proof (induction ws arbitrary: vs m p)
  case (Cons w ws)
  have "stack_at (store32 m (p - 4) w) p vs = stack_at m p vs"
  proof (rule stack_at_cong)
    show "4 * length vs \<le> 2 ^ 32" using Cons.prems(2) by simp
    show "store32 m (p - 4) w b = m b" if "b \<in> span p (4 * length vs)" for b
      using span_below [OF that, of 4] Cons.prems(2) by (simp add: store32_outside)
  qed
  then have "stack_at (store32 m (p - 4) w) (p - 4) (w # vs)" using Cons.prems(1) by (simp add: load32_store32)
  from Cons.IH [OF this] Cons.prems(2) show ?case by (simp add: diff_diff_eq)
qed simp

lemma pushm_above:
  assumes "stack_at m p vs" "4 * (length ws + length vs) \<le> 2 ^ 32"
  shows "stack_at (pushm p ws m) p vs"
proof -
  have "stack_at (pushm p ws m) p vs = stack_at m p vs"
  proof (rule stack_at_cong)
    show "pushm p ws m b = m b" if "b \<in> span p (4 * length vs)" for b
      using span_below [OF that, of "4 * length ws"] assms(2) by (intro pushm_outside) simp_all
  qed (use assms(2) in simp)
  with assms(1) show ?thesis by simp
qed

lemma fold_push:
  "fold push ws x = x\<lparr>r_esp := r_esp x - 4 * of_nat (length ws), r_mem := pushm (r_esp x) ws (r_mem x)\<rparr>"
  by (induction ws arbitrary: x) (simp_all add: push_def algebra_simps)

lemma push_fold: "push w x = fold push [w] x"
  by simp

section \<open>Through a gate and back\<close>

text \<open>The four flat segments, and a processor that runs in one of the two rings with them. In ring 0 it may
  have come there from a task, with data segments of the task.\<close>

definition gdt_flat :: "gdt_entry list \<Rightarrow> bool" where
  "gdt_flat g \<longleftrightarrow> 5 \<le> length g \<and> flat_is (g ! 1) 0xA Ring0 \<and> flat_is (g ! 2) 0x2 Ring0
     \<and> flat_is (g ! 3) 0xA Ring3 \<and> flat_is (g ! 4) 0x3 Ring3"

definition in_ring :: "ring \<Rightarrow> cpu \<Rightarrow> bool" where
  "in_ring r x \<longleftrightarrow>
     (if r = Ring0
      then sr_cs x = KERNEL_CODE_SEG \<and> (\<forall>s. get_sr s x \<in> {KERNEL_DATA_SEG, APP_DATA_SEG}) \<and> sr_ss x = KERNEL_DATA_SEG
      else r = Ring3 \<and> sr_cs x = APP_CODE_SEG \<and> (\<forall>s. get_sr s x = APP_DATA_SEG) \<and> sr_ss x = APP_DATA_SEG)"

text \<open>What a gate leaves on the stack, from the top of it on, and where that stack starts.\<close>

definition frame_words :: "nat \<Rightarrow> bool \<Rightarrow> cpu \<Rightarrow> u32 list" where
  "frame_words n flags x =
     [r_eip x, ucast (sr_cs x)] @ (if flags then [r_flags x] else [])
       @ (if cpl x = Ring0 then []
          else map (\<lambda>i. load32 (r_mem x) (r_esp x + 4 * of_nat i)) [0..<n] @ [r_esp x, ucast (sr_ss x)])"

definition stack_top :: "'w env \<Rightarrow> cpu \<Rightarrow> u32" where
  "stack_top e x = (if cpl x = Ring0 then r_esp x else e_tss e ! 1)"

lemma selectors:
  "selector_index KERNEL_CODE_SEG = 1" "selector_index KERNEL_DATA_SEG = 2" "selector_index APP_CODE_SEG = 3"
  "selector_index APP_DATA_SEG = 4" "selector_rpl KERNEL_CODE_SEG = Ring0" "selector_rpl KERNEL_DATA_SEG = Ring0"
  "selector_rpl APP_CODE_SEG = Ring3" "selector_rpl APP_DATA_SEG = Ring3"
  by (simp_all add: selector_index_def selector_rpl_def ring_of_def KERNEL_CODE_SEG_def KERNEL_DATA_SEG_def
      APP_CODE_SEG_def APP_DATA_SEG_def)

lemma flat_segs:
  assumes "gdt_flat g"
  shows "code_seg (g ! 1)" "code_seg (g ! 3)" "seg_dpl (g ! 1) = Ring0" "seg_dpl (g ! 2) = Ring0" "seg_dpl (g ! 3) = Ring3"
    "seg_dpl (g ! 4) = Ring3" "loadable g Ring0 KERNEL_DATA_SEG" "loadable g Ring0 APP_DATA_SEG"
  using assms by (simp_all add: gdt_flat_def flat_is_def code_seg_def loadable_def selectors Let_def less_eq_ring_def)

lemma in_ring_cpl: "in_ring r x \<Longrightarrow> cpl x = r \<and> r \<in> {Ring0, Ring3}"
  by (auto simp: in_ring_def cpl_def selectors split: if_splits)

lemma enter_kernel:
  assumes "gdt_flat (e_gdt e)" "in_ring r x" "e_tss e ! 2 = ucast KERNEL_DATA_SEG"
  shows "enter e KERNEL_CODE_SEG off n flags x =
    Some (x\<lparr>r_esp := stack_top e x - 4 * of_nat (length (frame_words n flags x)), sr_ss := KERNEL_DATA_SEG,
            sr_cs := KERNEL_CODE_SEG, r_eip := off, r_mem := pushm (stack_top e x) (rev (frame_words n flags x)) (r_mem x)\<rparr>)"
proof -
  have sel: "KERNEL_CODE_SEG AND NOT 3 OR of_nat (ring_num Ring0) = KERNEL_CODE_SEG"
    by (simp add: KERNEL_CODE_SEG_def)
  have ss: "ucast (e_tss e ! 2) = KERNEL_DATA_SEG" by (simp add: assms(3) KERNEL_DATA_SEG_def)
  have l: "1 < length (e_gdt e)" using assms(1) by (simp add: gdt_flat_def)
  have rings: "Ring0 \<le> q" "Ring0 < q \<longleftrightarrow> q \<noteq> Ring0" for q by (cases q; simp add: less_eq_ring_def less_ring_def)+
  note unfold = enter_def Let_def selectors flat_segs [OF assms(1)] rings sel fold_push
  show ?thesis
  proof (cases "cpl x = Ring0")
    case True
    then have "sr_ss x = KERNEL_DATA_SEG" using in_ring_cpl [OF assms(2)] assms(2) by (simp add: in_ring_def)
    with True show ?thesis
      by (simp only: unfold l flat_segs(1) simp_thms if_True if_False) (cases x; simp add: frame_words_def stack_top_def)
  next
    case False
    then show ?thesis
      by (simp only: unfold l flat_segs(1) simp_thms if_True if_False) (simp add: frame_words_def stack_top_def ss)
  qed
qed

lemma frame_loads:
  assumes "stack_at m p (frame_words n flags x)"
  shows "load32 m p = r_eip x" "load32 m (p + 4) = ucast (sr_cs x)" "flags \<Longrightarrow> load32 m (p + 8) = r_flags x"
  using assms by (simp_all add: frame_words_def add.commute [of p])

text \<open>A return finds its way back to where the gate was entered, with the parameters off the stack.\<close>

lemma return_back:
  assumes "gdt_flat g" "in_ring r x" "flags \<Longrightarrow> n = 0"
    "stack_at m (stack_top e x - 4 * of_nat (length (frame_words n flags x))) (frame_words n flags x)"
  shows "far_return g flags (4 * n) (x\<lparr>r_esp := stack_top e x - 4 * of_nat (length (frame_words n flags x)),
      sr_ss := KERNEL_DATA_SEG, sr_cs := KERNEL_CODE_SEG, r_eip := off, r_mem := m, r_flags := f\<rparr>)
    = Some (x\<lparr>r_mem := m, r_flags := (if flags then r_flags x else f), r_esp := r_esp x + 4 * of_nat n\<rparr>)"
proof -
  have l: "1 < length g" "3 < length g" using assms(1) by (simp_all add: gdt_flat_def)
  have cs: "ucast (ucast (sr_cs x) :: u32) = sr_cs x" "ucast (ucast (sr_ss x) :: u32) = sr_ss x"
    by (rule bit_word_eqI, simp add: bit_simps)+
  have sg: "sr_ds x = get_sr DS x" "sr_es x = get_sr ES x" "sr_fs x = get_sr FS x" "sr_gs x = get_sr GS x" by simp_all
  let ?p = "stack_top e x - 4 * of_nat (length (frame_words n flags x))"
  let ?y = "x\<lparr>r_esp := ?p, sr_ss := KERNEL_DATA_SEG, sr_cs := KERNEL_CODE_SEG, r_eip := off, r_mem := m, r_flags := f\<rparr>"
  have y: "cpl ?y = Ring0" by (simp add: cpl_def selectors)
  have ld: "load32 m ?p = r_eip x" "load32 m (?p + 4) = ucast (sr_cs x)" "flags \<Longrightarrow> load32 m (?p + 8) = r_flags x"
    by (rule frame_loads [OF assms(4)])+
  have rings: "Ring0 \<le> q" for q by (cases q; simp add: less_eq_ring_def)
  show ?thesis
  proof (cases "r = Ring0")
    case True
    then have x: "sr_cs x = KERNEL_CODE_SEG" "sr_ss x = KERNEL_DATA_SEG" "cpl x = Ring0"
      using assms(2) in_ring_cpl [OF assms(2)] by (simp_all add: in_ring_def)
    have "?p + (if flags then 12 else 8) + of_nat (4 * n) = r_esp x + 4 * of_nat n"
      using assms(3) by (simp add: stack_top_def frame_words_def x(3))
    then have "far_return g flags (4 * n) ?y = Some (?y\<lparr>r_eip := r_eip x, sr_cs := KERNEL_CODE_SEG,
        r_flags := (if flags then r_flags x else f), r_esp := r_esp x + 4 * of_nat n\<rparr>)"
      unfolding far_return_def Let_def y
      using ld cs(1) l(1) flat_segs(1,3) [OF assms(1)] by (auto simp: x(1) selectors rings)
    then show ?thesis using x by (cases x) simp
  next
    case False
    then have x: "sr_cs x = APP_CODE_SEG" "sr_ss x = APP_DATA_SEG" "cpl x = Ring3" "\<And>s. get_sr s x = APP_DATA_SEG"
      using assms(2) in_ring_cpl [OF assms(2)] by (auto simp: in_ring_def)
    let ?top = "?p + (if flags then 12 else 8) + of_nat (4 * n)"
    have "load32 m ?top = r_esp x" "load32 m (?top + 4) = ucast (sr_ss x)"
      using assms(3,4) by (auto simp: frame_words_def [of n flags x] x(3) stack_at_append algebra_simps split: if_splits)
    then have "far_return g flags (4 * n) ?y = Some (?y\<lparr>r_eip := r_eip x, sr_cs := APP_CODE_SEG,
        r_flags := (if flags then r_flags x else f), r_esp := r_esp x + of_nat (4 * n), sr_ss := APP_DATA_SEG\<rparr>)"
      unfolding far_return_def Let_def y
      using ld cs l(2) flat_segs(2,5,6) [OF assms(1)] x(4) [of DS] x(4) [of ES] x(4) [of FS] x(4) [of GS]
      by (auto simp: x(1,2) selectors rings cleared_def less_ring_def)
    then show ?thesis using x(1,2) by (cases x) simp
  qed
qed

section \<open>The stubs between gate and return\<close>

lemma stub_append: "run e (is @ js) x w = (case run e is x w of None \<Rightarrow> None | Some (x', w') \<Rightarrow> run e js x' w')"
  by (induction "is" arbitrary: x w) (simp_all split: option.split)

lemma push_pushm: "push w x = x\<lparr>r_esp := r_esp x - 4, r_mem := pushm (r_esp x) [w] (r_mem x)\<rparr>"
  by (simp add: push_def)

text \<open>The segment in the word that \<open>push\<close> has written, and what \<open>mov\<close> puts into \<open>ax\<close>.\<close>

definition sr_word :: "sreg \<Rightarrow> u32 \<Rightarrow> memory \<Rightarrow> cpu \<Rightarrow> u32" where
  "sr_word r p m x = ucast (get_sr r x) OR (load32 m (p - 4) AND 0xFFFF0000)"

lemma low_half:
  fixes w :: u32 and i :: u16
  shows "ucast (ucast i OR (w AND 0xFFFF0000)) = i" "ucast ((w AND 0xFFFF0000) OR ucast i) = i"
proof -
  have m: "(0xFFFF0000 :: u32) = NOT (mask 16)" by (simp add: mask_eq_exp_minus_1)
  show "ucast (ucast i OR (w AND 0xFFFF0000)) = i" "ucast ((w AND 0xFFFF0000) OR ucast i) = i"
    unfolding m by (rule bit_word_eqI; auto simp: bit_simps)+
qed

lemma low_byte: "(ucast (((w :: u32) AND 0xFFFFFF00) OR ucast (i :: u8)) :: u8) = i"
proof -
  have m: "(0xFFFFFF00 :: u32) = NOT (mask 8)" by (simp add: mask_eq_exp_minus_1)
  show ?thesis unfolding m by (rule bit_word_eqI) (auto simp: bit_simps)
qed

lemma exec_push_sr:
  "exec e (Push_sr r) x w = Some (x\<lparr>r_esp := r_esp x - 4,
     r_mem := pushm (r_esp x) [sr_word r (r_esp x) (r_mem x) x] (r_mem x)\<rparr>, w)"
  by (simp add: push_sr_def push_pushm sr_word_def del: pushm.simps)

definition gprs_pushed :: "u32 \<Rightarrow> cpu \<Rightarrow> u32 list" where
  "gprs_pushed p x = [r_eax x, r_ecx x, r_edx x, r_ebx x, p, r_ebp x, r_esi x, r_edi x]"

lemma exec_pusha:
  "exec e Pusha x w = Some (x\<lparr>r_esp := r_esp x - 32, r_mem := pushm (r_esp x) (gprs_pushed (r_esp x) x) (r_mem x)\<rparr>, w)"
  by (simp add: fold_push gprs_pushed_def del: pushm.simps fold.simps)

lemma exec_popa:
  assumes "stack_at (r_mem x) (r_esp x) (rev (gprs_pushed p y))"
  shows "exec e Popa x w = Some (x\<lparr>r_eax := r_eax y, r_ecx := r_ecx y, r_edx := r_edx y, r_ebx := r_ebx y,
     r_ebp := r_ebp y, r_esi := r_esi y, r_edi := r_edi y, r_esp := r_esp x + 32\<rparr>, w)"
  using assms by (simp add: gprs_pushed_def Let_def add.commute [of "r_esp x"])

lemma exec_pop_sr:
  assumes "ucast (load32 (r_mem x) (r_esp x)) = get_sr r y" "loadable (e_gdt e) (cpl x) (get_sr r y)"
  shows "exec e (Pop_sr r) x w = Some (put_sr r (get_sr r y) (x\<lparr>r_esp := r_esp x + 4\<rparr>), w)"
  using assms by (simp add: pop_def)

lemma exec_call:
  assumes "stack_at (r_mem x) (r_esp x) args" "e_fun e args (e_scratch e (r_esp x) (r_mem x)) w = Some (w', m)"
  shows "\<exists>a c d f. exec e (Call_c (length args)) x w =
    Some (x\<lparr>r_mem := m, r_eax := a, r_ecx := c, r_edx := d, r_flags := f\<rparr>, w')"
proof -
  have "map (\<lambda>i. load32 (r_mem x) (p + 4 * of_nat i)) [0..<length ws] = ws" if "stack_at (r_mem x) p ws" for p ws
    using that
  proof (induction ws arbitrary: p)
    case (Cons w ws)
    have "map (\<lambda>i. load32 (r_mem x) (p + 4 * of_nat i)) [0..<length (w # ws)] =
        load32 (r_mem x) p # map (\<lambda>i. load32 (r_mem x) (p + 4 + 4 * of_nat i)) [0..<length ws]"
      by (simp add: upt_conv_Cons map_Suc_upt [symmetric] o_def algebra_simps del: upt_Suc map_Suc_upt)
    then show ?case using Cons by simp
  qed simp
  from this [OF assms(1)] assms(2) show ?thesis by (cases x; cases "e_clobber e x") auto
qed

lemma exec_add_esp: "\<exists>f. exec e (Add_esp n) x w = Some (x\<lparr>r_esp := r_esp x + n, r_flags := f\<rparr>, w)"
  by (cases "e_clobber e x") auto

lemma exec_load_ds:
  assumes "gdt_flat (e_gdt e)" "cpl x = Ring0"
  shows "run e [Mov_ax KERNEL_DATA_SEG, Mov_sr_ax DS] x w =
    Some (x\<lparr>r_eax := (r_eax x AND 0xFFFF0000) OR ucast KERNEL_DATA_SEG, sr_ds := KERNEL_DATA_SEG\<rparr>, w)"
  using flat_segs(7) [OF assms(1)] assms(2) by (simp add: low_half cpl_def)

text \<open>The handler passes on the three words above its return address.\<close>

definition handler_stack :: "cpu \<Rightarrow> u32 list \<Rightarrow> u32 list" where
  "handler_stack y args =
     [sr_word DS (r_esp y) (r_mem y) y] @ gprs_pushed (r_esp y - 4) y @ rev args"

lemma run_syscall_handler:
  assumes "gdt_flat (e_gdt e)" "cpl y = Ring0" "loadable (e_gdt e) Ring0 (sr_ds y)"
    "stack_at (r_mem y) (r_esp y) [eip, cs, a1, a2, a3]"
  defines "p \<equiv> r_esp y - 48"
  defines "m1 \<equiv> pushm (r_esp y) (handler_stack y [a1, a2, a3]) (r_mem y)"
  assumes "e_fun e [a1, a2, a3] (e_scratch e p m1) w = Some (w', m2)"
    "\<And>b. b \<in> span (p + 12) 36 \<Longrightarrow> m2 b = m1 b"
  shows "\<exists>f. run e (butlast syscall_handler) y w = Some (y\<lparr>r_mem := m2, r_flags := f\<rparr>, w')"
proof -
  let ?u = "sr_word DS (r_esp y) (r_mem y) y"
  let ?ws = "?u # gprs_pushed (r_esp y - 4) y"
  let ?m = "pushm (r_esp y) ?ws (r_mem y)"
  let ?ax = "(r_eax y AND 0xFFFF0000) OR ucast KERNEL_DATA_SEG"
  let ?y1 = "y\<lparr>r_esp := r_esp y - 36, r_mem := ?m, r_eax := ?ax, sr_ds := KERNEL_DATA_SEG, r_ebp := r_esp y - 36\<rparr>"
  have lw: "length ?ws = 9" by (simp add: gprs_pushed_def)
  have "pushm (r_esp y - 4) (gprs_pushed (r_esp y - 4) y) (pushm (r_esp y) [?u] (r_mem y)) = ?m"
    by simp
  then have 1: "run e [Push_sr DS, Pusha, Mov_ax KERNEL_DATA_SEG, Mov_sr_ax DS, Mov_ebp_esp] y w = Some (?y1, w)"
    using flat_segs(7) [OF assms(1)] assms(2)
    by (simp add: exec_push_sr exec_pusha low_half cpl_def gprs_pushed_def del: pushm.simps exec.simps(1,3))
  have st: "stack_at (pushm (r_esp y) (?ws @ vs) (r_mem y)) (r_esp y) [eip, cs, a1, a2, a3]" if "length vs \<le> 3" for vs
    using that lw by (intro pushm_above assms(4)) simp
  have ld: "load32 (pushm (r_esp y) (?ws @ vs) (r_mem y)) (8 + r_esp y) = a1"
    "load32 (pushm (r_esp y) (?ws @ vs) (r_mem y)) (12 + r_esp y) = a2"
    "load32 (pushm (r_esp y) (?ws @ vs) (r_mem y)) (16 + r_esp y) = a3" if "length vs \<le> 3" for vs
    using st [OF that] by (simp_all add: add.commute [of "r_esp y"] del: pushm.simps)
  have m1: "m1 = pushm (r_esp y) (?ws @ [a3, a2, a1]) (r_mem y)" by (simp add: m1_def handler_stack_def)
  have ap: "pushm (r_esp y - 36 - 4 * of_nat (length vs)) [v] (pushm (r_esp y) (?ws @ vs) (r_mem y)) =
      pushm (r_esp y) (?ws @ vs @ [v]) (r_mem y)" for v vs
    using pushm_append [of "r_esp y" "?ws @ vs" "[v]" "r_mem y"] lw by (simp add: diff_diff_eq del: pushm.simps)
  have 2: "run e [Push_ebp (13 * 4), Push_ebp (12 * 4), Push_ebp (11 * 4)] ?y1 w = Some (?y1\<lparr>r_esp := p, r_mem := m1\<rparr>, w)"
    using ld(3) [of "[]"] ld(2) [of "[a3]"] ld(1) [of "[a3, a2]"] ap [of "[]" a3] ap [of "[a3]" a2] ap [of "[a3, a2]" a1]
    by (simp add: push_pushm p_def m1 del: pushm.simps)
  have args: "stack_at m1 p (a1 # a2 # a3 # rev ?ws)"
    using pushm_onto [of "r_mem y" "r_esp y" "[]" "?ws @ [a3, a2, a1]"] lw
    by (simp add: m1 p_def del: pushm.simps stack_at.simps(2))
  have a3: "stack_at m1 p [a1, a2, a3]" using args by simp
  obtain a c d f1 where c1: "exec e (Call_c 3) (?y1\<lparr>r_esp := p, r_mem := m1\<rparr>) w =
      Some (?y1\<lparr>r_esp := p, r_mem := m2, r_eax := a, r_ecx := c, r_edx := d, r_flags := f1\<rparr>, w')"
  proof -
    have "length [a1, a2, a3] = 3" by simp
    then show thesis
      using that exec_call [of "?y1\<lparr>r_esp := p, r_mem := m1\<rparr>" "[a1, a2, a3]" e w w' m2] a3 assms(7)
      by (simp del: exec.simps stack_at.simps list.size) blast
  qed
  let ?y2 = "\<lambda>f. ?y1\<lparr>r_mem := m2, r_eax := a, r_ecx := c, r_edx := d, r_esp := r_esp y - 36, r_flags := f\<rparr>"
  obtain f where c2: "exec e (Add_esp (3 * 4))
      (?y1\<lparr>r_esp := p, r_mem := m2, r_eax := a, r_ecx := c, r_edx := d, r_flags := f1\<rparr>) w' = Some (?y2 f, w')"
    using exec_add_esp [of e "3 * 4" "?y1\<lparr>r_esp := p, r_mem := m2, r_eax := a, r_ecx := c, r_edx := d, r_flags := f1\<rparr>" w']
    by (auto simp: p_def simp del: exec.simps)
  have "stack_at m2 (p + 12) (rev ?ws) = stack_at m1 (p + 12) (rev ?ws)"
    using assms(8) lw by (intro stack_at_cong) simp_all
  then have "stack_at m2 (p + 12) (rev ?ws)" using args by (simp add: add.commute [of p])
  then have kept: "stack_at m2 (r_esp y - 36) (rev (gprs_pushed (r_esp y - 4) y))" "load32 m2 (r_esp y - 4) = ?u"
    by (simp_all add: p_def stack_at_append gprs_pushed_def)
  have "stack_at (r_mem (?y2 f)) (r_esp (?y2 f)) (rev (gprs_pushed (r_esp y - 4) y))" by (simp add: kept(1))
  from exec_popa [OF this, of e w']
  have "exec e Popa (?y2 f) w' = Some (y\<lparr>r_esp := r_esp y - 4, sr_ds := KERNEL_DATA_SEG, r_mem := m2, r_flags := f\<rparr>, w')"
    by (cases y) (simp del: exec.simps)
  moreover let ?y3 = "y\<lparr>r_esp := r_esp y - 4, sr_ds := KERNEL_DATA_SEG, r_mem := m2, r_flags := f\<rparr>"
  have "ucast (load32 (r_mem ?y3) (r_esp ?y3)) = get_sr DS y" "loadable (e_gdt e) (cpl ?y3) (get_sr DS y)"
    using kept(2) assms(2,3) by (simp_all add: cpl_def sr_word_def low_half)
  from exec_pop_sr [OF this, of w'] have "exec e (Pop_sr DS) ?y3 w' = Some (y\<lparr>r_mem := m2, r_flags := f\<rparr>, w')"
    by (cases y) (simp del: exec.simps)
  ultimately have "run e [Call_c 3, Add_esp (3 * 4), Popa, Pop_sr DS] (?y1\<lparr>r_esp := p, r_mem := m1\<rparr>) w =
      Some (y\<lparr>r_mem := m2, r_flags := f\<rparr>, w')"
    using c1 c2 by (simp del: exec.simps)
  moreover have "butlast syscall_handler =
      [Push_sr DS, Pusha, Mov_ax KERNEL_DATA_SEG, Mov_sr_ax DS, Mov_ebp_esp] @
      [Push_ebp (13 * 4), Push_ebp (12 * 4), Push_ebp (11 * 4)] @ [Call_c 3, Add_esp (3 * 4), Popa, Pop_sr DS]"
    by (simp add: syscall_handler_def)
  ultimately show ?thesis by (simp only: stub_append 1 2 option.case prod.case) blast
qed

text \<open>The handler of the timer keeps all registers, and all segment registers.\<close>

lemma push_srs:
  "\<exists>us. fold push_sr rs y = y\<lparr>r_esp := r_esp y - 4 * of_nat (length rs), r_mem := pushm (r_esp y) us (r_mem y)\<rparr>
    \<and> map ucast us = map (\<lambda>r. get_sr r y) rs"
proof (induction rs arbitrary: y)
  case (Cons r rs)
  let ?u = "sr_word r (r_esp y) (r_mem y) y"
  let ?y = "y\<lparr>r_esp := r_esp y - 4, r_mem := store32 (r_mem y) (r_esp y - 4) ?u\<rparr>"
  have e: "push_sr r y = ?y" by (simp add: push_sr_def push_def sr_word_def)
  from Cons.IH [of ?y] obtain us where
    "fold push_sr rs ?y = ?y\<lparr>r_esp := r_esp ?y - 4 * of_nat (length rs), r_mem := pushm (r_esp ?y) us (r_mem ?y)\<rparr>"
    "map ucast us = map (\<lambda>r. get_sr r ?y) rs"
    by blast
  moreover have "get_sr q ?y = get_sr q y" for q by (cases q) simp_all
  moreover have "ucast ?u = get_sr r y" by (simp add: sr_word_def low_half)
  ultimately show ?case
    by (intro exI [of _ "?u # us"]) (simp add: e diff_diff_eq)
qed (intro exI [of _ "[]"], simp)

text \<open>The processor when \<open>timer_int\<close> calls \<open>task_sched\<close>, as far as the stack is concerned.\<close>

definition timer_pushed :: "cpu \<Rightarrow> cpu" where
  "timer_pushed y = (let y1 = fold push_sr [DS, ES, FS, GS] y in fold push (gprs_pushed (r_esp y1) y1) y1)"

lemma timer_pushed_eq:
  obtains us where "fold push_sr [DS, ES, FS, GS] y = y\<lparr>r_esp := r_esp y - 16, r_mem := pushm (r_esp y) us (r_mem y)\<rparr>"
    "map ucast us = [sr_ds y, sr_es y, sr_fs y, sr_gs y]" "timer_pushed y = y\<lparr>r_esp := r_esp y - 48,
      r_mem := pushm (r_esp y - 16) (gprs_pushed (r_esp y - 16) y) (pushm (r_esp y) us (r_mem y))\<rparr>"
proof -
  obtain us where us: "fold push_sr [DS, ES, FS, GS] y = y\<lparr>r_esp := r_esp y - 4 * of_nat (length [DS, ES, FS, GS]),
      r_mem := pushm (r_esp y) us (r_mem y)\<rparr>" "map ucast us = map (\<lambda>r. get_sr r y) [DS, ES, FS, GS]"
    using push_srs by blast
  let ?y1 = "y\<lparr>r_esp := r_esp y - 16, r_mem := pushm (r_esp y) us (r_mem y)\<rparr>"
  have 1: "fold push_sr [DS, ES, FS, GS] y = ?y1" using us(1) by (simp del: fold.simps)
  have "gprs_pushed (r_esp ?y1) ?y1 = gprs_pushed (r_esp y - 16) y" "length (gprs_pushed (r_esp y - 16) y) = 8"
    by (simp_all add: gprs_pushed_def)
  then have 2: "timer_pushed y = y\<lparr>r_esp := r_esp y - 48,
      r_mem := pushm (r_esp y - 16) (gprs_pushed (r_esp y - 16) y) (pushm (r_esp y) us (r_mem y))\<rparr>"
    unfolding timer_pushed_def 1 Let_def fold_push by (simp del: pushm.simps)
  show thesis by (rule that [OF 1 _ 2]) (use us(2) in simp)
qed

lemma timer_pushed_stack:
  "r_esp (timer_pushed y) = r_esp y - 48"
  "b \<notin> span (r_esp y - 48) 48 \<Longrightarrow> r_mem (timer_pushed y) b = r_mem y b"
proof -
  obtain us where us: "map ucast us = [sr_ds y, sr_es y, sr_fs y, sr_gs y]" "timer_pushed y = y\<lparr>r_esp := r_esp y - 48,
      r_mem := pushm (r_esp y - 16) (gprs_pushed (r_esp y - 16) y) (pushm (r_esp y) us (r_mem y))\<rparr>"
    by (rule timer_pushed_eq)
  then show "r_esp (timer_pushed y) = r_esp y - 48" by simp
  have l: "length us = 4" using arg_cong [OF us(1), of length] by simp
  have gp: "length (gprs_pushed (r_esp y - 16) y) = 8" by (simp add: gprs_pushed_def)
  have "r_mem (timer_pushed y) = pushm (r_esp y) (us @ gprs_pushed (r_esp y - 16) y) (r_mem y)"
    by (simp add: us(2) pushm_append l del: pushm.simps)
  then show "b \<notin> span (r_esp y - 48) 48 \<Longrightarrow> r_mem (timer_pushed y) b = r_mem y b"
    using pushm_outside [of "us @ gprs_pushed (r_esp y - 16) y" b "r_esp y"] l gp by simp
qed

lemma run_timer_int:
  assumes "gdt_flat (e_gdt e)" "cpl y = Ring0" "\<And>r. loadable (e_gdt e) Ring0 (get_sr r y)"
    "e_fun e [] (e_scratch e (r_esp (timer_pushed y)) (r_mem (timer_pushed y))) (e_outb e 0x20 0x20 w) = Some (w', m2)"
    "\<And>b. b \<in> span (r_esp (timer_pushed y)) 48 \<Longrightarrow> m2 b = r_mem (timer_pushed y) b"
  shows "\<exists>f. run e (butlast timer_int) y w = Some (y\<lparr>r_mem := m2, r_flags := f\<rparr>, w')"
proof -
  obtain us where us: "fold push_sr [DS, ES, FS, GS] y = y\<lparr>r_esp := r_esp y - 16, r_mem := pushm (r_esp y) us (r_mem y)\<rparr>"
    "map ucast us = [sr_ds y, sr_es y, sr_fs y, sr_gs y]" "timer_pushed y = y\<lparr>r_esp := r_esp y - 48,
      r_mem := pushm (r_esp y - 16) (gprs_pushed (r_esp y - 16) y) (pushm (r_esp y) us (r_mem y))\<rparr>"
    by (rule timer_pushed_eq)
  define m where "m = pushm (r_esp y) us (r_mem y)"
  let ?y1 = "y\<lparr>r_esp := r_esp y - 16, r_mem := m\<rparr>"
  let ?gp = "gprs_pushed (r_esp y - 16) y"
  let ?m1 = "pushm (r_esp y - 16) ?gp m"
  have gp: "gprs_pushed (r_esp ?y1) ?y1 = ?gp" "length ?gp = 8" by (simp_all add: gprs_pushed_def)
  have lw: "length us = 4" using arg_cong [OF us(2), of length] by simp
  have tp: "timer_pushed y = y\<lparr>r_esp := r_esp y - 48, r_mem := ?m1\<rparr>" by (simp only: us(3) m_def)
  have ws: "stack_at m (r_esp y - 16) (rev us)"
    using pushm_onto [of "r_mem y" "r_esp y" "[]" us] lw by (simp add: m_def)
  show "\<exists>f. run e (butlast timer_int) y w = Some (y\<lparr>r_mem := m2, r_flags := f\<rparr>, w')"
  proof -
    let ?w = "e_outb e 0x20 0x20 w"
    let ?y2 = "\<lambda>m a. y\<lparr>r_esp := r_esp y - 48, r_mem := m, r_eax := a, sr_ds := KERNEL_DATA_SEG\<rparr>"
    let ?al = "(r_eax y AND 0xFFFFFF00) OR ucast (0x20 :: u8)"
    let ?ax = "(?al AND 0xFFFF0000) OR ucast KERNEL_DATA_SEG"
    have 1: "run e [Push_sr DS, Push_sr ES, Push_sr FS, Push_sr GS] y w = Some (?y1, w)" by (simp add: us(1) [simplified] m_def)
    have "exec e Pusha ?y1 w = Some (y\<lparr>r_esp := r_esp y - 48, r_mem := ?m1\<rparr>, w)"
      unfolding exec_pusha gp(1) by simp
    moreover have "run e [Mov_al 0x20, Outb_al 0x20] (y\<lparr>r_esp := r_esp y - 48, r_mem := ?m1\<rparr>) w =
        Some (y\<lparr>r_esp := r_esp y - 48, r_mem := ?m1, r_eax := ?al\<rparr>, ?w)"
      using low_byte [of "r_eax y" "0x20"] by (simp del: pushm.simps unsigned_numeral)
    moreover have "run e [Mov_ax KERNEL_DATA_SEG, Mov_sr_ax DS] (y\<lparr>r_esp := r_esp y - 48, r_mem := ?m1, r_eax := ?al\<rparr>) ?w =
        Some (?y2 ?m1 ?ax, ?w)"
      by (subst exec_load_ds [OF assms(1)]) (use assms(2) in \<open>simp_all add: cpl_def del: pushm.simps\<close>)
    ultimately have "run e ([Pusha] @ [Mov_al 0x20, Outb_al 0x20] @ [Mov_ax KERNEL_DATA_SEG, Mov_sr_ax DS]) ?y1 w =
        Some (?y2 ?m1 ?ax, ?w)"
      unfolding stub_append by (simp del: exec.simps pushm.simps)
    then have 2: "run e [Pusha, Mov_al 0x20, Outb_al 0x20, Mov_ax KERNEL_DATA_SEG, Mov_sr_ax DS] ?y1 w =
        Some (?y2 ?m1 ?ax, ?w)"
      by (simp only: append_Cons append_Nil)
    obtain a c d f where 3: "exec e (Call_c 0) (?y2 ?m1 ?ax) ?w =
        Some ((?y2 ?m1 ?ax)\<lparr>r_mem := m2, r_eax := a, r_ecx := c, r_edx := d, r_flags := f\<rparr>, w')"
    proof -
      have "e_fun e [] (e_scratch e (r_esp (?y2 ?m1 ?ax)) (r_mem (?y2 ?m1 ?ax))) ?w = Some (w', m2)"
        using assms(4) by (simp add: tp del: pushm.simps)
      from exec_call [OF _ this] show thesis using that by (auto simp del: exec.simps pushm.simps)
    qed
    have "stack_at ?m1 (r_esp y - 48) (rev ?gp @ rev us)"
      using pushm_onto [OF ws, of ?gp] lw gp(2) by (simp del: pushm.simps)
    moreover have "stack_at m2 (r_esp y - 48) (rev ?gp @ rev us) = stack_at ?m1 (r_esp y - 48) (rev ?gp @ rev us)"
      using assms(5) lw gp(2) by (intro stack_at_cong) (simp_all add: tp del: pushm.simps)
    ultimately have kept: "stack_at m2 (r_esp y - 48) (rev ?gp)" "stack_at m2 (r_esp y - 16) (rev us)"
      by (simp_all add: stack_at_append gp(2) del: pushm.simps)
    let ?z = "y\<lparr>r_esp := r_esp y - 16, r_mem := m2, sr_ds := KERNEL_DATA_SEG, r_flags := f\<rparr>"
    let ?x3 = "(?y2 ?m1 ?ax)\<lparr>r_mem := m2, r_eax := a, r_ecx := c, r_edx := d, r_flags := f\<rparr>"
    have "stack_at (r_mem ?x3) (r_esp ?x3) (rev (gprs_pushed (r_esp y - 16) y))" using kept(1) by simp
    from exec_popa [OF this, of e w'] have 4: "exec e Popa ?x3 w' = Some (?z, w')"
      by (cases y) (simp del: exec.simps)
    have 5: "run e [Pop_sr GS, Pop_sr FS, Pop_sr ES, Pop_sr DS] ?z w' = Some (y\<lparr>r_mem := m2, r_flags := f\<rparr>, w')"
    proof -
      obtain b1 b2 b3 b4 where b: "us = [b1, b2, b3, b4]"
        using lw by (auto simp: eval_nat_numeral length_Suc_conv)
      show ?thesis
        using kept(2) us(2) assms(2) assms(3) [of GS] assms(3) [of FS] assms(3) [of ES] assms(3) [of DS]
        by (cases y) (simp add: b pop_def cpl_def)
    qed
    have 6: "run e [Call_c 0] (?y2 ?m1 ?ax) ?w = Some (?x3, w')" "run e [Popa] ?x3 w' = Some (?z, w')"
      by (simp_all only: run.simps 3 4 option.case prod.case)
    have "butlast timer_int = [Push_sr DS, Push_sr ES, Push_sr FS, Push_sr GS] @
        [Pusha, Mov_al 0x20, Outb_al 0x20, Mov_ax KERNEL_DATA_SEG, Mov_sr_ax DS] @ [Call_c 0] @ [Popa]
        @ [Pop_sr GS, Pop_sr FS, Pop_sr ES, Pop_sr DS]"
      by (simp add: timer_int_def)
    then have "run e (butlast timer_int) y w = Some (y\<lparr>r_mem := m2, r_flags := f\<rparr>, w')"
      by (simp only: stub_append 1 2 5 6 option.case prod.case)
    then show ?thesis by blast
  qed
qed

section \<open>Through a gate, the stub, and back\<close>

text \<open>The processor behind the gate, with the flags \<open>f\<close>.\<close>

definition entered :: "'w env \<Rightarrow> u32 \<Rightarrow> nat \<Rightarrow> bool \<Rightarrow> u32 \<Rightarrow> cpu \<Rightarrow> cpu" where
  "entered e off n flags f x = x\<lparr>r_esp := stack_top e x - 4 * of_nat (length (frame_words n flags x)),
     sr_ss := KERNEL_DATA_SEG, sr_cs := KERNEL_CODE_SEG, r_eip := off,
     r_mem := pushm (stack_top e x) (rev (frame_words n flags x)) (r_mem x), r_flags := f\<rparr>"

lemma entered_props:
  "cpl (entered e off n flags f x) = Ring0" "get_sr s (entered e off n flags f x) = get_sr s x"
  "r_eip (entered e off n flags f x) = off"
  by (simp_all add: entered_def cpl_def selectors) (cases s; simp)

lemma in_ring_loadable:
  assumes "gdt_flat g" "in_ring r x"
  shows "loadable g Ring0 (get_sr s x)"
proof -
  have "get_sr s x \<in> {KERNEL_DATA_SEG, APP_DATA_SEG}" using assms(2) by (auto simp: in_ring_def split: if_splits)
  then show ?thesis using flat_segs(7,8) [OF assms(1)] by auto
qed

lemma length_frame: "length (frame_words n flags x) \<le> 5 + n"
  by (simp add: frame_words_def)

lemma entered_stack:
  assumes "4 * (n + 5) \<le> 2 ^ 32"
  shows "stack_at (r_mem (entered e off n flags f x)) (r_esp (entered e off n flags f x)) (frame_words n flags x)"
  using pushm_onto [of "r_mem x" "stack_top e x" "[]" "rev (frame_words n flags x)"] assms length_frame [of n flags x]
  by (simp add: entered_def)

text \<open>The interrupt of the timer. \<open>timer_call e h x\<close> is the processor at the call of \<open>task_sched\<close>, when the
  interrupt has found it at \<open>x\<close>.\<close>

definition timer_call :: "'w env \<Rightarrow> u32 \<Rightarrow> cpu \<Rightarrow> cpu" where
  "timer_call e h x = timer_pushed (entered e h 0 True (r_flags x AND NOT 0x34300) x)"

definition timer_frame :: "cpu \<Rightarrow> nat" where
  "timer_frame x = 48 + 4 * length (frame_words 0 True x)"

lemma interrupt_enters:
  assumes "gdt_flat (e_gdt e)" "e_tss e ! 2 = ucast KERNEL_DATA_SEG" "in_ring r x" "vec < length (e_idt e)"
    "gate_is (idt_bytes (e_idt e ! vec)) h KERNEL_CODE_SEG 0xE 0 Ring0"
  shows "interrupt e vec x = Some (entered e h 0 True (r_flags x AND NOT 0x34300) x)"
  using assms(4,5) by (simp add: interrupt_def gate_is_def Let_def enter_kernel [OF assms(1,3,2)] entered_def)

lemma timer_tick_runs:
  fixes e :: "'w env" and x :: cpu
  assumes "gdt_flat (e_gdt e)" "e_tss e ! 2 = ucast KERNEL_DATA_SEG" "in_ring r x" "0x20 < length (e_idt e)"
    "gate_is (idt_bytes (e_idt e ! 0x20)) h KERNEL_CODE_SEG 0xE 0 Ring0" "code h = Some timer_int"
  defines "c \<equiv> timer_call e h x"
  assumes "e_fun e [] (e_scratch e (r_esp c) (r_mem c)) (e_outb e 0x20 0x20 w) = Some (w', m)"
    "\<And>b. b \<in> span (r_esp c) (timer_frame x) \<Longrightarrow> m b = r_mem c b"
  shows "timer_tick e code x w = Some (x\<lparr>r_mem := m\<rparr>, w')"
    and "b \<notin> span (r_esp c) (timer_frame x) \<Longrightarrow> r_mem c b = r_mem x b"
    and "r_esp c = stack_top e x - of_nat (timer_frame x)"
proof -
  let ?fw = "frame_words 0 True x"
  define fl where "fl = r_flags x AND NOT 0x34300"
  let ?y = "entered e h 0 True fl x"
  have c: "timer_pushed ?y = c" by (simp only: c_def timer_call_def fl_def)
  have esp: "r_esp ?y = stack_top e x - 4 * of_nat (length ?fw)" by (simp add: entered_def)
  have cesp: "r_esp c = r_esp ?y - 48" by (simp only: c [symmetric] timer_pushed_stack(1))
  then show p: "r_esp c = stack_top e x - of_nat (timer_frame x)"
    unfolding esp by (simp add: timer_frame_def diff_diff_eq add.commute)
  have fw: "length ?fw \<le> 5" using length_frame [of 0 True x] by simp
  have sub: "span (r_esp ?y - 48) 48 \<subseteq> span (r_esp c) (timer_frame x)"
    unfolding cesp by (rule span_mono) (simp add: timer_frame_def)
  have sub2: "span (r_esp ?y) (4 * length ?fw) \<subseteq> span (r_esp c) (timer_frame x)"
    using span_sub [of 48 "4 * length ?fw" "timer_frame x" "r_esp c"] by (simp add: timer_frame_def cesp)
  show "r_mem c b = r_mem x b" if "b \<notin> span (r_esp c) (timer_frame x)"
  proof -
    have "r_mem c b = r_mem ?y b" unfolding c [symmetric] using that sub by (intro timer_pushed_stack(2)) blast
    also have "\<dots> = r_mem x b"
      using pushm_outside [of "rev ?fw" b "stack_top e x" "r_mem x"] that sub2 fw by (auto simp: entered_def)
    finally show ?thesis .
  qed
  obtain f where run: "run e (butlast timer_int) ?y w = Some (?y\<lparr>r_mem := m, r_flags := f\<rparr>, w')"
  proof -
    have "\<exists>f. run e (butlast timer_int) ?y w = Some (?y\<lparr>r_mem := m, r_flags := f\<rparr>, w')"
      using assms(8,9) sub
      by (intro run_timer_int [OF assms(1)]) (auto simp: entered_props in_ring_loadable [OF assms(1,3)] c cesp)
    then show thesis using that by blast
  qed
  have "stack_at m (r_esp ?y) ?fw = stack_at (r_mem ?y) (r_esp ?y) ?fw"
  proof (rule stack_at_cong)
    fix b assume b: "b \<in> span (r_esp ?y) (4 * length ?fw)"
    moreover have "4 * length ?fw + 48 \<le> 2 ^ 32" using fw by (simp add: le_trans [of _ 20])
    ultimately have "b \<notin> span (r_esp ?y - of_nat 48) 48" by (rule span_below)
    then have "r_mem c b = r_mem ?y b" using timer_pushed_stack(2) [of b ?y] by (simp add: c)
    then show "m b = r_mem ?y b" using assms(9) b sub2 by auto
  qed (use fw in simp)
  then have "stack_at m (r_esp ?y) ?fw" using entered_stack [of 0 e h True] by simp
  note ret = return_back [OF assms(1,3), of True 0, OF refl this [unfolded esp], of f h]
  have "far_return (e_gdt e) True 0 (?y\<lparr>r_mem := m, r_flags := f\<rparr>) = Some (x\<lparr>r_mem := m\<rparr>)"
    using ret by (simp add: entered_def)
  moreover have "timer_int = butlast timer_int @ [Iret]" by (simp add: timer_int_def)
  then have "run e timer_int ?y w = run e (butlast timer_int @ [Iret]) ?y w" by (rule arg_cong)
  ultimately have "run e timer_int ?y w = Some (x\<lparr>r_mem := m\<rparr>, w')" by (simp add: stub_append run)
  then show "timer_tick e code x w = Some (x\<lparr>r_mem := m\<rparr>, w')"
    by (simp add: timer_tick_def interrupt_enters [OF assms(1-5), folded fl_def] entered_props assms(6))
qed

text \<open>The call of \<open>sys_show\<close>: behind the gate stand its return address and its three words, copied there or
  not.\<close>

definition show_call :: "'w env \<Rightarrow> u32 \<Rightarrow> u32 \<Rightarrow> u32 \<Rightarrow> cpu \<Rightarrow> cpu" where
  "show_call e h str color x = entered e h 3 False (r_flags x) (push 2 (push str (push color x)))"

definition show_frame :: "cpu \<Rightarrow> nat" where
  "show_frame x = 36 + 4 * length (frame_words 3 False x)"

lemma pushed_words:
  fixes x :: cpu and str color :: u32
  defines "x3 \<equiv> push 2 (push str (push color x))"
  shows "x3 = x\<lparr>r_esp := r_esp x - 12, r_mem := pushm (r_esp x) [color, str, 2] (r_mem x)\<rparr>"
    "stack_at (r_mem x3) (r_esp x3) [2, str, color]" "cpl x3 = cpl x" "in_ring r x3 = in_ring r x"
    "stack_top e x3 = (if cpl x = Ring0 then r_esp x - 12 else e_tss e ! 1)"
    "length (frame_words n fl x3) = length (frame_words n fl x)"
proof -
  show e: "x3 = x\<lparr>r_esp := r_esp x - 12, r_mem := pushm (r_esp x) [color, str, 2] (r_mem x)\<rparr>"
    by (simp add: x3_def push_def diff_diff_eq)
  show "stack_at (r_mem x3) (r_esp x3) [2, str, color]"
    using pushm_onto [of "r_mem x" "r_esp x" "[]" "[color, str, 2]"] by (simp add: e del: pushm.simps)
  show c: "cpl x3 = cpl x" by (simp add: e cpl_def)
  have "get_sr s x3 = get_sr s x" for s by (cases s) (simp_all add: e)
  then show "in_ring r x3 = in_ring r x" by (simp add: in_ring_def) (simp add: e)
  show "stack_top e x3 = (if cpl x = Ring0 then r_esp x - 12 else e_tss e ! 1)" by (simp add: stack_top_def c) (simp add: e)
  show "length (frame_words n fl x3) = length (frame_words n fl x)" by (simp add: frame_words_def c)
qed

lemma show_call_stack:
  assumes "in_ring r x"
  shows "stack_at (r_mem (show_call e h str color x)) (r_esp (show_call e h str color x))
    [r_eip x, ucast (sr_cs x), 2, str, color]"
proof -
  let ?x3 = "push 2 (push str (push color x))"
  let ?y = "show_call e h str color x"
  have y: "?y = entered e h 3 False (r_flags x) ?x3" by (simp add: show_call_def)
  have e: "r_eip ?x3 = r_eip x" "sr_cs ?x3 = sr_cs x" by (simp_all add: push_def)
  have fr: "stack_at (r_mem ?y) (r_esp ?y) (frame_words 3 False ?x3)" unfolding y by (rule entered_stack) simp
  show ?thesis
  proof (cases "cpl x = Ring0")
    case True
    then have fw: "frame_words 3 False ?x3 = [r_eip x, ucast (sr_cs x)]" by (simp add: frame_words_def pushed_words(3) e)
    have "stack_at (pushm (r_esp ?x3) (rev [r_eip x, ucast (sr_cs x)]) (r_mem ?x3))
        (r_esp ?x3 - 4 * of_nat (length (rev [r_eip x, ucast (sr_cs x)]))) (rev (rev [r_eip x, ucast (sr_cs x)]) @ [2, str, color])"
      by (rule pushm_onto [OF pushed_words(2)]) simp
    moreover have "stack_top e ?x3 = r_esp ?x3" using True by (simp add: stack_top_def pushed_words(3))
    ultimately show ?thesis unfolding y entered_def fw by (simp del: pushm.simps)
  next
    case False
    have "[0..<3] = [0, 1, 2 :: nat]" by (simp add: upt_rec)
    then have "map (\<lambda>i. load32 (r_mem ?x3) (r_esp ?x3 + 4 * of_nat i)) [0..<3] = [2, str, color]"
      using pushed_words(2) [of str color x] by (simp add: add.commute [of "r_esp ?x3"])
    then have "frame_words 3 False ?x3 = [r_eip x, ucast (sr_cs x), 2, str, color] @ [r_esp ?x3, ucast (sr_ss ?x3)]"
      using False by (simp add: frame_words_def pushed_words(3) e)
    then show ?thesis using fr unfolding stack_at_append by simp
  qed
qed

lemma far_call_enters:
  assumes "gdt_flat (e_gdt e)" "e_tss e ! 2 = ucast KERNEL_DATA_SEG" "in_ring r x" "7 < length (e_gdt e)"
    "gate_is (gdt_bytes (e_gdt e ! 7)) h KERNEL_CODE_SEG 0xC 3 Ring3"
  shows "far_call e (7 * 8) (push 2 (push str (push color x))) = Some (show_call e h str color x)"
proof -
  have i: "selector_index 56 = 7" "selector_rpl 56 = Ring0"
    by (simp_all add: selector_index_def selector_rpl_def ring_of_def)
  have le: "q \<le> Ring3" for q by (cases q; simp add: less_eq_ring_def)
  have "in_ring r (push 2 (push str (push color x)))" by (simp only: pushed_words(4) assms(3))
  note en = enter_kernel [OF assms(1) this assms(2), of h 3 False]
  have f: "r_flags x = r_flags (push 2 (push str (push color x)))" by (simp add: push_def)
  have "far_call e (7 * 8) (push 2 (push str (push color x))) = enter e KERNEL_CODE_SEG h 3 False (push 2 (push str (push color x)))"
    using assms(4,5) gate_usable_iff(1) [OF assms(5)] le by (simp add: far_call_def Let_def i gate_is_def)
  then show ?thesis
    unfolding en show_call_def entered_def f by (cases "push 2 (push str (push color x))") simp
qed

lemma show_call_memory:
  fixes e :: "'w env" and x :: cpu and str color h :: u32
  defines "y \<equiv> show_call e h str color x"
  defines "p \<equiv> r_esp y - 48"
  defines "m1 \<equiv> pushm (r_esp y) (handler_stack y [2, str, color]) (r_mem y)"
  shows "p = (if cpl x = Ring0 then r_esp x - 12 else e_tss e ! 1) - of_nat (12 + show_frame x)"
    and "b \<notin> span (r_esp x - 12) 12 \<union> span p (12 + show_frame x) \<Longrightarrow> m1 b = r_mem x b"
    and "b \<notin> span p 48 \<Longrightarrow> m1 b = r_mem y b"
proof -
  let ?x3 = "push 2 (push str (push color x))"
  let ?fw = "frame_words 3 False ?x3"
  have y: "y = entered e h 3 False (r_flags x) ?x3" by (simp add: y_def show_call_def)
  have fw: "length ?fw = length (frame_words 3 False x)" "length ?fw \<le> 8"
    using length_frame [of 3 False ?x3] by (simp_all add: pushed_words(6))
  have "r_esp y = (if cpl x = Ring0 then r_esp x - 12 else e_tss e ! 1) - 4 * of_nat (length (frame_words 3 False x))"
    using pushed_words(5) [of e str color x] by (simp add: y entered_def fw(1) del: One_nat_def)
  then show "p = (if cpl x = Ring0 then r_esp x - 12 else e_tss e ! 1) - of_nat (12 + show_frame x)"
    by (simp add: p_def show_frame_def diff_diff_eq add.commute)
  have hs: "length (handler_stack y [2, str, color]) = 12" by (simp add: handler_stack_def gprs_pushed_def)
  have sub: "span (p + 48) (4 * length ?fw) \<subseteq> span p (12 + show_frame x)" "span p 48 \<subseteq> span p (12 + show_frame x)"
    using span_sub [of 48 "4 * length ?fw" "12 + show_frame x" p]
    by (simp_all add: show_frame_def fw(1) span_mono add.commute [of p])
  show m1y: "m1 b = r_mem y b" if "b \<notin> span p 48" for b
    using pushm_outside [of "handler_stack y [2, str, color]" b "r_esp y" "r_mem y"] that hs by (simp add: m1_def p_def)
  show "m1 b = r_mem x b" if "b \<notin> span (r_esp x - 12) 12 \<union> span p (12 + show_frame x)"
  proof -
    have "b \<notin> span p 48" "b \<notin> span (p + 48) (4 * length ?fw)" using that sub by blast+
    then have "m1 b = r_mem ?x3 b"
      using m1y [of b] pushm_outside [of "rev ?fw" b "stack_top e ?x3" "r_mem ?x3"] fw(2)
      by (simp add: y entered_def p_def)
    moreover have "r_mem ?x3 b = r_mem x b"
      using pushm_outside [of "[color, str, 2]" b "r_esp x" "r_mem x"] that by (simp add: pushed_words(1) del: pushm.simps)
    ultimately show ?thesis by simp
  qed
qed

lemma sys_show_asm_runs:
  fixes e :: "'w env" and x :: cpu and str color :: u32
  assumes "gdt_flat (e_gdt e)" "e_tss e ! 2 = ucast KERNEL_DATA_SEG" "in_ring r x" "7 < length (e_gdt e)"
    "gate_is (gdt_bytes (e_gdt e ! 7)) h KERNEL_CODE_SEG 0xC 3 Ring3" "code h = Some syscall_handler"
  defines "y \<equiv> show_call e h str color x"
  defines "p \<equiv> r_esp y - 48"
  defines "m1 \<equiv> pushm (r_esp y) (handler_stack y [2, str, color]) (r_mem y)"
  assumes "e_fun e [2, str, color] (e_scratch e p m1) w = Some (w', m)"
    "\<And>b. b \<in> span (p + 12) (show_frame x) \<Longrightarrow> m b = m1 b"
  shows "\<exists>f. sys_show_asm e code str color x w = Some (x\<lparr>r_mem := m, r_flags := f\<rparr>, w')"
proof -
  let ?x3 = "push 2 (push str (push color x))"
  let ?fw = "frame_words 3 False ?x3"
  have y: "y = entered e h 3 False (r_flags x) ?x3" by (simp add: y_def show_call_def)
  have fw: "length ?fw = length (frame_words 3 False x)" "length ?fw \<le> 8"
    using length_frame [of 3 False ?x3] by (simp_all add: pushed_words(6))
  have sub: "span (p + 48) (4 * length ?fw) \<subseteq> span (p + 12) (show_frame x)" "span (p + 12) 36 \<subseteq> span (p + 12) (show_frame x)"
    using span_sub [of 36 "4 * length ?fw" "show_frame x" "p + 12"]
    by (simp_all add: show_frame_def fw(1) span_mono add.commute [of p])
  note m1y = show_call_memory(3) [where e = e and h = h and str = str and color = color and x = x, folded y_def, folded p_def m1_def]
  obtain f where run: "run e (butlast syscall_handler) y w = Some (y\<lparr>r_mem := m, r_flags := f\<rparr>, w')"
  proof -
    have "loadable (e_gdt e) Ring0 (sr_ds y)"
      using in_ring_loadable [OF assms(1,3), of DS] entered_props(2) [of DS e h 3 False "r_flags x" ?x3]
      by (simp add: y pushed_words(1) del: pushm.simps)
    moreover have "cpl y = Ring0" by (simp only: y entered_props)
    moreover have "stack_at (r_mem y) (r_esp y) [r_eip x, ucast (sr_cs x), 2, str, color]"
      unfolding y_def by (rule show_call_stack [OF assms(3)])
    ultimately show thesis
      using that run_syscall_handler [OF assms(1), of y "r_eip x" "ucast (sr_cs x)" 2 str color w w' m]
        assms(10,11) sub(2) by (auto simp: p_def m1_def)
  qed
  have "stack_at m (r_esp y) ?fw = stack_at (r_mem y) (r_esp y) ?fw"
  proof (rule stack_at_cong)
    fix b assume b: "b \<in> span (r_esp y) (4 * length ?fw)"
    moreover have "4 * length ?fw + 48 \<le> 2 ^ 32" using fw(2) by (simp add: le_trans [of _ 32])
    ultimately have "b \<notin> span (r_esp y - of_nat 48) 48" by (rule span_below)
    then have "m1 b = r_mem y b" using m1y [of b] by (simp add: p_def)
    then show "m b = r_mem y b" using assms(11) b sub(1) by (auto simp: p_def)
  qed (use fw(2) in simp)
  then have "stack_at m (r_esp y) ?fw" using entered_stack [of 3 e h False "r_flags x" ?x3] by (simp add: y)
  moreover have "r_esp y = stack_top e ?x3 - 4 * of_nat (length ?fw)" by (simp add: y entered_def)
  ultimately have st: "stack_at m (stack_top e ?x3 - 4 * of_nat (length ?fw)) ?fw" by simp
  have "in_ring r ?x3" by (simp only: pushed_words(4) assms(3))
  note ret = return_back [OF assms(1) this _ st, of f h]
  have "far_return (e_gdt e) False (3 * 4) (y\<lparr>r_mem := m, r_flags := f\<rparr>) = Some (x\<lparr>r_mem := m, r_flags := f\<rparr>)"
    using ret by (simp add: y entered_def) (simp add: pushed_words(1))
  moreover have "syscall_handler = butlast syscall_handler @ [Retf (3 * 4)]" by (simp add: syscall_handler_def)
  then have "run e syscall_handler y w = run e (butlast syscall_handler @ [Retf (3 * 4)]) y w" by (rule arg_cong)
  ultimately have "run e syscall_handler y w = Some (x\<lparr>r_mem := m, r_flags := f\<rparr>, w')" by (simp add: stub_append run)
  moreover have "r_eip y = h" by (simp only: y entered_props)
  ultimately have "sys_show_asm e code str color x w = Some (x\<lparr>r_mem := m, r_flags := f\<rparr>, w')"
    using far_call_enters [OF assms(1-5), of str color] by (simp add: sys_show_asm_def assms(6) y_def)
  then show "\<exists>f. sys_show_asm e code str color x w = Some (x\<lparr>r_mem := m, r_flags := f\<rparr>, w')" by blast
qed

section \<open>The stubs with the tables of \<open>init\<close>\<close>

text \<open>The tables are those that \<open>init\<close> leaves, the running task is one of the two or the kernel, and the two
  stubs stand where \<open>init\<close> takes them to be.\<close>

definition after_init :: "addresses \<Rightarrow> (u32 \<Rightarrow> insn list option) \<Rightarrow> 'w env \<Rightarrow> bool" where
  "after_init a code e \<longleftrightarrow>
     (\<exists>p p' t s. init a p tables_boot phys_state0 = Some (Inr (p', t, s)) \<and> e_gdt e = gdt_table t \<and> e_idt e = idt_table t)
     \<and> (e_tss e = kernel_tss \<or> (\<exists>k u en. e_tss e = user_tss k u en))
     \<and> code (a_syscall_handler a) = Some syscall_handler \<and> code (a_timer_int a) = Some timer_int"

lemma after_init_tables:
  assumes "after_init a code e"
  shows "gdt_flat (e_gdt e)" "e_tss e ! 2 = ucast KERNEL_DATA_SEG" "7 < length (e_gdt e)" "0x20 < length (e_idt e)"
    "gate_is (gdt_bytes (e_gdt e ! 7)) (a_syscall_handler a) KERNEL_CODE_SEG 0xC 3 Ring3"
    "gate_is (idt_bytes (e_idt e ! 0x20)) (a_timer_int a) KERNEL_CODE_SEG 0xE 0 Ring0"
    "code (a_syscall_handler a) = Some syscall_handler" "code (a_timer_int a) = Some timer_int"
proof -
  obtain p p' t s where i: "init a p tables_boot phys_state0 = Some (Inr (p', t, s))"
    and t: "e_gdt e = gdt_table t" "e_idt e = idt_table t"
    using assms by (auto simp: after_init_def)
  have "length (gdt_table t) = 256" "length (idt_table t) = 256"
    using init_lengths [OF i] by (simp_all add: tables_boot_def gdt_boot_nth(1) idt_boot_def)
  then show "7 < length (e_gdt e)" "0x20 < length (e_idt e)" "gdt_flat (e_gdt e)"
    "gate_is (gdt_bytes (e_gdt e ! 7)) (a_syscall_handler a) KERNEL_CODE_SEG 0xC 3 Ring3"
    "gate_is (idt_bytes (e_idt e ! 0x20)) (a_timer_int a) KERNEL_CODE_SEG 0xE 0 Ring0"
    using init_tables [of a p] i by (auto simp: t gdt_flat_def)
  show "code (a_syscall_handler a) = Some syscall_handler" "code (a_timer_int a) = Some timer_int"
    using assms by (simp_all add: after_init_def)
  show "e_tss e ! 2 = ucast KERNEL_DATA_SEG"
    using assms by (auto simp: after_init_def kernel_tss_def kernel_tss_of_def user_tss_def)
qed

text \<open>C9. The interrupt of the timer is invisible to what it interrupts, a task or the kernel: it sends the end
  of interrupt to the controller, calls \<open>task_sched\<close> once, on a stack that lies below the one in use or at
  the top of the task's kernel stack, and, whenever that returns and however it has changed the rest of
  memory, goes on at the same instruction with every register, segment and flag as it was.\<close>

theorem timer_int_transparent:
  fixes e :: "'w env" and x :: cpu
  assumes "after_init a code e" "in_ring r x"
  defines "c \<equiv> timer_call e (a_timer_int a) x"
  assumes "e_fun e [] (e_scratch e (r_esp c) (r_mem c)) (e_outb e 0x20 0x20 w) = Some (w', m)"
    "\<forall>b \<in> span (r_esp c) (timer_frame x). m b = r_mem c b"
  shows "timer_tick e code x w = Some (x\<lparr>r_mem := m\<rparr>, w')
    \<and> r_esp c = stack_top e x - of_nat (timer_frame x)
    \<and> (\<forall>b. b \<notin> span (r_esp c) (timer_frame x) \<longrightarrow> r_mem c b = r_mem x b)"
proof -
  note t = after_init_tables [OF assms(1)]
  show ?thesis
    using timer_tick_runs [where code = code, OF t(1,2) assms(2) t(4,6,8) assms(4) [unfolded c_def]] assms(5)
    unfolding c_def by blast
qed

text \<open>A task that is interrupted for the first time, and nothing else runs meanwhile. The world is what has been
  sent to the ports, and the tables.\<close>

definition addresses0 :: addresses where
  "addresses0 = \<lparr>a_timer_int = 0x101000, a_syscall_handler = 0x102000, a_task0_tss = 0x103000, a_task1_tss = 0x103100,
     a_kernel_tss = 0x103200\<rparr>"

definition code0 :: "u32 \<Rightarrow> insn list option" where
  "code0 = [0x101000 \<mapsto> timer_int, 0x102000 \<mapsto> syscall_handler]"

definition tables0 :: tables where
  "tables0 = fst (snd (projr (the (init addresses0 (con_ports console0) tables_boot phys_state0))))"

definition env0 :: "(u32 list \<Rightarrow> memory \<Rightarrow> 'w \<Rightarrow> ('w \<times> memory) option) \<Rightarrow> (u16 \<Rightarrow> u8 \<Rightarrow> 'w \<Rightarrow> 'w) \<Rightarrow> 'w env" where
  "env0 f out = \<lparr>e_gdt = gdt_table tables0, e_idt = idt_table tables0, e_tss = user_tss 0x200000 0x210000 0x104000,
     e_fun = f, e_outb = out, e_scratch = (\<lambda>p m. m), e_clobber = (\<lambda>x. (1, 2, 3, 4))\<rparr>"

lemma env0_ok: "after_init addresses0 code0 (env0 f out)"
proof -
  obtain p t s where "init addresses0 (con_ports console0) tables_boot phys_state0 = Some (Inr (p, t, s))"
    using init_tables [of addresses0 "con_ports console0"] by blast
  then have "\<exists>p p' t s. init addresses0 p tables_boot phys_state0 = Some (Inr (p', t, s)) \<and> gdt_table tables0 = gdt_table t
      \<and> idt_table tables0 = idt_table t"
    unfolding tables0_def by (metis fst_conv option.sel snd_conv sum.sel(2))
  then show ?thesis by (auto simp: after_init_def env0_def code0_def addresses0_def)
qed

definition task_cpu0 :: "memory \<Rightarrow> cpu" where
  "task_cpu0 m = \<lparr>r_eax = 0xa, r_ecx = 0xc, r_edx = 0xd, r_ebx = 0xb, r_esp = 0x211000, r_ebp = 1, r_esi = 2, r_edi = 3,
     r_flags = 0x202, r_eip = 0x104000, sr_cs = APP_CODE_SEG, sr_ss = APP_DATA_SEG, sr_ds = APP_DATA_SEG,
     sr_es = APP_DATA_SEG, sr_fs = APP_DATA_SEG, sr_gs = APP_DATA_SEG, r_mem = m\<rparr>"

lemma task_cpu0_ring: "in_ring Ring3 (task_cpu0 m)"
proof -
  have "get_sr s (task_cpu0 m) = APP_DATA_SEG" for s by (cases s) (simp_all add: task_cpu0_def)
  then show ?thesis by (simp add: in_ring_def task_cpu0_def)
qed

definition sched_fun :: "u32 list \<Rightarrow> memory \<Rightarrow> (u16 \<times> u8) list \<times> tables \<Rightarrow> (((u16 \<times> u8) list \<times> tables) \<times> memory) option" where
  "sched_fun args m w = Some ((fst w, snd (task_sched (snd w))), m)"

definition log_outb :: "u16 \<Rightarrow> u8 \<Rightarrow> (u16 \<times> u8) list \<times> tables \<Rightarrow> (u16 \<times> u8) list \<times> tables" where
  "log_outb p b w = (fst w @ [(p, b)], snd w)"

theorem timer_int_transparent_witness:
  "\<exists>m. timer_tick (env0 sched_fun log_outb) code0 (task_cpu0 hello) ([], tables_boot) =
      Some ((task_cpu0 hello)\<lparr>r_mem := m\<rparr>, [(0x20, 0x20)], tables_boot\<lparr>task_tss := TASK_1_TSS\<rparr>)
    \<and> m 0x1000 = 0x68"
proof -
  let ?e = "env0 sched_fun log_outb" and ?x = "task_cpu0 hello"
  let ?c = "timer_call ?e (a_timer_int addresses0) ?x"
  have f: "e_fun ?e [] (e_scratch ?e (r_esp ?c) (r_mem ?c)) (e_outb ?e 0x20 0x20 ([], tables_boot)) =
      Some (([(0x20, 0x20)], tables_boot\<lparr>task_tss := TASK_1_TSS\<rparr>), r_mem ?c)"
    by (simp add: env0_def sched_fun_def log_outb_def task_sched_def tables_boot_def)
  note t = timer_int_transparent [OF env0_ok task_cpu0_ring f]
  have "r_esp ?c = 0x200fbc" "timer_frame ?x = 68"
    using t by (simp_all add: stack_top_def timer_frame_def frame_words_def task_cpu0_def cpl_def selectors env0_def user_tss_def)
  then have "r_mem ?c 0x1000 = r_mem ?x 0x1000" using t by (simp add: span_iff)
  moreover have "hello 0x1000 = 0x68" by (simp add: hello_def)
  ultimately show ?thesis using t by (auto simp: task_cpu0_def)
qed

text \<open>What the call of \<open>sys_show\<close> may leave on the two stacks, for a \<open>do_syscall\<close> that uses \<open>d\<close> bytes.\<close>

definition show_stack :: "'w env \<Rightarrow> cpu \<Rightarrow> nat \<Rightarrow> u32 set" where
  "show_stack e x d = span (r_esp x - 12) 12
     \<union> span ((if cpl x = Ring0 then r_esp x - 12 else e_tss e ! 1) - of_nat (12 + show_frame x + d)) (12 + show_frame x + d)"

definition console_env :: "console env \<Rightarrow> nat \<Rightarrow> bool" where
  "console_env e d \<longleftrightarrow>
     (\<forall>args m c. e_fun e args m c = do_syscall (args ! 0) (args ! 1) (ucast (args ! 2)) c m)
     \<and> (\<forall>p m b. b \<notin> span (p - of_nat d) (d + 12) \<longrightarrow> e_scratch e p m b = m b)"

text \<open>The effect on memory depends on no more of memory than the string.\<close>

lemma sys_show_effect:
  assumes "clear_of_screen str (length t)" "row_ok c" "length t < 2 ^ 30"
  obtains c' W where "\<And>m. string_at m str t \<Longrightarrow> sys_show str color c m = Some (c', W m)"
    "\<And>m m' b. m b = m' b \<Longrightarrow> W m b = W m' b"
    "\<And>m b. b \<notin> span 0xb8000 (4000 + 2 * length t) \<Longrightarrow> W m b = m b"
proof -
  let ?p = "0xb8000 + of_nat (160 * nat (shown_row c)) :: u32"
  let ?W = "\<lambda>m. write_bytes (if con_cleared c = 0 then clear_screen m else m) ?p (text_cells t color)"
  have len: "length (text_cells t color) \<le> 2 ^ 32" using assms(3) by simp
  have eq: "sys_show str color c m = Some (c\<lparr>con_cleared := (if con_cleared c = 0 then 1 else con_cleared c),
      con_row := next_row (shown_row c)\<rparr>, ?W m)" if "string_at m str t" for m
    unfolding sys_show_def by (rule do_syscall_eq [OF that assms])
  have cong: "?W m b = ?W m' b" if "m b = m' b" for m m' b
    using that len by (simp add: write_bytes_apply clear_screen_eq length_blank_screen)
  have out: "?W m b = m b" if "b \<notin> span 0xb8000 (4000 + 2 * length t)" for m b
  proof -
    have "nat (shown_row c) \<le> 25" using assms(2) by (auto simp: shown_row_def row_ok_def)
    then have "b \<notin> span ?p (2 * length t)" "b \<notin> span 0xb8000 4000"
      using that span_sub [of "160 * nat (shown_row c)" "2 * length t" "4000 + 2 * length t" "0xb8000"]
        span_mono [of 4000 "4000 + 2 * length t" "0xb8000"] by auto
    then show ?thesis using len by (simp add: write_bytes_outside clear_screen_eq length_blank_screen)
  qed
  show thesis by (rule that [OF eq cong out])
qed

text \<open>C6. The way through the call gate is the function call that \<open>sys_show\<close> means: from a task or from the
  kernel, whichever stack it takes, \<open>do_syscall\<close> gets the function 2, the string and the colour, and its
  caller gets back every register and segment, the stack balanced, and memory as the direct call would
  leave it, but for what was below the stack pointers.\<close>

theorem call_gate_is_call:
  assumes "after_init a code e" "in_ring r x" "console_env e d" "string_at (r_mem x) str t"
    "clear_of_screen str (length t)" "row_ok c" "length t < 2 ^ 30" "d < 2 ^ 30"
    "show_stack e x d \<inter> (span str (Suc (length t)) \<union> span 0xb8000 (4000 + 2 * length t)) = {}"
  shows "\<exists>c' m' m f. sys_show str (ucast color) c (r_mem x) = Some (c', m')
    \<and> sys_show_asm e code str color x c = Some (x\<lparr>r_mem := m, r_flags := f\<rparr>, c')
    \<and> (\<forall>b. b \<notin> show_stack e x d \<longrightarrow> m b = m' b)"
proof -
  note tb = after_init_tables [OF assms(1)]
  define y where "y = show_call e (a_syscall_handler a) str color x"
  define p where "p = r_esp y - 48"
  define m1 where "m1 = pushm (r_esp y) (handler_stack y [2, str, color]) (r_mem y)"
  define m0 where "m0 = e_scratch e p m1"
  note mem = show_call_memory [where e = e and h = "a_syscall_handler a" and str = str and color = color and x = x,
      folded y_def, folded p_def m1_def]
  obtain c' W where W: "\<And>m. string_at m str t \<Longrightarrow> sys_show str (ucast color) c m = Some (c', W m)"
    "\<And>m m' b. m b = m' b \<Longrightarrow> W m b = W m' b" "\<And>m b. b \<notin> span 0xb8000 (4000 + 2 * length t) \<Longrightarrow> W m b = m b"
    using sys_show_effect [OF assms(5-7), of "ucast color"] by blast
  have sf: "show_frame x \<le> 68" using length_frame [of 3 False x] by (simp add: show_frame_def)
  have p: "show_stack e x d = span (r_esp x - 12) 12 \<union> span (p - of_nat d) (12 + show_frame x + d)"
    unfolding show_stack_def mem(1) by (simp add: diff_diff_eq algebra_simps)
  have parts: "span p (12 + show_frame x) \<subseteq> show_stack e x d" "span (p - of_nat d) (d + 12) \<subseteq> show_stack e x d"
    "span (p + 12) (show_frame x) \<subseteq> show_stack e x d"
    using span_sub [of d "12 + show_frame x" "12 + show_frame x + d" "p - of_nat d"]
      span_sub [of "d + 12" "show_frame x" "12 + show_frame x + d" "p - of_nat d"]
      span_mono [of "d + 12" "12 + show_frame x + d" "p - of_nat d"] assms(8)
    unfolding p by auto
  have scratch: "b \<notin> span (p - of_nat d) (d + 12) \<Longrightarrow> e_scratch e p m1 b = m1 b" for b
    using assms(3) unfolding console_env_def by blast
  have m0: "m0 b = r_mem x b" if "b \<notin> show_stack e x d" for b
  proof -
    have "m0 b = m1 b" unfolding m0_def using that parts(2) by (intro scratch) blast
    also have "\<dots> = r_mem x b" using that parts(1) by (intro mem(2)) (auto simp: p)
    finally show ?thesis .
  qed
  have "string_at m0 str t" using assms(9) by (intro string_at_cong [OF assms(4)] m0) blast
  then have "e_fun e [2, str, color] m0 c = Some (c', W m0)"
    using W(1) [of m0] assms(3) by (simp add: console_env_def sys_show_def)
  moreover have "W m0 b = m1 b" if "b \<in> span (p + 12) (show_frame x)" for b
  proof -
    have "b \<notin> span 0xb8000 (4000 + 2 * length t)" using that parts(3) assms(9) by blast
    moreover have "show_frame x + (d + 12) \<le> 2 ^ 32" using sf assms(8) by simp
    from span_below [OF that this] have "b \<notin> span (p - of_nat d) (d + 12)" by (simp add: algebra_simps)
    ultimately show ?thesis using W(3) [of b m0] scratch [of b] by (simp add: m0_def)
  qed
  ultimately obtain f where f: "sys_show_asm e code str color x c = Some (x\<lparr>r_mem := W m0, r_flags := f\<rparr>, c')"
    using sys_show_asm_runs [where code = code and color = color and str = str, OF tb(1,2) assms(2) tb(3,5,7),
        folded y_def, folded p_def m1_def, of c c' "W m0"] by (auto simp: m0_def)
  have "W m0 b = W (r_mem x) b" if "b \<notin> show_stack e x d" for b
    using W(2) [of m0 b "r_mem x"] m0 [OF that] by blast
  then show ?thesis using f W(1) [OF assms(4)] by blast
qed

definition show_fun :: "u32 list \<Rightarrow> memory \<Rightarrow> console \<Rightarrow> (console \<times> memory) option" where
  "show_fun args m c = do_syscall (args ! 0) (args ! 1) (ucast (args ! 2)) c m"

theorem call_gate_is_call_witness:
  "\<exists>m f c'. sys_show_asm (env0 show_fun (\<lambda>p b c. c)) code0 0x1000 0x7702 (task_cpu0 hello) console0 =
      Some ((task_cpu0 hello)\<lparr>r_mem := m, r_flags := f\<rparr>, c') \<and> con_row c' = 1 \<and> m 0xb8000 = 0x68"
proof -
  let ?e = "env0 show_fun (\<lambda>p b c. c)" and ?x = "task_cpu0 hello" and ?t = "[0x68, 0x69, 0x0A] :: u8 list"
  have cp: "cpl ?x = Ring3" by (simp add: cpl_def task_cpu0_def selectors)
  have st: "show_stack ?e ?x 256 = span 0x210ff4 12 \<union> span 0x200eb4 332"
    by (simp add: show_stack_def cp show_frame_def frame_words_def) (simp add: task_cpu0_def env0_def user_tss_def)
  have n: "Suc (length ?t) = 4" "4000 + 2 * length ?t = 4006" by simp_all
  have dis: "show_stack ?e ?x 256 \<inter> (span 0x1000 (Suc (length ?t)) \<union> span 0xb8000 (4000 + 2 * length ?t)) = {}"
    unfolding st n using span_disjoint [of "0x210ff4" 12 "0x1000" 4] span_disjoint [of "0x210ff4" 12 "0xb8000" 4006]
      span_disjoint [of "0x200eb4" 332 "0x1000" 4] span_disjoint [of "0x200eb4" 332 "0xb8000" 4006]
    by (simp add: Int_Un_distrib Int_Un_distrib2)
  have ce: "console_env ?e 256" by (simp add: console_env_def env0_def show_fun_def)
  have s: "string_at (r_mem ?x) 0x1000 ?t" using hello_string by (simp add: task_cpu0_def)
  have c: "clear_of_screen 0x1000 (length ?t)" "row_ok console0"
    by (rule clear_of_screen_low, simp_all add: row_ok_def console0_def)
  from call_gate_is_call [OF env0_ok task_cpu0_ring ce s c _ _ dis, of "0x7702"]
  obtain c' m' m f where r: "sys_show 0x1000 (ucast (0x7702 :: u32)) console0 (r_mem ?x) = Some (c', m')"
    "sys_show_asm ?e code0 0x1000 0x7702 ?x console0 = Some (?x\<lparr>r_mem := m, r_flags := f\<rparr>, c')"
    "\<forall>b. b \<notin> show_stack ?e ?x 256 \<longrightarrow> m b = m' b"
    by auto
  have "sys_show 0x1000 (ucast (0x7702 :: u32)) console0 (r_mem ?x) = Some (console0\<lparr>con_cleared := 1, con_row := 1\<rparr>,
      write_bytes (clear_screen (r_mem ?x)) 0xb8000 (text_cells ?t (ucast (0x7702 :: u32))))"
    using do_syscall_eq [OF s c, of "ucast (0x7702 :: u32)"]
    by (simp add: sys_show_def console0_def shown_row_def next_row_def)
  then have "con_row c' = 1" "m' 0xb8000 = 0x68"
    using r(1) by (auto simp: text_cells_def vga_cell_def le16_def write_bytes_apply)
  moreover have "0xb8000 \<notin> show_stack ?e ?x 256" by (simp add: st span_iff)
  ultimately show ?thesis using r(2,3) by metis
qed

end
