(* ===== verification/Boot.thy ===== *)
theory Boot
  imports Cstring Port_Io
begin

text \<open>
  The second stage of the loader (\<open>src/basic_set/os.c\<close>, with the structures of
  \<open>include/os_elf.h\<close>): reading the kernel from the disk, and placing the segments of an ELF file.
  The ELF header and the program headers are read from memory each time the code reads them, so a
  segment placed over the file would be seen.
\<close>

unbundle bit_operations_syntax

section \<open>The disk\<close>

definition disk_ready :: "u8 \<Rightarrow> bool" where
  "disk_ready status \<longleftrightarrow> status AND 0x88 = 0x8"

primrec read_words :: "nat \<Rightarrow> u32 \<Rightarrow> ports \<Rightarrow> memory \<Rightarrow> ports \<times> memory" where
  "read_words 0 p s m = (s, m)"
| "read_words (Suc n) p s m =
     (let (w, s') = inw 0x1F0 s in read_words n (p + 2) s' (store16 m p w))"

primrec read_sectors :: "nat \<Rightarrow> u32 \<Rightarrow> ports \<Rightarrow> memory \<Rightarrow> (ports \<times> memory) option" where
  "read_sectors 0 p s m = Some (s, m)"
| "read_sectors (Suc n) p s m =
     (case poll 0x1F7 disk_ready s of
        None \<Rightarrow> None
      | Some s1 \<Rightarrow> (let (s2, m2) = read_words (512 div 2) p s1 m in read_sectors n (p + 512) s2 m2))"

definition disk_command :: "u32 \<Rightarrow> u32 \<Rightarrow> (u16 \<times> u8) list" where
  "disk_command sector sector_count =
     [(0x1F6, 0xE0),
      (0x1F2, ucast (drop_bit 8 sector_count)), (0x1F3, ucast (drop_bit 24 sector)), (0x1F4, 0), (0x1F5, 0),
      (0x1F2, ucast sector_count), (0x1F3, ucast sector), (0x1F4, ucast (drop_bit 8 sector)),
      (0x1F5, ucast (drop_bit 16 sector)),
      (0x1F7, 0x24)]"

text \<open>\<open>sector_count\<close> is an \<open>int\<close>; the loop runs while it is positive.\<close>

definition read_disk :: "u32 \<Rightarrow> u32 \<Rightarrow> u32 \<Rightarrow> ports \<Rightarrow> memory \<Rightarrow> (ports \<times> memory) option" where
  "read_disk sector sector_count buf s m =
     read_sectors (nat (sint sector_count)) buf (outbs (disk_command sector sector_count) s) m"

definition KERNEL_START_ADDR :: u32 where
  "KERNEL_START_ADDR = 0x100000"

definition os_init :: "ports \<Rightarrow> memory \<Rightarrow> (ports \<times> memory) option" where
  "os_init s m = read_disk 100 500 KERNEL_START_ADDR s m"

section \<open>The ELF file\<close>

definition ELF_MAGIC :: u8 where
  "ELF_MAGIC = 0x7F"

definition PT_LOAD :: u32 where
  "PT_LOAD = 1"

text \<open>The members of the packed structures that the code reads.\<close>

definition e_entry :: "memory \<Rightarrow> u32 \<Rightarrow> u32" where "e_entry m hdr = load32 m (hdr + 24)"
definition e_phoff :: "memory \<Rightarrow> u32 \<Rightarrow> u32" where "e_phoff m hdr = load32 m (hdr + 28)"
definition e_phnum :: "memory \<Rightarrow> u32 \<Rightarrow> u16" where "e_phnum m hdr = load16 m (hdr + 44)"

definition p_type :: "memory \<Rightarrow> u32 \<Rightarrow> u32" where "p_type m ph = load32 m (ph + 0)"
definition p_offset :: "memory \<Rightarrow> u32 \<Rightarrow> u32" where "p_offset m ph = load32 m (ph + 4)"
definition p_paddr :: "memory \<Rightarrow> u32 \<Rightarrow> u32" where "p_paddr m ph = load32 m (ph + 12)"
definition p_filesz :: "memory \<Rightarrow> u32 \<Rightarrow> u32" where "p_filesz m ph = load32 m (ph + 16)"
definition p_memsz :: "memory \<Rightarrow> u32 \<Rightarrow> u32" where "p_memsz m ph = load32 m (ph + 20)"

lemma u32_less_Suc: "(j :: u32) < k \<Longrightarrow> 2 ^ 32 - unat (j + 1) < 2 ^ 32 - unat j"
proof -
  assume "j < k"
  then have "j + 1 \<noteq> 0" by (metis add.inverse_unique word_n1_ge leD add.commute eq_neg_iff_add_eq_0)
  then have "unat (j + 1) = Suc (unat j)" using unatSuc [of j] by (simp add: add.commute)
  then show ?thesis using unat_less_32 [of "j + 1"] by simp
qed

text \<open>The two loops of \<open>reload_elf_file\<close>. The comparison of \<open>j\<close> is unsigned, as the sizes are.\<close>

function elf_copy :: "u32 \<Rightarrow> u32 \<Rightarrow> u32 \<Rightarrow> u32 \<Rightarrow> memory \<Rightarrow> memory" where
  "elf_copy ph src dest j m =
     (if j < p_filesz m ph then elf_copy ph (src + 1) (dest + 1) (j + 1) (m(dest := m src)) else m)"
  by pat_completeness auto
termination
  by (relation "measure (\<lambda>(ph, src, dest, j, m). 2 ^ 32 - unat j)") (auto dest: u32_less_Suc)

function elf_zero :: "u32 \<Rightarrow> u32 \<Rightarrow> u32 \<Rightarrow> memory \<Rightarrow> memory" where
  "elf_zero ph dest j m =
     (if j < p_memsz m ph - p_filesz m ph then elf_zero ph (dest + 1) (j + 1) (m(dest := 0)) else m)"
  by pat_completeness auto
termination
  by (relation "measure (\<lambda>(ph, dest, j, m). 2 ^ 32 - unat j)") (auto dest: u32_less_Suc)

declare elf_copy.simps [simp del] elf_zero.simps [simp del]

definition elf_segment :: "u32 \<Rightarrow> u32 \<Rightarrow> memory \<Rightarrow> memory" where
  "elf_segment buf ph m =
     (if p_type m ph \<noteq> PT_LOAD then m
      else let m1 = elf_copy ph (buf + p_offset m ph) (p_paddr m ph) 0 m
           in elf_zero ph (p_paddr m1 ph + p_filesz m1 ph) 0 m1)"

function elf_segments :: "u32 \<Rightarrow> nat \<Rightarrow> memory \<Rightarrow> memory" where
  "elf_segments buf i m =
     (if i < unat (e_phnum m buf)
      then elf_segments buf (Suc i) (elf_segment buf (buf + e_phoff m buf + 32 * of_nat i) m)
      else m)"
  by pat_completeness auto
termination
proof (relation "measure (\<lambda>(buf, i, m). 2 ^ 16 - i)")
  fix buf :: u32 and i :: nat and m :: memory
  assume "i < unat (e_phnum m buf)"
  then have "i < 2 ^ 16" using unsigned_less [of "e_phnum m buf", where 'a = nat] by simp
  then show "((buf, Suc i, elf_segment buf (buf + e_phoff m buf + 32 * of_nat i) m), buf, i, m)
      \<in> measure (\<lambda>(buf, i, m). 2 ^ 16 - i)" by simp
qed simp

declare elf_segments.simps [simp del]

definition reload_elf_file :: "u32 \<Rightarrow> memory \<Rightarrow> u32 \<times> memory" where
  "reload_elf_file file_buffer m =
     (if m file_buffer \<noteq> ELF_MAGIC \<or> m (file_buffer + 1) \<noteq> 0x45 \<or> m (file_buffer + 2) \<noteq> 0x4C
         \<or> m (file_buffer + 3) \<noteq> 0x46
      then (0, m)
      else let m' = elf_segments file_buffer 0 m in (e_entry m' file_buffer, m'))"

section \<open>Placing a segment\<close>

text \<open>The headers of a program header do not move when other memory is written.\<close>

lemma header_fields_cong:
  assumes "\<And>a. a \<in> span ph 32 \<Longrightarrow> m' a = m a"
  shows "p_type m' ph = p_type m ph" "p_offset m' ph = p_offset m ph" "p_paddr m' ph = p_paddr m ph"
    "p_filesz m' ph = p_filesz m ph" "p_memsz m' ph = p_memsz m ph"
proof -
  have "load32 m' (ph + of_nat k) = load32 m (ph + of_nat k)" if "k + 4 \<le> 32" for k
    using that span_sub [of k 4 32 ph] assms by (intro load32_cong) (auto simp: subset_iff)
  from this [of 0] this [of 4] this [of 12] this [of 16] this [of 20]
  show "p_type m' ph = p_type m ph" "p_offset m' ph = p_offset m ph" "p_paddr m' ph = p_paddr m ph"
    "p_filesz m' ph = p_filesz m ph" "p_memsz m' ph = p_memsz m ph"
    by (simp_all add: p_type_def p_offset_def p_paddr_def p_filesz_def p_memsz_def)
qed

lemma elf_copy_eq:
  assumes "j \<le> p_filesz m ph" "n = unat (p_filesz m ph) - unat j"
    "span dest n \<inter> span ph 32 = {}" "span dest n \<inter> span src n = {}"
  shows "elf_copy ph src dest j m = write_bytes m dest (read_bytes m src n)"
  using assms
proof (induction n arbitrary: src dest j m)
  case 0
  then have "\<not> j < p_filesz m ph" by (simp add: word_less_nat_alt)
  then show ?case by (subst elf_copy.simps) simp
next
  case (Suc n)
  define m' where "m' = m(dest := m src)"
  have lt: "j < p_filesz m ph" using Suc.prems(2) by (simp add: word_less_nat_alt)
  then have j1: "unat (j + 1) = Suc (unat j)"
    using u32_less_Suc [OF lt] unat_less_32 [of "j + 1"] unatSuc [of j] by (cases "1 + j = 0") (simp_all add: add.commute)
  have d: "dest \<notin> span ph 32" "dest \<notin> span src (Suc n)" using Suc.prems(3,4) span_first [of dest n] by auto
  have f: "p_filesz m' ph = p_filesz m ph" by (rule header_fields_cong) (use d in \<open>auto simp: m'_def\<close>)
  have "read_bytes m' (src + 1) n = read_bytes m (src + 1) n"
  proof (rule read_bytes_cong)
    fix i assume "i < n"
    moreover have "n \<le> 2 ^ 32" using Suc.prems(2) unat_less_32 [of "p_filesz m ph"] by simp
    ultimately have "src + 1 + of_nat i \<in> span src (Suc n)"
      using in_span_add [of i n "src + 1"] span_step [of src n] by blast
    then show "m' (src + 1 + of_nat i) = m (src + 1 + of_nat i)" using d(2) by (auto simp: m'_def)
  qed
  moreover have "elf_copy ph (src + 1) (dest + 1) (j + 1) m' = write_bytes m' (dest + 1) (read_bytes m' (src + 1) n)"
    using Suc.prems lt j1 f span_step [of dest n] span_step [of src n]
    by (intro Suc.IH) (auto simp: word_le_nat_alt word_less_nat_alt)
  ultimately show ?case using lt by (subst elf_copy.simps) (simp add: read_bytes_Suc m'_def)
qed

lemma elf_zero_eq:
  assumes "j \<le> p_memsz m ph - p_filesz m ph" "n = unat (p_memsz m ph - p_filesz m ph) - unat j"
    "span dest n \<inter> span ph 32 = {}"
  shows "elf_zero ph dest j m = write_bytes m dest (replicate n 0)"
  using assms
proof (induction n arbitrary: dest j m)
  case 0
  then have "\<not> j < p_memsz m ph - p_filesz m ph" by (simp add: word_less_nat_alt)
  then show ?case by (subst elf_zero.simps) simp
next
  case (Suc n)
  define m' where "m' = m(dest := 0)"
  have lt: "j < p_memsz m ph - p_filesz m ph" using Suc.prems(2) by (simp add: word_less_nat_alt)
  then have j1: "unat (j + 1) = Suc (unat j)"
    using u32_less_Suc [OF lt] unat_less_32 [of "j + 1"] unatSuc [of j] by (cases "1 + j = 0") (simp_all add: add.commute)
  have "dest \<notin> span ph 32" using Suc.prems(3) span_first [of dest n] by auto
  then have f: "p_filesz m' ph = p_filesz m ph" "p_memsz m' ph = p_memsz m ph"
    by (intro header_fields_cong; auto simp: m'_def)+
  have "elf_zero ph (dest + 1) (j + 1) m' = write_bytes m' (dest + 1) (replicate n 0)"
    using Suc.prems lt j1 f span_step [of dest n] by (intro Suc.IH) (auto simp: word_le_nat_alt word_less_nat_alt)
  then show ?case using lt by (subst elf_zero.simps) (simp add: m'_def)
qed

section \<open>Loading a file\<close>

text \<open>The specification: a loadable segment puts its bytes of the file and zeros up to its size in
  memory at its physical address; the headers are the ones of the file \<open>m0\<close> before the load.\<close>

definition place_segment :: "u32 \<Rightarrow> memory \<Rightarrow> u32 \<Rightarrow> memory \<Rightarrow> memory" where
  "place_segment buf m0 ph m =
     (if p_type m0 ph \<noteq> PT_LOAD then m
      else write_bytes m (p_paddr m0 ph)
        (read_bytes m0 (buf + p_offset m0 ph) (unat (p_filesz m0 ph))
         @ replicate (unat (p_memsz m0 ph) - unat (p_filesz m0 ph)) 0))"

definition elf_ph :: "memory \<Rightarrow> u32 \<Rightarrow> nat \<Rightarrow> u32" where
  "elf_ph m buf i = buf + e_phoff m buf + 32 * of_nat i"

text \<open>A file of \<open>n\<close> bytes at \<open>buf\<close> whose headers and segments lie inside it and whose segments go
  elsewhere.\<close>

definition segment_ok :: "memory \<Rightarrow> u32 \<Rightarrow> nat \<Rightarrow> u32 \<Rightarrow> bool" where
  "segment_ok m buf n ph \<longleftrightarrow> p_filesz m ph \<le> p_memsz m ph
     \<and> unat (p_offset m ph) + unat (p_filesz m ph) \<le> n
     \<and> span (p_paddr m ph) (unat (p_memsz m ph)) \<inter> span buf n = {}"

definition elf_ok :: "memory \<Rightarrow> u32 \<Rightarrow> nat \<Rightarrow> bool" where
  "elf_ok m buf n \<longleftrightarrow> 52 \<le> n \<and> n \<le> 2 ^ 32
     \<and> (\<forall>i<unat (e_phnum m buf). unat (e_phoff m buf) + 32 * i + 32 \<le> n
          \<and> (p_type m (elf_ph m buf i) = PT_LOAD \<longrightarrow> segment_ok m buf n (elf_ph m buf i)))"

lemma elf_segment_place:
  assumes same: "\<And>a. a \<in> span buf n \<Longrightarrow> m a = m0 a" and ph: "span ph 32 \<subseteq> span buf n" and n: "n \<le> 2 ^ 32"
    and ok: "p_type m0 ph = PT_LOAD \<Longrightarrow> segment_ok m0 buf n ph"
  shows "elf_segment buf ph m = place_segment buf m0 ph m
    \<and> (\<forall>a\<in>span buf n. elf_segment buf ph m a = m a)"
proof -
  have f: "p_type m ph = p_type m0 ph" "p_offset m ph = p_offset m0 ph" "p_paddr m ph = p_paddr m0 ph"
    "p_filesz m ph = p_filesz m0 ph" "p_memsz m ph = p_memsz m0 ph"
    by (intro header_fields_cong same; use ph in blast)+
  show ?thesis
  proof (cases "p_type m0 ph = PT_LOAD")
    case True
    let ?fs = "unat (p_filesz m0 ph)" and ?ms = "unat (p_memsz m0 ph)" and ?d = "p_paddr m0 ph"
    let ?src = "buf + p_offset m0 ph" and ?zs = "replicate (?ms - ?fs) (0 :: u8)"
    have k: "?fs \<le> ?ms" "unat (p_offset m0 ph) + ?fs \<le> n" "span ?d ?ms \<inter> span buf n = {}"
      using ok [OF True] by (simp_all add: segment_ok_def word_le_nat_alt)
    have dest: "span ?d ?fs \<subseteq> span ?d ?ms" "span (?d + p_filesz m0 ph) (?ms - ?fs) \<subseteq> span ?d ?ms"
      using k(1) unat_less_32 [of "p_filesz m0 ph"] span_mono [of ?fs ?ms ?d] span_sub [of ?fs "?ms - ?fs" ?ms ?d]
      by simp_all
    have src: "span ?src ?fs \<subseteq> span buf n"
      using span_sub [of "unat (p_offset m0 ph)" ?fs n buf] k(2) unat_less_32 [of "p_offset m0 ph"] by simp
    have bytes: "read_bytes m ?src ?fs = read_bytes m0 ?src ?fs"
      using src in_span_add [of _ ?fs ?src] unat_less_32 [of "p_filesz m0 ph"]
      by (intro read_bytes_cong same) (auto simp: subset_iff)
    define m1 where "m1 = write_bytes m ?d (read_bytes m0 ?src ?fs)"
    have copy: "elf_copy ph ?src ?d 0 m = m1"
      unfolding m1_def bytes [symmetric]
      using elf_copy_eq [of 0 m ph ?fs ?d ?src] dest(1) k(3) ph src by (fastforce simp: f)
    have m1: "m1 a = m a" if "a \<in> span buf n" for a
    proof -
      have "a \<notin> span ?d ?fs" using that dest(1) k(3) by blast
      then show ?thesis using unat_less_32 [of "p_filesz m0 ph"] by (simp add: m1_def write_bytes_outside)
    qed
    have f1: "p_paddr m1 ph = ?d" "p_filesz m1 ph = p_filesz m0 ph" "p_memsz m1 ph = p_memsz m0 ph"
      unfolding f(3-5) [symmetric] by (intro header_fields_cong m1; use ph in blast)+
    have z: "unat (p_memsz m0 ph - p_filesz m0 ph) = ?ms - ?fs"
      using k(1) by (simp add: unat_sub word_le_nat_alt)
    have "elf_zero ph (?d + p_filesz m0 ph) 0 m1 = write_bytes m1 (?d + p_filesz m0 ph) ?zs"
      using elf_zero_eq [of 0 m1 ph "?ms - ?fs" "?d + p_filesz m0 ph"] dest(2) k(3) ph z by (fastforce simp: f1)
    then have seg: "elf_segment buf ph m = write_bytes m ?d (read_bytes m0 ?src ?fs @ ?zs)"
      unfolding elf_segment_def f copy Let_def f1 by (simp add: True write_bytes_append m1_def [symmetric])
    moreover have "write_bytes m ?d (read_bytes m0 ?src ?fs @ ?zs) a = m a" if "a \<in> span buf n" for a
      using that k(1,3) unat_less_32 [of "p_memsz m0 ph"] by (intro write_bytes_outside) auto
    ultimately show ?thesis by (simp add: place_segment_def True)
  qed (simp add: elf_segment_def place_segment_def f)
qed

lemma elf_header_cong:
  assumes "\<And>a. a \<in> span buf n \<Longrightarrow> m a = m0 a" "52 \<le> n" "n \<le> 2 ^ 32"
  shows "e_phnum m buf = e_phnum m0 buf" "e_phoff m buf = e_phoff m0 buf" "e_entry m buf = e_entry m0 buf"
proof -
  have b: "m (buf + of_nat k) = m0 (buf + of_nat k)" if "k < 52" for k
    using that assms in_span_add [of k n buf] by simp
  show "e_phnum m buf = e_phnum m0 buf"
    using b [of 44] b [of 45] by (simp add: e_phnum_def load16_def add.assoc)
  have "load32 m (buf + of_nat k) = load32 m0 (buf + of_nat k)" if "k + 4 \<le> 52" for k
    using that assms span_sub [of k 4 n buf] by (intro load32_cong) (auto simp: subset_iff)
  from this [of 24] this [of 28]
  show "e_phoff m buf = e_phoff m0 buf" "e_entry m buf = e_entry m0 buf"
    by (simp_all add: e_phoff_def e_entry_def)
qed

lemma elf_ph_inside:
  assumes "elf_ok m buf n" "i < unat (e_phnum m buf)"
  shows "span (elf_ph m buf i) 32 \<subseteq> span buf n"
proof -
  have "unat (e_phoff m buf) + 32 * i + 32 \<le> n" "n \<le> 2 ^ 32" using assms by (auto simp: elf_ok_def)
  moreover have "elf_ph m buf i = buf + of_nat (unat (e_phoff m buf) + 32 * i)" by (simp add: elf_ph_def)
  ultimately show ?thesis
    using span_sub [of "unat (e_phoff m buf) + 32 * i" 32 n buf] by simp
qed

lemma elf_segments_fold:
  assumes ok: "elf_ok m0 buf n" and same: "\<And>a. a \<in> span buf n \<Longrightarrow> m a = m0 a"
    and i: "i \<le> unat (e_phnum m0 buf)"
  shows "elf_segments buf i m = fold (\<lambda>k. place_segment buf m0 (elf_ph m0 buf k)) [i..<unat (e_phnum m0 buf)] m
    \<and> (\<forall>a\<in>span buf n. elf_segments buf i m a = m0 a)"
  using same i
proof (induction "unat (e_phnum m0 buf) - i" arbitrary: i m)
  case 0
  have "e_phnum m buf = e_phnum m0 buf"
    using ok by (intro elf_header_cong 0(2)) (auto simp: elf_ok_def)
  with 0 show ?case by (subst (1 2) elf_segments.simps) simp
next
  case (Suc k)
  let ?ph = "elf_ph m0 buf i"
  have n: "52 \<le> n" "n \<le> 2 ^ 32" using ok by (auto simp: elf_ok_def)
  have hdr: "e_phnum m buf = e_phnum m0 buf" "e_phoff m buf = e_phoff m0 buf"
    using elf_header_cong [OF Suc.prems(1) n] by simp_all
  have lt: "i < unat (e_phnum m0 buf)" using Suc.hyps(2) by simp
  have sok: "segment_ok m0 buf n ?ph" if "p_type m0 ?ph = PT_LOAD"
    using ok lt that by (auto simp: elf_ok_def)
  have "elf_segment buf ?ph m = place_segment buf m0 ?ph m \<and> (\<forall>a\<in>span buf n. elf_segment buf ?ph m a = m a)"
    by (rule elf_segment_place [OF Suc.prems(1) elf_ph_inside [OF ok lt] n(2) sok])
  then have seg: "elf_segment buf ?ph m = place_segment buf m0 ?ph m" "\<forall>a\<in>span buf n. elf_segment buf ?ph m a = m a"
    by blast+
  have step: "elf_segments buf i m = elf_segments buf (Suc i) (elf_segment buf ?ph m)"
    using lt by (subst elf_segments.simps) (simp add: hdr elf_ph_def)
  have "elf_segments buf (Suc i) (elf_segment buf ?ph m) =
      fold (\<lambda>k. place_segment buf m0 (elf_ph m0 buf k)) [Suc i..<unat (e_phnum m0 buf)] (elf_segment buf ?ph m)
    \<and> (\<forall>a\<in>span buf n. elf_segments buf (Suc i) (elf_segment buf ?ph m) a = m0 a)"
    using Suc.hyps(2) lt seg(2) Suc.prems(1) by (intro Suc.hyps(1)) auto
  then show ?case unfolding step upt_conv_Cons [OF lt] seg(1) fold_simps .
qed

lemma read_bytes_4: "read_bytes m p 4 = [m p, m (p + 1), m (p + 2), m (p + 3)]"
proof -
  have "4 = Suc (Suc (Suc (Suc 0)))" by simp
  then show ?thesis by (simp only: read_bytes_Suc read_bytes_0) (simp add: add.assoc)
qed

text \<open>C16. Loading an ELF file: without the magic number nothing happens and the result is 0; otherwise,
  for a file whose headers and segments lie inside it and whose segments go elsewhere, the memory
  becomes what placing the loadable segments one after the other gives, each with its bytes of the file
  and zeros behind them, the file itself stays, and the result is the entry point.\<close>

theorem reload_elf_file_correct:
  assumes "elf_ok m buf n"
  shows "reload_elf_file buf m =
    (if read_bytes m buf 4 = [0x7F, 0x45, 0x4C, 0x46]
     then (e_entry m buf, fold (\<lambda>k. place_segment buf m (elf_ph m buf k)) [0..<unat (e_phnum m buf)] m)
     else (0, m))
   \<and> (\<forall>a\<in>span buf n. snd (reload_elf_file buf m) a = m a)"
proof -
  have magic: "read_bytes m buf 4 = [0x7F, 0x45, 0x4C, 0x46] \<longleftrightarrow>
      m buf = 0x7F \<and> m (buf + 1) = 0x45 \<and> m (buf + 2) = 0x4C \<and> m (buf + 3) = 0x46"
    by (simp add: read_bytes_4)
  note f = elf_segments_fold [OF assms, of m 0, simplified, THEN conjunct1]
    elf_segments_fold [OF assms, of m 0, simplified, THEN conjunct2]
  have "e_entry (elf_segments buf 0 m) buf = e_entry m buf"
    using assms f(2) by (intro elf_header_cong(3) [of buf n]) (auto simp: elf_ok_def)
  then have "reload_elf_file buf m = (if read_bytes m buf 4 = [0x7F, 0x45, 0x4C, 0x46]
      then (e_entry m buf, elf_segments buf 0 m) else (0, m))"
    by (simp add: reload_elf_file_def magic ELF_MAGIC_def)
  then show ?thesis using f by simp
qed

definition tiny_file :: "u8 list" where
  "tiny_file =
     [0x7F, 0x45, 0x4C, 0x46, 1, 1, 1, 0, 0, 0, 0, 0, 0, 0, 0, 0,  2, 0, 3, 0, 1, 0, 0, 0,
      0x00, 0x00, 0x10, 0x00,  52, 0, 0, 0,  0, 0, 0, 0,  0, 0, 0, 0,  52, 0, 32, 0, 1, 0, 0, 0, 0, 0, 0, 0,
      1, 0, 0, 0,  84, 0, 0, 0,  0x00, 0x00, 0x10, 0x00,  0x00, 0x00, 0x10, 0x00,  4, 0, 0, 0,  8, 0, 0, 0,
      5, 0, 0, 0,  0, 0x10, 0, 0,  0xEB, 0xFE, 0x90, 0x90]"

definition tiny_mem :: memory where
  "tiny_mem a = (if unat (a - 0x10000) < 88 then tiny_file ! unat (a - 0x10000) else 0xFF)"

theorem reload_elf_file_correct_witness:
  "fst (reload_elf_file 0x10000 tiny_mem) = 0x100000
   \<and> read_bytes (snd (reload_elf_file 0x10000 tiny_mem)) 0x100000 8 = [0xEB, 0xFE, 0x90, 0x90, 0, 0, 0, 0]"
proof -
  have b: "tiny_mem (0x10000 + of_nat k) = tiny_file ! k" if "k < 88" for k
    using that unat_of_nat32 [of k] by (simp add: tiny_mem_def)
  have f: "e_phnum tiny_mem 0x10000 = 1" "e_phoff tiny_mem 0x10000 = 52" "e_entry tiny_mem 0x10000 = 0x100000"
    by (simp_all add: e_phnum_def e_phoff_def e_entry_def load16_def load32_def tiny_mem_def tiny_file_def)
  have ph: "elf_ph tiny_mem 0x10000 0 = 0x10034" by (simp add: elf_ph_def f)
  have p: "p_type tiny_mem 0x10034 = 1" "p_offset tiny_mem 0x10034 = 84" "p_paddr tiny_mem 0x10034 = 0x100000"
    "p_filesz tiny_mem 0x10034 = 4" "p_memsz tiny_mem 0x10034 = 8"
    by (simp_all add: p_type_def p_offset_def p_paddr_def p_filesz_def p_memsz_def load32_def tiny_mem_def tiny_file_def)
  have "span 0x100000 8 \<inter> span 0x10000 88 = {}" by (rule span_disjoint) simp_all
  then have ok: "elf_ok tiny_mem 0x10000 88" by (simp add: elf_ok_def f ph p segment_ok_def)
  have rb: "read_bytes tiny_mem 0x10054 4 = [0xEB, 0xFE, 0x90, 0x90]" "read_bytes tiny_mem 0x10000 4 = [0x7F, 0x45, 0x4C, 0x46]"
    by (simp_all add: read_bytes_4 tiny_mem_def tiny_file_def)
  have "reload_elf_file 0x10000 tiny_mem =
      (0x100000, write_bytes tiny_mem 0x100000 ([0xEB, 0xFE, 0x90, 0x90] @ replicate 4 0))"
    using reload_elf_file_correct [OF ok] by (simp add: rb f ph place_segment_def p PT_LOAD_def)
  moreover have "read_bytes (write_bytes tiny_mem 0x100000 xs) 0x100000 (length xs) = xs" if "length xs \<le> 2 ^ 32" for xs
    using that by (rule read_write_bytes)
  from this [of "[0xEB, 0xFE, 0x90, 0x90] @ replicate 4 0"]
  have "read_bytes (write_bytes tiny_mem 0x100000 ([0xEB, 0xFE, 0x90, 0x90] @ replicate 4 0)) 0x100000 8
      = [0xEB, 0xFE, 0x90, 0x90] @ replicate 4 0" by simp
  moreover have "replicate 4 (0 :: u8) = [0, 0, 0, 0]" by (simp add: numeral_eq_Suc)
  ultimately show ?thesis by simp
qed

section \<open>Reading sectors\<close>

lemma length_le16s [simp]: "length (concat (map (le16 \<circ> f) ws)) = 2 * length ws"
  by (induction ws) simp_all

lemma read_words_eq:
  "read_words n p s m =
     (s\<lparr>p_count := (p_count s)(0x1F0 := p_count s 0x1F0 + n)\<rparr>,
      write_bytes m p (concat (map le16 (map (p_dev s 0x1F0) [p_count s 0x1F0..<p_count s 0x1F0 + n]))))"
proof (induction n arbitrary: p s m)
  case (Suc n)
  let ?c = "p_count s 0x1F0"
  have u: "[?c..<?c + Suc n] = ?c # [Suc ?c..<Suc ?c + n]" by (simp add: upt_conv_Cons)
  define s1 where "s1 = s\<lparr>p_count := (p_count s)(0x1F0 := Suc ?c)\<rparr>"
  have s1: "p_count s1 0x1F0 = Suc ?c" "p_dev s1 = p_dev s" by (simp_all add: s1_def)
  have cnt: "s1\<lparr>p_count := (p_count s1)(0x1F0 := Suc ?c + n)\<rparr> = s\<lparr>p_count := (p_count s)(0x1F0 := ?c + Suc n)\<rparr>"
    by (simp add: s1_def)
  define m1 where "m1 = store16 m p (p_dev s 0x1F0 ?c)"
  have "read_words (Suc n) p s m = read_words n (p + 2) s1 m1"
    by (simp add: inw_def s1_def m1_def)
  moreover have "write_bytes m1 (p + 2) (concat ws) = write_bytes m p (concat (le16 (p_dev s 0x1F0 ?c) # ws))" for ws
    by (simp add: m1_def store16_bytes write_bytes_append)
  ultimately show ?case
    using Suc.IH [of "p + 2" s1 m1] unfolding s1 u cnt list.map by (simp only:)
qed simp

lemma read_sectors_eq:
  assumes "keeps_ready (p_dev s) 0x1F7 disk_ready"
  shows "\<exists>s'. read_sectors n p s m =
      Some (s', write_bytes m p
        (concat (map le16 (map (p_dev s 0x1F0) [p_count s 0x1F0..<p_count s 0x1F0 + 256 * n]))))
    \<and> p_out s' = p_out s"
  using assms
proof (induction n arbitrary: p s m)
  case (Suc n)
  obtain k where k: "poll 0x1F7 disk_ready s = Some (s\<lparr>p_count := (p_count s)(0x1F7 := k)\<rparr>)"
    using poll_ready [of s "0x1F7" disk_ready] Suc.prems unfolding keeps_ready_def by blast
  define c where "c = p_count s 0x1F0"
  define s2 where "s2 = s\<lparr>p_count := (p_count s)(0x1F7 := k, 0x1F0 := c + 256)\<rparr>"
  define m2 where "m2 = write_bytes m p (concat (map le16 (map (p_dev s 0x1F0) [c..<c + 256])))"
  have w: "read_words 256 p (s\<lparr>p_count := (p_count s)(0x1F7 := k)\<rparr>) m = (s2, m2)"
    by (simp add: read_words_eq s2_def m2_def c_def)
  have dev: "p_dev s2 = p_dev s" "p_count s2 0x1F0 = c + 256" "p_out s2 = p_out s" by (simp_all add: s2_def)
  obtain s' where s': "read_sectors n (p + 512) s2 m2 = Some (s', write_bytes m2 (p + 512)
      (concat (map le16 (map (p_dev s 0x1F0) [c + 256..<c + 256 + 256 * n]))))" "p_out s' = p_out s"
    using Suc.IH [of s2 "p + 512" m2] Suc.prems unfolding dev by blast
  have u: "[c..<c + 256 * Suc n] = [c..<c + 256] @ [c + 256..<c + 256 + 256 * n]"
    using upt_add_eq_append [of c "c + 256" "256 * n"] by (simp add: algebra_simps)
  have "read_sectors (Suc n) p s m = read_sectors n (p + 512) s2 m2"
    by (simp add: k w)
  moreover have "write_bytes m2 (p + 512) (concat (map le16 (map (p_dev s 0x1F0) [c + 256..<c + 256 + 256 * n])))
      = write_bytes m p (concat (map le16 (map (p_dev s 0x1F0) [c..<c + 256 * Suc n])))"
    unfolding u map_append concat_append write_bytes_append m2_def by simp
  ultimately show ?case using s' unfolding c_def [symmetric] by metis
qed simp

lemma os_init_reads:
  assumes "keeps_ready (p_dev s) 0x1F7 disk_ready"
  shows "\<exists>s'. os_init s m = Some (s', write_bytes m 0x100000
        (concat (map le16 (map (p_dev s 0x1F0) [p_count s 0x1F0..<p_count s 0x1F0 + 128000]))))
    \<and> p_out s' = p_out s @ [(0x1F6, 0xE0), (0x1F2, 1), (0x1F3, 0), (0x1F4, 0), (0x1F5, 0),
        (0x1F2, 0xF4), (0x1F3, 100), (0x1F4, 0), (0x1F5, 0), (0x1F7, 0x24)]"
proof -
  have c: "disk_command 100 500 = [(0x1F6, 0xE0), (0x1F2, 1), (0x1F3, 0), (0x1F4, 0), (0x1F5, 0),
        (0x1F2, 0xF4), (0x1F3, 100), (0x1F4, 0), (0x1F5, 0), (0x1F7, 0x24)]"
    by (simp add: disk_command_def)
  have "keeps_ready (p_dev (outbs (disk_command 100 500) s)) 0x1F7 disk_ready"
    using assms by (simp add: outbs_eq)
  from read_sectors_eq [OF this, of 500 "0x100000" m] show ?thesis
    by (simp add: os_init_def read_disk_def KERNEL_START_ADDR_def outbs_eq c)
qed

text \<open>Reading the kernel: on a disk that gets ready again and again, \<open>os_init\<close> returns, the 500
  sectors from sector 100 on have been asked for, and the 128000 words that the disk hands over stand one after
  the other from 0x100000 on, with the rest of memory as before.\<close>

theorem os_init_correct:
  assumes "keeps_ready (p_dev s) 0x1F7 disk_ready"
  shows "\<exists>s'. os_init s m = Some (s', write_bytes m 0x100000
        (concat (map le16 (map (p_dev s 0x1F0) [p_count s 0x1F0..<p_count s 0x1F0 + 128000]))))
    \<and> p_out s' = p_out s @ [(0x1F6, 0xE0), (0x1F2, 1), (0x1F3, 0), (0x1F4, 0), (0x1F5, 0),
        (0x1F2, 0xF4), (0x1F3, 100), (0x1F4, 0), (0x1F5, 0), (0x1F7, 0x24)]"
  using assms by (rule os_init_reads)

theorem os_init_correct_witness:
  "\<exists>s' m'. os_init \<lparr>p_dev = (\<lambda>_ _. 0x0008), p_count = (\<lambda>_. 0), p_out = []\<rparr> (\<lambda>_. 0) = Some (s', m')"
  using os_init_correct [of "\<lparr>p_dev = (\<lambda>_ _. 0x0008), p_count = (\<lambda>_. 0), p_out = []\<rparr>" "\<lambda>_. 0"]
  by (auto simp: keeps_ready_def ready_at_def disk_ready_def simp del: map_append upt_Suc map_map)


end
