(* ===== verification/Start.thy ===== *)
theory Start
  imports Boot Descriptors Guest_Paging
begin

text \<open>
  From the boot sector to the kernel: \<open>src/basic_set/start.S\<close>, with the memory map of
  \<open>include/bios.h\<close> that it leaves at 0x1000 and \<open>os_init\<close> of \<open>os.c\<close>, which it calls. The BIOS is a
  parameter. Code and stack run at the addresses that the linker scripts give; what the pushes and
  the BIOS leave in the stack below 0x7C00 is not modelled.
\<close>

unbundle bit_operations_syntax

section \<open>The memory map\<close>

record e820_entry =
  ram_addr :: u64
  ram_size :: u64
  ram_type :: u32

definition BOOT_RAM_REGION_MAX :: nat where
  "BOOT_RAM_REGION_MAX = 10"

text \<open>The members of \<open>e820map_t\<close> at \<open>p\<close>: a count of 4 bytes and entries of 20 bytes.\<close>

definition load64 :: "memory \<Rightarrow> u32 \<Rightarrow> u64" where
  "load64 m a = ucast (load32 m a) OR push_bit 32 (ucast (load32 m (a + 4)))"

definition nr_map :: "memory \<Rightarrow> u32 \<Rightarrow> u32" where
  "nr_map m p = load32 m p"

definition map_entry :: "memory \<Rightarrow> u32 \<Rightarrow> nat \<Rightarrow> e820_entry" where
  "map_entry m p i =
     (let q = p + 4 + of_nat (20 * i)
      in \<lparr>ram_addr = load64 m q, ram_size = load64 m (q + 8), ram_type = load32 m (q + 16)\<rparr>)"

definition sizeof_e820map :: nat where
  "sizeof_e820map = 4 + 20 * BOOT_RAM_REGION_MAX"

section \<open>The BIOS\<close>

text \<open>What the code sees of its two services. \<open>int13 ax bx cx dx n m\<close> is the \<open>n\<close>-th call of the disk
  service and \<open>int15 eax ebx ecx edx di m\<close> the memory map service: the carry flag, for the latter the
  new \<open>ebx\<close>, and memory. The other registers that they change are loaded again or not used.\<close>

record bios =
  int13 :: "u16 \<Rightarrow> u16 \<Rightarrow> u16 \<Rightarrow> u16 \<Rightarrow> nat \<Rightarrow> memory \<Rightarrow> bool \<times> memory"
  int15 :: "u32 \<Rightarrow> u32 \<Rightarrow> u32 \<Rightarrow> u32 \<Rightarrow> u16 \<Rightarrow> memory \<Rightarrow> bool \<times> u32 \<times> memory"

text \<open>The read is tried again until it succeeds; \<open>n\<close> counts the attempts.\<close>

partial_function (option) read_after_512 :: "bios \<Rightarrow> nat \<Rightarrow> memory \<Rightarrow> memory option" where
  "read_after_512 b n m =
     (case int13 b 0x0240 0x7e00 0x2 0x80 n m of
        (carry, m') \<Rightarrow> if carry then read_after_512 b (Suc n) m' else Some m')"

text \<open>\<open>di\<close> is a 16-bit register and \<open>es\<close> is 0. On carry, \<open>movw\<close> stores over the low half of the count.\<close>

partial_function (option) start_probe :: "bios \<Rightarrow> u32 \<Rightarrow> u16 \<Rightarrow> memory \<Rightarrow> memory option" where
  "start_probe b ebx di m =
     (case int15 b 0xE820 ebx 20 0x534D4150 di m of
        (carry, ebx', m1) \<Rightarrow>
          if carry then Some (store16 m1 0x1000 12345)
          else (let m2 = store32 m1 0x1000 (load32 m1 0x1000 + 1)
                in if ebx' \<noteq> 0 then start_probe b ebx' (di + 20) m2 else Some m2))"

definition detect_mem :: "bios \<Rightarrow> memory \<Rightarrow> memory option" where
  "detect_mem b m = start_probe b 0 0x1004 (store32 m 0x1000 0)"

section \<open>The processor\<close>

record boot_cpu =
  b_cs :: u16
  b_eip :: u32
  b_segs :: u16  \<comment> \<open>ds, es, ss, gs and fs, which the code loads together\<close>
  b_esp :: u32
  b_gdtr :: "u16 \<times> u32"
  b_idtr :: "u16 \<times> u32"
  b_cr0 :: u32
  b_cr3 :: u32
  b_cr4 :: u32

text \<open>\<open>lmsw\<close> loads the low four bits of CR0, but does not clear the first. \<open>lgdt\<close> and \<open>lidt\<close> with
  16-bit operands load 24 bits of the base.\<close>

definition lmsw :: "u16 \<Rightarrow> u32 \<Rightarrow> u32" where
  "lmsw w cr0 = (cr0 AND NOT 0xE) OR (ucast w AND 0xF)"

definition table_reg16 :: "memory \<Rightarrow> u32 \<Rightarrow> u16 \<times> u32" where
  "table_reg16 m a = (load16 m a, load32 m (a + 2) AND 0xFFFFFF)"

definition descriptor_at :: "memory \<Rightarrow> boot_cpu \<Rightarrow> u16 \<Rightarrow> gdt_entry" where
  "descriptor_at m c sel = gdt_of_bytes (read_bytes m (snd (b_gdtr c) + ucast (sel AND 0xFFF8)) 8)"

definition within_gdt :: "boot_cpu \<Rightarrow> u16 \<Rightarrow> bool" where
  "within_gdt c sel \<longleftrightarrow> sel AND 0xFFF8 \<noteq> 0 \<and> unat (sel AND 0xFFF8) + 7 \<le> unat (fst (b_gdtr c))"

text \<open>A far jump at privilege level 0, and loads of the data segment registers including \<open>ss\<close>;
  \<open>None\<close> is a fault.\<close>

definition far_jmp :: "memory \<Rightarrow> u16 \<Rightarrow> u32 \<Rightarrow> boot_cpu \<Rightarrow> boot_cpu option" where
  "far_jmp m sel off c =
     (let d = descriptor_at m c sel
      in if within_gdt c sel \<and> selector_rpl sel = Ring0 \<and> seg_present d \<and> \<not> seg_is_system d \<and> bit (seg_type d) 3
            \<and> \<not> bit (seg_type d) 2 \<and> seg_dpl d = Ring0 \<and> off \<le> seg_limit d
         then Some (c\<lparr>b_cs := sel, b_eip := off\<rparr>) else None)"

definition load_segs :: "memory \<Rightarrow> u16 \<Rightarrow> boot_cpu \<Rightarrow> boot_cpu option" where
  "load_segs m sel c =
     (let d = descriptor_at m c sel
      in if within_gdt c sel \<and> selector_rpl sel = Ring0 \<and> seg_present d \<and> \<not> seg_is_system d \<and> \<not> bit (seg_type d) 3
            \<and> bit (seg_type d) 1 \<and> seg_dpl d = Ring0
         then Some (c\<lparr>b_segs := sel\<rparr>) else None)"

text \<open>The translation of a linear address. Without CR4.PSE the size bit of a directory entry has no
  effect.\<close>

definition linear :: "boot_cpu \<Rightarrow> memory \<Rightarrow> bool \<Rightarrow> u32 \<Rightarrow> u32 option" where
  "linear c m wr a =
     (if \<not> bit (b_cr0 c) 31 then Some a
      else if bit (b_cr4 c) 4 then page_walk m (b_cr3 c) wr a
      else (let pde = load_elem m (b_cr3 c AND NOT (mask 12)) (unat (drop_bit 22 a));
                pte = load_elem m (pde AND NOT (mask 12)) (unat (drop_bit 12 a AND mask 10))
            in if pde AND PDE_P = 0 \<or> pte AND PTE_P = 0 \<or> wr \<and> (pde AND PDE_W = 0 \<or> pte AND PTE_W = 0) then None
               else Some ((pte AND NOT (mask 12)) OR (a AND mask 12))))"

section \<open>The boot sector\<close>

text \<open>Where the linker put the labels that the code names.\<close>

record labels =
  gdt_desc :: u16
  idt_desc :: u16
  start_32 :: u16

definition boot_start :: "bios \<Rightarrow> labels \<Rightarrow> boot_cpu \<Rightarrow> memory \<Rightarrow> (boot_cpu \<times> memory) option" where
  "boot_start b l c m =
     (let c0 = c\<lparr>b_segs := 0, b_esp := 0x7c00\<rparr>
      in case read_after_512 b 0 m of None \<Rightarrow> None
       | Some m1 \<Rightarrow>
         (case detect_mem b m1 of None \<Rightarrow> None
          | Some m2 \<Rightarrow>
            (let c1 = c0\<lparr>b_gdtr := table_reg16 m2 (ucast (gdt_desc l)), b_idtr := table_reg16 m2 (ucast (idt_desc l)),
                         b_cr0 := lmsw 1 (b_cr0 c0)\<rparr>
             in map_option (\<lambda>c2. (c2, m2)) (far_jmp m2 KERNEL_CODE_SEG (ucast (start_32 l)) c1))))"

definition boot_start_32 :: "ports \<Rightarrow> boot_cpu \<Rightarrow> memory \<Rightarrow> (ports \<times> boot_cpu \<times> memory) option" where
  "boot_start_32 s c m =
     (case load_segs m KERNEL_DATA_SEG c of None \<Rightarrow> None
      | Some c1 \<Rightarrow>
        (let c2 = c1\<lparr>b_esp := 0x7c00\<rparr>;
             c3 = c2\<lparr>b_cr3 := page_dir_addr\<rparr>;
             c4 = c3\<lparr>b_cr4 := b_cr4 c3 OR push_bit 4 1\<rparr>;
             c5 = c4\<lparr>b_cr0 := b_cr0 c4 OR push_bit 31 1\<rparr>
         in case os_init s m of None \<Rightarrow> None
          | Some (s', m') \<Rightarrow>
            map_option (\<lambda>c6. (s', c6, m')) (far_jmp m' KERNEL_CODE_SEG KERNEL_START_ADDR c5)))"

definition start :: "bios \<Rightarrow> labels \<Rightarrow> ports \<Rightarrow> boot_cpu \<Rightarrow> memory \<Rightarrow> (ports \<times> boot_cpu \<times> memory) option" where
  "start b l s c m =
     (case boot_start b l c m of None \<Rightarrow> None | Some (c', m') \<Rightarrow> boot_start_32 s c' m')"

section \<open>Bytes of the map\<close>

definition le64 :: "u64 \<Rightarrow> u8 list" where
  "le64 x = le32 (ucast x) @ le32 (ucast (drop_bit 32 x))"

definition e820_bytes :: "e820_entry \<Rightarrow> u8 list" where
  "e820_bytes e = le64 (ram_addr e) @ le64 (ram_size e) @ le32 (ram_type e)"

lemma length_e820_bytes [simp]: "length (e820_bytes e) = 20"
  by (simp add: e820_bytes_def le64_def)

lemma load32_read:
  assumes "read_bytes m p n = bs" "k + 4 \<le> n" "take 4 (drop k bs) = le32 w"
  shows "load32 m (p + of_nat k) = w"
proof -
  have "bs ! (k + j) = le32 w ! j" if "j < 4" for j
    using that assms(1,2) arg_cong [OF assms(3), of "\<lambda>xs. xs ! j"] by auto
  moreover have "m (p + of_nat k + of_nat j) = bs ! (k + j)" if "j < 4" for j
    using that assms(1,2) nth_read_bytes [of "k + j" n m p] by (simp add: algebra_simps)
  ultimately have b: "m (p + of_nat k + of_nat j) = le32 w ! j" if "j < 4" for j using that by simp
  show ?thesis
    using b [of 0] b [of 1] b [of 2] b [of 3] by (intro load32_le32) (simp_all add: le32_def)
qed

lemma load64_le64: "ucast (ucast x :: u32) OR push_bit 32 (ucast (ucast (drop_bit 32 x) :: u32)) = (x :: u64)"
proof (rule bit_word_eqI)
  fix n assume "n < LENGTH(64)"
  then show "bit (ucast (ucast x :: u32) OR push_bit 32 (ucast (ucast (drop_bit 32 x) :: u32)) :: u64) n = bit x n"
    by (cases "n < 32") (auto simp: bit_simps)
qed

lemma map_entry_bytes:
  assumes "read_bytes m (p + 4 + of_nat (20 * i)) 20 = e820_bytes e"
  shows "map_entry m p i = e"
proof -
  define q where "q = p + 4 + of_nat (20 * i)"
  have r: "read_bytes m q 20 = e820_bytes e" using assms by (simp add: q_def)
  note l = load32_read [OF r]
  have b: "load32 m q = ucast (ram_addr e)" "load32 m (q + 4) = ucast (drop_bit 32 (ram_addr e))"
    "load32 m (q + 8) = ucast (ram_size e)" "load32 m (q + 12) = ucast (drop_bit 32 (ram_size e))"
    "load32 m (q + 16) = ram_type e"
    using l [of 0] l [of 4] l [of 8] l [of 12] l [of 16] by (simp_all add: e820_bytes_def le64_def le32_def)
  have "q + 8 + 4 = q + 12" by simp
  then have "load64 m q = ram_addr e" "load64 m (q + 8) = ram_size e"
    unfolding load64_def by (simp_all only: b load64_le64)
  with b(5) show ?thesis unfolding map_entry_def Let_def q_def [symmetric] by simp
qed

section \<open>Probing the memory\<close>

text \<open>The documented behaviour of the memory map service: it hands out the entries one after the
  other, and the list ends either with a continuation value of 0, or (\<open>fin\<close>) with a carry at the call
  after the last entry.\<close>

fun serves :: "bios \<Rightarrow> bool \<Rightarrow> u32 \<Rightarrow> e820_entry list \<Rightarrow> bool" where
  "serves b fin ebx [] \<longleftrightarrow> fin \<and> (\<forall>di m. \<exists>x. int15 b 0xE820 ebx 20 0x534D4150 di m = (True, x, m))"
| "serves b fin ebx (e # es) \<longleftrightarrow>
     (\<exists>x. (\<forall>di m. int15 b 0xE820 ebx 20 0x534D4150 di m = (False, x, write_bytes m (ucast di) (e820_bytes e)))
        \<and> (if x = 0 then es = [] \<and> \<not> fin else serves b fin x es))"

text \<open>What the loop leaves: the entries, and the count or, after a carry, 12345 in its low half.\<close>

definition counted :: "bool \<Rightarrow> nat \<Rightarrow> memory \<Rightarrow> memory" where
  "counted fin n m =
     (let m' = store32 m 0x1000 (of_nat n) in if fin then store16 m' 0x1000 12345 else m')"

lemma store32_same: "store32 m a (load32 m a) = m"
proof
  fix x
  have "ucast (load32 m a) = m a" "ucast (drop_bit 8 (load32 m a)) = m (a + 1)"
    "ucast (drop_bit 16 (load32 m a)) = m (a + 2)" "ucast (drop_bit 24 (load32 m a)) = m (a + 3)"
    by (rule bit_word_eqI; auto simp: load32_def bit_simps dest: bit_imp_le_length)+
  then show "store32 m a (load32 m a) x = m x" by (simp add: store32_def)
qed

lemma store32_write_store32:
  assumes "length bs \<le> 2 ^ 32"
  shows "store32 (write_bytes (store32 m a x) p bs) a y = store32 (write_bytes m p bs) a y"
proof
  fix b
  show "store32 (write_bytes (store32 m a x) p bs) a y b = store32 (write_bytes m p bs) a y b"
  proof (cases "b \<in> span a 4")
    case True
    then show ?thesis by (auto simp: span_4 store32_def)
  next
    case False
    then show ?thesis using assms by (simp add: store32_outside write_bytes_apply)
  qed
qed

lemma counted_write_store32:
  "length bs \<le> 2 ^ 32 \<Longrightarrow> counted fin n (write_bytes (store32 m 0x1000 x) p bs) = counted fin n (write_bytes m p bs)"
  by (simp add: counted_def store32_write_store32)

definition entry_bytes :: "e820_entry list \<Rightarrow> u8 list" where
  "entry_bytes es = concat (map e820_bytes es)"

lemma length_entry_bytes [simp]: "length (entry_bytes es) = 20 * length es"
  by (induction es) (simp_all add: entry_bytes_def)

definition probe_di :: "nat \<Rightarrow> u16" where
  "probe_di i = 0x1004 + 20 * of_nat i"

lemma probe_di_addr: "i \<le> 1300 \<Longrightarrow> ucast (probe_di i) = (0x1004 :: u32) + of_nat (20 * i)"
proof -
  assume i: "i \<le> 1300"
  have "probe_di i = of_nat (0x1004 + 20 * i)" by (simp add: probe_di_def)
  then have "unat (probe_di i) = 0x1004 + 20 * i" using i by (simp only: unat_of_nat) simp
  moreover have "(ucast (probe_di i) :: u32) = of_nat (unat (probe_di i))" by (simp only: of_nat_unat)
  ultimately show ?thesis by (simp only: of_nat_add of_nat_numeral)
qed

lemma probe_di_step: "probe_di i + 20 = probe_di (Suc i)"
  by (simp add: probe_di_def)

lemma start_probe_serves:
  assumes "serves b fin ebx es" "i + length es \<le> 1300" "load32 m 0x1000 = of_nat i"
  shows "start_probe b ebx (probe_di i) m =
    Some (counted fin (i + length es) (write_bytes m (0x1004 + of_nat (20 * i)) (entry_bytes es)))"
  using assms
proof (induction es arbitrary: ebx i m)
  case Nil
  then obtain x where "int15 b 0xE820 ebx 20 0x534D4150 (probe_di i) m = (True, x, m)" and fin by auto
  then show ?case
    using store32_same [of m "0x1000"] Nil.prems(3)
    by (subst start_probe.simps) (simp add: counted_def entry_bytes_def)
next
  case (Cons e es)
  define p where "p = (0x1004 :: u32) + of_nat (20 * i)"
  define m1 where "m1 = write_bytes m p (e820_bytes e)"
  define m2 where "m2 = store32 m1 0x1000 (of_nat (Suc i))"
  obtain x where x: "\<And>di m. int15 b 0xE820 ebx 20 0x534D4150 di m = (False, x, write_bytes m (ucast di) (e820_bytes e))"
    and fin: "if x = 0 then es = [] \<and> \<not> fin else serves b fin x es"
    using Cons.prems(1) by auto
  have di: "ucast (probe_di i) = p" using Cons.prems(2) probe_di_addr [of i] by (simp add: p_def)
  have p: "unat p = 0x1004 + 20 * i"
    using offset_add [of "0x1004" "20 * i"] Cons.prems(2) by (simp add: p_def)
  have "load32 m1 0x1000 = load32 m 0x1000"
  proof (rule load32_cong)
    fix a assume "a \<in> span (0x1000 :: u32) 4"
    then have "a \<notin> span p 20" using p Cons.prems(2) by (simp add: span_nowrap)
    then show "m1 a = m a" by (simp add: m1_def write_bytes_outside)
  qed
  then have step: "start_probe b ebx (probe_di i) m = (if x \<noteq> 0 then start_probe b x (probe_di (Suc i)) m2 else Some m2)"
    using Cons.prems(3) probe_di_step [of i]
    by (subst start_probe.simps) (simp add: x di m1_def [symmetric] m2_def add.commute)
  have bytes: "write_bytes m1 (0x1004 + of_nat (20 * Suc i)) (entry_bytes es) = write_bytes m p (entry_bytes (e # es))"
    by (simp add: m1_def entry_bytes_def write_bytes_append p_def algebra_simps)
  show ?case
  proof (cases "x = 0")
    case True
    with fin step show ?thesis by (simp add: m2_def counted_def m1_def entry_bytes_def p_def)
  next
    case False
    with fin Cons.prems(2) have "start_probe b x (probe_di (Suc i)) m2 =
        Some (counted fin (Suc i + length es) (write_bytes m2 (0x1004 + of_nat (20 * Suc i)) (entry_bytes es)))"
      by (intro Cons.IH) (simp_all add: m2_def load32_store32)
    moreover have "counted fin n (write_bytes m2 q (entry_bytes es)) = counted fin n (write_bytes m1 q (entry_bytes es))" for n q
      unfolding m2_def using Cons.prems(2) by (intro counted_write_store32) simp
    ultimately show ?thesis using False step bytes by (simp add: p_def)
  qed
qed

lemma detect_mem_serves:
  assumes "serves b fin 0 es" "length es \<le> 1300"
  shows "detect_mem b m = Some (counted fin (length es) (write_bytes m 0x1004 (entry_bytes es)))"
proof -
  have "detect_mem b m = Some (counted fin (length es) (write_bytes (store32 m 0x1000 0) 0x1004 (entry_bytes es)))"
    using start_probe_serves [OF assms(1), of 0 "store32 m 0x1000 0"] assms(2)
    by (simp add: detect_mem_def probe_di_def load32_store32)
  then show ?thesis using assms(2) by (simp add: counted_write_store32)
qed

lemma nr_map_counted: "n \<le> 1300 \<Longrightarrow> nr_map (counted fin n m) 0x1000 = (if fin then 12345 else of_nat n)"
proof -
  assume n: "n \<le> 1300"
  have b: "drop_bit 16 (of_nat n :: u32) = 0" "drop_bit 24 (of_nat n :: u32) = 0"
    using n by (simp_all add: word_unat_eq_iff drop_bit_eq_div unat_div unat_of_nat32)
  have "load32 (store16 (store32 m 0x1000 (of_nat n)) 0x1000 12345) 0x1000 = 12345"
  proof (rule load32_le32)
    show "store16 (store32 m 0x1000 (of_nat n)) 0x1000 12345 (0x1000 + 2) = ucast (drop_bit 16 (12345 :: u32))"
      "store16 (store32 m 0x1000 (of_nat n)) 0x1000 12345 (0x1000 + 3) = ucast (drop_bit 24 (12345 :: u32))"
      using b by (simp_all add: store16_def store32_def)
  qed (simp_all add: store16_def)
  then show ?thesis by (simp add: counted_def nr_map_def load32_store32)
qed

lemma counted_outside: "a \<notin> span 0x1000 4 \<Longrightarrow> counted fin n m a = m a"
  by (simp add: counted_def Let_def store16_def span_4 store32_def)

lemma nth_entry_bytes: "i < length es \<Longrightarrow> j < 20 \<Longrightarrow> entry_bytes es ! (20 * i + j) = e820_bytes (es ! i) ! j"
proof (induction es arbitrary: i)
  case (Cons e es)
  then show ?case by (cases i) (simp_all add: entry_bytes_def nth_append)
qed simp

lemma entry_stored:
  assumes "i < length es" "length es \<le> 1300"
  shows "read_bytes (counted fin n (write_bytes m 0x1004 (entry_bytes es))) (0x1004 + of_nat (20 * i)) 20 = e820_bytes (es ! i)"
proof (rule nth_equalityI)
  fix j assume "j < length (read_bytes (counted fin n (write_bytes m 0x1004 (entry_bytes es))) (0x1004 + of_nat (20 * i)) 20)"
  then have j: "j < 20" by simp
  define a where "a = (0x1004 :: u32) + of_nat (20 * i + j)"
  have a: "unat a = 0x1004 + (20 * i + j)"
    using offset_add [of "0x1004" "20 * i + j"] assms j by (simp add: a_def)
  then have "a \<notin> span 0x1000 4" by (simp add: span_nowrap)
  moreover have "unat (a - 0x1004) = 20 * i + j"
    using assms j unat_of_nat32 [of "20 * i + j"] unfolding a_def by (simp only: add_diff_cancel_left') simp
  ultimately have "counted fin n (write_bytes m 0x1004 (entry_bytes es)) a = e820_bytes (es ! i) ! j"
    using assms j nth_entry_bytes [OF assms(1) j]
    by (simp add: counted_outside write_bytes_apply)
  moreover have "(0x1004 :: u32) + of_nat (20 * i) + of_nat j = a" by (simp add: a_def)
  ultimately show "read_bytes (counted fin n (write_bytes m 0x1004 (entry_bytes es))) (0x1004 + of_nat (20 * i)) 20 ! j
      = e820_bytes (es ! i) ! j"
    using j by (simp only: nth_read_bytes)
qed simp

text \<open>C36. The memory map: whatever list of up to 1300 regions the BIOS reports, \<open>detect_mem\<close> returns; the
  regions stand one after the other as the entries of the \<open>e820map_t\<close> at 0x1000, and no other memory changes.
  The count is right when the BIOS ends the list with a continuation value of 0; when it ends it with
  a carry, as it also may, the count is lost and reads 12345.\<close>

theorem detect_mem_correct:
  assumes "serves b fin 0 es" "length es \<le> 1300"
  shows "\<exists>m'. detect_mem b m = Some m'
    \<and> nr_map m' 0x1000 = (if fin then 12345 else of_nat (length es))
    \<and> (\<forall>i<length es. map_entry m' 0x1000 i = es ! i)
    \<and> (\<forall>a. a \<notin> span 0x1000 (4 + 20 * length es) \<longrightarrow> m' a = m a)"
proof -
  define m' where "m' = counted fin (length es) (write_bytes m 0x1004 (entry_bytes es))"
  have "map_entry m' 0x1000 i = es ! i" if "i < length es" for i
    using entry_stored [OF that assms(2)] by (intro map_entry_bytes) (simp add: m'_def)
  moreover have "m' a = m a" if "a \<notin> span 0x1000 (4 + 20 * length es)" for a
  proof -
    have "a \<notin> span 0x1000 4" "a \<notin> span 0x1004 (20 * length es)"
      using that assms(2) by (auto simp: span_nowrap)
    then show ?thesis using assms(2) by (simp add: m'_def counted_outside write_bytes_outside)
  qed
  ultimately show ?thesis
    using detect_mem_serves [OF assms] nr_map_counted [OF assms(2)] by (simp add: m'_def)
qed

text \<open>A BIOS that reports the regions of a list, with the index of the next one as continuation value,
  and that reads the disk at the third attempt.\<close>

definition list_bios :: "bool \<Rightarrow> e820_entry list \<Rightarrow> u8 list \<Rightarrow> bios" where
  "list_bios fin es img =
     \<lparr>int13 = (\<lambda>ax bx cx dx n m. if n < 2 then (True, m) else (False, write_bytes m (ucast bx) img)),
      int15 = (\<lambda>eax ebx ecx edx di m.
        if unat ebx < length es
        then (False, if Suc (unat ebx) = length es \<and> \<not> fin then 0 else ebx + 1,
              write_bytes m (ucast di) (e820_bytes (es ! unat ebx)))
        else (True, 0, m))\<rparr>"

definition regions0 :: "e820_entry list" where
  "regions0 = [\<lparr>ram_addr = 0, ram_size = 0x9fc00, ram_type = 1\<rparr>, \<lparr>ram_addr = 0x100000, ram_size = 0x7ee0000, ram_type = 1\<rparr>]"

lemma serves_regions0: "serves (list_bios fin regions0 img) fin 0 regions0"
  by (simp add: regions0_def list_bios_def)

theorem detect_mem_correct_witness:
  "(\<exists>m'. detect_mem (list_bios False regions0 []) (\<lambda>_. 0) = Some m' \<and> nr_map m' 0x1000 = 2
      \<and> ram_size (map_entry m' 0x1000 1) = 0x7ee0000)
   \<and> (\<exists>m'. detect_mem (list_bios True regions0 []) (\<lambda>_. 0) = Some m' \<and> nr_map m' 0x1000 = 12345)"
proof -
  have len: "length regions0 = 2" "ram_size (regions0 ! 1) = 0x7ee0000" by (simp_all add: regions0_def)
  then have le: "length regions0 \<le> 1300" by simp
  show ?thesis
    using detect_mem_correct [OF serves_regions0 le, of False "[]" "\<lambda>_. 0"]
      detect_mem_correct [OF serves_regions0 le, of True "[]" "\<lambda>_. 0"] len
    by (auto simp del: One_nat_def)
qed

text \<open>Nothing stops the probe at the ten entries that \<open>e820map_t\<close> has room for: an eleventh region is
  stored right behind the structure.\<close>

theorem detect_mem_past_end:
  assumes "serves b fin 0 es" "10 < length es" "length es \<le> 1300"
  shows "\<exists>m'. detect_mem b m = Some m' \<and> read_bytes m' (0x1000 + of_nat sizeof_e820map) 20 = e820_bytes (es ! 10)"
  using detect_mem_serves [OF assms(1,3)] entry_stored [OF assms(2,3)]
  by (simp add: sizeof_e820map_def BOOT_RAM_REGION_MAX_def)

section \<open>Reading the rest of the loader\<close>

text \<open>The disk service fails \<open>k\<close> times, changing at most the buffer, and then reads the 64 sectors.\<close>

definition disk_serves :: "bios \<Rightarrow> nat \<Rightarrow> u8 list \<Rightarrow> bool" where
  "disk_serves b k img \<longleftrightarrow> length img = 32768
     \<and> (\<forall>n<k. \<forall>m. \<exists>m'. int13 b 0x0240 0x7e00 0x2 0x80 n m = (True, m') \<and> (\<forall>a. a \<notin> span 0x7e00 32768 \<longrightarrow> m' a = m a))
     \<and> (\<forall>m. int13 b 0x0240 0x7e00 0x2 0x80 k m = (False, write_bytes m 0x7e00 img))"

lemma read_after_512_from:
  assumes "disk_serves b k img" "n \<le> k"
  shows "read_after_512 b n m = Some (write_bytes m 0x7e00 img)"
  using assms(2)
proof (induction n arbitrary: m rule: inc_induct)
  case base
  have "int13 b 0x0240 0x7e00 0x2 0x80 k m = (False, write_bytes m 0x7e00 img)"
    using assms(1) unfolding disk_serves_def by blast
  then show ?case by (subst read_after_512.simps) simp
next
  case (step n)
  obtain m' where m': "int13 b 0x0240 0x7e00 0x2 0x80 n m = (True, m')" "\<And>a. a \<notin> span 0x7e00 32768 \<Longrightarrow> m' a = m a"
    using assms(1) step.hyps unfolding disk_serves_def by blast
  have "length img = 32768" using assms(1) by (simp add: disk_serves_def)
  then have "write_bytes m' 0x7e00 img = write_bytes m 0x7e00 img"
    using m'(2) by (auto simp: write_bytes_apply span_iff)
  then show ?case using m'(1) step.IH [of m'] by (subst read_after_512.simps) simp
qed

section \<open>The image\<close>

text \<open>What the read brings in: the two pseudo-descriptors, the descriptor table at 0x9000 and the page
  directory at 0xA000 (\<open>include/cfg.h\<close> gives these addresses, \<open>kernel/base.c\<close> uses them).\<close>

definition image_ok :: "labels \<Rightarrow> memory \<Rightarrow> bool" where
  "image_ok l m \<longleftrightarrow>
     (\<forall>d \<in> {gdt_desc l, idt_desc l}. 0x7e00 \<le> unat d \<and> unat d + 6 \<le> 0xfe00 \<and> load16 m (ucast d) = 256 * 8 - 1)
     \<and> load32 m (ucast (gdt_desc l) + 2) = 0x9000 \<and> load32 m (ucast (idt_desc l) + 2) = 0xb000
     \<and> (\<forall>i<256. read_bytes m (0x9000 + of_nat (8 * i)) 8 = gdt_bytes (gdt_boot ! i))
     \<and> (\<forall>i<1024. load_elem m page_dir_addr i = page_dir ! i)"

lemma unat_ucast_16_32: "unat (ucast (d :: u16) :: u32) = unat d"
  using unat_of_nat32 [of "unat d"] unsigned_less [of d, where ?'a = nat] by simp

lemma image_ok_cong:
  assumes "image_ok l m" and eq: "\<And>a. 0x7e00 \<le> unat a \<Longrightarrow> unat a < 0xfe00 \<Longrightarrow> m' a = m a"
  shows "image_ok l m'"
proof -
  have eqs: "m' a = m a" if "0x7e00 \<le> unat p" "unat p + n \<le> 0xfe00" "a \<in> span p n" for a p n
    using that by (intro eq) (simp_all add: span_nowrap)
  have d: "load16 m' (ucast d) = load16 m (ucast d) \<and> load32 m' (ucast d + 2) = load32 m (ucast d + 2)"
    if r: "0x7e00 \<le> unat d" "unat d + 6 \<le> 0xfe00" for d :: u16
  proof -
    have u: "unat (ucast d :: u32) = unat d" by (rule unat_ucast_16_32)
    have "unat (ucast d + 1 :: u32) = unat d + 1" "unat (ucast d + 2 :: u32) = unat d + 2"
      using offset_add [of "ucast d" 1] offset_add [of "ucast d" 2] r by (simp_all add: u)
    then have lo: "m' (ucast d) = m (ucast d)" "m' (ucast d + 1) = m (ucast d + 1)"
      using r u by (intro eq; linarith)+
    have "m' a = m a" if "a \<in> span (ucast d + 2) 4" for a
      using eqs [OF _ _ that] \<open>unat (ucast d + 2 :: u32) = unat d + 2\<close> r by linarith
    then have "load32 m' (ucast d + 2) = load32 m (ucast d + 2)" by (rule load32_cong)
    with lo show ?thesis by (simp add: load16_def)
  qed
  have g: "read_bytes m' (0x9000 + of_nat (8 * i)) 8 = read_bytes m (0x9000 + of_nat (8 * i)) 8" if "i < 256" for i
  proof (rule read_bytes_cong)
    fix j :: nat assume "j < 8"
    moreover have "unat ((0x9000 :: u32) + of_nat (8 * i)) = 0x9000 + 8 * i"
      using offset_add [of "0x9000" "8 * i"] that by simp
    ultimately show "m' (0x9000 + of_nat (8 * i) + of_nat j) = m (0x9000 + of_nat (8 * i) + of_nat j)"
      using that by (intro eqs [of "0x9000 + of_nat (8 * i)" 8] in_span_add) simp_all
  qed
  have p: "load_elem m' page_dir_addr i = load_elem m page_dir_addr i" if "i < 1024" for i
    using that by (intro load_elem_cong) (auto simp: page_dir_addr_def aligned_def intro!: eqs [of "0xa000" 4096])
  show ?thesis using assms(1) d g p unfolding image_ok_def by simp
qed

section \<open>To the kernel\<close>

text \<open>Memory after the boot sector, as a function of what was there, the sectors and the regions.\<close>

definition boot_memory :: "u8 list \<Rightarrow> bool \<Rightarrow> e820_entry list \<Rightarrow> memory \<Rightarrow> memory" where
  "boot_memory img fin es m = counted fin (length es) (write_bytes (write_bytes m 0x7e00 img) 0x1004 (entry_bytes es))"

lemma boot_memory_image:
  assumes "image_ok l (write_bytes m 0x7e00 img)" "length es \<le> 1300"
  shows "image_ok l (boot_memory img fin es m)"
proof (rule image_ok_cong [OF assms(1)])
  fix a :: u32 assume "0x7e00 \<le> unat a"
  then have "a \<notin> span 0x1000 4" "a \<notin> span 0x1004 (20 * length es)"
    using assms(2) by (simp_all add: span_nowrap)
  then show "boot_memory img fin es m a = write_bytes m 0x7e00 img a"
    using assms(2) by (simp add: boot_memory_def counted_outside write_bytes_outside)
qed

lemma image_descriptors:
  assumes "image_ok l m" "b_gdtr c = (0x7ff, 0x9000)"
  shows "descriptor_at m c KERNEL_CODE_SEG = gdt_boot ! 1" "descriptor_at m c KERNEL_DATA_SEG = gdt_boot ! 2"
    "within_gdt c KERNEL_CODE_SEG" "within_gdt c KERNEL_DATA_SEG"
proof -
  have r: "read_bytes m (0x9000 + of_nat (8 * i)) 8 = gdt_bytes (gdt_boot ! i)" if "i < 256" for i
    using assms(1) that unfolding image_ok_def by blast
  show "descriptor_at m c KERNEL_CODE_SEG = gdt_boot ! 1"
    using r [of 1] assms(2) by (simp add: descriptor_at_def KERNEL_CODE_SEG_def gdt_of_gdt_bytes)
  show "descriptor_at m c KERNEL_DATA_SEG = gdt_boot ! 2"
    using r [of 2] assms(2) by (simp add: descriptor_at_def KERNEL_DATA_SEG_def gdt_of_gdt_bytes)
  show "within_gdt c KERNEL_CODE_SEG" "within_gdt c KERNEL_DATA_SEG"
    using assms(2) by (simp_all add: within_gdt_def KERNEL_CODE_SEG_def KERNEL_DATA_SEG_def)
qed

lemma image_table_regs:
  assumes "image_ok l m"
  shows "table_reg16 m (ucast (gdt_desc l)) = (0x7ff, 0x9000)" "table_reg16 m (ucast (idt_desc l)) = (0x7ff, 0xb000)"
  using assms by (simp_all add: image_ok_def table_reg16_def)

lemma far_jmp_kernel:
  assumes "image_ok l m" "b_gdtr c = (0x7ff, 0x9000)"
  shows "far_jmp m KERNEL_CODE_SEG off c = Some (c\<lparr>b_cs := KERNEL_CODE_SEG, b_eip := off\<rparr>)"
  using gdt_boot_nth(3) image_descriptors [OF assms] unat_less_32 [of off]
  by (simp add: word_le_nat_alt far_jmp_def flat_is_def KERNEL_CODE_SEG_def selector_rpl_def ring_of_def)

lemma load_segs_kernel:
  assumes "image_ok l m" "b_gdtr c = (0x7ff, 0x9000)"
  shows "load_segs m KERNEL_DATA_SEG c = Some (c\<lparr>b_segs := KERNEL_DATA_SEG\<rparr>)"
  using gdt_boot_nth(4) image_descriptors [OF assms]
  by (simp add: load_segs_def flat_is_def KERNEL_DATA_SEG_def selector_rpl_def ring_of_def)

definition real_mode_done :: "labels \<Rightarrow> boot_cpu \<Rightarrow> boot_cpu" where
  "real_mode_done l c =
     c\<lparr>b_segs := 0, b_esp := 0x7c00, b_gdtr := (0x7ff, 0x9000), b_idtr := (0x7ff, 0xb000),
       b_cr0 := lmsw 1 (b_cr0 c), b_cs := KERNEL_CODE_SEG, b_eip := ucast (start_32 l)\<rparr>"

lemma boot_start_runs:
  assumes "disk_serves b k img" "serves b fin 0 es" "length es \<le> 1300" "image_ok l (write_bytes m 0x7e00 img)"
  shows "boot_start b l c m = Some (real_mode_done l c, boot_memory img fin es m)"
  using read_after_512_from [OF assms(1), of 0 m] detect_mem_serves [OF assms(2,3)]
    image_table_regs [OF boot_memory_image [OF assms(4,3), of fin]]
    far_jmp_kernel [OF boot_memory_image [OF assms(4,3), of fin]]
  by (simp add: boot_start_def boot_memory_def [symmetric] Let_def real_mode_done_def)

definition protected_done :: "boot_cpu \<Rightarrow> boot_cpu" where
  "protected_done c =
     c\<lparr>b_segs := KERNEL_DATA_SEG, b_esp := 0x7c00, b_cr3 := page_dir_addr, b_cr4 := b_cr4 c OR push_bit 4 1,
       b_cr0 := b_cr0 c OR push_bit 31 1, b_cs := KERNEL_CODE_SEG, b_eip := KERNEL_START_ADDR\<rparr>"

text \<open>The 500 sectors, as the words that the disk hands over from now on.\<close>

definition kernel_file :: "ports \<Rightarrow> u8 list" where
  "kernel_file s = concat (map le16 (map (p_dev s 0x1F0) [p_count s 0x1F0..<p_count s 0x1F0 + 128000]))"

lemma length_kernel_file: "length (kernel_file s) = 256000"
  unfolding kernel_file_def map_map length_le16s by simp

lemma kernel_file_below: "unat a < 0x100000 \<Longrightarrow> write_bytes m 0x100000 (kernel_file s) a = m a"
  by (rule write_bytes_outside) (simp_all add: length_kernel_file span_nowrap)

lemma boot_start_32_runs:
  assumes "image_ok l m" "b_gdtr c = (0x7ff, 0x9000)" "keeps_ready (p_dev s) 0x1F7 disk_ready"
  shows "\<exists>s'. boot_start_32 s c m = Some (s', protected_done c, write_bytes m 0x100000 (kernel_file s))"
proof -
  obtain s' where s': "os_init s m = Some (s', write_bytes m 0x100000 (kernel_file s))"
    using os_init_reads [OF assms(3), of m] unfolding kernel_file_def by blast
  have "image_ok l (write_bytes m 0x100000 (kernel_file s))"
    by (rule image_ok_cong [OF assms(1)]) (simp add: kernel_file_below)
  from far_jmp_kernel [OF this] show ?thesis
    using s' load_segs_kernel [OF assms(1,2)] assms(2)
    by (simp add: boot_start_32_def Let_def protected_done_def)
qed

text \<open>The translation in force once paging is on: as long as the image is in place, the first 4 MB are
  mapped to themselves and nothing else is mapped.\<close>

lemma linear_identity:
  assumes "image_ok l m" "b_cr3 c = page_dir_addr" "bit (b_cr0 c) 31" "bit (b_cr4 c) 4"
  shows "linear c m wr a = (if a < 0x400000 then Some a else None)"
proof -
  have "aligned page_dir_addr 4096" "\<forall>i<1024. load_elem m page_dir_addr i = page_dir ! i"
    using assms(1) by (simp_all add: image_ok_def page_dir_addr_def aligned_def)
  from host_walk [OF this] show ?thesis using assms(2-) by (simp add: linear_def)
qed

lemma start_runs:
  assumes "disk_serves b k img" "serves b fin 0 es" "length es \<le> 1300" "image_ok l (write_bytes m 0x7e00 img)"
    "keeps_ready (p_dev s) 0x1F7 disk_ready"
  shows "\<exists>s'. start b l s c m =
    Some (s', protected_done (real_mode_done l c), write_bytes (boot_memory img fin es m) 0x100000 (kernel_file s))"
proof -
  have "b_gdtr (real_mode_done l c) = (0x7ff, 0x9000)" by (simp add: real_mode_done_def)
  from boot_start_32_runs [OF boot_memory_image [OF assms(4,3)] this assms(5)]
  show ?thesis by (simp add: start_def boot_start_runs [OF assms(1-4)])
qed

text \<open>C11. The way to the kernel: with a disk service that succeeds after any number of failures, a memory map
  of up to 1300 regions and a disk that gets ready again and again, the loader
  jumps to 0x100000, where the 500 sectors of the kernel stand over the memory that the boot sector left. The
  processor then runs in protected mode with paging, on flat ring-0 segments of the loader's descriptor table, and
  the first 4 MB, and no other address, are mapped, to themselves, in every memory that agrees below 0x100000 with
  the one that is reached, so that the sectors were stored where \<open>os_init\<close> says.\<close>

theorem start_reaches_kernel:
  assumes "disk_serves b k img" "serves b fin 0 es" "length es \<le> 1300" "image_ok l (write_bytes m 0x7e00 img)"
    "keeps_ready (p_dev s) 0x1F7 disk_ready"
  shows "\<exists>s' c'. start b l s c m =
        Some (s', c', write_bytes (boot_memory img fin es m) 0x100000 (kernel_file s))
    \<and> b_eip c' = 0x100000 \<and> b_cs c' = KERNEL_CODE_SEG \<and> b_segs c' = KERNEL_DATA_SEG \<and> b_esp c' = 0x7c00
    \<and> bit (b_cr0 c') 0 \<and> bit (b_cr0 c') 31
    \<and> (\<forall>m'. (\<forall>a. unat a < 0x100000 \<longrightarrow> m' a = boot_memory img fin es m a) \<longrightarrow>
          flat_is (descriptor_at m' c' (b_cs c')) 0xA Ring0 \<and> flat_is (descriptor_at m' c' (b_segs c')) 0x2 Ring0
          \<and> (\<forall>wr a. linear c' m' wr a = (if a < 0x400000 then Some a else None)))"
proof -
  define c' where "c' = protected_done (real_mode_done l c)"
  have c': "b_eip c' = 0x100000" "b_cs c' = KERNEL_CODE_SEG" "b_segs c' = KERNEL_DATA_SEG" "b_esp c' = 0x7c00"
    "bit (b_cr0 c') 0" "bit (b_cr0 c') 31" "bit (b_cr4 c') 4" "b_cr3 c' = page_dir_addr" "b_gdtr c' = (0x7ff, 0x9000)"
    by (simp_all add: c'_def protected_done_def real_mode_done_def lmsw_def KERNEL_START_ADDR_def bit_simps)
  have "flat_is (descriptor_at m' c' (b_cs c')) 0xA Ring0 \<and> flat_is (descriptor_at m' c' (b_segs c')) 0x2 Ring0
      \<and> (\<forall>wr a. linear c' m' wr a = (if a < 0x400000 then Some a else None))"
    if "\<forall>a. unat a < 0x100000 \<longrightarrow> m' a = boot_memory img fin es m a" for m'
  proof -
    have "image_ok l m'"
      by (rule image_ok_cong [OF boot_memory_image [OF assms(4,3)]]) (use that in simp)
    then show ?thesis
      using c' linear_identity [of l m' c'] image_descriptors(1,2) [of l m' c'] gdt_boot_nth(3,4) by simp
  qed
  then show ?thesis using start_runs [OF assms, of c] c' unfolding c'_def [symmetric] by blast
qed

text \<open>An image for the tables, with the pseudo-descriptors at 0x7E40 and 0x7E46.\<close>

definition labels0 :: labels where
  "labels0 = \<lparr>gdt_desc = 0x7e40, idt_desc = 0x7e46, start_32 = 0x7e4c\<rparr>"

definition image_memory0 :: memory where
  "image_memory0 a =
     (let n = unat a
      in if 0x9000 \<le> n \<and> n < 0x9800 then gdt_bytes (gdt_boot ! ((n - 0x9000) div 8)) ! ((n - 0x9000) mod 8)
         else if 0xa000 \<le> n \<and> n < 0xb000 then le32 (page_dir ! ((n - 0xa000) div 4)) ! ((n - 0xa000) mod 4)
         else if 0x7e40 \<le> n \<and> n < 0x7e4c then [0xff, 7, 0, 0x90, 0, 0, 0xff, 7, 0, 0xb0, 0, 0] ! (n - 0x7e40)
         else 0)"

definition image0 :: "u8 list" where
  "image0 = read_bytes image_memory0 0x7e00 32768"

lemma write_read_bytes:
  assumes "n \<le> 2 ^ 32" "a \<in> span p n"
  shows "write_bytes m p (read_bytes m' p n) a = m' a"
  using assms by (simp add: write_bytes_apply span_iff)

lemma image_ok0: "image_ok labels0 (write_bytes m 0x7e00 image0)"
proof (rule image_ok_cong)
  show "write_bytes m 0x7e00 image0 a = image_memory0 a" if "0x7e00 \<le> unat a" "unat a < 0xfe00" for a
    unfolding image0_def using that by (intro write_read_bytes) (simp_all add: span_nowrap)
  have g: "read_bytes image_memory0 (0x9000 + of_nat (8 * i)) 8 = gdt_bytes (gdt_boot ! i)" if "i < 256" for i
  proof (rule nth_equalityI)
    fix j assume "j < length (read_bytes image_memory0 (0x9000 + of_nat (8 * i)) 8)"
    then have j: "j < 8" by simp
    then have u: "unat ((0x9000 :: u32) + of_nat (8 * i + j)) = 0x9000 + (8 * i + j)"
      using offset_add [of "0x9000" "8 * i + j"] that by simp
    have "image_memory0 (0x9000 + of_nat (8 * i + j)) = gdt_bytes (gdt_boot ! i) ! j"
      unfolding image_memory0_def Let_def u using that j by simp
    then show "read_bytes image_memory0 (0x9000 + of_nat (8 * i)) 8 ! j = gdt_bytes (gdt_boot ! i) ! j"
      using j by (simp add: add.assoc)
  qed (simp add: gdt_bytes_def)
  have p: "load_elem image_memory0 page_dir_addr i = page_dir ! i" if "i < 1024" for i
  proof -
    have u: "unat ((0xa000 :: u32) + of_nat (4 * i + j)) = 0xa000 + (4 * i + j)" if "j < 4" for j
      using offset_add [of "0xa000" "4 * i + j"] that \<open>i < 1024\<close> by simp
    have b: "image_memory0 (0xa000 + of_nat (4 * i + j)) = le32 (page_dir ! i) ! j" if "j < 4" for j
      unfolding image_memory0_def Let_def u [OF that] using that \<open>i < 1024\<close> by simp
    show ?thesis
      unfolding load_elem_def page_dir_addr_def using b [of 0] b [of 1] b [of 2] b [of 3]
      by (intro load32_le32) (simp_all add: le32_def add.commute add.left_commute)
  qed
  have d: "load16 image_memory0 0x7e40 = 0x7ff" "load16 image_memory0 0x7e46 = 0x7ff"
    "load32 image_memory0 0x7e42 = 0x9000" "load32 image_memory0 0x7e48 = 0xb000"
    by (simp_all add: load16_def load32_def image_memory0_def)
  then show "image_ok labels0 image_memory0" using g p by (simp add: image_ok_def labels0_def)
qed

lemma disk_serves0: "disk_serves (list_bios fin es image0) 2 image0"
  by (auto simp: disk_serves_def list_bios_def image0_def)

theorem start_reaches_kernel_witness:
  "\<exists>s' c' m'. start (list_bios True regions0 image0) labels0 \<lparr>p_dev = (\<lambda>_ _. 0x0008), p_count = (\<lambda>_. 0), p_out = []\<rparr>
       \<lparr>b_cs = 0, b_eip = 0x7c00, b_segs = 0, b_esp = 0, b_gdtr = (0, 0), b_idtr = (0, 0), b_cr0 = 0x10, b_cr3 = 0,
         b_cr4 = 0\<rparr> (\<lambda>_. 0) = Some (s', c', m')
     \<and> b_eip c' = 0x100000 \<and> b_cs c' = KERNEL_CODE_SEG \<and> bit (b_cr0 c') 31"
proof -
  have "length regions0 \<le> 1300" by (simp add: regions0_def)
  moreover have "keeps_ready (p_dev \<lparr>p_dev = (\<lambda>_ _. 0x0008), p_count = (\<lambda>_. 0), p_out = []\<rparr>) 0x1F7 disk_ready"
    by (auto simp: keeps_ready_def ready_at_def disk_ready_def)
  ultimately show ?thesis
    using start_reaches_kernel [OF disk_serves0 serves_regions0 _ image_ok0] by blast
qed

end
