(* ===== verification/C_Layout.thy ===== *)
theory C_Layout
  imports Start Vmx_Run
begin

text \<open>
  Where the members of the structures stand. The other theories read structures as the compiler lays them
  out, by offsets; here the structures of the headers are lists of members, the offsets are computed by the
  rules of the i386 ABI (or \<open>pack(1)\<close>), and the accesses by offset, in C and in assembly, are shown to be to
  the members they mean.
\<close>

unbundle bit_operations_syntax

section \<open>Structures\<close>

text \<open>A member: name, alignment and size of an element, number of elements (1 if it is no array).\<close>

type_synonym member = "string \<times> nat \<times> nat \<times> nat"

definition round_up :: "nat \<Rightarrow> nat \<Rightarrow> nat" where
  "round_up n a = (n + a - 1) div a * a"

text \<open>\<open>cap\<close> is the greatest alignment: 1 under \<open>#pragma pack(1)\<close> (\<open>packed\<close>), 4 in the i386 ABI
  (\<open>i386_abi\<close>), where \<open>long long\<close> is aligned to 4.\<close>

primrec offsets :: "nat \<Rightarrow> nat \<Rightarrow> member list \<Rightarrow> (string \<times> nat) list" where
  "offsets cap off [] = []"
| "offsets cap off (f # fs) =
     (case f of (name, al, sz, n) \<Rightarrow>
        (name, round_up off (min cap al)) # offsets cap (round_up off (min cap al) + sz * n) fs)"

primrec struct_end :: "nat \<Rightarrow> nat \<Rightarrow> member list \<Rightarrow> nat" where
  "struct_end cap off [] = off"
| "struct_end cap off (f # fs) =
     (case f of (name, al, sz, n) \<Rightarrow> struct_end cap (round_up off (min cap al) + sz * n) fs)"

definition struct_align :: "nat \<Rightarrow> member list \<Rightarrow> nat" where
  "struct_align cap fs = Max (insert 1 (set (map (\<lambda>(name, al, sz, n). min cap al) fs)))"

primrec member_offset :: "string \<Rightarrow> (string \<times> nat) list \<Rightarrow> nat option" where
  "member_offset name [] = None"
| "member_offset name (x # xs) = (if fst x = name then Some (snd x) else member_offset name xs)"

definition offsetof :: "nat \<Rightarrow> member list \<Rightarrow> string \<Rightarrow> nat" where
  "offsetof cap fs name = the (member_offset name (offsets cap 0 fs))"

definition sizeof :: "nat \<Rightarrow> member list \<Rightarrow> nat" where
  "sizeof cap fs = round_up (struct_end cap 0 fs) (struct_align cap fs)"

lemma round_up_eval [simp]:
  "round_up x (Suc 0) = x" "0 < a \<Longrightarrow> round_up 0 a = 0" "0 < a \<Longrightarrow> round_up (Suc 0) a = a"
  "round_up (numeral n) (numeral k) = (numeral n + numeral k - 1) div numeral k * numeral k"
  by (simp_all add: round_up_def)

definition packed :: nat where "packed = 1"
definition i386_abi :: nat where "i386_abi = 4"

abbreviation (input) byte :: "string \<Rightarrow> member" where "byte n \<equiv> (n, 1, 1, 1)"
abbreviation (input) half :: "string \<Rightarrow> member" where "half n \<equiv> (n, 2, 2, 1)"
abbreviation (input) word :: "string \<Rightarrow> member" where "word n \<equiv> (n, 4, 4, 1)"
abbreviation (input) dword :: "string \<Rightarrow> member" where "dword n \<equiv> (n, 8, 8, 1)"

section \<open>The ELF file\<close>

definition EI_NIDENT :: nat where "EI_NIDENT = 16"

definition Elf32_Ehdr :: "member list" where
  "Elf32_Ehdr =
     [(''e_ident'', 1, 1, EI_NIDENT), half ''e_type'', half ''e_machine'', word ''e_version'', word ''e_entry'',
      word ''e_phoff'', word ''e_shoff'', word ''e_flags'', half ''e_ehsize'', half ''e_phentsize'', half ''e_phnum'',
      half ''e_shentsize'', half ''e_shnum'', half ''e_shstrndx'']"

definition Elf32_Phdr :: "member list" where
  "Elf32_Phdr =
     [word ''p_type'', word ''p_offset'', word ''p_vaddr'', word ''p_paddr'', word ''p_filesz'', word ''p_memsz'',
      word ''p_flags'', word ''p_align'']"

lemma Ehdr_offsets:
  "offsets packed 0 Elf32_Ehdr =
     [(''e_ident'', 0), (''e_type'', 16), (''e_machine'', 18), (''e_version'', 20), (''e_entry'', 24),
      (''e_phoff'', 28), (''e_shoff'', 32), (''e_flags'', 36), (''e_ehsize'', 40), (''e_phentsize'', 42),
      (''e_phnum'', 44), (''e_shentsize'', 46), (''e_shnum'', 48), (''e_shstrndx'', 50)]"
  by (simp add: Elf32_Ehdr_def EI_NIDENT_def packed_def)

lemma Phdr_offsets:
  "offsets packed 0 Elf32_Phdr =
     [(''p_type'', 0), (''p_offset'', 4), (''p_vaddr'', 8), (''p_paddr'', 12), (''p_filesz'', 16),
      (''p_memsz'', 20), (''p_flags'', 24), (''p_align'', 28)]"
  by (simp add: Elf32_Phdr_def packed_def)

lemma elf_sizes: "sizeof packed Elf32_Ehdr = 52" "sizeof packed Elf32_Phdr = 32"
  by (simp_all add: sizeof_def struct_align_def packed_def Elf32_Ehdr_def EI_NIDENT_def Elf32_Phdr_def)

lemma elf_header_members:
  "e_entry m hdr = load32 m (hdr + of_nat (offsetof packed Elf32_Ehdr ''e_entry''))"
  "e_phoff m hdr = load32 m (hdr + of_nat (offsetof packed Elf32_Ehdr ''e_phoff''))"
  "e_phnum m hdr = load16 m (hdr + of_nat (offsetof packed Elf32_Ehdr ''e_phnum''))"
  "sizeof packed Elf32_Ehdr = 52"
  by (simp_all add: offsetof_def Ehdr_offsets elf_sizes e_entry_def e_phoff_def e_phnum_def)

lemma program_header_members:
  "p_type m ph = load32 m (ph + of_nat (offsetof packed Elf32_Phdr ''p_type''))"
  "p_offset m ph = load32 m (ph + of_nat (offsetof packed Elf32_Phdr ''p_offset''))"
  "p_paddr m ph = load32 m (ph + of_nat (offsetof packed Elf32_Phdr ''p_paddr''))"
  "p_filesz m ph = load32 m (ph + of_nat (offsetof packed Elf32_Phdr ''p_filesz''))"
  "p_memsz m ph = load32 m (ph + of_nat (offsetof packed Elf32_Phdr ''p_memsz''))"
  by (simp_all add: offsetof_def Phdr_offsets p_type_def p_offset_def p_paddr_def p_filesz_def p_memsz_def)

text \<open>The loop of \<open>reload_elf_file\<close> goes from one program header to the next.\<close>

lemma elf_ph_array: "elf_ph m buf i = buf + e_phoff m buf + of_nat (sizeof packed Elf32_Phdr * i)"
  by (simp add: elf_ph_def elf_sizes)

section \<open>The memory map\<close>

definition e820_region :: "member list" where
  "e820_region = [dword ''addr'', dword ''size'', word ''type'']"

definition e820map_t :: "member list" where
  "e820map_t = [word ''nr_map'', (''map'', struct_align i386_abi e820_region, sizeof i386_abi e820_region, BOOT_RAM_REGION_MAX)]"

lemma e820_sizes: "struct_align i386_abi e820_region = 4" "sizeof i386_abi e820_region = 20" "sizeof i386_abi e820map_t = 204"
  by (simp_all add: sizeof_def struct_align_def i386_abi_def e820_region_def e820map_t_def BOOT_RAM_REGION_MAX_def)

lemma e820_region_offsets:
  "offsets i386_abi 0 e820_region =
     [(''addr'', 0), (''size'', 8), (''type'', 16)]"
  by (simp add: e820_region_def i386_abi_def)

lemma e820map_offsets:
  "offsets i386_abi 0 e820map_t =
     [(''nr_map'', 0), (''map'', 4)]"
  by (simp add: e820map_t_def e820_sizes [unfolded i386_abi_def] BOOT_RAM_REGION_MAX_def i386_abi_def)

lemma e820map_members:
  "nr_map m p = load32 m (p + of_nat (offsetof i386_abi e820map_t ''nr_map''))"
  "map_entry m p i =
     (let q = p + of_nat (offsetof i386_abi e820map_t ''map'') + of_nat (sizeof i386_abi e820_region * i)
      in \<lparr>ram_addr = load64 m (q + of_nat (offsetof i386_abi e820_region ''addr'')),
          ram_size = load64 m (q + of_nat (offsetof i386_abi e820_region ''size'')),
          ram_type = load32 m (q + of_nat (offsetof i386_abi e820_region ''type''))\<rparr>)"
  "sizeof_e820map = sizeof i386_abi e820map_t"
  by (simp_all add: offsetof_def e820_region_offsets e820map_offsets e820_sizes nr_map_def map_entry_def sizeof_e820map_def BOOT_RAM_REGION_MAX_def Let_def)

section \<open>The task segment\<close>

definition tss_t :: "member list" where
  "tss_t = map (\<lambda>n. word n)
     [''pre_link'', ''esp0'', ''ss0'', ''esp1'', ''ss1'', ''esp2'', ''ss2'', ''cr3'',
      ''eip'', ''eflags'', ''eax'', ''ecx'', ''edx'', ''ebx'', ''esp'', ''ebp'', ''esi'', ''edi'',
      ''es'', ''cs'', ''ss'', ''ds'', ''fs'', ''gs'', ''ldt'', ''iomap'']"

text \<open>The initialiser of a task, member by member: its stack for calls from ring 3 is the kernel's segment and
  the stack for ring 1 that its name gives, the other members are those of a ring-3 task.\<close>

definition tss_member :: "u32 list \<Rightarrow> string \<Rightarrow> u32" where
  "tss_member ws name = ws ! (offsetof i386_abi tss_t name div 4)"

text \<open>Words stand one after the other.\<close>

lemma offsets_words: "offsets 4 (4 * k) (map (\<lambda>n. word n) ns) = zip ns (map ((*) 4) [k..<k + length ns])"
proof (induction ns arbitrary: k)
  case (Cons n ns)
  have "offsets 4 (4 * k) (map (\<lambda>n. word n) (n # ns)) = (n, 4 * k) # offsets 4 (4 * Suc k) (map (\<lambda>n. word n) ns)"
    by (simp add: round_up_def algebra_simps)
  moreover have "[k..<k + length (n # ns)] = k # [Suc k..<Suc k + length ns]" by (simp add: upt_conv_Cons del: upt_Suc)
  ultimately show ?case using Cons.IH [of "Suc k"] by (simp only: list.map zip_Cons_Cons)
qed simp

lemma tss_offsets:
  "offsets i386_abi 0 tss_t =
     [(''pre_link'', 0), (''esp0'', 4), (''ss0'', 8), (''esp1'', 12), (''ss1'', 16), (''esp2'', 20),
      (''ss2'', 24), (''cr3'', 28), (''eip'', 32), (''eflags'', 36), (''eax'', 40), (''ecx'', 44),
      (''edx'', 48), (''ebx'', 52), (''esp'', 56), (''ebp'', 60), (''esi'', 64), (''edi'', 68), (''es'', 72),
      (''cs'', 76), (''ss'', 80), (''ds'', 84), (''fs'', 88), (''gs'', 92), (''ldt'', 96), (''iomap'', 100)]"
  unfolding tss_t_def i386_abi_def offsets_words [of 0, unfolded mult_0_right] by simp

lemma tss_offset:
  "offsetof i386_abi tss_t ''esp0'' = 4" "offsetof i386_abi tss_t ''ss0'' = 8"
  "offsetof i386_abi tss_t ''cr3'' = 28" "offsetof i386_abi tss_t ''eip'' = 32"
  "offsetof i386_abi tss_t ''eflags'' = 36" "offsetof i386_abi tss_t ''esp'' = 56"
  "offsetof i386_abi tss_t ''cs'' = 76" "offsetof i386_abi tss_t ''ss'' = 80"
  "offsetof i386_abi tss_t ''iomap'' = 100"
  by (simp_all add: offsetof_def tss_offsets)

lemma tss_size: "sizeof i386_abi tss_t = 104"
  by (simp add: sizeof_def struct_align_def i386_abi_def tss_t_def)

lemma user_tss_members:
  "4 * length (user_tss k u e) = sizeof i386_abi tss_t"
  "tss_member (user_tss k u e) ''esp0'' = k + 4096" "tss_member (user_tss k u e) ''ss0'' = ucast Descriptors.KERNEL_DATA_SEG"
  "tss_member (user_tss k u e) ''cr3'' = page_dir_addr" "tss_member (user_tss k u e) ''eip'' = e"
  "tss_member (user_tss k u e) ''eflags'' = 0x202" "tss_member (user_tss k u e) ''esp'' = u + 4096"
  "tss_member (user_tss k u e) ''cs'' = ucast APP_CODE_SEG" "tss_member (user_tss k u e) ''ss'' = ucast APP_DATA_SEG"
  "tss_member (user_tss k u e) ''iomap'' = 0"
  by (simp_all add: tss_member_def tss_offset user_tss_def tss_size page_dir_addr_def)

section \<open>The registers of the guest\<close>

definition regs_t :: "member list" where
  "regs_t =
     [word ''eax'', word ''ebx'', word ''ecx'', word ''edx'', word ''ebp'', word ''esi'', word ''edi'', word ''eflags'']"

text \<open>The seven \<open>xchg\<close> instructions of \<open>SAVE_GPR_C\<close>, with the displacements that the assembly writes
  down, on the registers and the memory that holds the variable \<open>regs\<close>.\<close>

datatype reg32 = EAX | EBX | ECX | EDX | EBP | ESI | EDI

primrec reg_get :: "reg32 \<Rightarrow> gpr \<Rightarrow> u32" where
  "reg_get EAX g = eax g" | "reg_get EBX g = ebx g" | "reg_get ECX g = ecx g" | "reg_get EDX g = edx g"
| "reg_get EBP g = ebp g" | "reg_get ESI g = esi g" | "reg_get EDI g = edi g"

primrec reg_put :: "reg32 \<Rightarrow> u32 \<Rightarrow> gpr \<Rightarrow> gpr" where
  "reg_put EAX w g = g\<lparr>eax := w\<rparr>" | "reg_put EBX w g = g\<lparr>ebx := w\<rparr>" | "reg_put ECX w g = g\<lparr>ecx := w\<rparr>"
| "reg_put EDX w g = g\<lparr>edx := w\<rparr>" | "reg_put EBP w g = g\<lparr>ebp := w\<rparr>" | "reg_put ESI w g = g\<lparr>esi := w\<rparr>"
| "reg_put EDI w g = g\<lparr>edi := w\<rparr>"

definition SAVE_GPR_C :: "(reg32 \<times> u32) list" where
  "SAVE_GPR_C = [(EAX, 0x00), (EBX, 0x04), (ECX, 0x08), (EDX, 0x0c), (EBP, 0x10), (ESI, 0x14), (EDI, 0x18)]"

fun xchg :: "u32 \<Rightarrow> reg32 \<times> u32 \<Rightarrow> gpr \<times> memory \<Rightarrow> gpr \<times> memory" where
  "xchg p (r, disp) (g, m) = (reg_put r (load32 m (p + disp)) g, store32 m (p + disp) (reg_get r g))"

text \<open>The variable, by the members of the structure.\<close>

definition regs_at :: "memory \<Rightarrow> u32 \<Rightarrow> gpr" where
  "regs_at m p =
     (let w = (\<lambda>n. load32 m (p + of_nat (offsetof i386_abi regs_t n)))
      in \<lparr>eax = w ''eax'', ebx = w ''ebx'', ecx = w ''ecx'', edx = w ''edx'', ebp = w ''ebp'', esi = w ''esi'', edi = w ''edi''\<rparr>)"

lemma regs_offsets:
  "offsets i386_abi 0 regs_t = [(''eax'', 0), (''ebx'', 4), (''ecx'', 8), (''edx'', 12), (''ebp'', 16), (''esi'', 20),
     (''edi'', 24), (''eflags'', 28)]"
  by (simp add: regs_t_def i386_abi_def)

lemma regs_at_words:
  "regs_at m p = \<lparr>eax = load32 m (p + 0), ebx = load32 m (p + 4), ecx = load32 m (p + 8), edx = load32 m (p + 12),
     ebp = load32 m (p + 16), esi = load32 m (p + 20), edi = load32 m (p + 24)\<rparr>"
  by (simp add: regs_at_def offsetof_def regs_offsets Let_def)

lemma load32_store32_disp:
  assumes "unat p + 28 \<le> 2 ^ 32" "a \<in> {0, 4, 8, 12, 16, 20, 24}" "b \<in> {0, 4, 8, 12, 16, 20, 24}"
  shows "load32 (store32 m (p + a) w) (p + b) = (if a = b then w else load32 m (p + b))"
proof -
  have u: "unat (p + c) = unat p + unat c" if "c \<in> {0, 4, 8, 12, 16, 20, 24}" for c :: u32
    using offset_add [of p "unat c"] assms(1) that by auto
  have ab: "unat a \<le> 24" "unat b \<le> 24" "a = b \<or> unat a + 4 \<le> unat b \<or> unat b + 4 \<le> unat a"
    using assms(2,3) by auto
  show ?thesis
  proof (cases "a = b")
    case False
    have "span (p + b) 4 \<inter> span (p + a) 4 = {}"
      using ab False assms(1) u [OF assms(2)] u [OF assms(3)] by (intro span_disjoint) auto
    with False show ?thesis by (simp add: load32_store32_other)
  qed (simp add: load32_store32)
qed

lemma save_gpr_exchanges_regs:
  assumes "unat p + 28 \<le> 2 ^ 32"
  shows "fst (fold (xchg p) SAVE_GPR_C (g, m)) = regs_at m p"
    "regs_at (snd (fold (xchg p) SAVE_GPR_C (g, m))) p = g"
  unfolding regs_at_words SAVE_GPR_C_def fold_Cons fold_Nil comp_def id_apply xchg.simps reg_get.simps reg_put.simps fst_conv snd_conv
  by (simp_all only: load32_store32_disp [OF assms] insert_iff empty_iff simp_thms) simp_all

text \<open>So the exchange of the two records that the model of \<open>vmx_enter_guest\<close> uses is what the instructions do.\<close>

lemma xchg_gprs_is_save_gpr:
  assumes "unat p + 28 \<le> 2 ^ 32" "regs_at m p = regs s"
  shows "gprs (xchg_gprs s) = fst (fold (xchg p) SAVE_GPR_C (gprs s, m))"
    "regs (xchg_gprs s) = regs_at (snd (fold (xchg p) SAVE_GPR_C (gprs s, m))) p"
  using save_gpr_exchanges_regs [OF assms(1), of "gprs s" m] assms(2) by (simp_all add: xchg_gprs_def)

end
