(* ===== verification/Kernel_Start.thy ===== *)
theory Kernel_Start
  imports Start Vmx_Enable
begin

text \<open>
  The entry of the kernel, \<open>_start\<close> of \<open>src/kernel/init_as.S\<close>, to which the loader jumps: \<open>init\<close>, the
  task register, \<open>virt_enable\<close>, and a jump to itself. The jump to \<open>to_task_0\<close> behind it is never reached,
  so the two tasks do not run unless the spin is removed.
\<close>

unbundle bit_operations_syntax

section \<open>The entry\<close>

text \<open>\<open>ltr\<close> takes an available task segment and marks it busy; \<open>None\<close> is a fault.\<close>

definition ltr :: "u16 \<Rightarrow> tables \<Rightarrow> tables option" where
  "ltr sel t =
     (let i = selector_index sel; d = gdt_table t ! i
      in if 0 < i \<and> i < length (gdt_table t) \<and> seg_is_system d \<and> seg_type d = 9 \<and> seg_present d
         then Some (t\<lparr>gdt_table := (gdt_table t)[i := d\<lparr>access := access d OR 2\<rparr>]\<rparr>) else None)"

datatype kernel_end =
    Init_fault fault
  | Ltr_fault
  | Spinning ports tables phys_state vm_state

definition kernel_start ::
    "addresses \<Rightarrow> hw \<Rightarrow> layout \<Rightarrow> entry_outcome list \<Rightarrow> ports \<Rightarrow> tables \<Rightarrow> phys_state \<Rightarrow> vm_state \<Rightarrow> kernel_end option" where
  "kernel_start a h l ocs p t s vm =
     (case init a p t s of
        None \<Rightarrow> None
      | Some (Inl f) \<Rightarrow> Some (Init_fault f)
      | Some (Inr (p1, t1, s1)) \<Rightarrow>
         (case ltr KERNEL_TSS t1 of
            None \<Rightarrow> Some Ltr_fault
          | Some t2 \<Rightarrow> map_option (Spinning p1 t2 s1) (virt_enable h l ocs vm)))"

lemma ltr_tss:
  assumes "tss_is (gdt_table t ! 16) base lim r" "16 < length (gdt_table t)"
  shows "\<exists>t'. ltr KERNEL_TSS t = Some t' \<and> seg_type (gdt_table t' ! 16) = 11 \<and> seg_base (gdt_table t' ! 16) = base
    \<and> seg_limit (gdt_table t' ! 16) = lim \<and> idt_table t' = idt_table t \<and> (\<forall>i. i \<noteq> 16 \<longrightarrow> gdt_table t' ! i = gdt_table t ! i)"
proof -
  let ?d = "gdt_table t ! 16"
  have "selector_index KERNEL_TSS = 16" by (simp add: selector_index_def KERNEL_TSS_def drop_bit_eq_div unat_div)
  moreover have "seg_type (?d\<lparr>access := access ?d OR 2\<rparr>) = 11"
  proof -
    have "access ?d AND 0xF = 9" using assms(1) by (simp add: tss_is_def seg_type_def)
    then have "(access ?d OR 2) AND 0xF = 9 OR (2 AND 0xF)" by (simp only: bit.conj_disj_distrib2)
    then show ?thesis by (simp add: seg_type_def)
  qed
  moreover have "seg_base (?d\<lparr>access := x\<rparr>) = seg_base ?d" "seg_limit (?d\<lparr>access := x\<rparr>) = seg_limit ?d" for x
    by (simp_all add: seg_base_def seg_limit_def)
  ultimately show ?thesis using assms by (simp add: ltr_def Let_def tss_is_def)
qed

text \<open>C23. The kernel on the loader's tables, whatever the processor's VMX instructions and the guest do:
  neither \<open>init\<close> nor \<open>ltr\<close> faults, and the entry reaches its spin, with the kernel's task segment
  loaded and busy, the other descriptors and the gates as \<open>init\<close> left them, the early allocator ready and the
  message of \<open>virt_enable\<close> as the last one, unless VMX is in operation and the run of the guest goes on.\<close>

theorem kernel_start_spins:
  assumes "aligned (guest_page_dir l) 4096" "aligned (guest_page_table l) 4096" "guest_page_dir l \<noteq> guest_page_table l"
  shows "\<exists>p1 t1 s1 t2. init a p tables_boot phys_state0 = Some (Inr (p1, t1, s1)) \<and> phys_inv 0x300000 0x7FE0000 s1
    \<and> seg_type (gdt_table t2 ! 16) = 11 \<and> seg_base (gdt_table t2 ! 16) = a_kernel_tss a
    \<and> idt_table t2 = idt_table t1 \<and> (\<forall>i. i \<noteq> 16 \<longrightarrow> gdt_table t2 ! i = gdt_table t1 ! i)
    \<and> (case kernel_start a h l ocs p tables_boot phys_state0 vm of
         None \<Rightarrow> vmx_supported h vm \<and> hw_vmxon h = VMsucceed
       | Some e \<Rightarrow> \<exists>vm'. e = Spinning p1 t2 s1 vm' \<and> last (vm_out vm') = last_message h vm)"
proof -
  obtain p1 t1 s1 where init: "init a p tables_boot phys_state0 = Some (Inr (p1, t1, s1))"
    and inv: "phys_inv 0x300000 0x7FE0000 s1" and tss: "tss_is (gdt_table t1 ! 16) (a_kernel_tss a) 0xFFFF Ring0"
    using init_tables [of a p] by blast
  have "length (gdt_table t1) = 256" using init_lengths(1) [OF init] by (simp add: tables_boot_def gdt_boot_nth(1))
  then obtain t2 where t2: "ltr KERNEL_TSS t1 = Some t2" "seg_type (gdt_table t2 ! 16) = 11"
    "seg_base (gdt_table t2 ! 16) = a_kernel_tss a" "idt_table t2 = idt_table t1"
    "\<And>i. i \<noteq> 16 \<Longrightarrow> gdt_table t2 ! i = gdt_table t1 ! i"
    using ltr_tss [OF tss] by auto
  have v: "case virt_enable h l ocs vm of None \<Rightarrow> vmx_supported h vm \<and> hw_vmxon h = VMsucceed
      | Some t \<Rightarrow> last (vm_out t) = last_message h vm"
    using virt_enable_paths [OF assms, of h vm ocs] by (auto split: option.splits)
  have "kernel_start a h l ocs p tables_boot phys_state0 vm = map_option (Spinning p1 t2 s1) (virt_enable h l ocs vm)"
    by (simp add: kernel_start_def init t2(1))
  with v have "case kernel_start a h l ocs p tables_boot phys_state0 vm of
      None \<Rightarrow> vmx_supported h vm \<and> hw_vmxon h = VMsucceed
    | Some e \<Rightarrow> \<exists>vm'. e = Spinning p1 t2 s1 vm' \<and> last (vm_out vm') = last_message h vm"
    by (simp split: option.splits)
  with init inv t2 show ?thesis by blast
qed

theorem kernel_start_spins_witness:
  "\<exists>p t s vm. kernel_start \<lparr>a_timer_int = 0x101000, a_syscall_handler = 0x102000, a_task0_tss = 0x110000,
       a_task1_tss = 0x111000, a_kernel_tss = 0x112000\<rparr> hw_off layout0 [Failed_load 33 0]
       \<lparr>p_dev = (\<lambda>_ _. 0), p_count = (\<lambda>_. 0), p_out = []\<rparr> tables_boot phys_state0 (vm_state0\<lparr>msr := (\<lambda>_. 1)\<rparr>)
     = Some (Spinning p t s vm) \<and> seg_base (gdt_table t ! 16) = 0x112000
     \<and> last (vm_out vm) = Printf ''vmx is not support\<newline>'' []"
proof -
  let ?vm = "vm_state0\<lparr>msr := (\<lambda>_. 1)\<rparr>"
  have al: "aligned (guest_page_dir layout0) 4096" "aligned (guest_page_table layout0) 4096"
    "guest_page_dir layout0 \<noteq> guest_page_table layout0" by (simp_all add: layout0_def aligned_def)
  have sup: "\<not> vmx_supported hw_off ?vm"
    by (simp add: vmx_supported_def enabled_msr_def)
  show ?thesis
    using kernel_start_spins [OF al, of "\<lparr>a_timer_int = 0x101000, a_syscall_handler = 0x102000, a_task0_tss = 0x110000,
       a_task1_tss = 0x111000, a_kernel_tss = 0x112000\<rparr>" "\<lparr>p_dev = (\<lambda>_ _. 0), p_count = (\<lambda>_. 0), p_out = []\<rparr>" hw_off ?vm
       "[Failed_load 33 0]"] sup
    by (auto simp: last_message_def split: option.splits)
qed

end
