(* ===== verification/Task_Switch.thy ===== *)
theory Task_Switch
  imports Entry_Stubs C_Layout Kernel_Start
begin

text \<open>
  The change of task: \<open>ljmp\<close> of \<open>include/cpu.h\<close> to the segment that \<open>task_sched\<close> of \<open>src/kernel/task.c\<close> has
  chosen, with what the processor does at such a jump. It saves the registers in the structure \<open>tss_t\<close> of
  the old task, at the offsets of \<open>C_Layout\<close>, and takes them from the one of the new task. The bit CR0.TS,
  which the jump sets, has no effect here, as nothing uses the coprocessor; the descriptor table is kept as
  in \<open>Entry_Stubs\<close>.
\<close>

unbundle bit_operations_syntax

section \<open>The processor at a task switch\<close>

record switcher =
  sw_cpu :: cpu
  sw_tr :: u16
  sw_gdt :: "gdt_entry list"
  sw_cr3 :: u32

definition tss_slot :: "u32 \<Rightarrow> string \<Rightarrow> u32" where
  "tss_slot base name = base + of_nat (offsetof i386_abi tss_t name)"

definition word_members :: "cpu \<Rightarrow> (string \<times> u32) list" where
  "word_members x =
     [(''eip'', r_eip x), (''eflags'', r_flags x), (''eax'', r_eax x), (''ecx'', r_ecx x), (''edx'', r_edx x),
      (''ebx'', r_ebx x), (''esp'', r_esp x), (''ebp'', r_ebp x), (''esi'', r_esi x), (''edi'', r_edi x)]"

definition seg_members :: "cpu \<Rightarrow> (string \<times> u16) list" where
  "seg_members x =
     [(''es'', sr_es x), (''cs'', sr_cs x), (''ss'', sr_ss x), (''ds'', sr_ds x), (''fs'', sr_fs x), (''gs'', sr_gs x)]"

definition put_words :: "u32 \<Rightarrow> (string \<times> u32) list \<Rightarrow> memory \<Rightarrow> memory" where
  "put_words base ws m = fold (\<lambda>(n, w) m. store32 m (tss_slot base n) w) ws m"

definition put_segs :: "u32 \<Rightarrow> (string \<times> u16) list \<Rightarrow> memory \<Rightarrow> memory" where
  "put_segs base ws m = fold (\<lambda>(n, w) m. store16 m (tss_slot base n) w) ws m"

definition save_state :: "u32 \<Rightarrow> cpu \<Rightarrow> memory" where
  "save_state base x = put_segs base (seg_members x) (put_words base (word_members x) (r_mem x))"

definition load_state :: "u32 \<Rightarrow> memory \<Rightarrow> cpu" where
  "load_state base m =
     (let w = (\<lambda>n. load32 m (tss_slot base n)); s = (\<lambda>n. load16 m (tss_slot base n))
      in \<lparr>r_eax = w ''eax'', r_ecx = w ''ecx'', r_edx = w ''edx'', r_ebx = w ''ebx'', r_esp = w ''esp'', r_ebp = w ''ebp'',
          r_esi = w ''esi'', r_edi = w ''edi'', r_flags = w ''eflags'', r_eip = w ''eip'', sr_cs = s ''cs'', sr_ss = s ''ss'',
          sr_ds = s ''ds'', sr_es = s ''es'', sr_fs = s ''fs'', sr_gs = s ''gs'', r_mem = m\<rparr>)"

text \<open>The selectors of the new task are loaded with the usual checks.\<close>

definition segs_ok :: "gdt_entry list \<Rightarrow> cpu \<Rightarrow> bool" where
  "segs_ok g x \<longleftrightarrow>
     (let c = g ! selector_index (sr_cs x); s = g ! selector_index (sr_ss x)
      in selector_index (sr_cs x) \<noteq> 0 \<and> selector_index (sr_cs x) < length g \<and> code_seg c \<and> seg_dpl c = cpl x
         \<and> selector_index (sr_ss x) \<noteq> 0 \<and> selector_index (sr_ss x) < length g \<and> seg_present s \<and> \<not> seg_is_system s
         \<and> \<not> bit (seg_type s) 3 \<and> bit (seg_type s) 1 \<and> seg_dpl s = cpl x \<and> selector_rpl (sr_ss x) = cpl x)
     \<and> (\<forall>r. loadable g (cpl x) (get_sr r x))"

text \<open>A jump to the segment \<open>sel\<close>, which must be available; the old one becomes available, the new one
  busy. The saved \<open>eip\<close> is the address of the instruction behind the jump. \<open>None\<close> is a fault.\<close>

definition task_switch :: "u16 \<Rightarrow> switcher \<Rightarrow> switcher option" where
  "task_switch sel s =
     (let x = sw_cpu s; g = sw_gdt s; i = selector_index sel; d = g ! i; k = selector_index (sw_tr s); old = g ! k
      in if i \<noteq> 0 \<and> i < length g \<and> seg_is_system d \<and> seg_type d = 9 \<and> seg_present d \<and> 0x67 \<le> seg_limit d
            \<and> cpl x \<le> seg_dpl d \<and> selector_rpl sel \<le> seg_dpl d
         then (let m = save_state (seg_base old) x;
                   g1 = g[k := old\<lparr>access := unset_bit 1 (access old)\<rparr>];
                   g2 = g1[i := d\<lparr>access := access d OR 2\<rparr>];
                   y = load_state (seg_base d) m
               in if segs_ok g2 y
                  then Some \<lparr>sw_cpu = y, sw_tr = sel, sw_gdt = g2, sw_cr3 = load32 m (tss_slot (seg_base d) ''cr3'')\<rparr>
                  else None)
         else None)"

text \<open>The operand of the far jump is an offset of 0, which a task switch ignores, and the selector.\<close>

definition ljmp :: "u32 \<Rightarrow> switcher \<Rightarrow> switcher option" where
  "ljmp tss s = task_switch (ucast tss) s"

section \<open>What is saved is what is loaded\<close>

definition apart :: "nat \<Rightarrow> nat \<Rightarrow> bool" where
  "apart i j \<longleftrightarrow> i + 4 \<le> j \<or> j + 4 \<le> i"

abbreviation (input) off :: "string \<Rightarrow> nat" where "off n \<equiv> offsetof i386_abi tss_t n"

lemma tss_slot_unat: "unat base + 104 \<le> 2 ^ 32 \<Longrightarrow> off n \<le> 100 \<Longrightarrow> unat (tss_slot base n) = unat base + off n"
  unfolding tss_slot_def by (intro offset_add) simp

lemma tss_slots_apart:
  assumes "unat base + 104 \<le> 2 ^ 32" "apart (off i) (off j)" "off i \<le> 100" "off j \<le> 100"
  shows "span (tss_slot base i) 4 \<inter> span (tss_slot base j) 4 = {}"
  using assms tss_slot_unat [OF assms(1,3)] tss_slot_unat [OF assms(1,4)]
  by (intro span_disjoint) (auto simp: apart_def)

lemma store16_outside: "b \<notin> span a 4 \<Longrightarrow> store16 m a w b = m b"
  by (simp add: store16_def span_4)

lemma load16_cong: "(\<And>b. b \<in> span a 4 \<Longrightarrow> m b = m' b) \<Longrightarrow> load16 m a = load16 m' a"
  by (simp add: load16_def span_4)

lemma put_words_outside:
  "b \<notin> (\<Union>n \<in> fst ` set ws. span (tss_slot base n) 4) \<Longrightarrow> put_words base ws m b = m b"
  by (induction ws arbitrary: m) (auto simp: put_words_def store32_outside)

lemma put_segs_outside:
  "b \<notin> (\<Union>n \<in> fst ` set ws. span (tss_slot base n) 4) \<Longrightarrow> put_segs base ws m b = m b"
  by (induction ws arbitrary: m) (auto simp: put_segs_def store16_outside)

text \<open>Members that are apart, and all of them inside the structure.\<close>

definition members_ok :: "string list \<Rightarrow> bool" where
  "members_ok ns \<longleftrightarrow> sorted_wrt (\<lambda>i j. apart (off i) (off j)) ns \<and> (\<forall>n \<in> set ns. off n \<le> 100)"

lemma load32_put_words:
  assumes "unat base + 104 \<le> 2 ^ 32" "members_ok (map fst ws)" "(n, w) \<in> set ws"
  shows "load32 (put_words base ws m) (tss_slot base n) = w"
  using assms(2,3)
proof (induction ws arbitrary: m)
  case (Cons p ws)
  obtain n' w' where p: "p = (n', w')" by fastforce
  have ok: "members_ok (map fst ws)" using Cons.prems(1) by (simp add: members_ok_def)
  have st: "put_words base (p # ws) m = put_words base ws (store32 m (tss_slot base n') w')"
    by (simp add: put_words_def p)
  show ?case
  proof (cases "(n, w) \<in> set ws")
    case True
    with Cons.IH [OF ok] show ?thesis unfolding st by blast
  next
    case False
    then have n: "n = n'" "w = w'" using Cons.prems(2) p by auto
    have "b \<notin> (\<Union>k \<in> fst ` set ws. span (tss_slot base k) 4)" if "b \<in> span (tss_slot base n) 4" for b
      using that Cons.prems(1) tss_slots_apart [OF assms(1), of n] by (auto simp: members_ok_def p n)
    then have "load32 (put_words base (p # ws) m) (tss_slot base n) = load32 (store32 m (tss_slot base n') w') (tss_slot base n)"
      unfolding st by (intro load32_cong put_words_outside)
    then show ?thesis by (simp add: n load32_store32)
  qed
qed simp

lemma load16_put_segs:
  assumes "unat base + 104 \<le> 2 ^ 32" "members_ok (map fst ws)" "(n, w) \<in> set ws"
  shows "load16 (put_segs base ws m) (tss_slot base n) = w"
  using assms(2,3)
proof (induction ws arbitrary: m)
  case (Cons p ws)
  obtain n' w' where p: "p = (n', w')" by fastforce
  have ok: "members_ok (map fst ws)" using Cons.prems(1) by (simp add: members_ok_def)
  have st: "put_segs base (p # ws) m = put_segs base ws (store16 m (tss_slot base n') w')"
    by (simp add: put_segs_def p)
  show ?case
  proof (cases "(n, w) \<in> set ws")
    case True
    with Cons.IH [OF ok] show ?thesis unfolding st by blast
  next
    case False
    then have n: "n = n'" "w = w'" using Cons.prems(2) p by auto
    have "b \<notin> (\<Union>k \<in> fst ` set ws. span (tss_slot base k) 4)" if "b \<in> span (tss_slot base n) 4" for b
      using that Cons.prems(1) tss_slots_apart [OF assms(1), of n] by (auto simp: members_ok_def p n)
    then have "load16 (put_segs base (p # ws) m) (tss_slot base n) = load16 (store16 m (tss_slot base n') w') (tss_slot base n)"
      unfolding st by (intro load16_cong put_segs_outside)
    then show ?thesis by (simp add: n load16_store16)
  qed
qed simp

lemma tss_offset_rest:
  "offsetof i386_abi tss_t ''eax'' = 40" "offsetof i386_abi tss_t ''ecx'' = 44"
  "offsetof i386_abi tss_t ''edx'' = 48" "offsetof i386_abi tss_t ''ebx'' = 52"
  "offsetof i386_abi tss_t ''ebp'' = 60" "offsetof i386_abi tss_t ''esi'' = 64"
  "offsetof i386_abi tss_t ''edi'' = 68" "offsetof i386_abi tss_t ''es'' = 72"
  "offsetof i386_abi tss_t ''ds'' = 84" "offsetof i386_abi tss_t ''fs'' = 88"
  "offsetof i386_abi tss_t ''gs'' = 92"
  by (simp_all add: offsetof_def tss_offsets)

lemmas tss_members = tss_offset tss_offset_rest

definition word_names :: "string list" where
  "word_names = [''eip'', ''eflags'', ''eax'', ''ecx'', ''edx'', ''ebx'', ''esp'', ''ebp'', ''esi'', ''edi'']"

definition seg_names :: "string list" where
  "seg_names = [''es'', ''cs'', ''ss'', ''ds'', ''fs'', ''gs'']"

lemma members_names: "map fst (word_members x) = word_names" "map fst (seg_members x) = seg_names"
  by (simp_all add: word_members_def seg_members_def word_names_def seg_names_def)

lemma members_sets: "fst ` set (word_members x) = set word_names" "fst ` set (seg_members x) = set seg_names"
  unfolding members_names [of x, symmetric] by simp_all

lemma names_ok: "members_ok word_names" "members_ok seg_names" "members_ok (word_names @ seg_names)"
  by (simp_all add: members_ok_def word_names_def seg_names_def tss_members apart_def)

lemma load_save_state:
  assumes "unat base + 104 \<le> 2 ^ 32"
  shows "load_state base (save_state base x) = x\<lparr>r_mem := save_state base x\<rparr>"
proof -
  let ?m = "put_words base (word_members x) (r_mem x)"
  have w: "load32 (save_state base x) (tss_slot base n) = v" if "(n, v) \<in> set (word_members x)" for n v
  proof -
    have n: "n \<in> set word_names" using image_eqI [OF _ that, of n fst] by (simp add: members_sets)
    have "b \<notin> (\<Union>k \<in> fst ` set (seg_members x). span (tss_slot base k) 4)" if "b \<in> span (tss_slot base n) 4" for b
    proof -
      have "span (tss_slot base n) 4 \<inter> span (tss_slot base k) 4 = {}" if "k \<in> set seg_names" for k
        using names_ok(3) n that by (intro tss_slots_apart [OF assms]) (auto simp: members_ok_def sorted_wrt_append)
      then show ?thesis using that by (auto simp: members_sets)
    qed
    then have "load32 (save_state base x) (tss_slot base n) = load32 ?m (tss_slot base n)"
      unfolding save_state_def by (intro load32_cong put_segs_outside)
    also have "\<dots> = v" using names_ok(1) that by (intro load32_put_words [OF assms]) (simp_all add: members_names)
    finally show ?thesis .
  qed
  have s: "load16 (save_state base x) (tss_slot base n) = v" if "(n, v) \<in> set (seg_members x)" for n v
    using names_ok(2) that unfolding save_state_def by (intro load16_put_segs [OF assms]) (simp_all add: members_names)
  show ?thesis
    by (simp add: load_state_def Let_def w s word_members_def seg_members_def)
qed

text \<open>Saving changes the structure only, and what is loaded depends on it only.\<close>

lemma tss_slot_span: "unat base + 104 \<le> 2 ^ 32 \<Longrightarrow> off n \<le> 100 \<Longrightarrow> span (tss_slot base n) 4 \<subseteq> span base 104"
  unfolding tss_slot_def by (intro span_sub) auto

lemma save_state_outside:
  assumes "unat base + 104 \<le> 2 ^ 32" "b \<notin> span base 104"
  shows "save_state base x b = r_mem x b"
proof -
  have "b \<notin> span (tss_slot base n) 4" if "n \<in> set (word_names @ seg_names)" for n
    using tss_slot_span [OF assms(1), of n] names_ok(3) that assms(2) by (auto simp: members_ok_def)
  then have "b \<notin> (\<Union>n \<in> fst ` set (word_members x). span (tss_slot base n) 4)"
    "b \<notin> (\<Union>n \<in> fst ` set (seg_members x). span (tss_slot base n) 4)"
    by (auto simp: members_sets)
  then show ?thesis by (simp add: save_state_def put_segs_outside put_words_outside)
qed

lemma load_state_cong:
  assumes "unat base + 104 \<le> 2 ^ 32" "\<And>b. b \<in> span base 104 \<Longrightarrow> m' b = m b"
  shows "load_state base m' = (load_state base m)\<lparr>r_mem := m'\<rparr>"
    and "load32 m' (tss_slot base ''cr3'') = load32 m (tss_slot base ''cr3'')"
proof -
  have eq: "m' b = m b" if "off n \<le> 100" "b \<in> span (tss_slot base n) 4" for n b
    using tss_slot_span [OF assms(1) that(1)] that(2) assms(2) by blast
  have "load32 m' (tss_slot base n) = load32 m (tss_slot base n)"
    "load16 m' (tss_slot base n) = load16 m (tss_slot base n)" if "off n \<le> 100" for n
    using eq [OF that] by (auto intro: load32_cong load16_cong)
  then show "load_state base m' = (load_state base m)\<lparr>r_mem := m'\<rparr>"
    "load32 m' (tss_slot base ''cr3'') = load32 m (tss_slot base ''cr3'')"
    by (simp_all add: load_state_def Let_def tss_members)
qed

section \<open>A switch that succeeds\<close>

text \<open>A busy task segment; \<open>tss_is\<close> is an available one.\<close>

definition tss_busy :: "gdt_entry \<Rightarrow> u32 \<Rightarrow> u32 \<Rightarrow> ring \<Rightarrow> bool" where
  "tss_busy d base lim dpl \<longleftrightarrow> seg_base d = base \<and> seg_limit d = lim \<and> seg_type d = 11 \<and> seg_is_system d
     \<and> seg_dpl d = dpl \<and> seg_present d"

lemma seg_access_upd [simp]:
  "seg_base (d\<lparr>access := w\<rparr>) = seg_base d" "seg_limit (d\<lparr>access := w\<rparr>) = seg_limit d"
  by (simp_all add: seg_base_def seg_limit_def)

lemma bit_2: "bit (2 :: u8) n \<longleftrightarrow> n = 1"
  using bit_exp_iff [of 1 n, where 'a = u8] by (auto simp: possible_bit_def)

lemma seg_busy_bit:
  "seg_is_system (d\<lparr>access := access d OR 2\<rparr>) = seg_is_system d" "seg_present (d\<lparr>access := access d OR 2\<rparr>) = seg_present d"
  "seg_dpl (d\<lparr>access := access d OR 2\<rparr>) = seg_dpl d" "seg_type (d\<lparr>access := access d OR 2\<rparr>) = seg_type d OR 2"
  "seg_is_system (d\<lparr>access := unset_bit 1 (access d)\<rparr>) = seg_is_system d"
  "seg_present (d\<lparr>access := unset_bit 1 (access d)\<rparr>) = seg_present d"
  "seg_dpl (d\<lparr>access := unset_bit 1 (access d)\<rparr>) = seg_dpl d" "seg_type (d\<lparr>access := unset_bit 1 (access d)\<rparr>) = unset_bit 1 (seg_type d)"
proof -
  have d: "drop_bit 5 (access d OR 2) = drop_bit 5 (access d)" "drop_bit 5 (unset_bit 1 (access d)) = drop_bit 5 (access d)"
    by (auto intro!: bit_word_eqI simp: bit_simps bit_2)
  have t: "(access d OR 2) AND 15 = access d AND 15 OR 2" "unset_bit 1 (access d) AND 15 = unset_bit 1 (access d AND 15)"
    by (auto intro!: bit_word_eqI simp: bit_simps bit_2)
  show "seg_is_system (d\<lparr>access := access d OR 2\<rparr>) = seg_is_system d" "seg_present (d\<lparr>access := access d OR 2\<rparr>) = seg_present d"
    "seg_is_system (d\<lparr>access := unset_bit 1 (access d)\<rparr>) = seg_is_system d"
    "seg_present (d\<lparr>access := unset_bit 1 (access d)\<rparr>) = seg_present d"
    by (simp_all add: seg_is_system_def seg_present_def bit_simps bit_2)
  show "seg_dpl (d\<lparr>access := access d OR 2\<rparr>) = seg_dpl d" "seg_type (d\<lparr>access := access d OR 2\<rparr>) = seg_type d OR 2"
    "seg_dpl (d\<lparr>access := unset_bit 1 (access d)\<rparr>) = seg_dpl d" "seg_type (d\<lparr>access := unset_bit 1 (access d)\<rparr>) = unset_bit 1 (seg_type d)"
    by (simp_all add: seg_dpl_def seg_type_def d [unfolded One_nat_def] t [unfolded One_nat_def])
qed

lemma tss_busy_of_available: "tss_is d base lim dpl \<Longrightarrow> tss_busy (d\<lparr>access := access d OR 2\<rparr>) base lim dpl"
  by (simp add: tss_is_def tss_busy_def seg_busy_bit [unfolded One_nat_def])

lemma tss_available_of_busy:
  assumes "tss_busy d base lim dpl"
  shows "tss_is (d\<lparr>access := unset_bit 1 (access d)\<rparr>) base lim dpl"
proof -
  have "unset_bit (Suc 0) (11 :: u8) = 9" by (simp add: unset_bit_eq_and_not)
  then show ?thesis using assms by (simp add: tss_is_def tss_busy_def seg_busy_bit [unfolded One_nat_def])
qed

text \<open>Taking the busy bit and giving it back leaves the descriptor as it was, and the other way round.\<close>

lemma busy_bit_back:
  "tss_is d base lim dpl \<Longrightarrow> d\<lparr>access := unset_bit 1 (access d OR 2)\<rparr> = d"
  "tss_busy d base lim dpl \<Longrightarrow> d\<lparr>access := unset_bit 1 (access d) OR 2\<rparr> = d"
proof -
  have t: "bit (access d) 1 \<longleftrightarrow> bit (seg_type d) 1" by (simp add: seg_type_def bit_simps)
  { assume "tss_is d base lim dpl"
    then have "\<not> bit (access d) 1" by (simp add: t [unfolded One_nat_def] tss_is_def)
    then have "unset_bit 1 (access d OR 2) = access d" by (auto intro!: bit_word_eqI simp: bit_simps bit_2)
    then show "d\<lparr>access := unset_bit 1 (access d OR 2)\<rparr> = d" by simp }
  assume "tss_busy d base lim dpl"
  then have "bit (access d) 1" by (simp add: t [unfolded One_nat_def] tss_busy_def)
  then have "unset_bit 1 (access d) OR 2 = access d" by (auto intro!: bit_word_eqI simp: bit_simps bit_2)
  then show "d\<lparr>access := unset_bit 1 (access d) OR 2\<rparr> = d" by simp
qed

lemma segs_ok_in_ring:
  assumes "gdt_flat g" "in_ring r x"
  shows "segs_ok g x"
proof -
  have ix: "selector_index Descriptors.KERNEL_CODE_SEG = 1" "selector_index Descriptors.KERNEL_DATA_SEG = 2" "selector_index APP_CODE_SEG = 3"
    "selector_index APP_DATA_SEG = 4" "selector_rpl Descriptors.KERNEL_CODE_SEG = Ring0" "selector_rpl Descriptors.KERNEL_DATA_SEG = Ring0"
    "selector_rpl APP_CODE_SEG = Ring3" "selector_rpl APP_DATA_SEG = Ring3"
    by (simp_all add: selector_index_def selector_rpl_def ring_of_def Descriptors.KERNEL_CODE_SEG_def Descriptors.KERNEL_DATA_SEG_def
        APP_CODE_SEG_def APP_DATA_SEG_def)
  have g: "5 \<le> length g" "flat_is (g ! 1) 0xA Ring0" "flat_is (g ! 2) 0x2 Ring0" "flat_is (g ! 3) 0xA Ring3" "flat_is (g ! 4) 0x3 Ring3"
    using assms(1) by (simp_all add: gdt_flat_def)
  have r0: "get_sr q x = Descriptors.KERNEL_DATA_SEG \<or> get_sr q x = APP_DATA_SEG" if "r = Ring0" for q
    using assms(2) that by (auto simp: in_ring_def)
  show ?thesis
  proof (cases "r = Ring0")
    case True
    have "loadable g Ring0 (get_sr q x)" for q
      using r0 [OF True, of q] g by (auto simp: loadable_def ix flat_is_def less_eq_ring_def)
    with True assms(2) g show ?thesis
      by (simp add: segs_ok_def in_ring_def cpl_def ix flat_is_def code_seg_def)
  next
    case False
    with assms(2) g show ?thesis
      by (simp add: segs_ok_def in_ring_def cpl_def ix flat_is_def code_seg_def loadable_def less_eq_ring_def split: if_splits)
  qed
qed

text \<open>The tables, with the running task's segment busy and the other's available.\<close>

definition switch_ready :: "nat \<Rightarrow> nat \<Rightarrow> u32 \<Rightarrow> u32 \<Rightarrow> gdt_entry list \<Rightarrow> bool" where
  "switch_ready k i base base' g \<longleftrightarrow> gdt_flat g \<and> 5 \<le> k \<and> k < length g \<and> 5 \<le> i \<and> i < length g \<and> k \<noteq> i
     \<and> (\<exists>lim \<ge> 0x67. tss_busy (g ! k) base lim Ring3) \<and> (\<exists>lim \<ge> 0x67. tss_is (g ! i) base' lim Ring3)"

definition switched :: "nat \<Rightarrow> nat \<Rightarrow> gdt_entry list \<Rightarrow> gdt_entry list" where
  "switched k i g = g[k := (g ! k)\<lparr>access := unset_bit 1 (access (g ! k))\<rparr>, i := (g ! i)\<lparr>access := access (g ! i) OR 2\<rparr>]"

lemma switched_ready: "switch_ready k i base base' g \<Longrightarrow> switch_ready i k base' base (switched k i g)"
  using tss_busy_of_available tss_available_of_busy
  by (fastforce simp: switch_ready_def switched_def gdt_flat_def nth_list_update)

lemma switched_back:
  assumes "switch_ready k i base base' g"
  shows "switched i k (switched k i g) = g"
proof (rule nth_equalityI)
  fix j assume "j < length (switched i k (switched k i g))"
  moreover have "(g ! i)\<lparr>access := unset_bit 1 (access (g ! i) OR 2)\<rparr> = g ! i" "(g ! k)\<lparr>access := unset_bit 1 (access (g ! k)) OR 2\<rparr> = g ! k"
    using assms busy_bit_back by (auto simp: switch_ready_def)
  ultimately show "switched i k (switched k i g) ! j = g ! j"
    using assms by (auto simp: switched_def switch_ready_def nth_list_update)
qed (simp add: switched_def)

lemma task_switch_eq:
  assumes "switch_ready (selector_index (sw_tr s)) (selector_index sel) base base' (sw_gdt s)" "selector_rpl sel = Ring0"
    "in_ring r (load_state base' (save_state base (sw_cpu s)))"
  shows "task_switch sel s =
    (let m = save_state base (sw_cpu s)
     in Some \<lparr>sw_cpu = load_state base' m, sw_tr = sel, sw_gdt = switched (selector_index (sw_tr s)) (selector_index sel) (sw_gdt s),
          sw_cr3 = load32 m (tss_slot base' ''cr3'')\<rparr>)"
proof -
  let ?k = "selector_index (sw_tr s)" and ?i = "selector_index sel"
  have "gdt_flat (switched ?k ?i (sw_gdt s))" using switched_ready [OF assms(1)] by (simp add: switch_ready_def)
  then have "segs_ok (switched ?k ?i (sw_gdt s)) (load_state base' (save_state base (sw_cpu s)))"
    using assms(3) by (rule segs_ok_in_ring)
  moreover have "cpl x \<le> Ring3" "Ring0 \<le> Ring3" for x by (cases "cpl x"; simp add: less_eq_ring_def)+
  ultimately show ?thesis
    using assms(1,2) by (auto simp: task_switch_def switch_ready_def tss_is_def tss_busy_def Let_def switched_def)
qed

section \<open>The two tasks\<close>

text \<open>The contents of a task's array as the loader of the kernel has placed them.\<close>

definition tss_image :: "u32 \<Rightarrow> u32 list \<Rightarrow> memory \<Rightarrow> bool" where
  "tss_image base ws m \<longleftrightarrow> (\<forall>i<26. load32 m (base + of_nat (4 * i)) = ws ! i)"

lemma load16_load32: "load16 m a = ucast (load32 m a)"
  by (rule bit_word_eqI) (auto simp: load16_def load32_def bit_simps)

lemma load_user_tss:
  assumes "tss_image base (user_tss k u e) m"
  shows "load_state base m =
      \<lparr>r_eax = 0xa, r_ecx = 0xc, r_edx = 0xd, r_ebx = 0xb, r_esp = u + 4096, r_ebp = 1, r_esi = 2, r_edi = 3,
       r_flags = 0x202, r_eip = e, sr_cs = APP_CODE_SEG, sr_ss = APP_DATA_SEG, sr_ds = APP_DATA_SEG, sr_es = APP_DATA_SEG,
       sr_fs = APP_DATA_SEG, sr_gs = APP_DATA_SEG, r_mem = m\<rparr>"
    and "load32 m (tss_slot base ''cr3'') = page_dir_addr"
proof -
  have w: "load32 m (base + of_nat (4 * i)) = user_tss k u e ! i" if "i < 26" for i
    using assms that unfolding tss_image_def by blast
  note ws = w [of 7] w [of 8] w [of 9] w [of 10] w [of 11] w [of 12] w [of 13] w [of 14] w [of 15] w [of 16] w [of 17]
    w [of 18] w [of 19] w [of 20] w [of 21] w [of 22] w [of 23]
  have c: "(ucast (ucast (s :: u16) :: u32) :: u16) = s" for s by (rule bit_word_eqI) (simp add: bit_simps)
  show "load_state base m =
      \<lparr>r_eax = 0xa, r_ecx = 0xc, r_edx = 0xd, r_ebx = 0xb, r_esp = u + 4096, r_ebp = 1, r_esi = 2, r_edi = 3,
       r_flags = 0x202, r_eip = e, sr_cs = APP_CODE_SEG, sr_ss = APP_DATA_SEG, sr_ds = APP_DATA_SEG, sr_es = APP_DATA_SEG,
       sr_fs = APP_DATA_SEG, sr_gs = APP_DATA_SEG, r_mem = m\<rparr>"
    "load32 m (tss_slot base ''cr3'') = page_dir_addr"
    using ws by (simp_all add: load_state_def Let_def tss_slot_def tss_members load16_load32 user_tss_def c page_dir_addr_def)
qed

lemma tss_image_cong:
  assumes "unat base + 104 \<le> 2 ^ 32" "tss_image base ws m" "\<And>b. b \<in> span base 104 \<Longrightarrow> m' b = m b"
  shows "tss_image base ws m'"
proof -
  have "load32 m' (base + of_nat (4 * i)) = load32 m (base + of_nat (4 * i))" if "i < 26" for i
    using span_sub [of "4 * i" 4 104 base] that assms(3) by (intro load32_cong) auto
  then show ?thesis using assms(2) by (simp add: tss_image_def)
qed

lemma init_switch_ready:
  assumes "init a p tables_boot phys_state0 = Some (Inr (p', t, s'))" "ltr (ucast TASK_0_TSS) t = Some t0"
  shows "switch_ready 5 6 (a_task0_tss a) (a_task1_tss a) (gdt_table t0)" "task_tss t0 = TASK_0_TSS"
proof -
  have sel: "selector_index (ucast TASK_0_TSS) = 5" by (simp add: selector_index_def TASK_0_TSS_def drop_bit_eq_div unat_div)
  have t0: "gdt_table t0 = (gdt_table t)[5 := (gdt_table t ! 5)\<lparr>access := access (gdt_table t ! 5) OR 2\<rparr>]" "task_tss t0 = task_tss t"
    using assms(2) by (auto simp: ltr_def Let_def sel split: if_splits)
  have "length (gdt_table t) = 256" using init_lengths(1) [OF assms(1)] by (simp add: tables_boot_def gdt_boot_nth(1))
  moreover have "tss_is (gdt_table t ! 5) (a_task0_tss a) 0x86 Ring3" "tss_is (gdt_table t ! 6) (a_task1_tss a) 0x86 Ring3" "gdt_flat (gdt_table t)"
    using init_tables [of a p] assms(1) \<open>length (gdt_table t) = 256\<close> by (auto simp: gdt_flat_def)
  ultimately show "switch_ready 5 6 (a_task0_tss a) (a_task1_tss a) (gdt_table t0)"
    using tss_busy_of_available [of "gdt_table t ! 5" "a_task0_tss a" "0x86" Ring3]
    by (auto simp: switch_ready_def t0 gdt_flat_def intro!: exI [of _ "0x86"])
  have "task_tss t = task_tss tables_boot"
    using assms(1) by (auto simp: init_def irq_init_def set_idt_entry_def idt_update_def task_init_def init_syscall_def Let_def
        split: sum.splits option.splits if_splits)
  then show "task_tss t0 = TASK_0_TSS" by (simp add: t0 tables_boot_def)
qed

text \<open>C10. The two jumps of \<open>task_sched\<close> after \<open>init\<close>, with the task register on the first task: the first one
  starts the second task at its entry, in ring 3 on its own stack with interrupts enabled, and under the page
  directory of the host; and wherever that task is when the second jump is made, unless it has stored into
  the first task's structure, the first task goes on behind its jump with every register, segment and flag as it
  was, the descriptors are as before, and of memory only the second task's structure changes.\<close>

theorem task_switch_roundtrip:
  assumes "init a p tables_boot phys_state0 = Some (Inr (p', t, s'))" "ltr (ucast TASK_0_TSS) t = Some t0"
    "unat (a_task0_tss a) + 104 \<le> 2 ^ 32" "unat (a_task1_tss a) + 104 \<le> 2 ^ 32"
    "span (a_task0_tss a) 104 \<inter> span (a_task1_tss a) 104 = {}"
    "in_ring r x" "tss_image (a_task1_tss a) (user_tss k u e) (r_mem x)"
  shows "\<exists>s1. ljmp (fst (task_sched t0)) \<lparr>sw_cpu = x, sw_tr = ucast TASK_0_TSS, sw_gdt = gdt_table t0, sw_cr3 = c\<rparr> = Some s1
    \<and> in_ring Ring3 (sw_cpu s1) \<and> r_eip (sw_cpu s1) = e \<and> r_esp (sw_cpu s1) = u + 4096 \<and> r_flags (sw_cpu s1) = 0x202
    \<and> sw_cr3 s1 = page_dir_addr
    \<and> (\<forall>y. (\<forall>b \<in> span (a_task0_tss a) 104. r_mem y b = r_mem (sw_cpu s1) b) \<longrightarrow>
        (\<exists>s2. ljmp (fst (task_sched (snd (task_sched t0)))) (s1\<lparr>sw_cpu := y\<rparr>) = Some s2
          \<and> sw_cpu s2 = x\<lparr>r_mem := r_mem (sw_cpu s2)\<rparr> \<and> sw_tr s2 = ucast TASK_0_TSS \<and> sw_gdt s2 = gdt_table t0
          \<and> (\<forall>b. b \<notin> span (a_task1_tss a) 104 \<longrightarrow> r_mem (sw_cpu s2) b = r_mem y b)))"
proof -
  let ?b0 = "a_task0_tss a" and ?b1 = "a_task1_tss a" and ?g = "gdt_table t0"
  let ?s0 = "\<lparr>sw_cpu = x, sw_tr = ucast TASK_0_TSS, sw_gdt = ?g, sw_cr3 = c\<rparr>"
  have ready: "switch_ready 5 6 ?b0 ?b1 ?g" and "task_tss t0 = TASK_0_TSS" using init_switch_ready [OF assms(1,2)] by auto
  then have sched: "fst (task_sched t0) = TASK_1_TSS" "fst (task_sched (snd (task_sched t0))) = TASK_0_TSS"
    by (simp_all add: task_sched_def TASK_0_TSS_def TASK_1_TSS_def)
  have sel: "selector_index (ucast TASK_0_TSS) = 5" "selector_index (ucast TASK_1_TSS) = 6"
    "selector_rpl (ucast TASK_0_TSS) = Ring0" "selector_rpl (ucast TASK_1_TSS) = Ring0"
    by (simp_all add: selector_index_def selector_rpl_def ring_of_def TASK_0_TSS_def TASK_1_TSS_def drop_bit_eq_div unat_div)
  define m where "m = save_state ?b0 x"
  have "tss_image ?b1 (user_tss k u e) m"
    using assms(5) save_state_outside [OF assms(3), of _ x] unfolding m_def by (intro tss_image_cong [OF assms(4,7)]) auto
  note new = load_user_tss [OF this]
  have ring: "in_ring Ring3 (load_state ?b1 m)"
  proof -
    have "get_sr q (load_state ?b1 m) = APP_DATA_SEG" for q by (cases q) (simp_all add: new)
    then show ?thesis by (simp add: in_ring_def new)
  qed
  define s1 where "s1 = \<lparr>sw_cpu = load_state ?b1 m, sw_tr = ucast TASK_1_TSS, sw_gdt = switched 5 6 ?g, sw_cr3 = page_dir_addr\<rparr>"
  have one: "ljmp (fst (task_sched t0)) ?s0 = Some s1"
    using task_switch_eq [of ?s0 "ucast TASK_1_TSS" ?b0 ?b1 Ring3] ready ring new(2)
    by (simp add: sched ljmp_def sel s1_def m_def Let_def)
  have two: "\<exists>s2. ljmp TASK_0_TSS (s1\<lparr>sw_cpu := y\<rparr>) = Some s2 \<and> sw_cpu s2 = x\<lparr>r_mem := r_mem (sw_cpu s2)\<rparr>
      \<and> sw_tr s2 = ucast TASK_0_TSS \<and> sw_gdt s2 = ?g \<and> (\<forall>b. b \<notin> span ?b1 104 \<longrightarrow> r_mem (sw_cpu s2) b = r_mem y b)"
    if y: "\<forall>b \<in> span ?b0 104. r_mem y b = r_mem (sw_cpu s1) b" for y
  proof -
    define m2 where "m2 = save_state ?b1 y"
    have out: "m2 b = r_mem y b" if "b \<notin> span ?b1 104" for b
      using save_state_outside [OF assms(4) that] by (simp add: m2_def)
    have eq: "m2 b = m b" if "b \<in> span ?b0 104" for b
      using that y out [of b] assms(5) by (auto simp: s1_def new)
    have "load_state ?b0 m = x\<lparr>r_mem := m\<rparr>" unfolding m_def by (rule load_save_state [OF assms(3)])
    then have x: "load_state ?b0 m2 = x\<lparr>r_mem := m2\<rparr>"
      using load_state_cong(1) [OF assms(3), of m2 m] eq by simp
    have "in_ring r (x\<lparr>r_mem := m2\<rparr>)"
    proof -
      have "get_sr q (x\<lparr>r_mem := m2\<rparr>) = get_sr q x" for q by (cases q) simp_all
      then show ?thesis using assms(6) by (simp add: in_ring_def cong: if_cong split: if_splits)
    qed
    then have "ljmp TASK_0_TSS (s1\<lparr>sw_cpu := y\<rparr>) = Some
        \<lparr>sw_cpu = x\<lparr>r_mem := m2\<rparr>, sw_tr = ucast TASK_0_TSS, sw_gdt = ?g, sw_cr3 = load32 m2 (tss_slot ?b0 ''cr3'')\<rparr>"
      using task_switch_eq [of "s1\<lparr>sw_cpu := y\<rparr>" "ucast TASK_0_TSS" ?b1 ?b0 r] switched_ready [OF ready] switched_back [OF ready]
      by (simp add: ljmp_def sel s1_def x m2_def [symmetric] Let_def)
    then show ?thesis using out by simp
  qed
  show ?thesis
    unfolding sched(2) by (intro exI [of _ s1] conjI allI impI two one) (use ring in \<open>simp_all add: s1_def new\<close>)
qed

text \<open>The kernel in the handler of the timer, called from a task, with the structure of the other task in memory.\<close>

definition tss_memory0 :: memory where
  "tss_memory0 b =
     (let n = unat (b - 0x103100)
      in if n < 104 then le32 (user_tss 0x220000 0x230000 0x105000 ! (n div 4)) ! (n mod 4) else 0)"

definition handler_cpu0 :: cpu where
  "handler_cpu0 = (task_cpu0 tss_memory0)\<lparr>sr_cs := Descriptors.KERNEL_CODE_SEG, sr_ss := Descriptors.KERNEL_DATA_SEG\<rparr>"

lemma tss_image0: "tss_image 0x103100 (user_tss 0x220000 0x230000 0x105000) tss_memory0"
  unfolding tss_image_def
proof (intro allI impI)
  fix i :: nat assume i: "i < 26"
  have b: "tss_memory0 (0x103100 + of_nat (4 * i + j)) = le32 (user_tss 0x220000 0x230000 0x105000 ! i) ! j" if "j < 4" for j
  proof -
    have "unat (of_nat (4 * i + j) :: u32) = 4 * i + j" using i that by (intro unat_of_nat32) simp
    then have u: "unat ((0x103100 :: u32) + of_nat (4 * i + j) - 0x103100) = 4 * i + j" by (simp only: add_diff_cancel_left')
    have "(4 * i + j) div 4 = i" "(4 * i + j) mod 4 = j" using that by simp_all
    then show ?thesis unfolding tss_memory0_def Let_def u using i that by (simp only:) simp
  qed
  show "load32 tss_memory0 (0x103100 + of_nat (4 * i)) = user_tss 0x220000 0x230000 0x105000 ! i"
    using b [of 0] b [of 1] b [of 2] b [of 3]
    by (intro load32_le32) (simp_all add: le32_def add.commute add.left_commute)
qed

lemma handler_cpu0_ring: "in_ring Ring0 handler_cpu0"
proof -
  have "get_sr q handler_cpu0 = APP_DATA_SEG" for q by (cases q) (simp_all add: handler_cpu0_def task_cpu0_def)
  then show ?thesis by (simp add: in_ring_def handler_cpu0_def)
qed

theorem task_switch_roundtrip_witness:
  "\<exists>p t s t0 s1 s2. init addresses0 (con_ports console0) tables_boot phys_state0 = Some (Inr (p, t, s))
     \<and> ltr (ucast TASK_0_TSS) t = Some t0
     \<and> ljmp TASK_1_TSS \<lparr>sw_cpu = handler_cpu0, sw_tr = ucast TASK_0_TSS, sw_gdt = gdt_table t0, sw_cr3 = 0xa000\<rparr> = Some s1
     \<and> r_eip (sw_cpu s1) = 0x105000
     \<and> ljmp TASK_0_TSS (s1\<lparr>sw_cpu := (sw_cpu s1)\<lparr>r_eax := 7\<rparr>\<rparr>) = Some s2 \<and> r_eax (sw_cpu s2) = 0xa"
proof -
  obtain p t s where i: "init addresses0 (con_ports console0) tables_boot phys_state0 = Some (Inr (p, t, s))"
    and tss: "tss_is (gdt_table t ! 5) (a_task0_tss addresses0) 0x86 Ring3"
    using init_tables [of addresses0 "con_ports console0"] by blast
  have sel: "selector_index (ucast TASK_0_TSS) = 5" by (simp add: selector_index_def TASK_0_TSS_def drop_bit_eq_div unat_div)
  have "length (gdt_table t) = 256" using init_lengths(1) [OF i] by (simp add: tables_boot_def gdt_boot_nth(1))
  then obtain t0 where l: "ltr (ucast TASK_0_TSS) t = Some t0" using tss by (auto simp: ltr_def Let_def sel tss_is_def)
  have a: "a_task0_tss addresses0 = 0x103000" "a_task1_tss addresses0 = 0x103100" by (simp_all add: addresses0_def)
  have "span (0x103000 :: u32) 104 \<inter> span 0x103100 104 = {}" by (rule span_disjoint) simp_all
  moreover have "tss_image 0x103100 (user_tss 0x220000 0x230000 0x105000) (r_mem handler_cpu0)"
    using tss_image0 by (simp add: handler_cpu0_def task_cpu0_def)
  ultimately have r: "\<exists>s1. ljmp (fst (task_sched t0)) \<lparr>sw_cpu = handler_cpu0, sw_tr = ucast TASK_0_TSS, sw_gdt = gdt_table t0, sw_cr3 = 0xa000\<rparr> = Some s1
      \<and> r_eip (sw_cpu s1) = 0x105000
      \<and> (\<forall>y. (\<forall>b \<in> span 0x103000 104. r_mem y b = r_mem (sw_cpu s1) b) \<longrightarrow>
        (\<exists>s2. ljmp (fst (task_sched (snd (task_sched t0)))) (s1\<lparr>sw_cpu := y\<rparr>) = Some s2
          \<and> sw_cpu s2 = handler_cpu0\<lparr>r_mem := r_mem (sw_cpu s2)\<rparr>))"
    using task_switch_roundtrip [OF i l _ _ _ handler_cpu0_ring, unfolded a, where k = "0x220000" and u = "0x230000"
      and e = "0x105000" and c = "0xa000"] by simp blast
  have "task_tss t0 = TASK_0_TSS" by (rule init_switch_ready(2) [OF i l])
  then have sched: "fst (task_sched t0) = TASK_1_TSS" "fst (task_sched (snd (task_sched t0))) = TASK_0_TSS"
    by (simp_all add: task_sched_def TASK_0_TSS_def TASK_1_TSS_def)
  obtain s1 where s1: "ljmp TASK_1_TSS \<lparr>sw_cpu = handler_cpu0, sw_tr = ucast TASK_0_TSS, sw_gdt = gdt_table t0, sw_cr3 = 0xa000\<rparr> = Some s1"
    "r_eip (sw_cpu s1) = 0x105000"
    and again: "\<And>y. \<forall>b \<in> span 0x103000 104. r_mem y b = r_mem (sw_cpu s1) b \<Longrightarrow>
        \<exists>s2. ljmp TASK_0_TSS (s1\<lparr>sw_cpu := y\<rparr>) = Some s2 \<and> sw_cpu s2 = handler_cpu0\<lparr>r_mem := r_mem (sw_cpu s2)\<rparr>"
    using r unfolding sched by auto
  obtain s2 where s2: "ljmp TASK_0_TSS (s1\<lparr>sw_cpu := (sw_cpu s1)\<lparr>r_eax := 7\<rparr>\<rparr>) = Some s2"
    "sw_cpu s2 = handler_cpu0\<lparr>r_mem := r_mem (sw_cpu s2)\<rparr>"
    using again [of "(sw_cpu s1)\<lparr>r_eax := 7\<rparr>"] by auto
  have "r_eax (sw_cpu s2) = r_eax handler_cpu0" by (subst s2(2)) simp
  then have "r_eax (sw_cpu s2) = 0xa" by (simp add: handler_cpu0_def task_cpu0_def)
  with i l s1 s2(1) show ?thesis by blast
qed

end
