(* ===== verification/Msr_Numbers.thy ===== *)
theory Msr_Numbers
  imports Vmx_Setup
begin

text \<open>
  The numbers of the model specific registers and the bits in them, as \<open>include/msr.h\<close> gives them. The kernel
  uses the VMX registers (\<open>vmx_msrs\<close> of \<open>Vmx_Defs\<close>) and the feature control register; the rest of the header
  is kept here as the tables that it is, in the order of the source.
\<close>

unbundle bit_operations_syntax

section \<open>The tables\<close>

text \<open>X86-64, and the bits of EFER.\<close>

definition x86_64_msrs :: "(string \<times> u64) list" where
  "x86_64_msrs =
     [(''MSR_EFER'', 0xc0000080), (''MSR_STAR'', 0xc0000081), (''MSR_LSTAR'', 0xc0000082),
      (''MSR_CSTAR'', 0xc0000083), (''MSR_SYSCALL_MASK'', 0xc0000084), (''MSR_FS_BASE'', 0xc0000100),
      (''MSR_GS_BASE'', 0xc0000101), (''MSR_KERNEL_GS_BASE'', 0xc0000102), (''MSR_TSC_AUX'', 0xc0000103),
      (''_EFER_SCE'', 0), (''_EFER_LME'', 8), (''_EFER_LMA'', 10), (''_EFER_NX'', 11), (''_EFER_SVME'', 12),
      (''_EFER_LMSLE'', 13), (''_EFER_FFXSR'', 14), (''EFER_SCE'', push_bit 0 1), (''EFER_LME'', push_bit 8 1),
      (''EFER_LMA'', push_bit 10 1), (''EFER_NX'', push_bit 11 1), (''EFER_SVME'', push_bit 12 1),
      (''EFER_LMSLE'', push_bit 13 1), (''EFER_FFXSR'', push_bit 14 1)]"

text \<open>Intel, with the bits of DEBUGCTLMSR and of the machine check, and P6.\<close>

definition intel_msrs :: "(string \<times> u64) list" where
  "intel_msrs =
     [(''MSR_IA32_SPEC_CTRL'', 0x00000048), (''MSR_IA32_PRED_CMD'', 0x00000049),
      (''MSR_IA32_PERFCTR0'', 0x000000c1), (''MSR_IA32_PERFCTR1'', 0x000000c2), (''MSR_FSB_FREQ'', 0x000000cd),
      (''MSR_MTRRcap'', 0x000000fe), (''MSR_IA32_BBL_CR_CTL'', 0x00000119),
      (''MSR_IA32_SYSENTER_CS'', 0x00000174), (''MSR_IA32_SYSENTER_ESP'', 0x00000175),
      (''MSR_IA32_SYSENTER_EIP'', 0x00000176), (''MSR_IA32_MCG_CAP'', 0x00000179),
      (''MSR_IA32_MCG_STATUS'', 0x0000017a), (''MSR_IA32_MCG_CTL'', 0x0000017b),
      (''MSR_IA32_PEBS_ENABLE'', 0x000003f1), (''MSR_IA32_DS_AREA'', 0x00000600),
      (''MSR_IA32_PERF_CAPABILITIES'', 0x00000345), (''MSR_MTRRfix64K_00000'', 0x00000250),
      (''MSR_MTRRfix16K_80000'', 0x00000258), (''MSR_MTRRfix16K_A0000'', 0x00000259),
      (''MSR_MTRRfix4K_C0000'', 0x00000268), (''MSR_MTRRfix4K_C8000'', 0x00000269),
      (''MSR_MTRRfix4K_D0000'', 0x0000026a), (''MSR_MTRRfix4K_D8000'', 0x0000026b),
      (''MSR_MTRRfix4K_E0000'', 0x0000026c), (''MSR_MTRRfix4K_E8000'', 0x0000026d),
      (''MSR_MTRRfix4K_F0000'', 0x0000026e), (''MSR_MTRRfix4K_F8000'', 0x0000026f),
      (''MSR_MTRRdefType'', 0x000002ff), (''MSR_IA32_CR_PAT'', 0x00000277),
      (''MSR_IA32_DEBUGCTLMSR'', 0x000001d9), (''MSR_IA32_LASTBRANCHFROMIP'', 0x000001db),
      (''MSR_IA32_LASTBRANCHTOIP'', 0x000001dc), (''MSR_IA32_LASTINTFROMIP'', 0x000001dd),
      (''MSR_IA32_LASTINTTOIP'', 0x000001de), (''DEBUGCTLMSR_LBR'', push_bit 0 1),
      (''DEBUGCTLMSR_BTF'', push_bit 1 1), (''DEBUGCTLMSR_TR'', push_bit 6 1),
      (''DEBUGCTLMSR_BTS'', push_bit 7 1), (''DEBUGCTLMSR_BTINT'', push_bit 8 1),
      (''DEBUGCTLMSR_BTS_OFF_OS'', push_bit 9 1), (''DEBUGCTLMSR_BTS_OFF_USR'', push_bit 10 1),
      (''DEBUGCTLMSR_FREEZE_LBRS_ON_PMI'', push_bit 11 1), (''MSR_IA32_MC0_CTL'', 0x00000400),
      (''MSR_IA32_MC0_STATUS'', 0x00000401), (''MSR_IA32_MC0_ADDR'', 0x00000402),
      (''MSR_IA32_MC0_MISC'', 0x00000403), (''MSR_IA32_MC0_CTL2'', 0x00000280), (''CMCI_EN'', push_bit 30 1),
      (''CMCI_THRESHOLD_MASK'', 0xffff), (''MSR_P6_PERFCTR0'', 0x000000c1), (''MSR_P6_PERFCTR1'', 0x000000c2),
      (''MSR_P6_EVNTSEL0'', 0x00000186), (''MSR_P6_EVNTSEL1'', 0x00000187)]"

text \<open>AMD64, of the families 10h and K8.\<close>

definition amd_msrs :: "(string \<times> u64) list" where
  "amd_msrs =
     [(''MSR_AMD64_PATCH_LEVEL'', 0x0000008b), (''MSR_AMD64_NB_CFG'', 0xc001001f),
      (''MSR_AMD64_PATCH_LOADER'', 0xc0010020), (''MSR_AMD64_OSVW_ID_LENGTH'', 0xc0010140),
      (''MSR_AMD64_OSVW_STATUS'', 0xc0010141), (''MSR_AMD64_DC_CFG'', 0xc0011022),
      (''MSR_AMD64_IBSFETCHCTL'', 0xc0011030), (''MSR_AMD64_IBSFETCHLINAD'', 0xc0011031),
      (''MSR_AMD64_IBSFETCHPHYSAD'', 0xc0011032), (''MSR_AMD64_IBSOPCTL'', 0xc0011033),
      (''MSR_AMD64_IBSOPRIP'', 0xc0011034), (''MSR_AMD64_IBSOPDATA'', 0xc0011035),
      (''MSR_AMD64_IBSOPDATA2'', 0xc0011036), (''MSR_AMD64_IBSOPDATA3'', 0xc0011037),
      (''MSR_AMD64_IBSDCLINAD'', 0xc0011038), (''MSR_AMD64_IBSDCPHYSAD'', 0xc0011039),
      (''MSR_AMD64_IBSCTL'', 0xc001103a), (''MSR_FAM10H_MMIO_CONF_BASE'', 0xc0010058),
      (''FAM10H_MMIO_CONF_ENABLE'', push_bit 0 1), (''FAM10H_MMIO_CONF_BUSRANGE_MASK'', 0xf),
      (''FAM10H_MMIO_CONF_BUSRANGE_SHIFT'', 2), (''FAM10H_MMIO_CONF_BASE_MASK'', 0xfffffff),
      (''FAM10H_MMIO_CONF_BASE_SHIFT'', 20), (''MSR_FAM10H_NODE_ID'', 0xc001100c),
      (''MSR_K8_TOP_MEM1'', 0xc001001a), (''MSR_K8_TOP_MEM2'', 0xc001001d), (''MSR_K8_SYSCFG'', 0xc0010010),
      (''MSR_K8_INT_PENDING_MSG'', 0xc0010055), (''K8_INTP_C1E_ACTIVE_MASK'', 0x18000000),
      (''MSR_K8_TSEG_ADDR'', 0xc0010112), (''K8_MTRRFIXRANGE_DRAM_ENABLE'', 0x00040000),
      (''K8_MTRRFIXRANGE_DRAM_MODIFY'', 0x00080000)]"

text \<open>K7 and K6.\<close>

definition k7_k6_msrs :: "(string \<times> u64) list" where
  "k7_k6_msrs =
     [(''K8_MTRR_RDMEM_WRMEM_MASK'', 0x18181818), (''MSR_K7_EVNTSEL0'', 0xc0010000),
      (''MSR_K7_PERFCTR0'', 0xc0010004), (''MSR_K7_EVNTSEL1'', 0xc0010001), (''MSR_K7_PERFCTR1'', 0xc0010005),
      (''MSR_K7_EVNTSEL2'', 0xc0010002), (''MSR_K7_PERFCTR2'', 0xc0010006), (''MSR_K7_EVNTSEL3'', 0xc0010003),
      (''MSR_K7_PERFCTR3'', 0xc0010007), (''MSR_K7_CLK_CTL'', 0xc001001b), (''MSR_K7_HWCR'', 0xc0010015),
      (''MSR_K7_FID_VID_CTL'', 0xc0010041), (''MSR_K7_FID_VID_STATUS'', 0xc0010042),
      (''MSR_K6_EFER'', 0xc0000080), (''MSR_K6_STAR'', 0xc0000081), (''MSR_K6_WHCR'', 0xc0000082),
      (''MSR_K6_UWCCR'', 0xc0000085), (''MSR_K6_EPMR'', 0xc0000086), (''MSR_K6_PSOR'', 0xc0000087)]"

text \<open>Centaur, VIA and Transmeta.\<close>

definition other_msrs :: "(string \<times> u64) list" where
  "other_msrs =
     [(''MSR_K6_PFIR'', 0xc0000088), (''MSR_IDT_FCR1'', 0x00000107), (''MSR_IDT_FCR2'', 0x00000108),
      (''MSR_IDT_FCR3'', 0x00000109), (''MSR_IDT_FCR4'', 0x0000010a), (''MSR_IDT_MCR0'', 0x00000110),
      (''MSR_IDT_MCR1'', 0x00000111), (''MSR_IDT_MCR2'', 0x00000112), (''MSR_IDT_MCR3'', 0x00000113),
      (''MSR_IDT_MCR4'', 0x00000114), (''MSR_IDT_MCR5'', 0x00000115), (''MSR_IDT_MCR6'', 0x00000116),
      (''MSR_IDT_MCR7'', 0x00000117), (''MSR_IDT_MCR_CTRL'', 0x00000120), (''MSR_VIA_FCR'', 0x00001107),
      (''MSR_VIA_LONGHAUL'', 0x0000110a), (''MSR_VIA_RNG'', 0x0000110b), (''MSR_VIA_BCR2'', 0x00001147),
      (''MSR_TMTA_LONGRUN_CTRL'', 0x80868010), (''MSR_TMTA_LONGRUN_FLAGS'', 0x80868011),
      (''MSR_TMTA_LRTI_READOUT'', 0x80868018), (''MSR_TMTA_LRTI_VOLT_MHZ'', 0x8086801a)]"

text \<open>Intel, with the bits of the feature control and of the APIC base.\<close>

definition ia32_msrs :: "(string \<times> u64) list" where
  "ia32_msrs =
     [(''MSR_IA32_P5_MC_ADDR'', 0x00000000), (''MSR_IA32_P5_MC_TYPE'', 0x00000001),
      (''MSR_IA32_TSC'', 0x00000010), (''MSR_IA32_PLATFORM_ID'', 0x00000017),
      (''MSR_IA32_EBL_CR_POWERON'', 0x0000002a), (''MSR_IA32_FEATURE_CONTROL'', 0x0000003a),
      (''MSR_IA32_TSC_ADJUST'', 0x0000003b), (''FEATURE_CONTROL_LOCKED'', push_bit 0 1),
      (''FEATURE_CONTROL_VMXON_ENABLED_INSIDE_SMX'', push_bit 1 1),
      (''FEATURE_CONTROL_VMXON_ENABLED_OUTSIDE_SMX'', push_bit 2 1), (''MSR_IA32_APICBASE'', 0x0000001b),
      (''MSR_IA32_APICBASE_BSP'', push_bit 8 1), (''MSR_IA32_APICBASE_ENABLE'', push_bit 11 1),
      (''MSR_IA32_APICBASE_BASE'', scast (push_bit 12 0xfffff :: u32)), (''MSR_IA32_UCODE_WRITE'', 0x00000079),
      (''MSR_IA32_UCODE_REV'', 0x0000008b), (''MSR_IA32_PERF_STATUS'', 0x00000198),
      (''MSR_IA32_PERF_CTL'', 0x00000199), (''MSR_IA32_MPERF'', 0x000000e7), (''MSR_IA32_APERF'', 0x000000e8),
      (''MSR_IA32_THERM_CONTROL'', 0x0000019a), (''MSR_IA32_THERM_INTERRUPT'', 0x0000019b),
      (''THERM_INT_LOW_ENABLE'', push_bit 0 1), (''THERM_INT_HIGH_ENABLE'', push_bit 1 1),
      (''MSR_IA32_THERM_STATUS'', 0x0000019c), (''THERM_STATUS_PROCHOT'', push_bit 0 1),
      (''MSR_THERM2_CTL'', 0x0000019d), (''MSR_THERM2_CTL_TM_SELECT'', push_bit 16 1),
      (''MSR_IA32_MISC_ENABLE'', 0x000001a0), (''MSR_IA32_TEMPERATURE_TARGET'', 0x000001a2)]"

text \<open>The bits of MISC\_ENABLE.\<close>

definition misc_enable_bits :: "(string \<times> u64) list" where
  "misc_enable_bits =
     [(''MSR_IA32_MISC_ENABLE_FAST_STRING'', push_bit 0 1), (''MSR_IA32_MISC_ENABLE_TCC'', push_bit 1 1),
      (''MSR_IA32_MISC_ENABLE_EMON'', push_bit 7 1), (''MSR_IA32_MISC_ENABLE_BTS_UNAVAIL'', push_bit 11 1),
      (''MSR_IA32_MISC_ENABLE_PEBS_UNAVAIL'', push_bit 12 1),
      (''MSR_IA32_MISC_ENABLE_ENHANCED_SPEEDSTEP'', push_bit 16 1),
      (''MSR_IA32_MISC_ENABLE_MWAIT'', push_bit 18 1), (''MSR_IA32_MISC_ENABLE_LIMIT_CPUID'', push_bit 22 1),
      (''MSR_IA32_MISC_ENABLE_XTPR_DISABLE'', push_bit 23 1),
      (''MSR_IA32_MISC_ENABLE_XD_DISABLE'', push_bit 34 1),
      (''MSR_IA32_MISC_ENABLE_X87_COMPAT'', push_bit 2 1), (''MSR_IA32_MISC_ENABLE_TM1'', push_bit 3 1),
      (''MSR_IA32_MISC_ENABLE_SPLIT_LOCK_DISABLE'', push_bit 4 1),
      (''MSR_IA32_MISC_ENABLE_L3CACHE_DISABLE'', push_bit 6 1),
      (''MSR_IA32_MISC_ENABLE_SUPPRESS_LOCK'', push_bit 8 1),
      (''MSR_IA32_MISC_ENABLE_PREFETCH_DISABLE'', push_bit 9 1),
      (''MSR_IA32_MISC_ENABLE_FERR'', push_bit 10 1), (''MSR_IA32_MISC_ENABLE_FERR_MULTIPLEX'', push_bit 10 1),
      (''MSR_IA32_MISC_ENABLE_TM2'', push_bit 13 1),
      (''MSR_IA32_MISC_ENABLE_ADJ_PREF_DISABLE'', push_bit 19 1),
      (''MSR_IA32_MISC_ENABLE_SPEEDSTEP_LOCK'', push_bit 20 1),
      (''MSR_IA32_MISC_ENABLE_L1D_CONTEXT'', push_bit 24 1),
      (''MSR_IA32_MISC_ENABLE_DCU_PREF_DISABLE'', push_bit 37 1),
      (''MSR_IA32_MISC_ENABLE_TURBO_DISABLE'', push_bit 38 1),
      (''MSR_IA32_MISC_ENABLE_IP_PREF_DISABLE'', push_bit 39 1)]"

text \<open>Pentium 4 and Xeon.\<close>

definition p4_msrs :: "(string \<times> u64) list" where
  "p4_msrs =
     [(''MSR_IA32_MCG_EAX'', 0x00000180), (''MSR_IA32_MCG_EBX'', 0x00000181),
      (''MSR_IA32_MCG_ECX'', 0x00000182), (''MSR_IA32_MCG_EDX'', 0x00000183),
      (''MSR_IA32_MCG_ESI'', 0x00000184), (''MSR_IA32_MCG_EDI'', 0x00000185),
      (''MSR_IA32_MCG_EBP'', 0x00000186), (''MSR_IA32_MCG_ESP'', 0x00000187),
      (''MSR_IA32_MCG_EFLAGS'', 0x00000188), (''MSR_IA32_MCG_EIP'', 0x00000189),
      (''MSR_IA32_MCG_RESERVED'', 0x0000018a), (''MSR_P4_BPU_PERFCTR0'', 0x00000300),
      (''MSR_P4_BPU_PERFCTR1'', 0x00000301), (''MSR_P4_BPU_PERFCTR2'', 0x00000302),
      (''MSR_P4_BPU_PERFCTR3'', 0x00000303), (''MSR_P4_MS_PERFCTR0'', 0x00000304),
      (''MSR_P4_MS_PERFCTR1'', 0x00000305), (''MSR_P4_MS_PERFCTR2'', 0x00000306),
      (''MSR_P4_MS_PERFCTR3'', 0x00000307), (''MSR_P4_FLAME_PERFCTR0'', 0x00000308),
      (''MSR_P4_FLAME_PERFCTR1'', 0x00000309), (''MSR_P4_FLAME_PERFCTR2'', 0x0000030a),
      (''MSR_P4_FLAME_PERFCTR3'', 0x0000030b), (''MSR_P4_IQ_PERFCTR0'', 0x0000030c),
      (''MSR_P4_IQ_PERFCTR1'', 0x0000030d), (''MSR_P4_IQ_PERFCTR2'', 0x0000030e),
      (''MSR_P4_IQ_PERFCTR3'', 0x0000030f), (''MSR_P4_IQ_PERFCTR4'', 0x00000310),
      (''MSR_P4_IQ_PERFCTR5'', 0x00000311), (''MSR_P4_BPU_CCCR0'', 0x00000360),
      (''MSR_P4_BPU_CCCR1'', 0x00000361), (''MSR_P4_BPU_CCCR2'', 0x00000362),
      (''MSR_P4_BPU_CCCR3'', 0x00000363), (''MSR_P4_MS_CCCR0'', 0x00000364), (''MSR_P4_MS_CCCR1'', 0x00000365),
      (''MSR_P4_MS_CCCR2'', 0x00000366), (''MSR_P4_MS_CCCR3'', 0x00000367),
      (''MSR_P4_FLAME_CCCR0'', 0x00000368), (''MSR_P4_FLAME_CCCR1'', 0x00000369),
      (''MSR_P4_FLAME_CCCR2'', 0x0000036a), (''MSR_P4_FLAME_CCCR3'', 0x0000036b),
      (''MSR_P4_IQ_CCCR0'', 0x0000036c), (''MSR_P4_IQ_CCCR1'', 0x0000036d), (''MSR_P4_IQ_CCCR2'', 0x0000036e),
      (''MSR_P4_IQ_CCCR3'', 0x0000036f), (''MSR_P4_IQ_CCCR4'', 0x00000370), (''MSR_P4_IQ_CCCR5'', 0x00000371),
      (''MSR_P4_ALF_ESCR0'', 0x000003ca), (''MSR_P4_ALF_ESCR1'', 0x000003cb),
      (''MSR_P4_BPU_ESCR0'', 0x000003b2), (''MSR_P4_BPU_ESCR1'', 0x000003b3),
      (''MSR_P4_BSU_ESCR0'', 0x000003a0), (''MSR_P4_BSU_ESCR1'', 0x000003a1),
      (''MSR_P4_CRU_ESCR0'', 0x000003b8), (''MSR_P4_CRU_ESCR1'', 0x000003b9),
      (''MSR_P4_CRU_ESCR2'', 0x000003cc), (''MSR_P4_CRU_ESCR3'', 0x000003cd),
      (''MSR_P4_CRU_ESCR4'', 0x000003e0), (''MSR_P4_CRU_ESCR5'', 0x000003e1),
      (''MSR_P4_DAC_ESCR0'', 0x000003a8), (''MSR_P4_DAC_ESCR1'', 0x000003a9),
      (''MSR_P4_FIRM_ESCR0'', 0x000003a4), (''MSR_P4_FIRM_ESCR1'', 0x000003a5),
      (''MSR_P4_FLAME_ESCR0'', 0x000003a6), (''MSR_P4_FLAME_ESCR1'', 0x000003a7),
      (''MSR_P4_FSB_ESCR0'', 0x000003a2), (''MSR_P4_FSB_ESCR1'', 0x000003a3),
      (''MSR_P4_IQ_ESCR0'', 0x000003ba), (''MSR_P4_IQ_ESCR1'', 0x000003bb), (''MSR_P4_IS_ESCR0'', 0x000003b4),
      (''MSR_P4_IS_ESCR1'', 0x000003b5), (''MSR_P4_ITLB_ESCR0'', 0x000003b6),
      (''MSR_P4_ITLB_ESCR1'', 0x000003b7), (''MSR_P4_IX_ESCR0'', 0x000003c8),
      (''MSR_P4_IX_ESCR1'', 0x000003c9), (''MSR_P4_MOB_ESCR0'', 0x000003aa),
      (''MSR_P4_MOB_ESCR1'', 0x000003ab), (''MSR_P4_MS_ESCR0'', 0x000003c0), (''MSR_P4_MS_ESCR1'', 0x000003c1),
      (''MSR_P4_PMH_ESCR0'', 0x000003ac), (''MSR_P4_PMH_ESCR1'', 0x000003ad),
      (''MSR_P4_RAT_ESCR0'', 0x000003bc), (''MSR_P4_RAT_ESCR1'', 0x000003bd),
      (''MSR_P4_SAAT_ESCR0'', 0x000003ae), (''MSR_P4_SAAT_ESCR1'', 0x000003af),
      (''MSR_P4_SSU_ESCR0'', 0x000003be), (''MSR_P4_SSU_ESCR1'', 0x000003bf),
      (''MSR_P4_TBPU_ESCR0'', 0x000003c2), (''MSR_P4_TBPU_ESCR1'', 0x000003c3),
      (''MSR_P4_TC_ESCR0'', 0x000003c4), (''MSR_P4_TC_ESCR1'', 0x000003c5), (''MSR_P4_U2L_ESCR0'', 0x000003b0),
      (''MSR_P4_U2L_ESCR1'', 0x000003b1), (''MSR_P4_PEBS_MATRIX_VERT'', 0x000003f2)]"

text \<open>Performance counters of Core, Geode.\<close>

definition perf_msrs :: "(string \<times> u64) list" where
  "perf_msrs =
     [(''MSR_CORE_PERF_FIXED_CTR0'', 0x00000309), (''MSR_CORE_PERF_FIXED_CTR1'', 0x0000030a),
      (''MSR_CORE_PERF_FIXED_CTR2'', 0x0000030b), (''MSR_CORE_PERF_FIXED_CTR_CTRL'', 0x0000038d),
      (''MSR_CORE_PERF_GLOBAL_STATUS'', 0x0000038e), (''MSR_CORE_PERF_GLOBAL_CTRL'', 0x0000038f),
      (''MSR_CORE_PERF_GLOBAL_OVF_CTRL'', 0x00000390), (''MSR_GEODE_BUSCONT_CONF0'', 0x00001900)]"

text \<open>VMX\_MISC, the TSC deadline and AMD-V.\<close>

definition late_msrs :: "(string \<times> u64) list" where
  "late_msrs =
     [(''MSR_IA32_VMX_MISC_VMWRITE_SHADOW_RO_FIELDS'', push_bit 29 1), (''MSR_IA32_TSCDEADLINE'', 0x000006e0),
      (''MSR_VM_CR'', 0xc0010114), (''MSR_VM_IGNNE'', 0xc0010115), (''MSR_VM_HSAVE_PA'', 0xc0010117)]"

section \<open>Banks of the machine check\<close>

definition MSR_IA32_MCx_CTL :: "u64 \<Rightarrow> u64" where "MSR_IA32_MCx_CTL x = 0x00000400 + 4 * x"
definition MSR_IA32_MCx_STATUS :: "u64 \<Rightarrow> u64" where "MSR_IA32_MCx_STATUS x = 0x00000401 + 4 * x"
definition MSR_IA32_MCx_ADDR :: "u64 \<Rightarrow> u64" where "MSR_IA32_MCx_ADDR x = 0x00000402 + 4 * x"
definition MSR_IA32_MCx_MISC :: "u64 \<Rightarrow> u64" where "MSR_IA32_MCx_MISC x = 0x00000403 + 4 * x"
definition MSR_IA32_MCx_CTL2 :: "u64 \<Rightarrow> u64" where "MSR_IA32_MCx_CTL2 x = 0x00000280 + x"

text \<open>The low two bits of a number tell the four registers of the banks apart, whatever the bank.\<close>

lemma unat_bank: "unat (c + 4 * x) mod 4 = unat (c :: u64) mod 4"
proof -
  have m: "n mod 18446744073709551616 mod 4 = n mod 4" for n :: nat by (rule mod_mod_cancel) simp
  have "unat (4 * x) mod 4 = 0" by (simp add: unat_word_ariths m)
  moreover have "unat (c + 4 * x) mod 4 = (unat c + unat (4 * x)) mod 4" by (simp only: unat_word_ariths) (simp add: m)
  ultimately show ?thesis by (metis add.right_neutral mod_add_right_eq)
qed

lemma mc_banks_apart:
  "distinct [MSR_IA32_MCx_CTL w, MSR_IA32_MCx_STATUS x, MSR_IA32_MCx_ADDR y, MSR_IA32_MCx_MISC z]"
proof -
  have "distinct (map (\<lambda>w. unat w mod 4)
      [MSR_IA32_MCx_CTL w, MSR_IA32_MCx_STATUS x, MSR_IA32_MCx_ADDR y, MSR_IA32_MCx_MISC z])"
    by (simp add: unat_bank MSR_IA32_MCx_CTL_def MSR_IA32_MCx_STATUS_def MSR_IA32_MCx_ADDR_def MSR_IA32_MCx_MISC_def)
  then show ?thesis unfolding distinct_map by blast
qed

section \<open>What the kernel uses\<close>

primrec number_of :: "string \<Rightarrow> (string \<times> u64) list \<Rightarrow> u64 option" where
  "number_of name [] = None"
| "number_of name (x # xs) = (if fst x = name then Some (snd x) else number_of name xs)"

text \<open>The value 5 that \<open>is_vmx_supported\<close> tests for and writes is the lock with VMX outside of SMX, and the register
  is the one of the header.\<close>

lemma feature_control_numbers:
  "number_of ''MSR_IA32_FEATURE_CONTROL'' ia32_msrs = Some (ucast MSR_IA32_FEATURE_CONTROL)"
  "number_of ''FEATURE_CONTROL_LOCKED'' ia32_msrs = Some 1"
  "number_of ''FEATURE_CONTROL_VMXON_ENABLED_OUTSIDE_SMX'' ia32_msrs = Some 4"
  by (simp_all add: ia32_msrs_def)

lemma vmx_enabled_is_locked:
  assumes "bit (hw_cpuid1_ecx h) 5" "\<not> bit (msr s MSR_IA32_FEATURE_CONTROL) 0"
    "number_of ''FEATURE_CONTROL_LOCKED'' ia32_msrs = Some l"
    "number_of ''FEATURE_CONTROL_VMXON_ENABLED_OUTSIDE_SMX'' ia32_msrs = Some e"
  shows "fst (is_vmx_supported h s)" "msr (snd (is_vmx_supported h s)) MSR_IA32_FEATURE_CONTROL = l OR e"
proof -
  have le: "l = 1" "e = 4" using assms(3,4) by (simp_all add: feature_control_numbers)
  have vt: "hw_cpuid1_ecx h AND push_bit 5 1 \<noteq> 0"
  proof
    assume "hw_cpuid1_ecx h AND push_bit 5 1 = 0"
    then have "\<not> bit (hw_cpuid1_ecx h AND push_bit 5 1) 5" by simp
    then show False using assms(1) by (simp add: bit_simps)
  qed
  have b: "\<not> bit (ucast (msr s MSR_IA32_FEATURE_CONTROL) :: u32) 0" using assms(2) by (simp add: bit_simps)
  then have one: "(ucast (msr s MSR_IA32_FEATURE_CONTROL) :: u32) AND 1 = 0" by (simp add: and_one_eq bit_0 odd_iff_mod_2_eq_one)
  have five: "(ucast (msr s MSR_IA32_FEATURE_CONTROL) :: u32) AND 5 \<noteq> 5"
  proof
    assume "(ucast (msr s MSR_IA32_FEATURE_CONTROL) :: u32) AND 5 = 5"
    then have "bit ((ucast (msr s MSR_IA32_FEATURE_CONTROL) :: u32) AND 5) 0" by simp
    then show False using b by (simp add: bit_and_iff)
  qed
  show "fst (is_vmx_supported h s)" "msr (snd (is_vmx_supported h s)) MSR_IA32_FEATURE_CONTROL = l OR e"
    using vt one five by (simp_all add: is_vmx_supported_def Let_def le rdmsr_def wrmsr_def vm_print_def)
qed

end
