(* ===== verification/Spec2Isabelle.thy ===== *)
theory Spec2Isabelle
  imports Heap_Alloc Multitask Guest_Paging Cpuinfo Messages Task_Switch Msr_Numbers
begin

text \<open>
  A small 32-bit x86 kernel and hypervisor: a loader places the kernel at 0x100000, the kernel sets up
  its descriptor tables, interrupts and memory, and then runs one guest under Intel VT-x. This
  development models the C code of the repository and states what it does, over the same integers (\<open>u8\<close>
  to \<open>u64\<close>, words of that width) and one flat byte-addressed memory with 32-bit pointers. Paths are
  relative to the root of the repository.

  \<^bold>\<open>Parts and theories\<close>, in the order of their imports.

    \<^item> \<open>C_Prelude\<close>: the memory with its 16- and 32-bit accesses, spans of addresses, the kinds of fault,
      \<open>include/spin_lock.h\<close>, the macros of \<open>include/cfg.h\<close>, \<open>ALIGN\<close>, and the collections \<open>mem_simps\<close> and
      \<open>align_simps\<close>.
    \<^item> \<open>Cstring\<close>: \<open>src/kernel/string.c\<close>, each routine against what it is for (\<open>memmove\<close> under overlap,
      \<open>strstr\<close> the first occurrence, \<open>strncmp\<close> the first difference, \<open>atol\<close> the number read).
    \<^item> \<open>Phys_Alloc\<close>: \<open>src/kernel/mem/alloc_phy.c\<close> and \<open>mem_init\<close>. The record \<open>phys_state\<close> is the file's static
      variables. Its size check is made in 32 bits: every call keeps \<open>phys_core\<close> (the lock, the pointer and
      the bounds of the log), whatever its arguments; what the check is for, \<open>phys_inv\<close> and blocks inside the
      pool and apart, holds of the requests that do not wrap (\<open>pa_fits32\<close> in a state, \<open>pa_sane\<close> in any).
    \<^item> \<open>Page_Alloc\<close>: \<open>src/kernel/mem/alloc_page.c\<close>, whose free list lies in the free pages themselves;
      \<open>free_list m p xs\<close> abstracts it to the list of its pages, and every operation is a step on that.
    \<^item> \<open>Heap_Alloc\<close>: \<open>src/kernel/mem/alloc.c\<close>. The table \<open>struct alloc_ops\<close> is the interface: the locale
      \<open>block_provider\<close> states what \<open>memalign\<close> relies on, \<open>freeing_provider\<close> adds what \<open>free\<close> does; both
      allocators above interpret them. The requests are those whose sizes do not wrap (\<open>heap_fits\<close>).
    \<^item> \<open>Printf\<close>: \<open>src/kernel/printf.c\<close>, with its conversions; the lemmas of \<open>appends_intros\<close> show that
      formatting only appends, so that a format and its arguments determine one text. \<open>Format_Types\<close> adds
      the types of formats, and that they are exactly what \<open>vsnprintf\<close> needs of its arguments.
    \<^item> \<open>Port_Io\<close>, \<open>Console\<close>: \<open>inb\<close>, \<open>outb\<close>, \<open>inw\<close> of \<open>include/cpu.h\<close>; the serial line and \<open>puts\<close> of
      \<open>src/kernel/io.c\<close>, the screen of \<open>src/kernel/syscall.c\<close>, and whole calls of the \<open>printf\<close> family. A
      device is the sequence of what its port returns. The locale \<open>char_sink\<close> is what the loop over a
      string needs of the function that puts a character.
    \<^item> \<open>Descriptors\<close>: the tables of \<open>include/desc.h\<close> and \<open>src/basic_set/os.c\<close>, \<open>irq.c\<close>, \<open>task.c\<close>, the call gate
      of \<open>syscall.c\<close> and \<open>init\<close> of \<open>src/kernel/init.c\<close>, against what the processor reads in the eight bytes
      of a descriptor.
    \<^item> \<open>Entry_Stubs\<close>: \<open>syscall_handler\<close> of \<open>syscall_as.S\<close> and \<open>timer_int\<close> of \<open>irq_as.S\<close>, instruction by instruction, with
      the processor's gates, \<open>retf\<close> and \<open>iret\<close>, on the tables that \<open>init\<close> leaves: the way through the call gate
      is the call that \<open>sys_show\<close> means, and an interrupted program does not see the timer. What a C function
      leaves below the stack pointer and in the registers it need not keep is a parameter.
    \<^item> \<open>Multitask\<close>: the two tasks of \<open>task.c\<close>, which print for ever, as a step relation in which each turn is
      one access to the lock, a port, the screen or a shared variable and the timer may run
      \<open>task_sched\<close> between any two. The locale \<open>section_under_lock\<close> says what makes a critical section
      behave as one step; interpreted on \<open>puts\<close>, every interleaving is a sequence of whole calls.
    \<^item> \<open>Cpuinfo\<close>: \<open>src/kernel/cpuinfo.c\<close>, with the CPUID instruction as a parameter.
    \<^item> \<open>Boot\<close>: reading the kernel from the disk and placing an ELF file, \<open>src/basic_set/os.c\<close>.
    \<^item> \<open>Start\<close>: from the boot sector to the kernel, \<open>src/basic_set/start.S\<close>: the BIOS calls with their retries, the
      memory map of \<open>include/bios.h\<close>, protected mode and paging, and \<open>os_init\<close>. The BIOS is the record \<open>bios\<close>; \<open>serves\<close>
      and \<open>disk_serves\<close> are its documented behaviour. \<open>Kernel_Start\<close>: the entry of the kernel (\<open>init_as.S\<close>), which
      puts \<open>init\<close>, the task register and \<open>virt_enable\<close> together.
    \<^item> \<open>C_Layout\<close>: the structures of \<open>os_elf.h\<close>, \<open>bios.h\<close>, \<open>desc.h\<close> and \<open>vm.h\<close> as lists of members, whose offsets are
      those that the other theories and the assembly of \<open>vm.c\<close> use. \<open>Msr_Numbers\<close>: the tables of \<open>include/msr.h\<close>.
    \<^item> \<open>Task_Switch\<close>: \<open>ljmp\<close> of \<open>include/cpu.h\<close>, the processor's switch to the task segment that \<open>task_sched\<close> chose: what
      one switch saves, a later one loads, which is why a timer step of \<open>Multitask\<close> leaves the other task as it was.
    \<^item> \<open>Guest_Paging\<close>: the tables that \<open>src/kernel/vm/vm.c\<close> builds for the guest, the loader's page directory
      and \<open>mem_test\<close> of \<open>mem.c\<close>, against \<open>page_walk\<close>, the processor's two-level walk.
    \<^item> \<open>Vmx_Defs\<close>, \<open>Vmx_Setup\<close>, \<open>Vmx_Run\<close>: the constants of \<open>vm.h\<close>; turning VMX on and filling in the VMCS; entering
      the guest, the exit handler and the loop \<open>vmx_run\<close>. The record \<open>vm_state\<close> is the file's global
      variables, the control registers, the VMCS as a map from encodings to values, and the output.
      The areas of the VMCS are compared with tables written apart from the code (\<open>host_area\<close>, \<open>guest_area\<close>,
      \<open>control_area\<close>). The handler is shown to implement a table of exit reasons (\<open>handled\<close>); the later
      properties follow whole runs.
    \<^item> \<open>Vmx_Enable\<close>: \<open>virt_enable\<close> on every path, whatever the instructions of VMX and the guest do.
    \<^item> \<open>Guest_Program\<close>: the program that runs in the guest (\<open>guest_entry\<close> of \<open>vm_as.S\<close>), decoded from its
      bytes in memory and run through the tables that the VMCS names, under the controls that the VMCS
      holds; \<open>together\<close> alternates it with the monitor, up to the end that its hypercall asks for. What the
      compiler makes of \<open>hypercall\<close> is a parameter, the record \<open>compiled\<close>.
    \<^item> \<open>Messages\<close>: the messages of \<open>vm.c\<close> against the types of their formats.
    \<^item> This theory: what spans the parts. The tables built in setup and the choices of the exit handler
      keep the guest's translation an identity as long as the guest keeps its paging mode, which is
      its own to change (\<open>keeps_paging\<close>), and the task register of the VMCS is compared with
      the tables of \<open>init\<close>.

  \<^bold>\<open>Conventions.\<close> A loop without a bound of its own (over a C string, a list in memory, a busy device) is a
  \<open>partial_function\<close> whose \<open>None\<close> is not returning; loops that count are recursive functions that
  terminate. No function has fuel. The memory map of the BIOS is taken to have at most 1300 regions, which keeps
  it below the stack and the code at 0x7C00. What C leaves undefined where the code can get to it is a value
  of \<open>fault\<close>: an index out of an array, or an undefined builtin. A lock that is held is never released,
  as there is one thread of control: acquiring it does not return. The processor and the guest are an
  input of \<open>vmx_run\<close>: one \<open>entry_outcome\<close> for each entry, an exit with all that the guest changed (its
  saved fields, what it stored and printed) or a failure; a run on \<open>n\<close> outcomes shows what the first
  \<open>n\<close> turns of the loop do. An instruction that can fail has its outcome in the record \<open>hw\<close>. Addresses that the linker assigns are in \<open>layout\<close> and
  \<open>addresses\<close>, or parameters. \<open>KERNEL_CODE_SEG\<close> and \<open>KERNEL_DATA_SEG\<close> occur in \<open>Descriptors\<close> with 16 bits, as
  selectors, and in \<open>Vmx_Setup\<close> with 32, as values of fields.

  \<^bold>\<open>Not modelled.\<close> The code behind the spin of \<open>init_as.S\<close>, which is never reached, so that the
  tasks do not run as the kernel stands; \<open>task_sched\<close> with its jump is a function call for the stub that contains it. In the
  guest, instructions that its program does not have, the delivery of an exception to the guest itself,
  and stores over variables of \<open>vm.c\<close>; \<open>entry_sysenter\<close> of \<open>vm_as.S\<close>, which nothing sets up. Of the
  tasks, the ports they may use (at ring 3 by the map behind the task segment) are taken as permitted, and a \<open>printf\<close> formats in one step, as its buffer is the task's own.
  What the processor does with the
  VMCS beyond the fields the code writes and reads, its caches, and interrupts that arrive while the
  kernel runs. The walk \<open>page_walk\<close> is the one with paging, write protection and 4 MB pages on and PAE off
  (\<open>paging_on\<close>). The processor's task register is not kept in the state of the kernel's entry, only the busy
  mark of its descriptor, and \<open>assert\<close> prints the bare name of its file. The contents of the stack under the boot sector, and what the BIOS itself needs of memory.
\<close>

section \<open>Address translation while the guest runs\<close>

text \<open>The processor's walk of the model is the one with paging, write protection and 4 MB pages on
  (\<open>paging_on\<close>). The guest reaches its CR0 and CR4 without an exit, and one that turns off 4 MB pages
  makes the entries of its directory pointers to tables. These are the guests that keep the mode, as far
  as their exits show it.\<close>

definition keeps_paging :: "entry_outcome \<Rightarrow> bool" where
  "keeps_paging oc \<longleftrightarrow>
     (\<forall>v\<in>saves oc GUEST_CR0. bit v 31 \<and> bit v 16) \<and> (\<forall>v\<in>saves oc GUEST_CR4. bit v 4 \<and> \<not> bit v 5)"

lemma run_keeps_paging:
  assumes "paging_on (vmcs_data s)" "\<forall>oc\<in>set ocs. keeps_paging oc"
  shows "paging_on (vmcs_data (snd (vmx_run h ocs s)))"
  using run_saves [of GUEST_CR0 h ocs s] run_saves [of GUEST_CR4 h ocs s] assms
  by (auto simp: paging_on_def keeps_paging_def)

text \<open>C1. Setup, tables, exit handler and loop put together, on a processor that lets moves to CR3 exit and
  runs the host with paging and 4 MB pages: whatever the guest does, except store to the pages of the
  tables and change its paging mode (each exit finds CR0.PG, CR0.WP and CR4.PSE set and CR4.PAE clear), at
  every point of a run the guest's state in the VMCS has that paging mode, the tables that the VMCS
  names are the guest's own or the host's, and the processor's walk through them gives the identity or
  a fault, never another address. With its own tables the guest reaches all of memory except for writes
  to the one read-only page; with the host's, after a page fault, only the first 4 MB.\<close>

theorem guest_translation_safe:
  fixes ocs :: "entry_outcome list"
  assumes "no_write_fails h" "paging_ok l s" "bit (ctrl_clr (ctrl_cpu_rev0 (read_capabilities s))) 15"
    "\<Union> (written_by ` set ocs) \<inter> table_pages l s = {}"
    "bit (cr0 s) 31" "bit (cr4 s) 4" "\<not> bit (cr4 s) 5" "\<forall>oc\<in>set ocs. keeps_paging oc"
  defines "t \<equiv> snd (vmx_run h ocs (vmcs_init h l s))"
  shows "paging_on (vmcs_data t)
    \<and> page_walk (vm_mem t) (vmcs_read GUEST_CR3 t) wr a =
      (if vmcs_read GUEST_CR3 t = guest_page_dir l
       then (if wr \<and> drop_bit 12 a = drop_bit 12 TEST_READONLY_ADDR then None else Some a)
       else (if a < 0x400000 then Some a else None))
    \<and> vmcs_read GUEST_CR3 t \<in> {guest_page_dir l, cr3 s}"
proof -
  let ?v = "vmcs_init h l s"
  have frame: "same_frame (\<Union> (written_by ` set ocs)) ?v t" unfolding t_def by (rule run_frame)
  have "(GUEST_CR3, guest_page_dir l) \<in> set (all_fields l s)" by (simp add: all_fields_def guest_fields_def)
  then have "vmcs_read GUEST_CR3 ?v = guest_page_dir l" by (rule vmcs_init_reads [OF assms(1)])
  then have cr3: "vmcs_read GUEST_CR3 t \<in> {guest_page_dir l, cr3 s}"
    using frame vmcs_init_cr3_exits [OF assms(1,3), of l] by (simp add: same_frame_def vmcs_read_def vmcs_init_cr3)
  have mem: "vm_mem t b = vm_mem ?v b" if "b \<in> table_pages l s" for b
  proof -
    have "b \<notin> \<Union> (written_by ` set ocs)" using that assms(4) by blast
    then show ?thesis using frame unfolding same_frame_def by blast
  qed
  have "drop_bit 12 TEST_READONLY_ADDR = 0x103" by (simp add: TEST_READONLY_ADDR_def)
  moreover have "paging_on (vmcs_data t)"
    unfolding t_def by (rule run_keeps_paging [OF vmcs_init_paging [OF assms(1,5-7)] assms(8)])
  ultimately show ?thesis using tables_translate [OF assms(2) mem] cr3 by auto
qed

text \<open>A guest that writes to CR3, stores below its first megabyte, and faults.\<close>

definition script0 :: "exit_event list" where
  "script0 = map (\<lambda>ev. ev\<lparr>ev_writes := [(0x5000, 1)], ev_saved := [(GUEST_CR0, 0x80010011), (GUEST_CR4, 0x10)]\<rparr>)
     guest_script"

lemma script0_writes: "\<Union> (written_by ` set (map Exited script0)) \<inter> table_pages layout0 loaded0 = {}"
proof -
  have "\<Union> (written_by ` set (map Exited script0)) = {0x5000}"
    by (auto simp: script0_def guest_script_def written_by_def)
  moreover have "0x5000 \<notin> table_pages layout0 loaded0"
    by (simp add: table_pages_def layout0_def loaded0_ok(2) span_iff)
  ultimately show ?thesis by simp
qed

lemma script0_paging: "\<forall>oc\<in>set (map Exited script0). keeps_paging oc"
  by (auto simp: script0_def keeps_paging_def saves_def)

definition run0 :: vm_state where
  "run0 = snd (vmx_run hw_ok (map Exited script0) (vmcs_init hw_ok layout0 loaded0))"

lemma loaded0_mode: "bit (cr0 loaded0) 31" "bit (cr4 loaded0) 4" "\<not> bit (cr4 loaded0) 5"
  by (simp_all add: loaded0_def vm_state0_def)

theorem guest_translation_safe_witness:
  "page_walk (vm_mem (vmcs_init hw_ok layout0 loaded0)) 0x110000 True 0x103000 = None
    \<and> paging_on (vmcs_data run0)
    \<and> (\<forall>wr a. page_walk (vm_mem run0) (vmcs_read GUEST_CR3 run0) wr a \<in> {None, Some a})"
proof (intro conjI)
  have r: "vmcs_read GUEST_CR3 (vmcs_init hw_ok layout0 loaded0) = 0x110000"
    by (rule vmcs_init_reads [OF hw_ok_writes]) (simp add: all_fields_def guest_fields_def layout0_def)
  have c: "bit (ctrl_clr (ctrl_cpu_rev0 (read_capabilities loaded0))) 15"
    by (simp add: read_capabilities_def loaded0_def vm_state0_def rdmsr_def ctrl_clr_def basic_ctrl_def Let_def)
  show "page_walk (vm_mem (vmcs_init hw_ok layout0 loaded0)) 0x110000 True 0x103000 = None"
    using guest_translation_safe [OF hw_ok_writes loaded0_ok(1) c _ loaded0_mode, of "[]" True "0x103000"] r
    by (simp add: layout0_def TEST_READONLY_ADDR_def)
  note safe = guest_translation_safe [OF hw_ok_writes loaded0_ok(1) c script0_writes loaded0_mode script0_paging,
      folded run0_def]
  show "paging_on (vmcs_data run0)" using safe by blast
  show "\<forall>wr a. page_walk (vm_mem run0) (vmcs_read GUEST_CR3 run0) wr a \<in> {None, Some a}"
  proof (intro allI)
    fix wr a
    show "page_walk (vm_mem run0) (vmcs_read GUEST_CR3 run0) wr a \<in> {None, Some a}"
      using safe [of wr a] by (simp split: if_splits)
  qed
qed

section \<open>The task segment of the host\<close>

text \<open>C39. The task register the VMCS loads on every exit does not agree with the tables \<open>init\<close> has set up: the
  selector names the descriptor 16, whose base is the kernel's task segment, but the base written next
  to it is the address of that descriptor itself. The two agree only when the array lies there.\<close>

theorem host_tr_base:
  assumes "no_write_fails h"
  shows "\<exists>p' t' s'. init addrs p tables_boot phys_state0 = Some (Inr (p', t', s'))
    \<and> seg_base (gdt_table t' ! selector_index (ucast (vmcs_read HOST_SEL_TR (vmcs_init h l s)))) = a_kernel_tss addrs
    \<and> vmcs_read HOST_BASE_TR (vmcs_init h l s) = gdt_table_addr + 8 * 16
    \<and> (vmcs_read HOST_BASE_TR (vmcs_init h l s)
        = seg_base (gdt_table t' ! selector_index (ucast (vmcs_read HOST_SEL_TR (vmcs_init h l s))))
       \<longleftrightarrow> a_kernel_tss addrs = 0x9080)"
proof -
  obtain p' t' s' where t': "init addrs p tables_boot phys_state0 = Some (Inr (p', t', s'))" "tss_is (gdt_table t' ! 16) (a_kernel_tss addrs) 0xFFFF Ring0"
    using init_tables by blast
  have sel: "vmcs_read HOST_SEL_TR (vmcs_init h l s) = 0x80"
    by (rule vmcs_init_reads [OF assms]) (simp add: all_fields_def host_fields_def)
  have base: "vmcs_read HOST_BASE_TR (vmcs_init h l s) = 0x9080"
    by (rule vmcs_init_reads [OF assms]) (simp add: all_fields_def host_fields_def)
  have "selector_index (ucast (0x80 :: u32)) = 16" by (simp add: selector_index_def)
  moreover have "seg_base (gdt_table t' ! 16) = a_kernel_tss addrs" using t'(2) by (simp add: tss_is_def)
  ultimately show ?thesis using t'(1) by (auto simp: sel base gdt_table_addr_def)
qed

theorem host_tr_base_witness:
  "\<exists>p' t' s'. init \<lparr>a_timer_int = 0x100100, a_syscall_handler = 0x100200, a_task0_tss = 0x107000,
        a_task1_tss = 0x107080, a_kernel_tss = 0x107100\<rparr> \<lparr>p_dev = (\<lambda>_ _. 0), p_count = (\<lambda>_. 0), p_out = []\<rparr>
        tables_boot phys_state0 = Some (Inr (p', t', s'))
    \<and> seg_base (gdt_table t' ! 16) = 0x107100
    \<and> vmcs_read HOST_BASE_TR (vmcs_init hw_ok layout0 vm_state0) = 0x9080"
proof -
  have sel: "vmcs_read HOST_SEL_TR (vmcs_init hw_ok layout0 vm_state0) = 0x80"
    by (rule vmcs_init_reads [OF hw_ok_writes]) (simp add: all_fields_def host_fields_def)
  have "selector_index (ucast (0x80 :: u32)) = 16" by (simp add: selector_index_def)
  with host_tr_base [OF hw_ok_writes, of "\<lparr>a_timer_int = 0x100100, a_syscall_handler = 0x100200,
      a_task0_tss = 0x107000, a_task1_tss = 0x107080, a_kernel_tss = 0x107100\<rparr>"
      "\<lparr>p_dev = (\<lambda>_ _. 0), p_count = (\<lambda>_. 0), p_out = []\<rparr>" layout0 vm_state0]
  show ?thesis by (auto simp: sel gdt_table_addr_def)
qed

end
